(* ===== verification/Ods_Prelude.thy ===== *)
theory Ods_Prelude
  imports Main "HOL-Library.Word" "HOL-Library.Sublist" "HOL-Library.Multiset"
begin

text \<open>
  The shared vocabulary of the development: bytes, Go slices that may be nil, the collections of
  simplification rules the component theories extend, and generic lemmas on lists, options and
  association lists.

  A Go \<open>[]byte\<close> that the code compares with nil is a \<open>bytes option\<close> (\<open>None\<close> is nil, \<open>Some []\<close>
  the empty slice that is not nil); \<open>slice_len\<close> is Go's \<open>len\<close>, which does not tell them apart.
  A Go map that is ranged over is an association list with distinct keys: its order is the order
  in which one \<open>range\<close> statement visits it, which Go leaves open, so a theorem about every such
  list is a theorem about every iteration order.
\<close>

named_theorems ods_defs \<open>unfolding rules of the small operations of the model\<close>
named_theorems flag_simps \<open>rules on the five capability flags of a permission\<close>

type_synonym byte = "8 word"
type_synonym bytes = "byte list"
type_synonym slice = "bytes option"

definition slice_len :: "slice \<Rightarrow> nat" where
  "slice_len s = (case s of None \<Rightarrow> 0 | Some b \<Rightarrow> length b)"

definition slice_bytes :: "slice \<Rightarrow> bytes" where
  "slice_bytes s = (case s of None \<Rightarrow> [] | Some b \<Rightarrow> b)"

lemma slice_len_simps [simp]:
  "slice_len None = 0"
  "slice_len (Some b) = length b"
  by (simp_all add: slice_len_def)

lemma slice_bytes_simps [simp]:
  "slice_bytes None = []"
  "slice_bytes (Some b) = b"
  by (simp_all add: slice_bytes_def)

lemma slice_len_bytes: "slice_len s = length (slice_bytes s)"
  by (cases s) simp_all

subsection \<open>Results\<close>

text \<open>What a call comes to: a value, an error the code returns, or a panic.\<close>

datatype 'a res = Ok 'a | Fail string | Panic

fun bind_res :: "'a res \<Rightarrow> ('a \<Rightarrow> 'b res) \<Rightarrow> 'b res" where
  "bind_res (Ok x) f = f x"
| "bind_res (Fail e) f = Fail e"
| "bind_res Panic f = Panic"

text \<open>A \<open>for ... range\<close> loop over a state, left early by an error or a panic.\<close>

fun fold_res :: "('x \<Rightarrow> 'a \<Rightarrow> 'a res) \<Rightarrow> 'x list \<Rightarrow> 'a \<Rightarrow> 'a res" where
  "fold_res f [] s = Ok s"
| "fold_res f (x # xs) s = bind_res (f x s) (fold_res f xs)"

lemma bind_res_Ok_iff: "bind_res r f = Ok y \<longleftrightarrow> (\<exists>x. r = Ok x \<and> f x = Ok y)"
  by (cases r) auto

lemma fold_res_append: "fold_res f (xs @ ys) s = bind_res (fold_res f xs s) (fold_res f ys)"
proof (induction xs arbitrary: s)
  case (Cons x xs)
  then show ?case
    by (cases "f x s") auto
qed simp

lemma fold_res_inv:
  assumes "fold_res f xs s = Ok t" and "I s"
    and "\<And>x s s'. x \<in> set xs \<Longrightarrow> I s \<Longrightarrow> f x s = Ok s' \<Longrightarrow> I s'"
  shows "I t"
  using assms
proof (induction xs arbitrary: s)
  case (Cons x xs)
  then obtain s' where "f x s = Ok s'" "fold_res f xs s' = Ok t"
    by (auto simp: bind_res_Ok_iff)
  then show ?case
    using Cons by (meson list.set_intros)
qed simp

subsection \<open>Machine integers\<close>

text \<open>An \<open>int64\<close> is an \<open>int\<close>; \<open>wrap64\<close> is its wrap-around and \<open>go_div\<close> the division that
  truncates towards zero.\<close>

definition wrap64 :: "int \<Rightarrow> int" where
  "wrap64 i = (i + 9223372036854775808) mod 18446744073709551616 - 9223372036854775808"

definition go_div :: "int \<Rightarrow> int \<Rightarrow> int" where
  "go_div a b = (if a < 0 then - ((- a) div b) else a div b)"

lemma wrap64_id: "- 9223372036854775808 \<le> i \<Longrightarrow> i < 9223372036854775808 \<Longrightarrow> wrap64 i = i"
  by (simp add: wrap64_def)

lemma go_div_nonneg [simp]: "0 \<le> a \<Longrightarrow> go_div a b = a div b"
  by (simp add: go_div_def)

definition str_bytes :: "string \<Rightarrow> bytes" where
  "str_bytes s = map (\<lambda>c. of_nat (of_char c)) s"

text \<open>The same from the bits of a character, which is what evaluation uses.\<close>

definition bitval :: "bool \<Rightarrow> int \<Rightarrow> int" where
  "bitval b n = (if b then n else 0)"

fun char_int :: "char \<Rightarrow> int" where
  "char_int (Char b0 b1 b2 b3 b4 b5 b6 b7) = bitval b0 1 + bitval b1 2 + bitval b2 4 + bitval b3 8 + bitval b4 16 + bitval b5 32 + bitval b6 64 + bitval b7 128"

lemma char_int: "char_int c = of_char c"
  by (cases c) (simp add: bitval_def of_char_def)

lemma str_bytes_code [code]: "str_bytes s = map (\<lambda>c. word_of_int (char_int c)) s"
  by (simp add: str_bytes_def char_int) (metis of_int_of_nat_eq of_nat_of_char)

lemma of_nat_char_inject: "(of_nat (of_char c) :: byte) = of_nat (of_char d) \<longleftrightarrow> c = d"
proof
  assume "(of_nat (of_char c) :: byte) = of_nat (of_char d)"
  then have "unat (of_nat (of_char c) :: byte) = unat (of_nat (of_char d) :: byte)"
    by simp
  then have "(of_char c :: nat) = of_char d"
    by (simp add: unat_of_nat take_bit_eq_mod)
  then show "c = d" by simp
qed simp

lemma str_bytes_inject [simp]: "str_bytes s = str_bytes t \<longleftrightarrow> s = t"
  by (simp add: str_bytes_def inj_map_eq_map inj_def of_nat_char_inject)

subsection \<open>Lists\<close>

lemma ex_set_conv_nth: "(\<exists>x \<in> set xs. P x) \<longleftrightarrow> (\<exists>i < length xs. P (xs ! i))"
  by (metis in_set_conv_nth)

lemma append_Cons_last_eq:
  assumes "a @ c # h = a' @ c # h'" and "c \<notin> set h" and "c \<notin> set h'"
  shows "a = a' \<and> h = h'"
proof -
  have "takeWhile (\<lambda>x. x \<noteq> c) (rev (a @ c # h)) = rev h"
    and "takeWhile (\<lambda>x. x \<noteq> c) (rev (a' @ c # h')) = rev h'"
    using assms(2,3) by (simp_all add: takeWhile_append)
  then have "h = h'"
    using assms(1) by simp
  then show ?thesis
    using assms(1) by simp
qed

lemma list_all2_mem2: "list_all2 R xs ys \<Longrightarrow> y \<in> set ys \<Longrightarrow> \<exists>x \<in> set xs. R x y"
  by (induction rule: list_all2_induct) auto

lemma list_all2_mem1: "list_all2 R xs ys \<Longrightarrow> x \<in> set xs \<Longrightarrow> \<exists>y \<in> set ys. R x y"
  by (induction rule: list_all2_induct) auto

subsection \<open>Association lists as Go maps\<close>

fun assoc_set :: "'k \<Rightarrow> 'v \<Rightarrow> ('k \<times> 'v) list \<Rightarrow> ('k \<times> 'v) list" where
  "assoc_set k v [] = [(k, v)]"
| "assoc_set k v ((k', v') # m) = (if k = k' then (k, v) # m else (k', v') # assoc_set k v m)"

fun assoc_del :: "'k \<Rightarrow> ('k \<times> 'v) list \<Rightarrow> ('k \<times> 'v) list" where
  "assoc_del k [] = []"
| "assoc_del k ((k', v') # m) = (if k = k' then assoc_del k m else (k', v') # assoc_del k m)"

lemma map_of_assoc_set [simp]: "map_of (assoc_set k v m) = (map_of m)(k \<mapsto> v)"
  by (induction m) auto

lemma map_of_assoc_del [simp]: "map_of (assoc_del k m) = (map_of m)(k := None)"
  by (induction m) (auto simp: fun_eq_iff)

lemma keys_assoc_set [simp]: "fst ` set (assoc_set k v m) = insert k (fst ` set m)"
  by (induction k v m rule: assoc_set.induct) auto

lemma keys_assoc_del [simp]: "fst ` set (assoc_del k m) = fst ` set m - {k}"
  by (induction k m rule: assoc_del.induct) auto

lemma distinct_assoc_set [simp]:
  "distinct (map fst m) \<Longrightarrow> distinct (map fst (assoc_set k v m))"
  by (induction k v m rule: assoc_set.induct) auto

lemma distinct_assoc_del [simp]:
  "distinct (map fst m) \<Longrightarrow> distinct (map fst (assoc_del k m))"
  by (induction k m rule: assoc_del.induct) auto

end
