(* ===== verification/Go_Strings.thy ===== *)
theory Go_Strings
  imports Ods_Prelude
begin

text \<open>
  The functions of Go's \<open>strings\<close>, \<open>strconv\<close> and \<open>encoding/hex\<close> packages that the modelled code
  calls. A Go string is its sequence of bytes, here a \<open>char list\<close>; \<open>len\<close> is \<open>length\<close>. Case mapping
  and white space are those of ASCII: \<open>strings.ToLower\<close> also maps the letters of other scripts, which
  no theorem of the development uses, and a byte above 127 is left as it is.
  \<open>strings.Index\<close> answers -1 when nothing is found; here that is \<open>None\<close>.
\<close>

subsection \<open>Case and white space\<close>

definition char_lower :: "char \<Rightarrow> char" where
  "char_lower c = (let n = (of_char c :: nat) in if 65 \<le> n \<and> n \<le> 90 then char_of (n + 32) else c)"

definition to_lower :: "string \<Rightarrow> string" where
  "to_lower s = map char_lower s"

definition is_space :: "char \<Rightarrow> bool" where
  "is_space c \<longleftrightarrow> (let n = (of_char c :: nat) in n = 32 \<or> (9 \<le> n \<and> n \<le> 13))"

definition trim_space :: "string \<Rightarrow> string" where
  "trim_space s = rev (dropWhile is_space (rev (dropWhile is_space s)))"

lemma eq_char_of_iff: "c = char_of n \<longleftrightarrow> take_bit 8 n = of_char c" for n :: nat
  by (metis char_of_eq_iff)

text \<open>The rules that evaluate case mapping and white space on given characters.\<close>

lemmas char_eval = char_lower_def is_space_def trim_space_def char_of_eq_iff eq_char_of_iff

text \<open>The same on the bits of a character, which is what evaluation uses.\<close>

lemma char_lower_code [code]: "char_lower (Char b0 b1 b2 b3 b4 b5 b6 b7) =
    (if \<not> b7 \<and> b6 \<and> \<not> b5 \<and> (b0 \<or> b1 \<or> b2 \<or> b3 \<or> b4) \<and> \<not> (b4 \<and> b3 \<and> (b2 \<or> (b1 \<and> b0)))
     then Char b0 b1 b2 b3 b4 True b6 b7 else Char b0 b1 b2 b3 b4 b5 b6 b7)"
  by (cases b0; cases b1; cases b2; cases b3; cases b4; cases b5; cases b6; cases b7) (simp_all add: char_eval)

lemma is_space_code [code]: "is_space (Char b0 b1 b2 b3 b4 b5 b6 b7) \<longleftrightarrow>
    \<not> b7 \<and> \<not> b6 \<and> \<not> b4 \<and> (if b5 then \<not> (b0 \<or> b1 \<or> b2 \<or> b3) else b3 \<and> (if b2 then \<not> b1 else b0 \<or> b1))"
  by (cases b0; cases b1; cases b2; cases b3; cases b4; cases b5; cases b6; cases b7) (simp_all add: is_space_def)

lemma char_lower_idem [simp]: "char_lower (char_lower c) = char_lower c"
  by (simp add: char_lower_def Let_def)

lemma to_lower_idem [simp]: "to_lower (to_lower s) = to_lower s"
  by (simp add: to_lower_def)

lemma to_lower_append [simp]: "to_lower (s @ t) = to_lower s @ to_lower t"
  by (simp add: to_lower_def)

lemma to_lower_length [simp]: "length (to_lower s) = length s"
  by (simp add: to_lower_def)

lemma to_lower_Nil [simp]: "to_lower [] = []"
  by (simp add: to_lower_def)

lemma to_lower_Cons [simp]: "to_lower (c # s) = char_lower c # to_lower s"
  by (simp add: to_lower_def)

lemma trim_space_Nil [simp]: "trim_space [] = []"
  by (simp add: trim_space_def)

lemma trim_space_id:
  assumes "s \<noteq> []" and "\<not> is_space (hd s)" and "\<not> is_space (last s)"
  shows "trim_space s = s"
proof -
  have "dropWhile is_space s = s"
    using assms by (cases s) auto
  moreover have "dropWhile is_space (rev s) = rev s"
    using assms by (cases "rev s") (auto simp: last_rev hd_rev dest: arg_cong [of _ _ hd])
  ultimately show ?thesis
    by (simp add: trim_space_def)
qed

subsection \<open>Searching and splitting\<close>

abbreviation has_prefix :: "string \<Rightarrow> string \<Rightarrow> bool" where
  "has_prefix s p \<equiv> prefix p s"

abbreviation has_suffix :: "string \<Rightarrow> string \<Rightarrow> bool" where
  "has_suffix s p \<equiv> suffix p s"

fun index_str :: "string \<Rightarrow> string \<Rightarrow> nat option" where
  "index_str [] p = (if p = [] then Some 0 else None)"
| "index_str (c # s) p = (if prefix p (c # s) then Some 0 else map_option Suc (index_str s p))"

definition contains_str :: "string \<Rightarrow> string \<Rightarrow> bool" where
  "contains_str s p \<longleftrightarrow> index_str s p \<noteq> None"

definition contains_any :: "string \<Rightarrow> string \<Rightarrow> bool" where
  "contains_any s cs \<longleftrightarrow> list_ex (\<lambda>c. c \<in> set cs) s"

text \<open>\<open>strings.Split\<close> on a separator of one byte, and \<open>strings.Join\<close>.\<close>

fun split_char :: "char \<Rightarrow> string \<Rightarrow> string list" where
  "split_char c [] = [[]]"
| "split_char c (x # xs) = (if x = c then [] # split_char c xs
     else (case split_char c xs of [] \<Rightarrow> [[x]] | p # ps \<Rightarrow> (x # p) # ps))"

fun join_str :: "string \<Rightarrow> string list \<Rightarrow> string" where
  "join_str sep [] = []"
| "join_str sep [s] = s"
| "join_str sep (s # t # ss) = s @ sep @ join_str sep (t # ss)"

lemma split_char_not_Nil [simp]: "split_char c s \<noteq> []"
  by (induction s) (auto split: list.splits)

lemma length_split_char_pos [simp]: "0 < length (split_char c s)"
  by simp

lemma split_char_no_sep: "c \<notin> set s \<Longrightarrow> split_char c s = [s]"
  by (induction s) auto

lemma split_char_append:
  "c \<notin> set s \<Longrightarrow> split_char c (s @ c # t) = s # split_char c t"
  by (induction s) (auto split: list.splits)

lemma split_char_parts: "p \<in> set (split_char c s) \<Longrightarrow> c \<notin> set p"
proof (induction s arbitrary: p)
  case (Cons x xs)
  then show ?case
    by (cases "split_char c xs") (auto split: if_splits)
qed simp

lemma join_split_char [simp]: "join_str [c] (split_char c s) = s"
proof (induction s)
  case (Cons x xs)
  then show ?case
  proof (cases "split_char c xs")
    case (Cons p ps)
    then show ?thesis
      using Cons.IH by (cases ps) auto
  qed simp
qed simp

lemma split_join_char:
  "ps \<noteq> [] \<Longrightarrow> \<forall>p \<in> set ps. c \<notin> set p \<Longrightarrow> split_char c (join_str [c] ps) = ps"
  by (induction "[c]" ps rule: join_str.induct) (auto simp: split_char_no_sep split_char_append)

subsection \<open>Replacing\<close>

text \<open>
  \<open>strings.Replace\<close> with a non-empty old string: every occurrence from the left (n = -1), at most
  \<open>n\<close> of them otherwise. With \<open>n = 0\<close> it returns its argument.
\<close>

function replace_n :: "nat option \<Rightarrow> string \<Rightarrow> string \<Rightarrow> string \<Rightarrow> string" where
  "replace_n n old new s =
     (if old = [] \<or> s = [] \<or> n = Some 0 then s
      else if prefix old s
        then new @ replace_n (map_option (\<lambda>k. k - 1) n) old new (drop (length old) s)
      else hd s # replace_n n old new (tl s))"
  by pat_completeness auto
termination
  by (relation "measure (\<lambda>(n, old, new, s). length s)") auto

declare replace_n.simps [simp del]

definition replace_all :: "string \<Rightarrow> string \<Rightarrow> string \<Rightarrow> string" where
  "replace_all old new s = replace_n None old new s"

lemma replace_n_zero [simp]: "replace_n (Some 0) old new s = s"
  by (simp add: replace_n.simps)

lemma replace_n_Nil [simp]: "replace_n n old new [] = []"
  by (simp add: replace_n.simps)

lemma replace_n_Cons:
  "old \<noteq> [] \<Longrightarrow> n \<noteq> Some 0 \<Longrightarrow> replace_n n old new (c # s) =
     (if prefix old (c # s)
        then new @ replace_n (map_option (\<lambda>k. k - 1) n) old new (drop (length old) (c # s))
      else c # replace_n n old new s)"
  by (simp add: replace_n.simps [of n old new "c # s"])

lemma replace_all_Nil [simp]: "replace_all old new [] = []"
  by (simp add: replace_all_def)

lemma replace_all_char: "replace_all [c] new s = concat (map (\<lambda>x. if x = c then new else [x]) s)"
  by (induction s) (auto simp: replace_all_def replace_n_Cons)

lemma replace_first_prefix:
  "old \<noteq> [] \<Longrightarrow> replace_n (Some 1) old new (old @ s) = new @ s"
  by (subst replace_n.simps) auto

subsection \<open>Numbers and hexadecimal\<close>

definition hex_digit :: "nat \<Rightarrow> char" where
  "hex_digit n = (if n < 10 then char_of (48 + n) else char_of (87 + n))"

definition hex_encode :: "bytes \<Rightarrow> string" where
  "hex_encode bs = concat (map (\<lambda>b. [hex_digit (unat b div 16), hex_digit (unat b mod 16)]) bs)"

text \<open>The digits as a table, for evaluation.\<close>

definition hex_table :: "nat \<Rightarrow> char" where
  "hex_table n =
     (if n < 8 then (if n < 4 then (if n < 2 then (if n < 1 then CHR ''0'' else CHR ''1'') else
     (if n < 3 then CHR ''2'' else CHR ''3'')) else (if n < 6 then (if n < 5 then CHR ''4'' else CHR ''5'') else (if n < 7 then CHR ''6'' else CHR ''7''))) else (if n < 12 then (if n < 10 then (if n < 9 then CHR ''8'' else CHR ''9'') else (if n < 11 then CHR ''a'' else CHR ''b'')) else (if n < 14 then (if n < 13 then CHR ''c'' else CHR ''d'') else (if n < 15 then CHR ''e'' else CHR ''f''))))"

fun hex_digit_of :: "bool \<Rightarrow> nat \<Rightarrow> char" where
  "hex_digit_of True n = hex_table n"
| "hex_digit_of False n = char_of (87 + n)"

lemma hex_digit_code [code]: "hex_digit n = hex_digit_of (n < 16) n"
proof (cases "n < 16")
  case True
  then have "n \<in> set [0..<16]"
    by simp
  moreover have "list_all (\<lambda>n. hex_digit n = hex_table n) [0..<16]"
    by (simp add: hex_digit_def hex_table_def upt_rec char_of_eq_iff)
  ultimately show ?thesis
    using True by (simp add: list_all_iff)
qed (simp add: hex_digit_def)

lemma hex_encode_code [code]: "hex_encode bs = concat (map (\<lambda>b. [hex_digit (unat (b div 16)), hex_digit (unat (b mod 16))]) bs)"
  by (simp add: hex_encode_def unat_div unat_mod)

definition hex_value :: "char \<Rightarrow> nat option" where
  "hex_value c = (let n = (of_char c :: nat) in
     if 48 \<le> n \<and> n \<le> 57 then Some (n - 48)
     else if 97 \<le> n \<and> n \<le> 102 then Some (n - 87)
     else if 65 \<le> n \<and> n \<le> 70 then Some (n - 55)
     else None)"

text \<open>\<open>hex.DecodeString\<close>: an odd length or a byte that is no hexadecimal digit is an error.\<close>

fun hex_decode :: "string \<Rightarrow> bytes option" where
  "hex_decode [] = Some []"
| "hex_decode [c] = None"
| "hex_decode (c # d # s) = (case (hex_value c, hex_value d, hex_decode s) of
     (Some h, Some l, Some bs) \<Rightarrow> Some (of_nat (16 * h + l) # bs)
   | _ \<Rightarrow> None)"

lemma hex_value_digit: "n < 16 \<Longrightarrow> hex_value (hex_digit n) = Some n"
  by (auto simp: hex_value_def hex_digit_def Let_def)

lemma hex_decode_encode [simp]: "hex_decode (hex_encode bs) = Some bs"
proof (induction bs)
  case (Cons b bs)
  have "unat b < 256"
    using unsigned_less [of b] by simp
  then have "unat b div 16 < 16"
    by simp
  then show ?case
    using Cons by (simp add: hex_encode_def hex_value_digit flip: of_nat_mult of_nat_add)
qed (simp add: hex_encode_def)

lemma hex_encode_inject [simp]: "hex_encode a = hex_encode b \<longleftrightarrow> a = b"
  by (metis hex_decode_encode option.inject)

lemma length_hex_encode [simp]: "length (hex_encode bs) = 2 * length bs"
  by (induction bs) (auto simp: hex_encode_def)

lemma hex_digit_ascii: "n < 16 \<Longrightarrow> of_char (hex_digit n) \<in> {48..57::nat} \<union> {97..102}"
  by (auto simp: hex_digit_def)

lemma hex_encode_chars:
  "c \<in> set (hex_encode bs) \<Longrightarrow> of_char c \<in> {48..57::nat} \<union> {97..102}"
proof (induction bs)
  case (Cons b bs)
  have "unat b < 256"
    using unsigned_less [of b] by simp
  then have "unat b div 16 < 16"
    by simp
  then show ?case
    using Cons hex_digit_ascii [of "unat b div 16"] hex_digit_ascii [of "unat b mod 16"]
    by (auto simp: hex_encode_def)
qed (simp add: hex_encode_def)

text \<open>\<open>\%t\<close> and \<open>\%d\<close> of \<open>fmt.Sprintf\<close>.\<close>

definition fmt_bool :: "bool \<Rightarrow> string" where
  "fmt_bool b = (if b then ''true'' else ''false'')"

function fmt_nat :: "nat \<Rightarrow> string" where
  "fmt_nat n = (if n < 10 then [char_of (48 + n)] else fmt_nat (n div 10) @ [char_of (48 + n mod 10)])"
  by pat_completeness auto
termination
  by (relation "measure id") auto

declare fmt_nat.simps [simp del]

definition fmt_int :: "int \<Rightarrow> string" where
  "fmt_int i = (if i < 0 then CHR 0x2D # fmt_nat (nat (- i)) else fmt_nat (nat i))"

text \<open>The digits of \<open>strconv.ParseInt\<close> and \<open>Atoi\<close> in base 10; the range check is the caller's.\<close>

fun parse_digits :: "nat \<Rightarrow> string \<Rightarrow> nat option" where
  "parse_digits acc [] = Some acc"
| "parse_digits acc (c # s) = (let n = (of_char c :: nat) in
     if 48 \<le> n \<and> n \<le> 57 then parse_digits (10 * acc + (n - 48)) s else None)"

definition parse_nat :: "string \<Rightarrow> nat option" where
  "parse_nat s = (if s = [] then None else parse_digits 0 s)"

definition parse_int :: "string \<Rightarrow> int option" where
  "parse_int s = (case s of [] \<Rightarrow> None
     | c # t \<Rightarrow> if c = CHR 0x2D then map_option (\<lambda>n. - int n) (parse_nat t)
               else if c = CHR 0x2B then map_option int (parse_nat t)
               else map_option int (parse_nat s))"

lemma parse_digits_append:
  "parse_digits acc (s @ t) = Option.bind (parse_digits acc s) (\<lambda>a. parse_digits a t)"
  by (induction s arbitrary: acc) (auto simp: Let_def)

lemma parse_digits_fmt: "parse_digits 0 (fmt_nat n) = Some n"
proof (induction n rule: fmt_nat.induct)
  case (1 n)
  then show ?case
    by (subst fmt_nat.simps) (auto simp: parse_digits_append Let_def)
qed

lemma fmt_nat_not_Nil [simp]: "fmt_nat n \<noteq> []"
  by (subst fmt_nat.simps) simp

lemma parse_fmt_nat [simp]: "parse_nat (fmt_nat n) = Some n"
  by (simp add: parse_nat_def parse_digits_fmt)

lemma fmt_nat_inject [simp]: "fmt_nat a = fmt_nat b \<longleftrightarrow> a = b"
  by (metis option.inject parse_fmt_nat)

lemma set_dropWhile_subset: "set (dropWhile P xs) \<subseteq> set xs"
  by (induction xs) auto

lemma set_trim_space: "set (trim_space s) \<subseteq> set s"
  unfolding trim_space_def by (metis set_dropWhile_subset set_rev subset_trans)

text \<open>\<open>strconv.ParseInt(s, 10, 64)\<close> and \<open>strconv.Atoi\<close>, \<open>None\<close> for an error.\<close>

definition ParseInt64 :: "string \<Rightarrow> int option" where
  "ParseInt64 s = (case parse_int s of
     Some n \<Rightarrow> if - 9223372036854775808 \<le> n \<and> n < 9223372036854775808 then Some n else None
   | None \<Rightarrow> None)"

text \<open>The order of strings by their bytes, and \<open>sort.Strings\<close>.\<close>

fun str_le :: "string \<Rightarrow> string \<Rightarrow> bool" where
  "str_le [] t = True"
| "str_le (c # s) [] = False"
| "str_le (c # s) (d # t) = (let m = (of_char c :: nat); n = of_char d in
     m < n \<or> (m = n \<and> str_le s t))"

fun insert_str :: "string \<Rightarrow> string list \<Rightarrow> string list" where
  "insert_str x [] = [x]"
| "insert_str x (y # ys) = (if str_le x y then x # y # ys else y # insert_str x ys)"

definition sort_strings :: "string list \<Rightarrow> string list" where
  "sort_strings xs = foldr insert_str xs []"

lemma set_insert_str [simp]: "set (insert_str x ys) = insert x (set ys)"
  by (induction ys) auto

lemma set_sort_strings [simp]: "set (sort_strings xs) = set xs"
  unfolding sort_strings_def by (induction xs) auto

end
