(* ===== verification/Go_IO.thy ===== *)
theory Go_IO
  imports Ods_Prelude
begin

text \<open>
  Go's \<open>io\<close> package as the code uses it: readers that deliver their data in pieces of any size,
  writers that may fail, \<open>io.Copy\<close>, \<open>io.LimitReader\<close> and \<open>io.CopyN\<close>. A reader is a function that
  takes its state and the length of the buffer and gives the bytes read, the error and the new state,
  so \<open>io_copy\<close> runs over the in-memory reader below, the cipher readers and the cache's puller alike.
  A reader that never ends makes \<open>io_copy\<close> run forever, which is the value \<open>None\<close>.

  The locale \<open>byte_source\<close> is the contract of a reader that delivers its whole content and then
  end of file, and what \<open>io_copy\<close> and \<open>io_copyN\<close> do with it; the readers of the program are
  interpretations of it.
\<close>

datatype go_err = EOF | Err string

type_synonym 's read_fn = "'s \<Rightarrow> nat \<Rightarrow> bytes \<times> go_err option \<times> 's"

subsection \<open>Writers\<close>

text \<open>A writer that accepts \<open>w_cap\<close> more bytes before it fails, or any number.\<close>

record writer =
  w_out :: bytes
  w_cap :: "nat option"

definition new_writer :: writer where
  "new_writer = \<lparr>w_out = [], w_cap = None\<rparr>"

definition writer_write :: "writer \<Rightarrow> bytes \<Rightarrow> nat \<times> go_err option \<times> writer" where
  "writer_write w b = (let n = (case w_cap w of None \<Rightarrow> length b | Some c \<Rightarrow> min c (length b)) in
     (n, if n < length b then Some (Err ''write'') else None,
      w\<lparr>w_out := w_out w @ take n b, w_cap := map_option (\<lambda>c. c - n) (w_cap w)\<rparr>))"

subsection \<open>Copying\<close>

partial_function (option) io_copy ::
  "'s read_fn \<Rightarrow> nat \<Rightarrow> 's \<Rightarrow> writer \<Rightarrow> int \<Rightarrow> (int \<times> go_err option \<times> 's \<times> writer) option" where
  "io_copy rd bs s w written = (case rd s bs of (b, er, s') \<Rightarrow>
     (case (if b = [] then (0, None, w) else writer_write w b) of (nw, ew, w') \<Rightarrow>
        (if ew \<noteq> None then Some (written + int nw, ew, s', w')
         else (case er of
             None \<Rightarrow> io_copy rd bs s' w' (written + int nw)
           | Some e \<Rightarrow> Some (written + int nw, if e = EOF then None else Some e, s', w')))))"

definition limited_read :: "'s read_fn \<Rightarrow> ('s \<times> int) read_fn" where
  "limited_read rd = (\<lambda>(s, N) k.
     if N \<le> 0 then ([], Some EOF, (s, N))
     else (case rd s (if int k > N then nat N else k) of
        (b, e, s') \<Rightarrow> (b, e, (s', N - int (length b)))))"

definition io_copyN ::
  "'s read_fn \<Rightarrow> nat \<Rightarrow> 's \<Rightarrow> writer \<Rightarrow> int \<Rightarrow> (int \<times> go_err option \<times> 's \<times> writer) option" where
  "io_copyN rd bs s w n = (case io_copy (limited_read rd) bs (s, n) w 0 of
     None \<Rightarrow> None
   | Some (written, err, (s', _), w') \<Rightarrow>
       Some (written,
             if written = n then None
             else if written < n \<and> err = None then Some EOF else err, s', w'))"

text \<open>What every read keeps is true of the state that \<open>io_copy\<close> leaves.\<close>

lemma io_copy_inv:
  fixes rd :: "'s read_fn" and Inv :: "'s \<Rightarrow> bool"
  assumes "io_copy rd bs s w n = Some r"
    and "Inv s" and "\<And>s b e s'. Inv s \<Longrightarrow> rd s bs = (b, e, s') \<Longrightarrow> Inv s'"
  shows "Inv (fst (snd (snd r)))"
proof -
  have "(\<forall>s b e s'. Inv s \<longrightarrow> rd s bs = (b, e, s') \<longrightarrow> Inv s') \<longrightarrow> Inv s \<longrightarrow> Inv (fst (snd (snd r)))"
  proof (rule io_copy.raw_induct [OF _ assms(1)])
    fix rec :: "'s read_fn \<Rightarrow> nat \<Rightarrow> 's \<Rightarrow> writer \<Rightarrow> int \<Rightarrow> (int \<times> go_err option \<times> 's \<times> writer) option"
      and rd :: "'s read_fn" and bs and s :: 's and w n
      and r :: "int \<times> go_err option \<times> 's \<times> writer"
    assume IH: "\<And>rd bs s w n r. rec rd bs s w n = Some r \<Longrightarrow>
        (\<forall>s b e s'. Inv s \<longrightarrow> rd s bs = (b, e, s') \<longrightarrow> Inv s') \<longrightarrow> Inv s \<longrightarrow> Inv (fst (snd (snd r)))"
    obtain b er s' where r: "rd s bs = (b, er, s')"
      by (metis prod_cases3)
    obtain nw ew w' where wr: "(if b = [] then (0, None, w) else writer_write w b) = (nw, ew, w')"
      by (metis prod_cases3)
    assume "(case rd s bs of (b, er, s') \<Rightarrow>
       (case (if b = [] then (0, None, w) else writer_write w b) of (nw, ew, w') \<Rightarrow>
        (if ew \<noteq> None then Some (n + int nw, ew, s', w')
         else (case er of
             None \<Rightarrow> rec rd bs s' w' (n + int nw)
           | Some e \<Rightarrow> Some (n + int nw, if e = EOF then None else Some e, s', w'))))) = Some r"
    then show "(\<forall>s b e s'. Inv s \<longrightarrow> rd s bs = (b, e, s') \<longrightarrow> Inv s') \<longrightarrow> Inv s \<longrightarrow>
        Inv (fst (snd (snd r)))"
      using IH [of rd bs s' w' "n + int nw" r]
      by (auto simp: r wr split: if_splits option.splits)
  qed
  then show ?thesis
    using assms(2,3) by blast
qed

subsection \<open>A reader over bytes in memory, a file or a request body\<close>

text \<open>
  The pieces in which the data arrive, each with the error that arrives with it; a piece longer than
  the buffer is delivered over several calls. After the last piece every call is at end of file.
\<close>

type_synonym mem_reader = "(bytes \<times> go_err option) list"

fun mem_read :: "mem_reader read_fn" where
  "mem_read [] k = ([], Some EOF, [])"
| "mem_read ((b, e) # ps) k =
     (if length b \<le> k then (b, e, ps) else (take k b, None, (drop k b, e) # ps))"

definition mem_content :: "mem_reader \<Rightarrow> bytes" where
  "mem_content ps = concat (map fst ps)"

definition mem_size :: "mem_reader \<Rightarrow> nat" where
  "mem_size ps = length ps + length (mem_content ps)"

definition mem_clean :: "mem_reader \<Rightarrow> bool" where
  "mem_clean ps \<longleftrightarrow> (\<forall>p \<in> set ps. snd p = None)"

definition bytes_reader :: "bytes \<Rightarrow> mem_reader" where
  "bytes_reader b = [(b, None)]"

lemma mem_content_simps [simp]:
  "mem_content [] = []"
  "mem_content ((b, e) # ps) = b @ mem_content ps"
  by (simp_all add: mem_content_def)

lemma mem_clean_simps [simp]:
  "mem_clean []"
  "mem_clean ((b, e) # ps) \<longleftrightarrow> e = None \<and> mem_clean ps"
  by (auto simp: mem_clean_def)

lemma mem_content_bytes_reader [simp]: "mem_content (bytes_reader b) = b"
  by (simp add: bytes_reader_def)

lemma mem_clean_bytes_reader [simp]: "mem_clean (bytes_reader b)"
  by (simp add: bytes_reader_def)

subsection \<open>The contract of a reader\<close>

locale byte_source =
  fixes rd :: "'s read_fn"
    and ok :: "'s \<Rightarrow> bool"
    and data :: "'s \<Rightarrow> bytes"
    and left :: "'s \<Rightarrow> nat"
  assumes rd_step: "ok s \<Longrightarrow> 0 < k \<Longrightarrow> rd s k = (b, e, s') \<Longrightarrow>
      ok s' \<and> length b \<le> k \<and> data s = b @ data s' \<and>
      (e = None \<and> left s' < left s \<or> e = Some EOF \<and> data s' = [])"
begin

lemma copy_all:
  assumes "ok s" and "0 < bs" and "w_cap w = None"
  shows "\<exists>s'. io_copy rd bs s w n =
      Some (n + int (length (data s)), None, s', w\<lparr>w_out := w_out w @ data s\<rparr>) \<and>
      ok s' \<and> data s' = []"
  using assms
proof (induction "left s" arbitrary: s w n rule: less_induct)
  case less
  obtain b e s' where r: "rd s bs = (b, e, s')"
    by (metis prod_cases3)
  note step = rd_step [OF less.prems(1,2) r]
  let ?w = "w\<lparr>w_out := w_out w @ b\<rparr>"
  have wr: "(if b = [] then (0, None, w) else writer_write w b) = (length b, None, ?w)"
    using less.prems(3) by (simp add: writer_write_def)
  show ?case
  proof (cases e)
    case None
    with step have "left s' < left s" and ok': "ok s'" by auto
    then obtain s'' where "io_copy rd bs s' ?w (n + int (length b)) =
        Some (n + int (length b) + int (length (data s')), None, s'', ?w\<lparr>w_out := w_out ?w @ data s'\<rparr>)"
      and "ok s''" "data s'' = []"
      using less.hyps [of s' ?w] less.prems by force
    then show ?thesis
      using step None by (subst io_copy.simps) (simp add: r wr)
  next
    case (Some x)
    then show ?thesis
      using step by (subst io_copy.simps) (simp add: r wr)
  qed
qed

text \<open>With room for \<open>c\<close> more bytes the rest is not written and the copy ends in an error.\<close>

lemma copy_capped:
  assumes "ok s" and "0 < bs" and "w_cap w = Some c"
  shows "\<exists>s'. io_copy rd bs s w n =
      Some (n + int (min c (length (data s))),
            if c < length (data s) then Some (Err ''write'') else None, s',
            w\<lparr>w_out := w_out w @ take c (data s), w_cap := Some (c - length (data s))\<rparr>)"
  using assms
proof (induction "left s" arbitrary: s w n c rule: less_induct)
  case less
  obtain b e s' where r: "rd s bs = (b, e, s')"
    by (metis prod_cases3)
  note step = rd_step [OF less.prems(1,2) r]
  let ?w = "w\<lparr>w_out := w_out w @ take c b, w_cap := Some (c - length b)\<rparr>"
  show ?case
  proof (cases "c < length b")
    case True
    then show ?thesis
      using less.prems(3) step by (subst io_copy.simps) (auto simp: r writer_write_def)
  next
    case False
    have wr: "(if b = [] then (0, None, w) else writer_write w b) = (length b, None, ?w)"
      using less.prems(3) False by (auto simp: writer_write_def min_def Let_def)
    show ?thesis
    proof (cases e)
      case None
      with step have "left s' < left s" and ok': "ok s'" by auto
      then obtain s'' where "io_copy rd bs s' ?w (n + int (length b)) =
          Some (n + int (length b) + int (min (c - length b) (length (data s'))),
            if c - length b < length (data s') then Some (Err ''write'') else None, s'',
            ?w\<lparr>w_out := w_out ?w @ take (c - length b) (data s'),
               w_cap := Some (c - length b - length (data s'))\<rparr>)"
        using less.hyps [of s' ?w "c - length b"] less.prems by force
      then show ?thesis
        using step None False by (subst io_copy.simps) (auto simp: r wr min_def)
    next
      case (Some x)
      then show ?thesis
        using step False by (subst io_copy.simps) (auto simp: r wr min_def)
    qed
  qed
qed

end

interpretation mem_src: byte_source mem_read mem_clean mem_content mem_size
proof
  fix s :: mem_reader and k b e s'
  assume "mem_clean s" and "0 < k" and "mem_read s k = (b, e, s')"
  then show "mem_clean s' \<and> length b \<le> k \<and> mem_content s = b @ mem_content s' \<and>
      (e = None \<and> mem_size s' < mem_size s \<or> e = Some EOF \<and> mem_content s' = [])"
    by (cases "(s, k)" rule: mem_read.cases) (auto simp: mem_size_def split: if_splits)
qed

text \<open>A limited reader over a source is a source: its content is cut at the limit.\<close>

definition lim_data :: "('s \<Rightarrow> bytes) \<Rightarrow> 's \<times> int \<Rightarrow> bytes" where
  "lim_data dat = (\<lambda>(s, N). take (nat N) (dat s))"

context byte_source
begin

lemma limited_step:
  assumes "ok (fst sn)" and "0 < k" and "limited_read rd sn k = (b, e, sn')"
  shows "ok (fst sn') \<and> length b \<le> k \<and> lim_data data sn = b @ lim_data data sn' \<and>
      (e = None \<and> left (fst sn') < left (fst sn) \<or> e = Some EOF \<and> lim_data data sn' = [])
      \<and> data (fst sn) = b @ data (fst sn')"
proof -
  obtain s N where sn: "sn = (s, N)" by (cases sn)
  show ?thesis
  proof (cases "N \<le> 0")
    case True
    then show ?thesis
      using assms by (auto simp: sn limited_read_def lim_data_def)
  next
    case False
    let ?k = "if int k > N then nat N else k"
    obtain b' e' s' where r: "rd s ?k = (b', e', s')"
      by (metis prod_cases3)
    have k: "0 < ?k" "?k \<le> nat N" "?k \<le> k"
      using False assms(2) by auto
    have b: "b = b'" "e = e'" "sn' = (s', N - int (length b'))"
      using assms(3) False by (auto simp: sn limited_read_def r)
    note step = rd_step [OF assms(1) [unfolded sn fst_conv] k(1) r]
    have "length b' \<le> nat N" "length b' \<le> k"
      using step k by auto
    then show ?thesis
      using step False by (auto simp: sn b lim_data_def nat_diff_distrib)
  qed
qed

lemma limited_source:
  "byte_source (limited_read rd) (\<lambda>sn. ok (fst sn)) (lim_data data) (\<lambda>sn. left (fst sn))"
  by unfold_locales (use limited_step in blast)

text \<open>What \<open>io.CopyN\<close> writes, and what it leaves in the source.\<close>

lemma copy_limited_rest:
  assumes "ok s" and "0 < bs" and "w_cap w = None"
    and "io_copy (limited_read rd) bs (s, N) w n = Some (m, e, (s', N'), w')"
  shows "data s = take (nat N) (data s) @ data s' \<and> ok s'"
  using assms
proof (induction "left s" arbitrary: s w n N rule: less_induct)
  case less
  obtain b er s1 N1 where r: "limited_read rd (s, N) bs = (b, er, (s1, N1))"
    by (metis prod_cases3 surj_pair)
  note step = limited_step [of "(s, N)", unfolded fst_conv, OF less.prems(1,2) r]
  let ?w = "w\<lparr>w_out := w_out w @ b\<rparr>"
  have wr: "(if b = [] then (0, None, w) else writer_write w b) = (length b, None, ?w)"
    using less.prems(3) by (simp add: writer_write_def)
  show ?case
  proof (cases er)
    case None
    have "io_copy (limited_read rd) bs (s1, N1) ?w (n + int (length b)) = Some (m, e, (s', N'), w')"
      using less.prems(4) by (subst (asm) io_copy.simps) (simp add: r wr None)
    then have "data s1 = take (nat N1) (data s1) @ data s' \<and> ok s'"
      using less.hyps [of s1 ?w] step None less.prems by (auto simp: less.prems(3))
    moreover have "take (nat N) (data s) = b @ take (nat N1) (data s1)" and "data s = b @ data s1"
      using step unfolding lim_data_def prod.case fst_conv by blast+
    ultimately show ?thesis
      by (metis append.assoc)
  next
    case (Some x)
    then have "s' = s1"
      using less.prems(4) step by (subst (asm) io_copy.simps) (simp add: r wr)
    then show ?thesis
      using step Some by (auto simp: lim_data_def)
  qed
qed

lemma copyN_ok:
  assumes "ok s" and "0 < bs" and "w_cap w = None" and "0 \<le> n"
  shows "\<exists>s'. io_copyN rd bs s w n =
      Some (min n (int (length (data s))),
            if int (length (data s)) < n then Some EOF else None,
            s', w\<lparr>w_out := w_out w @ take (nat n) (data s)\<rparr>)
      \<and> ok s' \<and> data s' = drop (nat n) (data s)"
proof -
  obtain s' N' where c: "io_copy (limited_read rd) bs (s, n) w 0 =
      Some (int (length (take (nat n) (data s))), None, (s', N'),
        w\<lparr>w_out := w_out w @ take (nat n) (data s)\<rparr>)"
    using byte_source.copy_all [OF limited_source, of "(s, n)" bs w 0] assms by (auto simp: lim_data_def)
  have "data s = take (nat n) (data s) @ data s'" and "ok s'"
    using copy_limited_rest [OF assms(1-3) c] by auto
  then have "data s' = drop (nat n) (data s)"
    by (metis append_eq_conv_conj append_take_drop_id)
  then show ?thesis
    using c \<open>ok s'\<close> assms(4) by (auto simp: io_copyN_def min_def)
qed

end

end
