(* ===== verification/Crypto_Stream.thy ===== *)
theory Crypto_Stream
  imports Go_Strings Go_IO
begin

text \<open>
  \<open>crypto/crypto.go\<close> and \<open>crypto/nocrypto.go\<close>: file keys wrapped under the master passphrase, the
  MAC of a permission, and the AES-CTR stream that encrypts and decrypts a file while it is copied.

  SHA-256 is the argument \<open>sha\<close> and the AES block function the argument \<open>aes\<close> (key and block to
  block); their only property used is the length of what they return. Counter mode is written out:
  the counter block is incremented as a big-endian number of 16 bytes. What \<open>crypto/rand\<close> delivers
  is an argument of the functions that draw from it. A call of \<open>log.Fatal\<close> or a panic is \<open>None\<close>.
\<close>

subsection \<open>Byte ranges and keys\<close>

record ByteRange =
  br_Start :: int
  br_Stop :: int

definition NewByteRange :: ByteRange where
  "NewByteRange = \<lparr>br_Start = 0, br_Stop = - 1\<rparr>"

definition xor_bytes :: "bytes \<Rightarrow> bytes \<Rightarrow> bytes" where
  "xor_bytes a b = map2 (\<lambda>x y. xor x y) a b"

text \<open>\<open>sha256.Sum256\<close> returns an array of 32 bytes, whatever function \<open>sha\<close> is.\<close>

definition Sum256 :: "(bytes \<Rightarrow> bytes) \<Rightarrow> bytes \<Rightarrow> bytes" where
  "Sum256 sha m = take 32 (sha m @ replicate 32 0)"

lemma length_Sum256 [simp]: "length (Sum256 sha m) = 32"
  by (simp add: Sum256_def)

definition mac_message ::
  "string \<Rightarrow> string \<Rightarrow> bool \<Rightarrow> bool \<Rightarrow> bool \<Rightarrow> bool \<Rightarrow> bool \<Rightarrow> bytes \<Rightarrow> string" where
  "mac_message passphrase grantee c r u d s encryptedKey =
     passphrase @ '':'' @ grantee @ '':'' @ fmt_bool c @ '','' @ fmt_bool r @ '','' @ fmt_bool u
       @ '','' @ fmt_bool d @ '','' @ fmt_bool s @ '':'' @ hex_encode encryptedKey"

definition DoMAC ::
  "(bytes \<Rightarrow> bytes) \<Rightarrow> string \<Rightarrow> bytes \<Rightarrow> string \<Rightarrow> bool \<Rightarrow> bool \<Rightarrow> bool \<Rightarrow> bool \<Rightarrow> bool \<Rightarrow> bytes \<Rightarrow> bytes" where
  "DoMAC sha passphrase permissionIV grantee c r u d s encryptedKey =
     (let hashBytes = Sum256 sha (str_bytes (mac_message passphrase grantee c r u d s encryptedKey))
      in map (\<lambda>i. hashBytes ! i) [0..<32])"

definition ApplyPassphrase :: "(bytes \<Rightarrow> bytes) \<Rightarrow> string \<Rightarrow> bytes \<Rightarrow> bytes \<Rightarrow> bytes option" where
  "ApplyPassphrase sha passphrase permissionIV fileKey =
     (let hashBytes = Sum256 sha (str_bytes (passphrase @ '':'' @ hex_encode permissionIV));
          fklen = length fileKey;
          hlen = length hashBytes
      in if fklen > hlen then None
         else Some (xor_bytes (take fklen hashBytes) fileKey @ replicate (32 - fklen) 0))"

definition CreatePermissionIV :: "bytes \<Rightarrow> bytes" where
  "CreatePermissionIV rnd = take 32 (rnd @ replicate 32 0)"

definition CreateKey :: "bytes \<Rightarrow> bytes" where
  "CreateKey rnd = take 32 (rnd @ replicate 32 0)"

definition CreateIV :: "bytes \<Rightarrow> bytes" where
  "CreateIV rnd = (take 16 (rnd @ replicate 16 0))[15 := 0, 14 := 0, 13 := 0, 12 := 0]"

lemma length_xor_bytes [simp]: "length (xor_bytes a b) = min (length a) (length b)"
  by (simp add: xor_bytes_def)

lemma xor_bytes_nth [simp]:
  "i < length a \<Longrightarrow> i < length b \<Longrightarrow> xor_bytes a b ! i = xor (a ! i) (b ! i)"
  by (simp add: xor_bytes_def)

lemma xor_bytes_twice:
  "length b = length a \<Longrightarrow> xor_bytes a (xor_bytes a b) = b"
  by (rule nth_equalityI) (auto simp: xor_bytes_nth simp flip: xor.assoc)

lemma length_CreateKey [simp]: "length (CreateKey rnd) = 32"
  by (simp add: CreateKey_def)

lemma length_CreatePermissionIV [simp]: "length (CreatePermissionIV rnd) = 32"
  by (simp add: CreatePermissionIV_def)

lemma length_CreateIV [simp]: "length (CreateIV rnd) = 16"
  by (simp add: CreateIV_def)

lemma CreateIV_low: "12 \<le> i \<Longrightarrow> i < 16 \<Longrightarrow> CreateIV rnd ! i = 0"
  by (auto simp: CreateIV_def nth_list_update)

lemma length_DoMAC [simp]: "length (DoMAC sha p iv g c r u d s k) = 32"
  by (simp add: DoMAC_def Let_def)

lemma ApplyPassphrase_32:
  assumes "length k = 32"
  shows "ApplyPassphrase sha p iv k =
    Some (xor_bytes (Sum256 sha (str_bytes (p @ '':'' @ hex_encode iv))) k)"
  using assms by (simp add: ApplyPassphrase_def Let_def)

lemma ApplyPassphrase_twice:
  assumes "length k = 32"
    and "ApplyPassphrase sha p iv k = Some e"
  shows "length e = 32 \<and> ApplyPassphrase sha p iv e = Some k"
  using assms ApplyPassphrase_32 [where sha = sha and p = p and iv = iv, OF assms(1)]
  by (auto simp: ApplyPassphrase_32 xor_bytes_twice)

lemma hex_no_colon: "CHR '':'' \<notin> set (hex_encode bs)"
  using hex_encode_chars [of "CHR '':''" bs] by auto

lemma fmt_bool_inject [simp]: "fmt_bool a @ '','' @ x = fmt_bool b @ '','' @ y \<longleftrightarrow> a = b \<and> x = y"
  by (auto simp: fmt_bool_def)

lemma mac_message_inject:
  assumes "mac_message p g c r u d s k = mac_message p g' c' r' u' d' s' k'"
  shows "g = g' \<and> c = c' \<and> r = r' \<and> u = u' \<and> d = d' \<and> s = s' \<and> k = k'"
proof -
  let ?fl = "\<lambda>c r u d s. fmt_bool c @ '','' @ fmt_bool r @ '','' @ fmt_bool u @ '','' @ fmt_bool d
    @ '','' @ fmt_bool s"
  have colon: "CHR '':'' \<notin> set (?fl c r u d s)" for c r u d s
    by (simp add: fmt_bool_def)
  have "(p @ '':'' @ g @ '':'' @ ?fl c r u d s) @ CHR '':'' # hex_encode k
      = (p @ '':'' @ g' @ '':'' @ ?fl c' r' u' d' s') @ CHR '':'' # hex_encode k'"
    using assms by (simp add: mac_message_def)
  from append_Cons_last_eq [OF this hex_no_colon hex_no_colon]
  have k: "k = k'" and rest: "(p @ '':'' @ g) @ CHR '':'' # ?fl c r u d s
      = (p @ '':'' @ g') @ CHR '':'' # ?fl c' r' u' d' s'"
    by auto
  from append_Cons_last_eq [OF rest colon colon]
  have "g = g'" and "?fl c r u d s = ?fl c' r' u' d' s'"
    by auto
  then show ?thesis
    using k by (auto simp: fmt_bool_def split: if_splits)
qed

subsection \<open>AES in counter mode\<close>

text \<open>The counter as \<open>crypto/cipher\<close> keeps it: big-endian, the carry running to the left.\<close>

fun incr_le :: "bytes \<Rightarrow> bytes" where
  "incr_le [] = []"
| "incr_le (b # bs) = (if b + 1 = 0 then 0 # incr_le bs else (b + 1) # bs)"

definition ctr_incr :: "bytes \<Rightarrow> bytes" where
  "ctr_incr ctr = rev (incr_le (rev ctr))"

definition ctr_stream :: "(bytes \<Rightarrow> bytes \<Rightarrow> bytes) \<Rightarrow> bytes \<Rightarrow> bytes \<Rightarrow> nat \<Rightarrow> byte" where
  "ctr_stream aes key iv i = aes key ((ctr_incr ^^ (i div 16)) iv) ! (i mod 16)"

definition XORKeyStream :: "(nat \<Rightarrow> byte) \<Rightarrow> nat \<Rightarrow> bytes \<Rightarrow> bytes" where
  "XORKeyStream ks pos b = map (\<lambda>i. xor (b ! i) (ks (pos + i))) [0..<length b]"

fun le_nat :: "bytes \<Rightarrow> nat" where
  "le_nat [] = 0"
| "le_nat (b # bs) = unat b + 256 * le_nat bs"

definition be_nat :: "bytes \<Rightarrow> nat" where
  "be_nat bs = le_nat (rev bs)"

lemma unat_byte_less: "unat (b :: byte) < 256"
  using unsigned_less [of b] by simp

lemma le_nat_less: "le_nat bs < 256 ^ length bs"
proof (induction bs)
  case (Cons b bs)
  then show ?case
    using unat_byte_less [of b] by (simp add: algebra_simps)
qed simp

lemma le_nat_inject: "length a = length b \<Longrightarrow> le_nat a = le_nat b \<Longrightarrow> a = b"
proof (induction a b rule: list_induct2)
  case (Cons x xs y ys)
  have "(unat x + 256 * le_nat xs) mod 256 = (unat y + 256 * le_nat ys) mod 256"
    and "(unat x + 256 * le_nat xs) div 256 = (unat y + 256 * le_nat ys) div 256"
    using Cons.prems by simp_all
  then have "unat x = unat y" and "le_nat xs = le_nat ys"
    using unat_byte_less [of x] unat_byte_less [of y] by simp_all
  then show ?case
    using Cons.IH by (simp add: unsigned_word_eqI)
qed simp

lemma length_incr_le [simp]: "length (incr_le bs) = length bs"
  by (induction bs) auto

lemma byte_succ: "unat (b + 1 :: byte) = (if b + 1 = 0 then 0 else unat b + 1)"
  using unatSuc [of b] by (simp add: add.commute)

lemma byte_succ_zero: "(b :: byte) + 1 = 0 \<longleftrightarrow> unat b = 255"
proof
  assume "b + 1 = 0"
  then have "b = - 1"
    by (simp add: eq_neg_iff_add_eq_0)
  then show "unat b = 255"
    by (simp add: unsigned_minus_1_eq_mask mask_eq_exp_minus_1)
next
  assume "unat b = 255"
  then have "of_nat (unat b) = (255 :: byte)" by simp
  then show "b + 1 = 0" by simp
qed

lemma le_nat_incr: "le_nat (incr_le bs) = (le_nat bs + 1) mod 256 ^ length bs"
proof (induction bs)
  case (Cons b bs)
  show ?case
  proof (cases "b + 1 = 0")
    case True
    then have "unat b = 255"
      using byte_succ_zero by blast
    then show ?thesis
      using True Cons by (simp add: mult_mod_right)
  next
    case False
    have "unat b + 1 + 256 * le_nat bs < 256 ^ Suc (length bs)"
      using le_nat_less [of bs] False unat_byte_less [of b] byte_succ_zero [of b] by auto
    then show ?thesis
      using False by (simp add: byte_succ)
  qed
qed simp

lemma length_ctr_incr [simp]: "length (ctr_incr c) = length c"
  by (simp add: ctr_incr_def)

lemma length_ctr_pow [simp]: "length ((ctr_incr ^^ n) c) = length c"
  by (induction n) auto

lemma be_nat_incr: "be_nat (ctr_incr c) = (be_nat c + 1) mod 256 ^ length c"
  by (simp add: be_nat_def ctr_incr_def le_nat_incr)

lemma be_nat_pow: "be_nat ((ctr_incr ^^ n) c) = (be_nat c + n) mod 256 ^ length c"
proof (induction n)
  case 0
  then show ?case
    using le_nat_less [of "rev c"] by (simp add: be_nat_def)
next
  case (Suc n)
  then show ?case
    by (simp add: be_nat_incr mod_Suc_eq)
qed

lemma be_nat_inject: "length a = length b \<Longrightarrow> be_nat a = be_nat b \<Longrightarrow> a = b"
  using le_nat_inject [of "rev a" "rev b"] by (simp add: be_nat_def)

lemma length_XORKeyStream [simp]: "length (XORKeyStream ks pos b) = length b"
  by (simp add: XORKeyStream_def)

lemma XORKeyStream_nth [simp]:
  "i < length b \<Longrightarrow> XORKeyStream ks pos b ! i = xor (b ! i) (ks (pos + i))"
  by (simp add: XORKeyStream_def)

lemma XORKeyStream_append:
  "XORKeyStream ks pos (a @ b) = XORKeyStream ks pos a @ XORKeyStream ks (pos + length a) b"
  by (rule nth_equalityI) (auto simp: nth_append)

lemma XORKeyStream_twice: "XORKeyStream ks pos (XORKeyStream ks pos b) = b"
  by (rule nth_equalityI) (simp_all add: xor.assoc)

lemma XORKeyStream_Nil [simp]: "XORKeyStream ks pos [] = []"
  by (simp add: XORKeyStream_def)

lemma drop_XORKeyStream:
  "drop n (XORKeyStream ks pos b) = XORKeyStream ks (pos + n) (drop n b)"
  by (rule nth_equalityI) (auto simp: add.assoc)

lemma take_XORKeyStream: "take n (XORKeyStream ks pos b) = XORKeyStream ks pos (take n b)"
  by (rule nth_equalityI) auto

lemma XORKeyStream_shift: "XORKeyStream (\<lambda>i. ks (n + i)) pos b = XORKeyStream ks (n + pos) b"
  by (rule nth_equalityI) (simp_all add: add.assoc)

subsection \<open>The readers that cipher and count\<close>

record 's cipherStreamReader =
  csr_S :: "nat \<Rightarrow> byte"
  csr_pos :: nat
  csr_R :: 's
  csr_H :: bytes
  csr_Size :: int
  csr_Written :: int

definition newCipherStreamReader :: "(nat \<Rightarrow> byte) \<Rightarrow> 's \<Rightarrow> 's cipherStreamReader" where
  "newCipherStreamReader w r =
     \<lparr>csr_S = w, csr_pos = 0, csr_R = r, csr_H = [], csr_Size = 0, csr_Written = 0\<rparr>"

text \<open>
  On an error other than end of file the bytes read are handed on as they are; otherwise they are
  hashed, then ciphered.
\<close>

definition cipher_Read :: "'s read_fn \<Rightarrow> 's cipherStreamReader read_fn" where
  "cipher_Read rd r k = (case rd (csr_R r) k of (b, err, s') \<Rightarrow>
     (if err \<noteq> None \<and> err \<noteq> Some EOF then (b, err, r\<lparr>csr_R := s'\<rparr>)
      else (XORKeyStream (csr_S r) (csr_pos r) b, err,
            r\<lparr>csr_R := s', csr_H := csr_H r @ b, csr_pos := csr_pos r + length b,
              csr_Size := csr_Size r + int (length b),
              csr_Written := csr_Written r + int (length b)\<rparr>)))"

record 's plainStreamReader =
  psr_R :: 's
  psr_H :: bytes
  psr_Size :: int
  psr_Written :: int

definition newPlainStreamReader :: "'s \<Rightarrow> 's plainStreamReader" where
  "newPlainStreamReader r = \<lparr>psr_R = r, psr_H = [], psr_Size = 0, psr_Written = 0\<rparr>"

definition plain_Read :: "'s read_fn \<Rightarrow> 's plainStreamReader read_fn" where
  "plain_Read rd r k = (case rd (psr_R r) k of (b, err, s') \<Rightarrow>
     (if err \<noteq> None \<and> err \<noteq> Some EOF then (b, err, r\<lparr>psr_R := s'\<rparr>)
      else (b, err,
            r\<lparr>psr_R := s', psr_H := psr_H r @ b,
              psr_Size := psr_Size r + int (length b),
              psr_Written := psr_Written r + int (length b)\<rparr>)))"

definition rangeCopy ::
  "'s read_fn \<Rightarrow> nat \<Rightarrow> writer \<Rightarrow> 's \<Rightarrow> ByteRange option
     \<Rightarrow> (int \<times> go_err option \<times> 's \<times> writer) option" where
  "rangeCopy rd bs dst src byteRange = (case byteRange of
     None \<Rightarrow> io_copy rd bs src dst 0
   | Some br \<Rightarrow>
       (case (if br_Start br > 0 then io_copyN rd bs src new_writer (br_Start br)
              else Some (0, None, src, new_writer)) of
          None \<Rightarrow> None
        | Some (_, err, src', _) \<Rightarrow>
            if err \<noteq> None then Some (0, err, src', dst)
            else if br_Stop br = - 1 then io_copy rd bs src' dst 0
            else io_copyN rd bs src' dst (wrap64 (br_Stop br - br_Start br + 1))))"

text \<open>
  \<open>bs\<close> is the length of the buffer \<open>io.Copy\<close> allocates. The result is the checksum, the length, the
  error, the rest of the input and the output; \<open>None\<close> when the call does not return, as when the
  initialization vector has not the length of a block, where \<open>cipher.NewCTR\<close> panics.
\<close>

definition DoCipherByReaderWriter ::
  "(bytes \<Rightarrow> bytes) \<Rightarrow> (bytes \<Rightarrow> bytes \<Rightarrow> bytes) \<Rightarrow> 's read_fn \<Rightarrow> nat \<Rightarrow> 's \<Rightarrow> writer \<Rightarrow> bytes \<Rightarrow> bytes
     \<Rightarrow> ByteRange option \<Rightarrow> (bytes option \<times> int \<times> go_err option \<times> 's \<times> writer) option" where
  "DoCipherByReaderWriter sha aes rd bs inFile outFile key iv byteRange =
     (if length key \<notin> {16, 24, 32} then Some (None, 0, Some (Err ''key size''), inFile, outFile)
      else if length iv \<noteq> 16 then None
      else (case rangeCopy (cipher_Read rd) bs outFile
                   (newCipherStreamReader (ctr_stream aes key iv) inFile) byteRange of
              None \<Rightarrow> None
            | Some (_, err, r, w) \<Rightarrow> Some (Some (Sum256 sha (csr_H r)), csr_Size r, err, csr_R r, w)))"

definition DoNocipherByReaderWriter ::
  "(bytes \<Rightarrow> bytes) \<Rightarrow> 's read_fn \<Rightarrow> nat \<Rightarrow> 's \<Rightarrow> writer \<Rightarrow> bytes \<Rightarrow> bytes
     \<Rightarrow> ByteRange option \<Rightarrow> (bytes option \<times> int \<times> go_err option \<times> 's \<times> writer) option" where
  "DoNocipherByReaderWriter sha rd bs inFile outFile key iv byteRange =
     (case rangeCopy (plain_Read rd) bs outFile (newPlainStreamReader inFile) byteRange of
        None \<Rightarrow> None
      | Some (_, err, r, w) \<Rightarrow> Some (Some (Sum256 sha (psr_H r)), psr_Size r, err, psr_R r, w))"

definition csr_data :: "('s \<Rightarrow> bytes) \<Rightarrow> 's cipherStreamReader \<Rightarrow> bytes" where
  "csr_data dat r = XORKeyStream (csr_S r) (csr_pos r) (dat (csr_R r))"

definition csr_stats :: "('s \<Rightarrow> bytes) \<Rightarrow> bytes \<Rightarrow> 's cipherStreamReader \<Rightarrow> bool" where
  "csr_stats dat tot r \<longleftrightarrow> csr_H r @ dat (csr_R r) = tot \<and> csr_pos r = length (csr_H r) \<and>
     csr_Size r = int (length (csr_H r)) \<and> csr_Written r = csr_Size r"

context byte_source
begin

lemma cipher_step:
  assumes "ok (csr_R r)" and "0 < k" and "cipher_Read rd r k = (b, e, r')"
  shows "ok (csr_R r') \<and> length b \<le> k \<and> csr_data data r = b @ csr_data data r' \<and>
    (e = None \<and> left (csr_R r') < left (csr_R r) \<or> e = Some EOF \<and> csr_data data r' = [])
    \<and> (csr_stats data t r \<longrightarrow> csr_stats data t r')"
proof -
  obtain c er s' where rdr: "rd (csr_R r) k = (c, er, s')"
    by (metis prod_cases3)
  note step = rd_step [OF assms(1,2) rdr]
  then have er: "er = None \<or> er = Some EOF" by auto
  have b: "b = XORKeyStream (csr_S r) (csr_pos r) c" "e = er"
    and r': "r' = r\<lparr>csr_R := s', csr_H := csr_H r @ c, csr_pos := csr_pos r + length c,
              csr_Size := csr_Size r + int (length c),
              csr_Written := csr_Written r + int (length c)\<rparr>"
    using assms(3) er by (auto simp: cipher_Read_def rdr)
  show ?thesis
    using step by (auto simp: b r' csr_data_def csr_stats_def XORKeyStream_append)
qed

lemma cipher_source:
  "byte_source (cipher_Read rd) (\<lambda>r. ok (csr_R r)) (csr_data data) (\<lambda>r. left (csr_R r))"
  by unfold_locales (use cipher_step in blast)

lemma cipher_stats_copy:
  assumes "ok (csr_R r)" and "0 < bs" and "csr_stats data t r"
    and "io_copy (cipher_Read rd) bs r w n = Some (m, e, r', w')"
  shows "csr_stats data t r'"
proof -
  let ?I = "\<lambda>r. ok (csr_R r) \<and> csr_stats data t r"
  have inv: "?I s'" if "?I s" and "cipher_Read rd s bs = (b, e, s')" for s b e s'
    using cipher_step [of s bs b e s' t] that assms(2) by blast
  from io_copy_inv [OF assms(4), where Inv = ?I, OF conjI [OF assms(1,3)] inv]
  show ?thesis by simp
qed

lemma cipher_stats_copyN:
  assumes "ok (csr_R r)" and "0 < bs" and "csr_stats data t r"
    and "io_copyN (cipher_Read rd) bs r w n = Some (m, e, r', w')"
  shows "csr_stats data t r'"
proof -
  let ?I = "\<lambda>rN. ok (csr_R (fst rN)) \<and> csr_stats data t (fst rN)"
  obtain m1 e1 r1 N1 w1 where c: "io_copy (limited_read (cipher_Read rd)) bs (r, n) w 0
      = Some (m1, e1, (r1, N1), w1)" and "r' = r1"
    using assms(4) by (auto simp: io_copyN_def split: option.splits)
  have inv: "?I sn'" if I: "?I sn" and rd: "limited_read (cipher_Read rd) sn bs = (b, e, sn')"
    for sn b e sn'
  proof (cases "snd sn \<le> 0")
    case True
    then show ?thesis
      using I rd by (cases sn) (auto simp: limited_read_def)
  next
    case False
    obtain r0 N where sn: "sn = (r0, N)" by (cases sn)
    define k where "k = (if int bs > N then nat N else bs)"
    have "0 < k" using False assms(2) by (simp add: k_def sn)
    moreover have "limited_read (cipher_Read rd) sn bs =
        (case cipher_Read rd r0 k of (b, e, s') \<Rightarrow> (b, e, (s', N - int (length b))))"
      using False by (simp add: limited_read_def k_def sn)
    then obtain b1 e1 where "cipher_Read rd r0 k = (b1, e1, fst sn')"
      using rd by (auto split: prod.splits)
    ultimately show ?thesis
      using I cipher_step [of r0 k b1 e1 "fst sn'" t] by (simp add: sn)
  qed
  have "?I (r, n)"
    using assms(1,3) by simp
  from io_copy_inv [OF c, where Inv = ?I, OF this inv] show ?thesis
    by (simp add: \<open>r' = r1\<close>)
qed

lemma rangeCopy_cipher:
  assumes "ok (csr_R r)" and "0 < bs" and "w_cap w = None"
    and "0 \<le> br_Start br" and "br_Start br \<le> int (length (data (csr_R r)))"
    and "br_Stop br = - 1 \<or> br_Start br \<le> br_Stop br \<and> br_Stop br < 2 ^ 63 - 1"
  shows "\<exists>n r'. rangeCopy (cipher_Read rd) bs w r (Some br) = Some (n,
      if br_Stop br \<ge> int (length (data (csr_R r))) then Some EOF else None, r',
      w\<lparr>w_out := w_out w @ (let x = drop (nat (br_Start br)) (csr_data data r) in
        if br_Stop br = - 1 then x else take (nat (br_Stop br - br_Start br + 1)) x)\<rparr>)"
proof -
  note src = cipher_source
  have len: "length (csr_data data r) = length (data (csr_R r))" for r
    by (simp add: csr_data_def)
  obtain n0 r1 w1 where first: "(if br_Start br > 0
        then io_copyN (cipher_Read rd) bs r new_writer (br_Start br)
        else Some (0, None, r, new_writer)) = Some (n0, None, r1, w1)"
    and ok1: "ok (csr_R r1)" and d1: "csr_data data r1 = drop (nat (br_Start br)) (csr_data data r)"
  proof (cases "br_Start br > 0")
    case True
    then show ?thesis
      using byte_source.copyN_ok [OF src, of r bs new_writer "br_Start br"] assms that
      by (auto simp: len new_writer_def)
  next
    case False
    then show ?thesis
      using assms that by auto
  qed
  show ?thesis
  proof (cases "br_Stop br = - 1")
    case True
    then show ?thesis
      using byte_source.copy_all [OF src ok1 assms(2,3), of 0] d1
      by (auto simp: rangeCopy_def first)
  next
    case False
    let ?n = "br_Stop br - br_Start br + 1"
    have n: "wrap64 ?n = ?n" "0 \<le> ?n"
      using False assms by (auto intro: wrap64_id)
    show ?thesis
      using byte_source.copyN_ok [OF src ok1 assms(2,3) n(2)] d1 False assms(4,5,6)
      by (auto simp: rangeCopy_def first n len of_nat_diff)
  qed
qed

lemma DoCipher_all:
  assumes "ok s" and "0 < bs" and "w_cap w = None"
    and "length key \<in> {16, 24, 32}" and "length iv = 16"
  shows "\<exists>s'. DoCipherByReaderWriter sha aes rd bs s w key iv None =
    Some (Some (Sum256 sha (data s)), int (length (data s)), None, s',
      w\<lparr>w_out := w_out w @ XORKeyStream (ctr_stream aes key iv) 0 (data s)\<rparr>)"
proof -
  let ?r = "newCipherStreamReader (ctr_stream aes key iv) s"
  have "ok (csr_R ?r)" and st: "csr_stats data (data s) ?r"
    using assms(1) by (simp_all add: newCipherStreamReader_def csr_stats_def)
  then obtain r' where c: "io_copy (cipher_Read rd) bs ?r w 0 =
      Some (0 + int (length (csr_data data ?r)), None, r', w\<lparr>w_out := w_out w @ csr_data data ?r\<rparr>)"
    and e: "csr_data data r' = []"
    using byte_source.copy_all [OF cipher_source _ assms(2,3)] by blast
  have "csr_stats data (data s) r'"
    using cipher_stats_copy [OF \<open>ok (csr_R ?r)\<close> assms(2) st c] .
  moreover have "data (csr_R r') = []"
    using e by (metis csr_data_def length_XORKeyStream length_0_conv)
  ultimately have "csr_H r' = data s" and "csr_Size r' = int (length (data s))"
    by (auto simp: csr_stats_def)
  then show ?thesis
    using assms(4,5) c
    by (auto simp: DoCipherByReaderWriter_def rangeCopy_def csr_data_def newCipherStreamReader_def)
qed

lemma DoCipher_range:
  assumes "ok s" and "0 < bs" and "w_cap w = None"
    and "length key \<in> {16, 24, 32}" and "length iv = 16"
    and "0 \<le> br_Start br" and "br_Start br \<le> int (length (data s))"
    and "br_Stop br = - 1 \<or> br_Start br \<le> br_Stop br \<and> br_Stop br < 2 ^ 63 - 1"
  shows "\<exists>cs n s'. DoCipherByReaderWriter sha aes rd bs s w key iv (Some br) =
    Some (cs, n, if br_Stop br \<ge> int (length (data s)) then Some EOF else None, s',
      w\<lparr>w_out := w_out w @
        (let x = drop (nat (br_Start br)) (XORKeyStream (ctr_stream aes key iv) 0 (data s)) in
         if br_Stop br = - 1 then x else take (nat (br_Stop br - br_Start br + 1)) x)\<rparr>)"
proof -
  let ?r = "newCipherStreamReader (ctr_stream aes key iv) s"
  have r: "csr_R ?r = s" "csr_data data ?r = XORKeyStream (ctr_stream aes key iv) 0 (data s)"
    by (simp_all add: newCipherStreamReader_def csr_data_def)
  have "\<exists>n r'. rangeCopy (cipher_Read rd) bs w ?r (Some br) = Some (n,
      if br_Stop br \<ge> int (length (data s)) then Some EOF else None, r',
      w\<lparr>w_out := w_out w @ (let x = drop (nat (br_Start br)) (csr_data data ?r) in
        if br_Stop br = - 1 then x else take (nat (br_Stop br - br_Start br + 1)) x)\<rparr>)"
    using rangeCopy_cipher [of ?r bs w br] assms r(1) by simp
  then show ?thesis
    using assms(4,5) by (auto simp: DoCipherByReaderWriter_def r(2))
qed

end

end
