(* ===== verification/Identity.thy ===== *)
theory Identity
  imports Go_Strings
begin

text \<open>
  Who is calling: the distinguished-name functions of \<open>config/TLSUtils.go\<close> and \<open>server/Caller.go\<close>,
  which takes the caller from the headers a proxy sets and the certificate of the connection and
  decides whether the connection may act for the user it names.
\<close>

subsection \<open>Distinguished names (config/TLSUtils.go)\<close>

record Subject =
  CommonName :: string
  Locality :: "string list"
  Province :: "string list"
  OrganizationalUnit :: "string list"
  Organization :: "string list"
  Country :: "string list"
  StreetAddress :: "string list"

definition rdn_parts :: "string \<Rightarrow> string list \<Rightarrow> string" where
  "rdn_parts key vs = concat (map (\<lambda>v. '','' @ key @ ''='' @ v) (rev vs))"

definition GetDistinguishedName :: "Subject \<Rightarrow> string" where
  "GetDistinguishedName cert = (let result =
       (if length (CommonName cert) > 0 then '',cn='' @ CommonName cert else '''')
       @ rdn_parts ''l'' (Locality cert)
       @ rdn_parts ''st'' (Province cert)
       @ rdn_parts ''ou'' (OrganizationalUnit cert)
       @ rdn_parts ''o'' (Organization cert)
       @ rdn_parts ''c'' (Country cert)
       @ rdn_parts ''street'' (StreetAddress cert)
     in if length result > 0 then tl result else result)"

definition getCount :: "string list \<Rightarrow> nat" where
  "getCount v = length (filter (\<lambda>t. length (trim_space t) > 0) v)"

definition trim_parts :: "string list \<Rightarrow> nat \<Rightarrow> string list" where
  "trim_parts v mx = (if mx > 0
     then map (\<lambda>t. to_lower (trim_space t)) (filter (\<lambda>t. length (trim_space t) > 0) v)
     else v)"

definition GetNormalizedDistinguishedName :: "string \<Rightarrow> string" where
  "GetNormalizedDistinguishedName distinguishedName =
     (if length distinguishedName = 0 then distinguishedName
      else let replaced = replace_all ''/'' '','' distinguishedName;
               splitOut = split_char (CHR '','') replaced;
               validCount = getCount splitOut;
               trimmed = trim_parts splitOut validCount
           in if length trimmed = 0 then ''''
              else if has_prefix (trimmed ! 0) ''cn'' then join_str '','' trimmed
              else join_str '','' (rev trimmed))"

definition GetCommonName :: "string \<Rightarrow> string" where
  "GetCommonName dn = (if dn = '''' then ''''
     else case find (\<lambda>s. index_str (to_lower s) ''cn='' = Some 0) (split_char (CHR '','') dn) of
       Some s \<Rightarrow> drop 3 s
     | None \<Rightarrow> dn)"

text \<open>Normalized parts: no separator, no outer space, lower case.\<close>

lemma is_space_lower [simp]: "is_space (char_lower c) = is_space c"
  by (auto simp: is_space_def char_lower_def Let_def)

lemma char_lower_sep [simp]:
  "char_lower c = CHR '','' \<longleftrightarrow> c = CHR '',''"
  "char_lower c = CHR ''/'' \<longleftrightarrow> c = CHR ''/''"
proof -
  have "char_lower c \<noteq> d" if "c \<noteq> d" and "of_char d < (97 :: nat)" for d
  proof (cases "65 \<le> (of_char c :: nat) \<and> of_char c \<le> (90 :: nat)")
    case True
    then have "of_char (char_lower c) = (of_char c :: nat) + 32"
      by (simp add: char_lower_def Let_def)
    then show ?thesis using True that(2) by fastforce
  next
    case False
    then show ?thesis using that(1) by (auto simp: char_lower_def Let_def)
  qed
  from this [of "CHR '',''"] this [of "CHR ''/''"]
  show "char_lower c = CHR '','' \<longleftrightarrow> c = CHR '',''" "char_lower c = CHR ''/'' \<longleftrightarrow> c = CHR ''/''"
    by (auto simp: char_lower_def)
qed

lemma trim_space_lower: "trim_space (to_lower s) = to_lower (trim_space s)"
  by (simp add: trim_space_def to_lower_def dropWhile_map rev_map o_def)

lemma trim_space_hd: "trim_space s \<noteq> [] \<Longrightarrow> \<not> is_space (last (trim_space s))"
  by (simp add: trim_space_def last_rev hd_dropWhile)

lemma trim_space_cases:
  obtains (blank) "trim_space s = []"
  | (some) "trim_space s \<noteq> []" "\<not> is_space (hd (trim_space s))" "\<not> is_space (last (trim_space s))"
proof (cases "trim_space s = []")
  case False
  let ?d = "dropWhile is_space s"
  have "?d \<noteq> []"
    using False by (metis dropWhile.simps(1) rev.simps(1) trim_space_def)
  then have hd: "\<not> is_space (hd ?d)"
    using hd_dropWhile by blast
  obtain ys where ys: "?d = trim_space s @ ys"
    by (metis rev_append rev_rev_ident takeWhile_dropWhile_id trim_space_def)
  then have "hd (trim_space s) = hd ?d"
    using False by simp
  with False hd trim_space_hd [OF False] show ?thesis
    by (intro some) auto
qed (rule blank)

lemma trim_space_idem [simp]: "trim_space (trim_space s) = trim_space s"
  by (cases s rule: trim_space_cases) (simp_all add: trim_space_id)

definition normal_part :: "string \<Rightarrow> bool" where
  "normal_part t \<longleftrightarrow> t \<noteq> [] \<and> trim_space t = t \<and> to_lower t = t \<and> CHR '','' \<notin> set t \<and> CHR ''/'' \<notin> set t"

lemma normal_part_trim:
  assumes "CHR '','' \<notin> set t" and "CHR ''/'' \<notin> set t" and "trim_space t \<noteq> []"
  shows "normal_part (to_lower (trim_space t))"
proof -
  have "CHR '','' \<notin> set (trim_space t)" and "CHR ''/'' \<notin> set (trim_space t)"
    using assms(1,2) set_trim_space [of t] by auto
  then have "CHR '','' \<notin> set (to_lower (trim_space t))" "CHR ''/'' \<notin> set (to_lower (trim_space t))"
    by (auto simp: to_lower_def dest: sym)
  then show ?thesis
    using assms(3) by (simp add: normal_part_def trim_space_lower) (simp add: to_lower_def)
qed

lemma trim_parts_normal:
  assumes "\<And>t. t \<in> set ts \<Longrightarrow> normal_part t"
  shows "trim_parts ts (getCount ts) = ts"
proof -
  have "filter (\<lambda>t. length (trim_space t) > 0) ts = ts"
    using assms by (auto simp: filter_id_conv normal_part_def)
  moreover have "map (\<lambda>t. to_lower (trim_space t)) ts = ts"
    using assms by (auto simp: map_idI normal_part_def)
  ultimately show ?thesis
    by (simp add: trim_parts_def)
qed

text \<open>Normalizing a name that has parts joins them, with a common name first if either end has one.\<close>

definition dn_parts :: "string \<Rightarrow> string list" where
  "dn_parts s = map (\<lambda>t. to_lower (trim_space t))
     (filter (\<lambda>t. trim_space t \<noteq> []) (split_char (CHR '','') (replace_all ''/'' '','' s)))"

definition dn_order :: "string list \<Rightarrow> string list" where
  "dn_order ts = (if has_prefix (hd ts) ''cn'' then ts else rev ts)"

lemma set_replace_slash: "CHR ''/'' \<notin> set (replace_all ''/'' '','' s)"
  by (auto simp: replace_all_char)

lemma split_subset: "p \<in> set (split_char c s) \<Longrightarrow> set p \<subseteq> set s"
proof (induction s arbitrary: p)
  case (Cons x xs)
  show ?case
  proof (cases "split_char c xs")
    case (Cons q qs)
    have "set q \<subseteq> set xs"
      using Cons.IH Cons by simp
    then show ?thesis
      using Cons.prems Cons.IH Cons by (fastforce split: if_splits)
  qed simp
qed simp

lemma dn_parts_normal: "t \<in> set (dn_parts s) \<Longrightarrow> normal_part t"
  unfolding dn_parts_def
  using split_char_parts [of _ "CHR '',''"] split_subset [of _ "CHR '',''"] set_replace_slash [of s]
  by (auto intro!: normal_part_trim) blast

lemma GetNormalized_parts:
  assumes "dn_parts s \<noteq> []"
  shows "GetNormalizedDistinguishedName s = join_str '','' (dn_order (dn_parts s))"
proof -
  let ?v = "split_char (CHR '','') (replace_all ''/'' '','' s)"
  have s: "s \<noteq> []"
    using assms by (auto simp: dn_parts_def)
  have "getCount ?v > 0"
    using assms by (simp add: dn_parts_def getCount_def filter_empty_conv)
  then have "trim_parts ?v (getCount ?v) = dn_parts s"
    by (simp add: trim_parts_def dn_parts_def)
  then show ?thesis
    using s assms by (simp add: GetNormalizedDistinguishedName_def Let_def dn_order_def hd_conv_nth)
qed

lemma set_join_str: "set (join_str sep ts) \<subseteq> set sep \<union> \<Union> (set (map set ts))"
  by (induction sep ts rule: join_str.induct) auto

lemma replace_all_absent: "c \<notin> set s \<Longrightarrow> replace_all [c] new s = s"
  by (induction s) (auto simp: replace_all_char)

lemma dn_parts_join:
  assumes "ts \<noteq> []" and "\<And>t. t \<in> set ts \<Longrightarrow> normal_part t"
  shows "dn_parts (join_str '','' ts) = ts"
proof -
  have "CHR ''/'' \<notin> set (join_str '','' ts)"
    using assms(2) set_join_str [of "'',''" ts] by (auto simp: normal_part_def)
  then have "split_char (CHR '','') (replace_all ''/'' '','' (join_str '','' ts)) = ts"
    using assms by (simp add: replace_all_absent split_join_char normal_part_def)
  moreover have "filter (\<lambda>t. trim_space t \<noteq> []) ts = ts"
    and "map (\<lambda>t. to_lower (trim_space t)) ts = ts"
    using assms(2) by (auto simp: filter_id_conv map_idI normal_part_def)
  ultimately show ?thesis
    by (simp add: dn_parts_def)
qed

lemma set_dn_order [simp]: "set (dn_order ts) = set ts"
  by (simp add: dn_order_def)

lemma dn_order_Nil [simp]: "dn_order ts = [] \<longleftrightarrow> ts = []"
  by (simp add: dn_order_def)

lemma GetNormalized_twice:
  assumes "dn_parts s \<noteq> []"
  shows "GetNormalizedDistinguishedName (GetNormalizedDistinguishedName s)
    = join_str '','' (dn_order (dn_order (dn_parts s)))"
proof -
  have "dn_parts (join_str '','' (dn_order (dn_parts s))) = dn_order (dn_parts s)"
    using assms dn_parts_normal [of _ s] by (intro dn_parts_join) auto
  then show ?thesis
    using assms by (simp add: GetNormalized_parts)
qed

subsection \<open>The caller (server/Caller.go)\<close>

record Caller =
  DistinguishedName :: string
  UserDistinguishedName :: string
  ExternalSystemDistinguishedName :: string
  SSLClientSDistinguishedName :: string
  CallerCommonName :: string
  TransactionType :: string
  Groups :: "string list"

text \<open>A request as these functions see it: its headers (the empty string for an absent one) and the
  state of its TLS connection, with the certificates the peer presented.\<close>

record TLSState =
  HandshakeComplete :: bool
  PeerCertificates :: "Subject list"

record Request =
  Header :: "string \<Rightarrow> string"
  TLS :: "TLSState option"

definition isHTTPS :: "Request \<Rightarrow> bool" where
  "isHTTPS r = (case TLS r of None \<Rightarrow> False | Some t \<Rightarrow> HandshakeComplete t)"

definition peer_certificates :: "Request \<Rightarrow> Subject list" where
  "peer_certificates r = (case TLS r of None \<Rightarrow> [] | Some t \<Rightarrow> PeerCertificates t)"

definition CallerFromRequest :: "Request \<Rightarrow> Caller" where
  "CallerFromRequest r = (let
     user = GetNormalizedDistinguishedName (Header r ''USER_DN'');
     ext = Header r ''EXTERNAL_SYS_DN'';
     ssl = (if isHTTPS r
            then (if length (peer_certificates r) > 0
                  then GetDistinguishedName (peer_certificates r ! 0) else '''')
            else Header r ''SSL_CLIENT_S_DN'');
     dn = GetNormalizedDistinguishedName (if user \<noteq> '''' then user else ssl)
   in \<lparr>DistinguishedName = dn, UserDistinguishedName = user,
       ExternalSystemDistinguishedName = ext, SSLClientSDistinguishedName = ssl,
       CallerCommonName = GetCommonName dn, TransactionType = '''', Groups = []\<rparr>)"

definition have_dn :: "string \<Rightarrow> bool" where
  "have_dn s \<longleftrightarrow> length s > 0"

definition whitelistContains :: "string list \<Rightarrow> string \<Rightarrow> bool" where
  "whitelistContains lst clientID = list_ex (\<lambda>v.
     to_lower (GetNormalizedDistinguishedName v) = to_lower (GetNormalizedDistinguishedName clientID)) lst"

definition canImpersonateUser :: "string list \<Rightarrow> string \<Rightarrow> string \<Rightarrow> bool" where
  "canImpersonateUser whitelist clientID user = (if \<not> whitelistContains whitelist clientID then False else True)"

text \<open>The caller with its transaction type, and the message of the error or \<open>None\<close>.\<close>

definition ValidateHeaders :: "Caller \<Rightarrow> string list \<Rightarrow> Request \<Rightarrow> Caller \<times> string option" where
  "ValidateHeaders c whitelist r = (let
     userDn = UserDistinguishedName c;
     sslClientSDn = SSLClientSDistinguishedName c;
     externalSysDn = ExternalSystemDistinguishedName c;
     imp = c\<lparr>TransactionType := ''IMPERSONATION''\<rparr>;
     msgBoth = ''Unauthorized: Either or both of the ssl_client_s_dn or external_sys_dn are not authorized to impersonate or have access.'';
     msgSsl = ''Unauthorized: The ssl_client_s_dn is not authorized to impersonate or have access.''
   in if isHTTPS r then
        (if \<not> have_dn userDn \<and> have_dn sslClientSDn \<and> \<not> have_dn externalSysDn
           then (c\<lparr>TransactionType := ''NORMAL''\<rparr>, None)
         else if have_dn userDn \<and> have_dn sslClientSDn \<and> have_dn externalSysDn then
           (if \<not> canImpersonateUser whitelist sslClientSDn userDn \<or>
               \<not> canImpersonateUser whitelist externalSysDn userDn
            then (imp, Some msgBoth) else (imp, None))
         else if have_dn userDn \<and> have_dn sslClientSDn \<and> \<not> have_dn externalSysDn then
           (if \<not> canImpersonateUser whitelist sslClientSDn userDn
            then (imp, Some msgSsl) else (imp, None))
         else if \<not> have_dn userDn \<and> have_dn sslClientSDn \<and> have_dn externalSysDn then
           (imp, Some ''Unauthorized: Missing the user_dn'')
         else (c\<lparr>TransactionType := ''UNKNOWN''\<rparr>,
           Some ''Unauthorized: Invalid connection. Required headers, user_dn and possibly external_sys_dn are missing.''))
      else
        (if have_dn userDn \<and> have_dn sslClientSDn \<and> have_dn externalSysDn then
           (if \<not> canImpersonateUser whitelist sslClientSDn userDn \<or>
               \<not> canImpersonateUser whitelist externalSysDn userDn
            then (imp, Some msgBoth) else (imp, None))
         else if have_dn userDn \<and> have_dn sslClientSDn then
           (if \<not> canImpersonateUser whitelist sslClientSDn userDn
            then (imp, Some msgSsl) else (imp, None))
         else if have_dn userDn then
           (imp, Some ''Unauthorized: Connection is not authorized to impersonate. Neither ssl_client_s_dn or external_sys_dn were found.'')
         else (imp, Some ''Unauthorized: Invalid connection. Required headers are missing, user_dn, ssl_client_s_dn, and or external_sys_dn.'')))"

lemma ValidateHeaders_None:
  "snd (ValidateHeaders c wl r) = None \<longleftrightarrow>
     have_dn (SSLClientSDistinguishedName c) \<and>
     (if have_dn (UserDistinguishedName c)
      then whitelistContains wl (SSLClientSDistinguishedName c) \<and>
           (have_dn (ExternalSystemDistinguishedName c) \<longrightarrow>
              whitelistContains wl (ExternalSystemDistinguishedName c))
      else isHTTPS r \<and> \<not> have_dn (ExternalSystemDistinguishedName c))"
  by (auto simp: ValidateHeaders_def Let_def canImpersonateUser_def)

subsection \<open>Properties\<close>

text \<open>C34: a request that passes \<open>ValidateHeaders\<close> acts for the user its USER_DN names only when the
  connection's own certificate name is on the whitelist, and the external system's name too when one
  is given; without USER_DN the connection is TLS and the caller is the holder of its certificate.\<close>

theorem accepted_caller:
  assumes "snd (ValidateHeaders (CallerFromRequest r) wl r) = None"
  shows "if UserDistinguishedName (CallerFromRequest r) \<noteq> ''''
    then whitelistContains wl (SSLClientSDistinguishedName (CallerFromRequest r)) \<and>
      (Header r ''EXTERNAL_SYS_DN'' \<noteq> '''' \<longrightarrow> whitelistContains wl (Header r ''EXTERNAL_SYS_DN''))
    else isHTTPS r \<and> peer_certificates r \<noteq> [] \<and> Header r ''EXTERNAL_SYS_DN'' = '''' \<and>
      DistinguishedName (CallerFromRequest r) =
        GetNormalizedDistinguishedName (GetDistinguishedName (hd (peer_certificates r)))"
  using assms unfolding ValidateHeaders_None
  by (auto simp: CallerFromRequest_def Let_def have_dn_def hd_conv_nth split: if_splits)

theorem accepted_caller_witness:
  "let r = \<lparr>Header = (\<lambda>h. if h = ''USER_DN'' then ''cn=u'' else if h = ''SSL_CLIENT_S_DN'' then ''cn=s'' else ''''),
            TLS = None\<rparr>
   in whitelistContains [''cn=s''] (SSLClientSDistinguishedName (CallerFromRequest r))"
proof -
  let ?r = "\<lparr>Header = (\<lambda>h. if h = ''USER_DN'' then ''cn=u'' else if h = ''SSL_CLIENT_S_DN'' then ''cn=s'' else ''''),
            TLS = None\<rparr>"
  have u: "GetNormalizedDistinguishedName ''cn=u'' = ''cn=u''"
    by (simp add: GetNormalizedDistinguishedName_def replace_all_char getCount_def trim_parts_def
        trim_space_def is_space_def char_lower_def Let_def)
  have "snd (ValidateHeaders (CallerFromRequest ?r) [''cn=s''] ?r) = None"
    unfolding ValidateHeaders_None
    by (simp add: CallerFromRequest_def isHTTPS_def have_dn_def whitelistContains_def u Let_def)
  from accepted_caller [OF this] show ?thesis
    by (simp add: CallerFromRequest_def isHTTPS_def u Let_def)
qed

text \<open>Normalizing a distinguished name is stable when an end of the name is a common name, however
  it is delimited, cased or spaced; a name with no common name at either end is reversed by every
  further call.\<close>

theorem normalized_dn_stable:
  assumes "dn_parts s \<noteq> []"
  shows "GetNormalizedDistinguishedName (GetNormalizedDistinguishedName s) =
    (if has_prefix (hd (dn_parts s)) ''cn'' \<or> has_prefix (last (dn_parts s)) ''cn''
     then GetNormalizedDistinguishedName s
     else join_str '','' (dn_parts s))"
  unfolding GetNormalized_twice [OF assms]
  using assms by (simp add: GetNormalized_parts dn_order_def hd_rev)

theorem normalized_dn_stable_witness:
  "GetNormalizedDistinguishedName (GetNormalizedDistinguishedName ''/C=US/CN=Bob'') = ''cn=bob,c=us''"
proof -
  have p: "dn_parts ''/C=US/CN=Bob'' = [''c=us'', ''cn=bob'']"
    by (simp add: dn_parts_def replace_all_char trim_space_def is_space_def char_eval)
  then have "dn_parts ''/C=US/CN=Bob'' \<noteq> []" by simp
  from normalized_dn_stable [OF this] GetNormalized_parts [OF this] show ?thesis
    by (simp add: p dn_order_def)
qed

end
