(* ===== verification/Models.thy ===== *)
theory Models
  imports Crypto_Stream Identity
begin

text \<open>
  \<open>metadata/models\<close>: nullable strings, the grantee and permission rows (\<open>ODAcmGrantee.go\<close>,
  \<open>ODObjectPermission.go\<close>) with the operations that build them from resource names, wrap the file
  key of an object for a grantee, and sign and check a permission; and the object row
  (\<open>ODObject.go\<close>). Times are integers; \<open>sha\<close> is SHA-256, and the random bytes a function draws are
  arguments.
\<close>

subsection \<open>Nullable strings and grantees\<close>

record NullString =
  ns_String :: string
  ns_Valid :: bool

definition null_string :: NullString where
  "null_string = \<lparr>ns_String = '''', ns_Valid = False\<rparr>"

definition ToNullString :: "string \<Rightarrow> NullString" where
  "ToNullString s = \<lparr>ns_String = s, ns_Valid = (s \<noteq> '''')\<rparr>"

lemma ToNullString_simps [simp]:
  "ns_String (ToNullString s) = s"
  "ns_Valid (ToNullString s) \<longleftrightarrow> s \<noteq> ''''"
  by (simp_all add: ToNullString_def)

record ODAcmGrantee =
  g_Grantee :: string
  g_ResourceString :: NullString
  g_ProjectName :: NullString
  g_ProjectDisplayName :: NullString
  g_GroupName :: NullString
  g_UserDistinguishedName :: NullString
  g_DisplayName :: NullString

definition empty_grantee :: ODAcmGrantee where
  "empty_grantee = \<lparr>g_Grantee = '''', g_ResourceString = null_string, g_ProjectName = null_string,
     g_ProjectDisplayName = null_string, g_GroupName = null_string,
     g_UserDistinguishedName = null_string, g_DisplayName = null_string\<rparr>"

definition flatten_removed :: "char list" where
  "flatten_removed = [CHR '' '', CHR '','', CHR ''='', CHR 0x27, CHR '':'', CHR ''('', CHR '')'',
     CHR ''$'', CHR ''['', CHR '']'', CHR ''{'', CHR ''}'', CHR ''|'', CHR 0x5C]"

definition AACFlatten :: "string \<Rightarrow> string" where
  "AACFlatten inVal =
     fold (\<lambda>s out. replace_all [s] ''_'' out) [CHR ''.'', CHR ''-'']
       (fold (\<lambda>s out. replace_all [s] '''' out) flatten_removed (to_lower inVal))"

definition getResourceName :: "ODAcmGrantee \<Rightarrow> bool \<Rightarrow> string" where
  "getResourceName g withDisplay =
     (if length (ns_String (g_DisplayName g)) > 0 then
        (let o1 = (if length (ns_String (g_UserDistinguishedName g)) > 0
                   then [''user'', ns_String (g_UserDistinguishedName g)]
                   else if length (ns_String (g_GroupName g)) > 0
                   then [''group''] @
                     (if length (ns_String (g_ProjectName g)) > 0
                      then [ns_String (g_ProjectName g),
                            if length (ns_String (g_ProjectDisplayName g)) > 0
                            then ns_String (g_ProjectDisplayName g) else ns_String (g_ProjectName g)]
                      else []) @ [ns_String (g_GroupName g)]
                   else [''unknown'']);
             o2 = (if withDisplay then o1 @ [ns_String (g_DisplayName g)] else o1)
         in if length o2 > 0 then join_str ''/'' o2 else '''')
      else '''')"

definition ResourceName :: "ODAcmGrantee \<Rightarrow> string" where
  "ResourceName g = getResourceName g False"

definition ResourceNameRaw :: "ODAcmGrantee \<Rightarrow> string" where
  "ResourceNameRaw g = getResourceName g False"

text \<open>The display name of a user is that of the last \<open>cn\<close> part of its distinguished name.\<close>

definition dn_display :: "string \<Rightarrow> NullString \<Rightarrow> NullString" where
  "dn_display dnpart disp = (let dnkv = split_char (CHR ''='') dnpart in
     if length dnkv > 1 \<and> dnkv ! 0 = ''cn'' then ToNullString (dnkv ! 1) else disp)"

definition newODAcmGranteeFromUserResource :: "string \<Rightarrow> ODAcmGrantee" where
  "newODAcmGranteeFromUserResource resource =
     (let parts = split_char (CHR ''/'') (replace_n (Some 1) ''user/'' '''' resource);
          grantee = empty_grantee\<lparr>g_UserDistinguishedName := ToNullString (parts ! 0),
            g_Grantee := AACFlatten (parts ! 0), g_DisplayName := ToNullString (parts ! 0)\<rparr>
      in if length parts > 1 then grantee\<lparr>g_DisplayName := ToNullString (parts ! 1)\<rparr>
         else grantee\<lparr>g_DisplayName :=
           fold dn_display (split_char (CHR '','') (parts ! 0)) (g_DisplayName grantee)\<rparr>)"

definition newODAcmGranteeFromGroupResource :: "string \<Rightarrow> ODAcmGrantee" where
  "newODAcmGranteeFromGroupResource resource =
     (let parts = split_char (CHR ''/'') (replace_n (Some 1) ''group/'' '''' (to_lower resource));
          with_group = (\<lambda>pn pdn gn. empty_grantee\<lparr>g_ProjectName := pn, g_ProjectDisplayName := pdn,
            g_GroupName := gn\<rparr>);
          nul = null_string;
          grantee =
            (if length parts = 1 then with_group nul nul (ToNullString (parts ! 0))
             else if length parts = 2 then
               (if AACFlatten (parts ! 0) \<noteq> AACFlatten (parts ! 1)
                then with_group (ToNullString (parts ! 0)) (ToNullString (parts ! 0)) (ToNullString (parts ! 1))
                else with_group nul nul (ToNullString (parts ! 1)))
             else if length parts = 3 then
               (if AACFlatten (parts ! 0) = AACFlatten (parts ! 1)
                then with_group (ToNullString (parts ! 0)) (ToNullString (parts ! 1)) (ToNullString (parts ! 2))
                else with_group (ToNullString (parts ! 0)) (ToNullString (parts ! 0)) (ToNullString (parts ! 1)))
             else with_group (ToNullString (parts ! 0)) (ToNullString (parts ! 1)) (ToNullString (parts ! 2)));
          pdn = ns_String (g_ProjectDisplayName grantee);
          gn = ns_String (g_GroupName grantee)
      in if length pdn > 0
         then grantee\<lparr>g_Grantee := AACFlatten (trim_space (pdn @ ''_'' @ gn)),
                g_DisplayName := ToNullString (trim_space (pdn @ '' '' @ gn))\<rparr>
         else grantee\<lparr>g_Grantee := AACFlatten gn, g_DisplayName := ToNullString gn\<rparr>)"

definition NewODAcmGranteeFromResourceName :: "string \<Rightarrow> ODAcmGrantee" where
  "NewODAcmGranteeFromResourceName resourceName =
     (if has_prefix resourceName ''user/'' then newODAcmGranteeFromUserResource resourceName
      else if has_prefix resourceName ''group/'' then newODAcmGranteeFromGroupResource resourceName
      else empty_grantee)"

lemma AACFlatten_map [code]: "AACFlatten s =
    concat (map (\<lambda>c. if c \<in> set flatten_removed then []
                      else if c = CHR ''.'' \<or> c = CHR ''-'' then ''_'' else [c]) (to_lower s))"
proof -
  have "fold (\<lambda>s out. replace_all [s] '''' out) cs t = filter (\<lambda>c. c \<notin> set cs) t" for cs t
  proof (induction cs arbitrary: t)
    case (Cons a cs)
    have "replace_all [a] '''' t = filter (\<lambda>c. c \<noteq> a) t"
      by (induction t) (auto simp: replace_all_char)
    then show ?case
      using Cons by (simp add: conj_commute)
  qed simp
  note rem = this
  show ?thesis
    unfolding AACFlatten_def rem
    by (induction s) (auto simp: replace_all_char flatten_removed_def)
qed

subsection \<open>Permissions\<close>

record ODObjectPermission =
  p_ID :: slice
  p_CreatedDate :: int
  p_CreatedBy :: string
  p_ModifiedDate :: int
  p_ModifiedBy :: string
  p_IsDeleted :: bool
  p_DeletedDate :: "int option"
  p_DeletedBy :: NullString
  p_ChangeCount :: int
  p_ChangeToken :: string
  p_ObjectID :: slice
  p_Grantee :: string
  p_AcmShare :: string
  p_AcmGrantee :: ODAcmGrantee
  p_AllowCreate :: bool
  p_AllowRead :: bool
  p_AllowUpdate :: bool
  p_AllowDelete :: bool
  p_AllowShare :: bool
  p_ExplicitShare :: bool
  p_EncryptKey :: bytes
  p_PermissionIV :: bytes
  p_PermissionMAC :: bytes

definition empty_permission :: ODObjectPermission where
  "empty_permission = \<lparr>p_ID = None, p_CreatedDate = 0, p_CreatedBy = '''', p_ModifiedDate = 0,
     p_ModifiedBy = '''', p_IsDeleted = False, p_DeletedDate = None, p_DeletedBy = null_string,
     p_ChangeCount = 0, p_ChangeToken = '''', p_ObjectID = None, p_Grantee = '''', p_AcmShare = '''',
     p_AcmGrantee = empty_grantee, p_AllowCreate = False, p_AllowRead = False,
     p_AllowUpdate = False, p_AllowDelete = False, p_AllowShare = False, p_ExplicitShare = False,
     p_EncryptKey = [], p_PermissionIV = [], p_PermissionMAC = []\<rparr>"

definition CalculatePermissionMAC :: "(bytes \<Rightarrow> bytes) \<Rightarrow> string \<Rightarrow> ODObjectPermission \<Rightarrow> bytes" where
  "CalculatePermissionMAC sha passphrase src = DoMAC sha passphrase (p_PermissionIV src) (p_Grantee src)
     (p_AllowCreate src) (p_AllowRead src) (p_AllowUpdate src) (p_AllowDelete src) (p_AllowShare src)
     (p_EncryptKey src)"

text \<open>\<open>rnd\<close> is what \<open>CreatePermissionIV\<close> draws; \<open>None\<close> when \<open>ApplyPassphrase\<close> ends the program.\<close>

definition CopyEncryptKey ::
  "(bytes \<Rightarrow> bytes) \<Rightarrow> bytes \<Rightarrow> string \<Rightarrow> ODObjectPermission \<Rightarrow> ODObjectPermission \<Rightarrow> ODObjectPermission option" where
  "CopyEncryptKey sha rnd passphrase src dst =
     (case ApplyPassphrase sha passphrase (p_PermissionIV src) (p_EncryptKey src) of
        None \<Rightarrow> None
      | Some d \<Rightarrow>
          (let dst1 = dst\<lparr>p_PermissionIV := CreatePermissionIV rnd\<rparr> in
           case ApplyPassphrase sha passphrase (p_PermissionIV dst1) d of
             None \<Rightarrow> None
           | Some e \<Rightarrow>
               (let dst2 = dst1\<lparr>p_EncryptKey := e\<rparr>
                in Some (dst2\<lparr>p_PermissionMAC := CalculatePermissionMAC sha passphrase dst2\<rparr>))))"

definition SetEncryptKey ::
  "(bytes \<Rightarrow> bytes) \<Rightarrow> bytes \<Rightarrow> bytes \<Rightarrow> string \<Rightarrow> ODObjectPermission \<Rightarrow> ODObjectPermission option" where
  "SetEncryptKey sha rnd_key rnd_iv passphrase dst =
     (let k = CreateKey rnd_key;
          dst1 = dst\<lparr>p_PermissionIV := CreatePermissionIV rnd_iv\<rparr> in
      case ApplyPassphrase sha passphrase (p_PermissionIV dst1) k of
        None \<Rightarrow> None
      | Some e \<Rightarrow>
          (let dst2 = dst1\<lparr>p_EncryptKey := e\<rparr>
           in Some (dst2\<lparr>p_PermissionMAC := CalculatePermissionMAC sha passphrase dst2\<rparr>)))"

definition EqualsPermissionMAC :: "(bytes \<Rightarrow> bytes) \<Rightarrow> string \<Rightarrow> ODObjectPermission \<Rightarrow> bool" where
  "EqualsPermissionMAC sha passphrase src = (let m = CalculatePermissionMAC sha passphrase src in
     if length m \<noteq> length (p_PermissionMAC src) then False
     else list_all (\<lambda>i. m ! i = p_PermissionMAC src ! i) [0..<length m])"

definition IsReadOnly :: "ODObjectPermission \<Rightarrow> bool" where
  "IsReadOnly p \<longleftrightarrow> \<not> p_AllowCreate p \<and> p_AllowRead p \<and> \<not> p_AllowUpdate p \<and> \<not> p_AllowDelete p
     \<and> \<not> p_AllowShare p"

definition set_flags :: "bool \<Rightarrow> bool \<Rightarrow> bool \<Rightarrow> bool \<Rightarrow> bool \<Rightarrow> ODObjectPermission \<Rightarrow> ODObjectPermission" where
  "set_flags c r u d s p = p\<lparr>p_AllowCreate := c, p_AllowRead := r, p_AllowUpdate := u,
     p_AllowDelete := d, p_AllowShare := s\<rparr>"

text \<open>The JSON text \<open>{"users":["dn"]}\<close>, with the quotation mark as its code.\<close>

definition dq :: string where
  "dq = [CHR 0x22]"

definition PermissionForUser :: "string \<Rightarrow> bool \<Rightarrow> bool \<Rightarrow> bool \<Rightarrow> bool \<Rightarrow> bool \<Rightarrow> ODObjectPermission" where
  "PermissionForUser user c r u d s =
     (let grantee = AACFlatten user in
      set_flags c r u d s (empty_permission\<lparr>
        p_Grantee := grantee,
        p_AcmShare := ''{'' @ dq @ ''users'' @ dq @ '':['' @ dq @ user @ dq @ '']}'',
        p_AcmGrantee := empty_grantee\<lparr>g_Grantee := grantee,
          g_UserDistinguishedName := ToNullString user,
          g_DisplayName := ToNullString (GetCommonName user)\<rparr>\<rparr>))"

definition PermissionForGroup ::
  "string \<Rightarrow> string \<Rightarrow> string \<Rightarrow> bool \<Rightarrow> bool \<Rightarrow> bool \<Rightarrow> bool \<Rightarrow> bool \<Rightarrow> ODObjectPermission" where
  "PermissionForGroup projectName projectDisplayName groupName c r u d s =
     (let grantee = (if length (trim_space projectDisplayName) > 0
            then AACFlatten (trim_space (projectDisplayName @ ''_'' @ groupName))
            else AACFlatten (trim_space groupName)) in
      set_flags c r u d s (empty_permission\<lparr>
        p_Grantee := grantee,
        p_AcmShare := ''{'' @ dq @ ''projects'' @ dq @ '':{'' @ dq @ to_lower projectName @ dq @ '':{''
          @ dq @ ''disp_nm'' @ dq @ '':'' @ dq @ projectDisplayName @ dq @ '','' @ dq @ ''groups'' @ dq
          @ '':['' @ dq @ groupName @ dq @ '']}}}'',
        p_AcmGrantee := empty_grantee\<lparr>g_Grantee := grantee,
          g_ProjectName := ToNullString (to_lower projectName),
          g_ProjectDisplayName := ToNullString projectDisplayName,
          g_GroupName := ToNullString groupName,
          g_DisplayName := ToNullString (trim_space (projectDisplayName @ '' '' @ groupName))\<rparr>\<rparr>))"

definition PermissionWithoutRead :: "ODObjectPermission \<Rightarrow> ODObjectPermission" where
  "PermissionWithoutRead i = (let g = p_AcmGrantee i in
     if ns_Valid (g_UserDistinguishedName g) \<and> length (ns_String (g_UserDistinguishedName g)) > 0
     then PermissionForUser (ns_String (g_UserDistinguishedName g)) (p_AllowCreate i) False
            (p_AllowUpdate i) (p_AllowDelete i) (p_AllowShare i)
     else PermissionForGroup (ns_String (g_ProjectName g)) (ns_String (g_ProjectDisplayName g))
            (ns_String (g_GroupName g)) (p_AllowCreate i) False
            (p_AllowUpdate i) (p_AllowDelete i) (p_AllowShare i))"

definition PermissionForOwner :: "string \<Rightarrow> ODObjectPermission \<times> ODObjectPermission" where
  "PermissionForOwner ownerResourceName =
     (let g = NewODAcmGranteeFromResourceName ownerResourceName;
          dn = ns_String (g_UserDistinguishedName g);
          pn = ns_String (g_ProjectName g);
          pdn = ns_String (g_ProjectDisplayName g);
          gn = ns_String (g_GroupName g)
      in if length dn > 0
         then (PermissionForUser dn True True True True True, PermissionForUser dn False True False False False)
         else (PermissionForGroup pn pdn gn True True True True True,
               PermissionForGroup pn pdn gn False True False False False))"

definition perm_IsCreating :: "ODObjectPermission \<Rightarrow> bool" where
  "perm_IsCreating p \<longleftrightarrow> slice_len (p_ID p) = 0"

definition iifString :: "bool \<Rightarrow> string \<Rightarrow> string \<Rightarrow> string" where
  "iifString c t f = (if c then t else f)"

definition permission_String :: "ODObjectPermission \<Rightarrow> string" where
  "permission_String p = ''['' @ iifString (p_AllowCreate p) ''C'' ''-'' @ iifString (p_AllowRead p) ''R'' ''-''
     @ iifString (p_AllowUpdate p) ''U'' ''-'' @ iifString (p_AllowDelete p) ''D'' ''-''
     @ iifString (p_AllowShare p) ''S'' ''-'' @ ''] '' @ p_Grantee p @ '' '' @ p_AcmShare p"

definition getResourceNameFromAcmGrantee :: "ODAcmGrantee \<Rightarrow> string" where
  "getResourceNameFromAcmGrantee g = ResourceNameRaw g"

text \<open>
  The count 0 given to \<open>strings.Replace\<close> makes each of these replacements return its argument, as the
  code has it. A slice up to index -1, when there is no quotation mark, panics: \<open>None\<close>.
\<close>

definition before_quote :: "string \<Rightarrow> string option" where
  "before_quote s = map_option (\<lambda>i. take i s) (index_str s dq)"

definition getResourceNameFromAcmShare :: "string \<Rightarrow> string option" where
  "getResourceNameFromAcmShare acmShare =
     (if length acmShare > 0 then
        (if has_prefix acmShare (''{'' @ dq @ ''users'' @ dq) then
           (let u1 = replace_n (Some 0) (''{'' @ dq @ ''users'' @ dq @ '':['' @ dq) '''' acmShare;
                u = replace_n (Some 0) (dq @ '']}'') '''' u1;
                lst = (if length u > 0 then [''user'', u] else [])
            in Some (if length lst > 0 then join_str ''/'' lst else ''''))
         else if has_prefix acmShare (''{'' @ dq @ ''projects'' @ dq) then
           (let g1 = replace_n (Some 0) (''{'' @ dq @ ''projects'' @ dq @ '':{'' @ dq) '''' acmShare in
            case before_quote g1 of None \<Rightarrow> None | Some projectName \<Rightarrow>
           (let g2 = replace_n (Some 0) projectName '''' g1;
                g3 = replace_n (Some 0) (dq @ '':{'' @ dq @ ''disp_nm'' @ dq @ '':'' @ dq) '''' g2 in
            case before_quote g3 of None \<Rightarrow> None | Some projectDisplayName \<Rightarrow>
           (let g4 = replace_n (Some 0) projectDisplayName '''' g3;
                g5 = replace_n (Some 0) (dq @ '','' @ dq @ ''groups'' @ dq @ '':['' @ dq) '''' g4;
                groupName = replace_n (Some 0) (dq @ '']}}}'') '''' g5;
                lst = (if length projectName > 0 \<and> length projectDisplayName > 0 \<and> length groupName > 0
                     then [''group'', projectName, projectDisplayName, groupName]
                     else if length groupName > 0 then [''group'', groupName] else [])
            in Some (if length lst > 0 then join_str ''/'' lst else ''''))))
         else Some '''')
      else Some '''')"

definition GetResourceName :: "ODObjectPermission \<Rightarrow> string option" where
  "GetResourceName p =
     (if length (ns_String (g_DisplayName (p_AcmGrantee p))) > 0
      then Some (getResourceNameFromAcmGrantee (p_AcmGrantee p))
      else if length (p_AcmShare p) > 0 then getResourceNameFromAcmShare (p_AcmShare p)
      else Some '''')"

definition createODPermissionFromUserResource :: "string \<Rightarrow> ODObjectPermission" where
  "createODPermissionFromUserResource resource =
     (let parts = split_char (CHR ''/'') (replace_n (Some 1) ''user/'' '''' resource)
      in PermissionForUser (parts ! 0) False False False False False)"

definition createODPermissionFromGroupResource :: "string \<Rightarrow> ODObjectPermission" where
  "createODPermissionFromGroupResource resource =
     (let parts = split_char (CHR ''/'') (replace_n (Some 1) ''group/'' '''' resource)
      in if length parts = 1 then PermissionForGroup '''' '''' (parts ! 0) False False False False False
         else if length parts = 2 then PermissionForGroup '''' '''' (parts ! 1) False False False False False
         else PermissionForGroup (parts ! 0) (parts ! 1) (parts ! 2) False False False False False)"

definition CreateODPermissionFromResource :: "string \<Rightarrow> string + ODObjectPermission" where
  "CreateODPermissionFromResource resource =
     (if has_prefix resource ''user/'' then Inr (createODPermissionFromUserResource resource)
      else if has_prefix resource ''group/'' then Inr (createODPermissionFromGroupResource resource)
      else Inl (''unhandled format for resource string `'' @ resource
             @ ''`, must begin with `user/` or `group/`''))"

subsection \<open>What the operations on permissions keep\<close>

lemma set_flags_simps [simp, flag_simps]:
  "p_AllowCreate (set_flags c r u d s p) = c"
  "p_AllowRead (set_flags c r u d s p) = r"
  "p_AllowUpdate (set_flags c r u d s p) = u"
  "p_AllowDelete (set_flags c r u d s p) = d"
  "p_AllowShare (set_flags c r u d s p) = s"
  "p_Grantee (set_flags c r u d s p) = p_Grantee p"
  "p_AcmShare (set_flags c r u d s p) = p_AcmShare p"
  "p_AcmGrantee (set_flags c r u d s p) = p_AcmGrantee p"
  "p_IsDeleted (set_flags c r u d s p) = p_IsDeleted p"
  "p_ID (set_flags c r u d s p) = p_ID p"
  by (simp_all add: set_flags_def)

lemma EqualsPermissionMAC_iff:
  "EqualsPermissionMAC sha pw p \<longleftrightarrow> p_PermissionMAC p = CalculatePermissionMAC sha pw p"
  unfolding EqualsPermissionMAC_def Let_def
  by (auto simp: list_all_iff intro!: nth_equalityI)

lemma CalculatePermissionMAC_mac [simp]:
  "CalculatePermissionMAC sha pw (p\<lparr>p_PermissionMAC := m\<rparr>) = CalculatePermissionMAC sha pw p"
  by (simp add: CalculatePermissionMAC_def)

definition key_of_row :: "(bytes \<Rightarrow> bytes) \<Rightarrow> string \<Rightarrow> ODObjectPermission \<Rightarrow> bytes option" where
  "key_of_row sha pw p = ApplyPassphrase sha pw (p_PermissionIV p) (p_EncryptKey p)"

lemma CopyEncryptKey_Some:
  assumes "length (p_EncryptKey src) = 32"
  shows "\<exists>dst'. CopyEncryptKey sha rnd pw src dst = Some dst' \<and>
    key_of_row sha pw dst' = key_of_row sha pw src \<and> key_of_row sha pw src \<noteq> None \<and>
    EqualsPermissionMAC sha pw dst' \<and> length (p_EncryptKey dst') = 32 \<and>
    dst' = dst\<lparr>p_PermissionIV := p_PermissionIV dst', p_EncryptKey := p_EncryptKey dst',
      p_PermissionMAC := p_PermissionMAC dst'\<rparr>"
proof -
  obtain d where d: "ApplyPassphrase sha pw (p_PermissionIV src) (p_EncryptKey src) = Some d"
    using ApplyPassphrase_32 assms by blast
  have ld: "length d = 32"
    using ApplyPassphrase_twice [OF assms d] by blast
  obtain e where e: "ApplyPassphrase sha pw (CreatePermissionIV rnd) d = Some e"
    using ApplyPassphrase_32 ld by blast
  have "length e = 32" "ApplyPassphrase sha pw (CreatePermissionIV rnd) e = Some d"
    using ApplyPassphrase_twice [OF ld e] by auto
  then show ?thesis
    by (simp add: CopyEncryptKey_def d e key_of_row_def EqualsPermissionMAC_iff Let_def)
qed

lemma SetEncryptKey_Some:
  shows "\<exists>dst'. SetEncryptKey sha rk ri pw dst = Some dst' \<and>
    key_of_row sha pw dst' = Some (CreateKey rk) \<and> EqualsPermissionMAC sha pw dst' \<and>
    length (p_EncryptKey dst') = 32 \<and>
    dst' = dst\<lparr>p_PermissionIV := p_PermissionIV dst', p_EncryptKey := p_EncryptKey dst',
      p_PermissionMAC := p_PermissionMAC dst'\<rparr>"
proof -
  have lk: "length (CreateKey rk) = 32" by simp
  obtain e where e: "ApplyPassphrase sha pw (CreatePermissionIV ri) (CreateKey rk) = Some e"
    using ApplyPassphrase_32 [OF lk] by blast
  have "length e = 32" "ApplyPassphrase sha pw (CreatePermissionIV ri) e = Some (CreateKey rk)"
    using ApplyPassphrase_twice [OF lk e] by auto
  then show ?thesis
    by (simp add: SetEncryptKey_def e key_of_row_def EqualsPermissionMAC_iff Let_def)
qed

subsection \<open>The contract of copying a wrapped key\<close>

text \<open>
  What the handlers rely on when they copy the key of one permission to another: the copy wraps the
  same file key and is signed, and differs from its target in nothing but the three fields of the
  wrapping. \<open>whole\<close> says that a permission has a wrapped key at all; the number is that of the call, which
  draws its own randomness.
\<close>

locale key_copy =
  fixes copy :: "nat \<Rightarrow> ODObjectPermission \<Rightarrow> ODObjectPermission \<Rightarrow> ODObjectPermission option"
    and key :: "ODObjectPermission \<Rightarrow> bytes option"
    and vmac :: "ODObjectPermission \<Rightarrow> bool"
    and whole :: "ODObjectPermission \<Rightarrow> bool"
  assumes copy_total: "whole src \<Longrightarrow> \<exists>dst'. copy r src dst = Some dst'"
    and copy_key: "whole src \<Longrightarrow> copy r src dst = Some dst' \<Longrightarrow> key dst' = key src \<and> whole dst'"
    and copy_signed: "whole src \<Longrightarrow> copy r src dst = Some dst' \<Longrightarrow> vmac dst'"
    and copy_rest: "whole src \<Longrightarrow> copy r src dst = Some dst' \<Longrightarrow>
      dst' = dst\<lparr>p_PermissionIV := p_PermissionIV dst', p_EncryptKey := p_EncryptKey dst',
        p_PermissionMAC := p_PermissionMAC dst'\<rparr>"
begin

lemma copy_fields:
  assumes "whole src" and "copy r src dst = Some dst'"
  shows "p_Grantee dst' = p_Grantee dst \<and> p_IsDeleted dst' = p_IsDeleted dst \<and>
    p_AllowCreate dst' = p_AllowCreate dst \<and> p_AllowRead dst' = p_AllowRead dst \<and>
    p_AllowUpdate dst' = p_AllowUpdate dst \<and> p_AllowDelete dst' = p_AllowDelete dst \<and>
    p_AllowShare dst' = p_AllowShare dst"
proof -
  have "f dst' = f (dst\<lparr>p_PermissionIV := p_PermissionIV dst', p_EncryptKey := p_EncryptKey dst',
        p_PermissionMAC := p_PermissionMAC dst'\<rparr>)" for f :: "ODObjectPermission \<Rightarrow> 'x"
    using copy_rest [OF assms] by (rule arg_cong)
  from this [of p_Grantee] this [of p_IsDeleted] this [of p_AllowCreate] this [of p_AllowRead]
    this [of p_AllowUpdate] this [of p_AllowDelete] this [of p_AllowShare]
  show ?thesis by simp
qed

end

definition has_key :: "ODObjectPermission \<Rightarrow> bool" where
  "has_key p \<longleftrightarrow> length (p_EncryptKey p) = 32"

interpretation key_wrap: key_copy "\<lambda>n. CopyEncryptKey sha (rnd n) pw" "key_of_row sha pw"
  "EqualsPermissionMAC sha pw" has_key
  for sha :: "bytes \<Rightarrow> bytes" and rnd :: "nat \<Rightarrow> bytes" and pw :: string
proof
  fix r :: nat and src dst dst'
  assume w: "has_key src"
  then have l: "length (p_EncryptKey src) = 32"
    by (simp add: has_key_def)
  note c = CopyEncryptKey_Some [OF l, of sha "rnd r" pw dst]
  show "\<exists>dst'. CopyEncryptKey sha (rnd r) pw src dst = Some dst'"
    using c by blast
  assume "CopyEncryptKey sha (rnd r) pw src dst = Some dst'"
  then show "key_of_row sha pw dst' = key_of_row sha pw src \<and> has_key dst'"
    and "EqualsPermissionMAC sha pw dst'"
    and "dst' = dst\<lparr>p_PermissionIV := p_PermissionIV dst', p_EncryptKey := p_EncryptKey dst',
        p_PermissionMAC := p_PermissionMAC dst'\<rparr>"
    using c by (auto simp: has_key_def)
qed

lemma AACFlatten_lower [simp]: "AACFlatten (to_lower s) = AACFlatten s"
  by (simp add: AACFlatten_def)

lemma flatten_chars:
  "c \<in> set (AACFlatten s) \<Longrightarrow> char_lower c = c \<and> c \<notin> set flatten_removed \<and> c \<noteq> CHR ''.'' \<and> c \<noteq> CHR ''-''"
proof -
  have lower: "char_lower x = x" if "x \<in> set (to_lower s)" for x
    using that by (auto simp: to_lower_def)
  have us: "char_lower (CHR 0x5F) = CHR 0x5F" "CHR 0x5F \<notin> set flatten_removed"
    by (simp_all add: char_lower_def flatten_removed_def)
  show "c \<in> set (AACFlatten s) \<Longrightarrow> char_lower c = c \<and> c \<notin> set flatten_removed \<and> c \<noteq> CHR ''.'' \<and> c \<noteq> CHR ''-''"
    using lower us by (auto simp: AACFlatten_map split: if_splits)
qed

lemma AACFlatten_fixed:
  "(\<And>c. c \<in> set s \<Longrightarrow> char_lower c = c \<and> c \<notin> set flatten_removed \<and> c \<noteq> CHR ''.'' \<and> c \<noteq> CHR ''-'')
    \<Longrightarrow> AACFlatten s = s"
  by (induction s) (auto simp: AACFlatten_map)

lemma AACFlatten_idem: "AACFlatten (AACFlatten s) = AACFlatten s"
  using flatten_chars by (blast intro: AACFlatten_fixed)

lemma PermissionForUser_simps [simp]:
  "p_Grantee (PermissionForUser x c r u d s) = AACFlatten x"
  "p_AcmGrantee (PermissionForUser x c r u d s) = empty_grantee\<lparr>g_Grantee := AACFlatten x,
     g_UserDistinguishedName := ToNullString x, g_DisplayName := ToNullString (GetCommonName x)\<rparr>"
  "p_IsDeleted (PermissionForUser x c r u d s) = False"
  by (simp_all add: PermissionForUser_def Let_def empty_permission_def)

lemma PermissionForUser_flags [simp, flag_simps]:
  "p_AllowCreate (PermissionForUser x c r u d s) = c"
  "p_AllowRead (PermissionForUser x c r u d s) = r"
  "p_AllowUpdate (PermissionForUser x c r u d s) = u"
  "p_AllowDelete (PermissionForUser x c r u d s) = d"
  "p_AllowShare (PermissionForUser x c r u d s) = s"
  by (simp_all add: PermissionForUser_def Let_def)

lemma PermissionForGroup_flags [simp, flag_simps]:
  "p_AllowCreate (PermissionForGroup pn pdn gn c r u d s) = c"
  "p_AllowRead (PermissionForGroup pn pdn gn c r u d s) = r"
  "p_AllowUpdate (PermissionForGroup pn pdn gn c r u d s) = u"
  "p_AllowDelete (PermissionForGroup pn pdn gn c r u d s) = d"
  "p_AllowShare (PermissionForGroup pn pdn gn c r u d s) = s"
  "p_IsDeleted (PermissionForGroup pn pdn gn c r u d s) = False"
  by (simp_all add: PermissionForGroup_def Let_def empty_permission_def)

lemma PermissionForGroup_grantee:
  "p_Grantee (PermissionForGroup pn pdn gn c r u d s) =
     (if length (trim_space pdn) > 0 then AACFlatten (trim_space (pdn @ ''_'' @ gn))
      else AACFlatten (trim_space gn))"
  "p_AcmGrantee (PermissionForGroup pn pdn gn c r u d s) =
     empty_grantee\<lparr>g_Grantee := p_Grantee (PermissionForGroup pn pdn gn c r u d s),
       g_ProjectName := ToNullString (to_lower pn), g_ProjectDisplayName := ToNullString pdn,
       g_GroupName := ToNullString gn, g_DisplayName := ToNullString (trim_space (pdn @ '' '' @ gn))\<rparr>"
  by (simp_all add: PermissionForGroup_def Let_def)

lemma PermissionForOwner_same_grantee:
  "p_Grantee (fst (PermissionForOwner x)) = p_Grantee (snd (PermissionForOwner x))"
  by (simp add: PermissionForOwner_def Let_def PermissionForGroup_grantee)

lemma PermissionForOwner_flags [flag_simps]:
  "p_AllowCreate (fst (PermissionForOwner x)) \<and> p_AllowRead (fst (PermissionForOwner x)) \<and>
   p_AllowUpdate (fst (PermissionForOwner x)) \<and> p_AllowDelete (fst (PermissionForOwner x)) \<and>
   p_AllowShare (fst (PermissionForOwner x)) \<and> \<not> p_IsDeleted (fst (PermissionForOwner x))"
  "IsReadOnly (snd (PermissionForOwner x))"
  by (simp_all add: PermissionForOwner_def Let_def IsReadOnly_def)

lemma PermissionForGroup_ResourceName:
  assumes "pdn \<noteq> ''''" and "pn \<noteq> ''''" and "gn \<noteq> ''''" and "trim_space (pdn @ '' '' @ gn) \<noteq> ''''"
  shows "ResourceName (p_AcmGrantee (PermissionForGroup pn pdn gn c r u d s))
    = ''group/'' @ join_str ''/'' [to_lower pn, pdn, gn]"
  using assms
  by (simp add: ResourceName_def getResourceName_def PermissionForGroup_grantee Let_def
      empty_grantee_def null_string_def to_lower_def)

lemma group_parts:
  assumes "CHR ''/'' \<notin> set pn" and "CHR ''/'' \<notin> set pdn" and "CHR ''/'' \<notin> set gn"
  shows "split_char (CHR ''/'') (replace_n (Some 1) ''group/'' ''''
      (to_lower (''group/'' @ join_str ''/'' [to_lower pn, pdn, gn]))) = [to_lower pn, to_lower pdn, to_lower gn]"
proof -
  have l: "to_lower ''group/'' = ''group/''" "to_lower ''/'' = ''/''"
    by (simp_all add: to_lower_def char_lower_def)
  have "\<forall>p \<in> set [to_lower pn, to_lower pdn, to_lower gn]. CHR ''/'' \<notin> set p"
    using assms by (auto simp: to_lower_def dest: sym)
  then have "split_char (CHR ''/'') (join_str [CHR ''/''] [to_lower pn, to_lower pdn, to_lower gn])
      = [to_lower pn, to_lower pdn, to_lower gn]"
    by (intro split_join_char) auto
  moreover have "to_lower (''group/'' @ join_str ''/'' [to_lower pn, pdn, gn])
      = ''group/'' @ join_str ''/'' [to_lower pn, to_lower pdn, to_lower gn]"
    using l by (simp only: to_lower_append join_str.simps to_lower_idem)
  moreover have "replace_n (Some 1) ''group/'' '''' (''group/'' @ j) = j" for j
    using replace_first_prefix [of "''group/''" "''''" j] by simp
  ultimately show ?thesis
    by (simp only:)
qed

text \<open>A field of the attributes the access control service gives for a user (\<open>acm/ODriveRawSnippet.go\<close>).\<close>

record RawSnippetFields =
  FieldName :: string
  Treatment :: string
  FieldValues :: "string list"

subsection \<open>Objects\<close>

record NullInt64 =
  ni_Int64 :: int
  ni_Valid :: bool

record ODObjectPropertyEx =
  pr_ID :: slice
  pr_CreatedDate :: int
  pr_CreatedBy :: string
  pr_ModifiedDate :: int
  pr_ModifiedBy :: string
  pr_IsDeleted :: bool
  pr_DeletedDate :: "int option"
  pr_DeletedBy :: NullString
  pr_ChangeCount :: int
  pr_ChangeToken :: string
  pr_Name :: string
  pr_Value :: NullString
  pr_ClassificationPM :: NullString

record ODCommonPermission =
  cp_AllowCreate :: bool
  cp_AllowRead :: bool
  cp_AllowUpdate :: bool
  cp_AllowDelete :: bool
  cp_AllowShare :: bool

record ODObject =
  o_ID :: slice
  o_CreatedDate :: int
  o_CreatedBy :: string
  o_ModifiedDate :: int
  o_ModifiedBy :: string
  o_IsDeleted :: bool
  o_DeletedDate :: "int option"
  o_DeletedBy :: NullString
  o_ChangeCount :: int
  o_ChangeToken :: string
  o_IsAncestorDeleted :: bool
  o_IsExpunged :: bool
  o_ExpungedDate :: "int option"
  o_ExpungedBy :: NullString
  o_OwnedBy :: NullString
  o_TypeID :: slice
  o_Name :: string
  o_Description :: NullString
  o_ParentID :: slice
  o_ContentConnector :: NullString
  o_RawAcm :: NullString
  o_ContentType :: NullString
  o_ContentSize :: NullInt64
  o_ContentHash :: slice
  o_EncryptIV :: slice
  o_TypeName :: NullString
  o_Properties :: "ODObjectPropertyEx list"
  o_Permissions :: "ODObjectPermission list"
  o_CallerPermissions :: ODCommonPermission
  o_ContainsUSPersonsData :: string
  o_ExemptFromFOIA :: string
  o_ACMID :: int

definition obj_IsCreating :: "ODObject \<Rightarrow> bool" where
  "obj_IsCreating x \<longleftrightarrow> slice_len (o_ID x) = 0"

definition empty_object :: ODObject where
  "empty_object = \<lparr>o_ID = None, o_CreatedDate = 0, o_CreatedBy = '''', o_ModifiedDate = 0,
     o_ModifiedBy = '''', o_IsDeleted = False, o_DeletedDate = None, o_DeletedBy = null_string,
     o_ChangeCount = 0, o_ChangeToken = '''', o_IsAncestorDeleted = False, o_IsExpunged = False,
     o_ExpungedDate = None, o_ExpungedBy = null_string, o_OwnedBy = null_string, o_TypeID = None,
     o_Name = '''', o_Description = null_string, o_ParentID = None,
     o_ContentConnector = null_string, o_RawAcm = null_string, o_ContentType = null_string,
     o_ContentSize = \<lparr>ni_Int64 = 0, ni_Valid = False\<rparr>, o_ContentHash = None, o_EncryptIV = None,
     o_TypeName = null_string, o_Properties = [], o_Permissions = [],
     o_CallerPermissions = \<lparr>cp_AllowCreate = False, cp_AllowRead = False, cp_AllowUpdate = False,
       cp_AllowDelete = False, cp_AllowShare = False\<rparr>,
     o_ContainsUSPersonsData = '''', o_ExemptFromFOIA = '''', o_ACMID = 0\<rparr>"

subsection \<open>Properties\<close>

text \<open>Copying an encryption key to another permission keeps the file key it wraps, under a fresh
  initialization vector, and leaves a permission whose MAC is valid; nothing else of the target
  changes. The source key has the 32 bytes of every key the server makes.\<close>

theorem copy_encrypt_key:
  assumes "length (p_EncryptKey src) = 32"
  shows "\<exists>dst'. CopyEncryptKey sha rnd pw src dst = Some dst' \<and>
    key_of_row sha pw dst' = key_of_row sha pw src \<and> key_of_row sha pw src \<noteq> None \<and>
    EqualsPermissionMAC sha pw dst' \<and> p_PermissionIV dst' = CreatePermissionIV rnd \<and>
    dst' = dst\<lparr>p_PermissionIV := p_PermissionIV dst', p_EncryptKey := p_EncryptKey dst',
      p_PermissionMAC := p_PermissionMAC dst'\<rparr>"
proof -
  obtain dst' where d: "CopyEncryptKey sha rnd pw src dst = Some dst'"
    using CopyEncryptKey_Some [OF assms] by blast
  moreover have "p_PermissionIV dst' = CreatePermissionIV rnd"
    using d by (auto simp: CopyEncryptKey_def Let_def split: option.splits)
  ultimately show ?thesis
    using CopyEncryptKey_Some [OF assms, where sha = sha and rnd = rnd and pw = pw and dst = dst] by simp
qed

theorem copy_encrypt_key_witness:
  "\<exists>dst'. CopyEncryptKey (\<lambda>m. replicate 32 (of_nat (length m))) [1, 2, 3] ''pass''
      (empty_permission\<lparr>p_EncryptKey := replicate 32 7, p_PermissionIV := [5]\<rparr>)
      (PermissionForUser ''cn=a'' True True False False False) = Some dst' \<and>
    EqualsPermissionMAC (\<lambda>m. replicate 32 (of_nat (length m))) ''pass'' dst'"
  using copy_encrypt_key [where src = "empty_permission\<lparr>p_EncryptKey := replicate 32 7, p_PermissionIV := [5]\<rparr>"
      and sha = "\<lambda>m. replicate 32 (of_nat (length m))" and rnd = "[1, 2, 3]" and pw = "''pass''"
      and dst = "PermissionForUser ''cn=a'' True True False False False"]
  by auto

text \<open>The text the MAC of a permission is the digest of.\<close>

definition permission_message :: "string \<Rightarrow> ODObjectPermission \<Rightarrow> bytes" where
  "permission_message pw p = str_bytes (mac_message pw (p_Grantee p) (p_AllowCreate p) (p_AllowRead p)
     (p_AllowUpdate p) (p_AllowDelete p) (p_AllowShare p) (p_EncryptKey p))"

lemma permission_digest: "CalculatePermissionMAC sha pw p = Sum256 sha (permission_message pw p)"
proof -
  have "map (\<lambda>i. h ! i) [0..<32] = h" if "length h = 32" for h :: bytes
    using map_nth [of h] unfolding that .
  from this [OF length_Sum256] show ?thesis
    unfolding CalculatePermissionMAC_def DoMAC_def permission_message_def Let_def .
qed

text \<open>C25: the MAC binds what it is computed over. Under one passphrase, and when SHA-256 does not collide on the two
  texts that are digested, two permissions have the same MAC exactly when they agree on the grantee, the five
  capabilities and the encrypted key, whatever else they hold.\<close>

theorem permission_mac_binds:
  assumes "inj_on (Sum256 sha) {permission_message pw p, permission_message pw q}"
  shows "CalculatePermissionMAC sha pw p = CalculatePermissionMAC sha pw q \<longleftrightarrow>
    p_Grantee p = p_Grantee q \<and> p_AllowCreate p = p_AllowCreate q \<and> p_AllowRead p = p_AllowRead q \<and>
    p_AllowUpdate p = p_AllowUpdate q \<and> p_AllowDelete p = p_AllowDelete q \<and>
    p_AllowShare p = p_AllowShare q \<and> p_EncryptKey p = p_EncryptKey q"
proof -
  have "CalculatePermissionMAC sha pw p = CalculatePermissionMAC sha pw q \<longleftrightarrow> permission_message pw p = permission_message pw q"
    unfolding permission_digest by (rule inj_on_eq_iff [OF assms]) simp_all
  also have "\<dots> \<longleftrightarrow> mac_message pw (p_Grantee p) (p_AllowCreate p) (p_AllowRead p) (p_AllowUpdate p) (p_AllowDelete p)
        (p_AllowShare p) (p_EncryptKey p) =
      mac_message pw (p_Grantee q) (p_AllowCreate q) (p_AllowRead q) (p_AllowUpdate q) (p_AllowDelete q)
        (p_AllowShare q) (p_EncryptKey q)"
    by (simp add: permission_message_def str_bytes_inject)
  also have "\<dots> \<longleftrightarrow> p_Grantee p = p_Grantee q \<and> p_AllowCreate p = p_AllowCreate q \<and> p_AllowRead p = p_AllowRead q \<and>
      p_AllowUpdate p = p_AllowUpdate q \<and> p_AllowDelete p = p_AllowDelete q \<and>
      p_AllowShare p = p_AllowShare q \<and> p_EncryptKey p = p_EncryptKey q"
    by (rule iffI, erule mac_message_inject) simp
  finally show ?thesis .
qed

text \<open>Under a digest that tells the lengths of the texts apart, the permission to create cannot be added to a signed row.\<close>

theorem permission_mac_binds_witness:
  "CalculatePermissionMAC (\<lambda>m. [of_nat (length m)]) ''k'' (PermissionForUser ''a'' True True False False False)
    \<noteq> CalculatePermissionMAC (\<lambda>m. [of_nat (length m)]) ''k'' (PermissionForUser ''a'' False True False False False)"
proof -
  let ?p = "PermissionForUser ''a'' True True False False False" and ?q = "PermissionForUser ''a'' False True False False False"
  let ?sha = "\<lambda>m :: bytes. [of_nat (length m)] :: bytes"
  have "Sum256 ?sha (permission_message ''k'' ?p) \<noteq> Sum256 ?sha (permission_message ''k'' ?q)"
    by code_simp
  then have "inj_on (Sum256 ?sha) {permission_message ''k'' ?p, permission_message ''k'' ?q}"
    by (simp add: inj_on_def)
  moreover have "p_AllowCreate ?p \<noteq> p_AllowCreate ?q"
    by code_simp
  ultimately show ?thesis
    using permission_mac_binds by blast
qed

text \<open>C39: the resource name of a group grantee leads back to the same grantee: parsing the name that \<open>ResourceName\<close>
  writes gives the flattened grantee of the permission, so owner and grantee comparisons agree. It holds when the project
  key and the project display name flatten to the same value, none of the three names has a slash, the project and the
  group are named, and the display name is not blank; \<open>group_grantee_misread\<close> shows what happens otherwise.\<close>

theorem group_grantee_roundtrip:
  assumes "CHR ''/'' \<notin> set pn" and "CHR ''/'' \<notin> set pdn" and "CHR ''/'' \<notin> set gn"
    and "pn \<noteq> ''''" and "gn \<noteq> ''''" and "trim_space pdn \<noteq> ''''"
    and "trim_space (pdn @ '' '' @ gn) \<noteq> ''''" and "AACFlatten pn = AACFlatten pdn"
  shows "g_Grantee (NewODAcmGranteeFromResourceName
      (ResourceName (p_AcmGrantee (PermissionForGroup pn pdn gn c r u d s))))
    = p_Grantee (PermissionForGroup pn pdn gn c r u d s)"
proof -
  have pdn: "pdn \<noteq> ''''" using assms(6) by auto
  let ?rn = "''group/'' @ join_str ''/'' [to_lower pn, pdn, gn]"
  have rn: "ResourceName (p_AcmGrantee (PermissionForGroup pn pdn gn c r u d s)) = ?rn"
    using PermissionForGroup_ResourceName [OF pdn assms(4,5,7)] .
  have tr: "to_lower pdn @ CHR ''_'' # to_lower gn = to_lower (pdn @ ''_'' @ gn)"
    by (simp add: char_lower_def)
  have "AACFlatten (trim_space (to_lower pdn @ CHR ''_'' # to_lower gn))
      = AACFlatten (trim_space (pdn @ ''_'' @ gn))"
    unfolding tr trim_space_lower by simp
  moreover have "\<not> has_prefix ?rn ''user/''" "has_prefix ?rn ''group/''"
    by simp_all
  ultimately show ?thesis
    using assms(6,8) pdn
    unfolding rn NewODAcmGranteeFromResourceName_def newODAcmGranteeFromGroupResource_def Let_def
      group_parts [OF assms(1-3)] PermissionForGroup_grantee(1)
    by (simp add: empty_grantee_def null_string_def)
qed

theorem group_grantee_roundtrip_witness:
  "g_Grantee (NewODAcmGranteeFromResourceName
      (ResourceName (p_AcmGrantee (PermissionForGroup ''dctc'' ''DCTC'' ''odrive'' True True True True True))))
    = p_Grantee (PermissionForGroup ''dctc'' ''DCTC'' ''odrive'' True True True True True)"
  by (rule group_grantee_roundtrip)
    (simp_all add: trim_space_def is_space_def AACFlatten_map char_eval
      flatten_removed_def)

text \<open>When the project display name is not a variant of the project key the round trip fails: the
  name written for the group \<open>odrive\<close> of project \<open>dctc\<close>, displayed as \<open>Team One\<close>, is read back as
  the group \<open>team one\<close> of a project \<open>dctc\<close>, which is another grantee.\<close>

theorem group_grantee_misread:
  "p_Grantee (PermissionForGroup ''dctc'' ''Team One'' ''odrive'' True True True True True) = ''teamone_odrive''
   \<and> g_Grantee (NewODAcmGranteeFromResourceName
      (ResourceName (p_AcmGrantee (PermissionForGroup ''dctc'' ''Team One'' ''odrive'' True True True True True))))
     = ''dctc_teamone''"
proof -
  have rn: "ResourceName (p_AcmGrantee (PermissionForGroup ''dctc'' ''Team One'' ''odrive'' True True True True True))
      = ''group/'' @ join_str ''/'' [to_lower ''dctc'', ''Team One'', ''odrive'']"
    by (rule PermissionForGroup_ResourceName) (simp_all add: trim_space_def is_space_def)
  have parts: "split_char (CHR ''/'') (replace_n (Some 1) ''group/'' ''''
      (to_lower (''group/'' @ join_str ''/'' [to_lower ''dctc'', ''Team One'', ''odrive''])))
      = [to_lower ''dctc'', to_lower ''Team One'', to_lower ''odrive'']"
    by (rule group_parts) simp_all
  have "\<not> has_prefix (''group/'' @ join_str ''/'' [to_lower ''dctc'', ''Team One'', ''odrive'']) ''user/''"
    "has_prefix (''group/'' @ join_str ''/'' [to_lower ''dctc'', ''Team One'', ''odrive'']) ''group/''"
    by simp_all
  then show ?thesis
    unfolding rn NewODAcmGranteeFromResourceName_def newODAcmGranteeFromGroupResource_def Let_def parts
    by (simp add: PermissionForGroup_grantee AACFlatten_map trim_space_def is_space_def char_eval
        flatten_removed_def empty_grantee_def null_string_def)
qed

end
