(* ===== verification/Protocol.thy ===== *)
theory Protocol
  imports Models
begin

text \<open>
  \<open>protocol\<close>: the permission a client sees, by capability with allowed and denied resources
  (\<open>Permission.go\<close>), the older form by grantee (\<open>Permission1_0.go\<close>), the composite permission of
  the caller (\<open>CallerPermission.go\<close>, \<open>Caller.go\<close>) and the operations of \<open>Object.go\<close> that fill it in.

  \<open>RemoveDuplicates\<close> ranges over two Go maps, whose order is open; the model lists the keys in the
  order of their first insertion, and the theorems speak of the set of resources.
\<close>

subsection \<open>Permission by capability (Permission.go)\<close>

record PermissionCapability =
  AllowedResources :: "string list"
  DeniedResources :: "string list"

record Permission =
  pm_Create :: PermissionCapability
  pm_Read :: PermissionCapability
  pm_Update :: PermissionCapability
  pm_Delete :: PermissionCapability
  pm_Share :: PermissionCapability

definition RemoveDuplicates :: "PermissionCapability \<Rightarrow> PermissionCapability" where
  "RemoveDuplicates capability =
     (let allowed0 = fold (\<lambda>r m. assoc_set r True m) (AllowedResources capability) [];
          denied = fold (\<lambda>r m. assoc_set r True m) (DeniedResources capability) [];
          allowed = fold (\<lambda>r m. assoc_set r False m) (DeniedResources capability) allowed0
      in \<lparr>AllowedResources = map fst (filter snd allowed),
          DeniedResources = map fst (filter snd denied)\<rparr>)"

definition Consolidated :: "Permission \<Rightarrow> Permission" where
  "Consolidated p = \<lparr>pm_Create = RemoveDuplicates (pm_Create p), pm_Read = RemoveDuplicates (pm_Read p),
     pm_Update = RemoveDuplicates (pm_Update p), pm_Delete = RemoveDuplicates (pm_Delete p),
     pm_Share = RemoveDuplicates (pm_Share p)\<rparr>"

lemma map_of_fold_assoc_set:
  "map_of (fold (\<lambda>r m. assoc_set r v m) rs m0) k = (if k \<in> set rs then Some v else map_of m0 k)"
  by (induction rs arbitrary: m0) auto

lemma distinct_fold_assoc_set:
  "distinct (map fst m0) \<Longrightarrow> distinct (map fst (fold (\<lambda>r m. assoc_set r v m) rs m0))"
  by (induction rs arbitrary: m0) auto

lemma set_filter_true:
  "distinct (map fst m) \<Longrightarrow> set (map fst (filter snd m)) = {k. map_of m k = Some True}"
  by force

lemma distinct_filter_true: "distinct (map fst m) \<Longrightarrow> distinct (map fst (filter snd m))"
  by (simp add: distinct_map_filter)

lemma set_RemoveDuplicates:
  "set (AllowedResources (RemoveDuplicates c)) = set (AllowedResources c) - set (DeniedResources c)"
  "set (DeniedResources (RemoveDuplicates c)) = set (DeniedResources c)"
  by (auto simp: RemoveDuplicates_def Let_def set_filter_true distinct_fold_assoc_set
      map_of_fold_assoc_set split: if_splits simp del: set_map)

lemma distinct_RemoveDuplicates:
  "distinct (AllowedResources (RemoveDuplicates c))" "distinct (DeniedResources (RemoveDuplicates c))"
  by (simp_all add: RemoveDuplicates_def Let_def distinct_filter_true distinct_fold_assoc_set)

subsection \<open>The caller's composite permission (CallerPermission.go, Caller.go)\<close>

definition EveryoneGroup :: string where
  "EveryoneGroup = ''-Everyone''"

definition InGroup :: "Caller \<Rightarrow> string \<Rightarrow> bool" where
  "InGroup caller gname = list_ex (\<lambda>grp. AACFlatten gname = AACFlatten grp) (Groups caller)"

definition GetFlattenedUserFromResource :: "string \<Rightarrow> string" where
  "GetFlattenedUserFromResource resource =
     (let parts = split_char (CHR ''/'') (replace_n (Some 1) ''user/'' '''' resource)
      in if length parts > 0 then AACFlatten (parts ! 0) else '''')"

definition GetFlattenedGroupFromResource :: "string \<Rightarrow> string" where
  "GetFlattenedGroupFromResource resource =
     (let parts = split_char (CHR ''/'') (replace_n (Some 1) ''group/'' '''' resource)
      in if length parts = 1 \<or> length parts = 2 then AACFlatten (parts ! 0)
         else if length parts = 3 \<or> length parts = 4 then AACFlatten (parts ! 0 @ ''_'' @ parts ! 2)
         else '''')"

definition GetFlattenedUnknownFromResource :: "string \<Rightarrow> string" where
  "GetFlattenedUnknownFromResource resource =
     (let parts = split_char (CHR ''/'') (replace_n (Some 1) ''unknown/'' '''' resource)
      in if length parts > 0 then AACFlatten (parts ! 0) else '''')"

definition GetFlattenedNameFromResource :: "string \<Rightarrow> string" where
  "GetFlattenedNameFromResource resource =
     (if length resource = 0 then ''''
      else if has_prefix resource ''user/'' then GetFlattenedUserFromResource resource
      else if has_prefix resource ''group/'' then GetFlattenedGroupFromResource resource
      else if has_prefix resource ''unknown/'' then GetFlattenedUnknownFromResource resource
      else AACFlatten resource)"

definition IsInResources :: "Caller \<Rightarrow> string list \<Rightarrow> bool" where
  "IsInResources caller resources = list_ex (\<lambda>resource.
     let flattened = GetFlattenedNameFromResource resource in
       flattened = AACFlatten (DistinguishedName caller) \<or> flattened = AACFlatten EveryoneGroup \<or>
       InGroup caller flattened) resources"

record CallerPermission =
  clp_AllowCreate :: bool
  clp_AllowRead :: bool
  clp_AllowUpdate :: bool
  clp_AllowDelete :: bool
  clp_AllowShare :: bool

definition may_use :: "Caller \<Rightarrow> PermissionCapability \<Rightarrow> bool" where
  "may_use caller c \<longleftrightarrow> IsInResources caller (AllowedResources c) \<and> \<not> IsInResources caller (DeniedResources c)"

definition WithRolledUp :: "Caller \<Rightarrow> Permission \<Rightarrow> CallerPermission" where
  "WithRolledUp caller p = \<lparr>clp_AllowCreate = may_use caller (pm_Create p),
     clp_AllowRead = may_use caller (pm_Read p), clp_AllowUpdate = may_use caller (pm_Update p),
     clp_AllowDelete = may_use caller (pm_Delete p), clp_AllowShare = may_use caller (pm_Share p)\<rparr>"

definition CallerPermission_String :: "CallerPermission \<Rightarrow> string" where
  "CallerPermission_String cp = ''['' @ iifString (clp_AllowCreate cp) ''C'' ''-''
     @ iifString (clp_AllowRead cp) ''R'' ''-'' @ iifString (clp_AllowUpdate cp) ''U'' ''-''
     @ iifString (clp_AllowDelete cp) ''D'' ''-'' @ iifString (clp_AllowShare cp) ''S'' ''-'' @ '']''"

subsection \<open>Permission by grantee (Permission1\_0.go) and the object a client sees (Object.go)\<close>

record Permission1_0 =
  p1_Grantee :: string
  p1_ProjectName :: string
  p1_ProjectDisplayName :: string
  p1_GroupName :: string
  p1_UserDistinguishedName :: string
  p1_DisplayName :: string
  p1_AllowCreate :: bool
  p1_AllowRead :: bool
  p1_AllowUpdate :: bool
  p1_AllowDelete :: bool
  p1_AllowShare :: bool

record Property =
  py_ID :: string
  py_CreatedDate :: int
  py_CreatedBy :: string
  py_ModifiedDate :: int
  py_ModifiedBy :: string
  py_ChangeCount :: int
  py_ChangeToken :: string
  py_Name :: string
  py_Value :: string
  py_ClassificationPM :: string

record Breadcrumb =
  bc_ID :: string
  bc_ParentID :: string
  bc_Name :: string

record 'acm Object =
  ob_ID :: string
  ob_CreatedDate :: int
  ob_CreatedBy :: string
  ob_ModifiedDate :: int
  ob_ModifiedBy :: string
  ob_DeletedDate :: int
  ob_DeletedBy :: string
  ob_ChangeCount :: int
  ob_ChangeToken :: string
  ob_OwnedBy :: string
  ob_TypeID :: string
  ob_TypeName :: string
  ob_Name :: string
  ob_Description :: string
  ob_ParentID :: string
  ob_RawAcm :: 'acm
  ob_ContentType :: string
  ob_ContentSize :: int
  ob_ContentHash :: string
  ob_ContainsUSPersonsData :: string
  ob_ExemptFromFOIA :: string
  ob_Properties :: "Property list"
  ob_CallerPermission :: CallerPermission
  ob_Permissions :: "Permission1_0 list"
  ob_Permission :: Permission
  ob_Breadcrumbs :: "Breadcrumb list"
  ob_IsPDFAvailable :: bool

definition WithBreadcrumbs :: "'acm Object \<Rightarrow> Breadcrumb list \<Rightarrow> 'acm Object" where
  "WithBreadcrumbs obj crumbs = obj\<lparr>ob_Breadcrumbs := ob_Breadcrumbs obj @ crumbs\<rparr>"

definition or_flags1_0 :: "Permission1_0 \<Rightarrow> Permission1_0 \<Rightarrow> Permission1_0" where
  "or_flags1_0 cPerm perm = cPerm\<lparr>
     p1_AllowCreate := p1_AllowCreate cPerm \<or> p1_AllowCreate perm,
     p1_AllowRead := p1_AllowRead cPerm \<or> p1_AllowRead perm,
     p1_AllowUpdate := p1_AllowUpdate cPerm \<or> p1_AllowUpdate perm,
     p1_AllowDelete := p1_AllowDelete cPerm \<or> p1_AllowDelete perm,
     p1_AllowShare := p1_AllowShare cPerm \<or> p1_AllowShare perm\<rparr>"

definition consolidate_step1_0 :: "Permission1_0 \<Rightarrow> Permission1_0 list \<Rightarrow> Permission1_0 list" where
  "consolidate_step1_0 perm consolidated =
     (if list_ex (\<lambda>c. p1_Grantee c = p1_Grantee perm) consolidated
      then map (\<lambda>c. if p1_Grantee c = p1_Grantee perm then or_flags1_0 c perm else c) consolidated
      else consolidated @ [perm])"

definition consolidatePermissions1_0 :: "'acm Object \<Rightarrow> 'acm Object" where
  "consolidatePermissions1_0 obj = obj\<lparr>ob_Permissions := fold consolidate_step1_0 (ob_Permissions obj) []\<rparr>"

definition WithConsolidatedPermissions :: "'acm Object \<Rightarrow> 'acm Object" where
  "WithConsolidatedPermissions obj =
     (let obj1 = consolidatePermissions1_0 obj
      in obj1\<lparr>ob_Permission := Consolidated (ob_Permission obj1)\<rparr>)"

definition WithCallerPermission :: "Caller \<Rightarrow> 'acm Object \<Rightarrow> 'acm Object" where
  "WithCallerPermission caller obj =
     (let obj1 = WithConsolidatedPermissions obj;
          cp = WithRolledUp caller (ob_Permission obj1);
          cp1 = (if length (ob_DeletedBy obj1) > 0
            then cp\<lparr>clp_AllowCreate := False, clp_AllowUpdate := False, clp_AllowShare := False\<rparr> else cp)
      in obj1\<lparr>ob_CallerPermission := cp1\<rparr>)"

subsection \<open>Properties\<close>

text \<open>\<open>RemoveDuplicates\<close> leaves each resource once, keeps every denied resource and drops from the
  allowed ones exactly those also denied.\<close>

theorem remove_duplicates_deny_wins:
  "set (AllowedResources (RemoveDuplicates c)) = set (AllowedResources c) - set (DeniedResources c) \<and>
   set (DeniedResources (RemoveDuplicates c)) = set (DeniedResources c) \<and>
   distinct (AllowedResources (RemoveDuplicates c)) \<and> distinct (DeniedResources (RemoveDuplicates c))"
  using set_RemoveDuplicates distinct_RemoveDuplicates by simp

definition names_caller :: "Caller \<Rightarrow> string \<Rightarrow> bool" where
  "names_caller caller resource \<longleftrightarrow> GetFlattenedNameFromResource resource \<in>
     {AACFlatten (DistinguishedName caller), AACFlatten EveryoneGroup}
     \<union> {f. InGroup caller f}"

lemma IsInResources_iff: "IsInResources caller rs \<longleftrightarrow> (\<exists>r \<in> set rs. names_caller caller r)"
  by (auto simp: IsInResources_def list_ex_iff names_caller_def Let_def)

lemma may_use_RemoveDuplicates [simp]: "may_use caller (RemoveDuplicates c) = may_use caller c"
  by (auto simp: may_use_def IsInResources_iff set_RemoveDuplicates)

text \<open>C35: the permission the caller is shown on an object is, for each capability, that some allowed
  resource names the caller, one of their groups or everyone, and no denied resource does;
  consolidating the resource lists first changes nothing, and on a deleted object creating, updating
  and sharing are never shown as allowed.\<close>

theorem caller_permission_spec:
  "let cp = ob_CallerPermission (WithCallerPermission caller obj);
       may = (\<lambda>c. (\<exists>r \<in> set (AllowedResources c). names_caller caller r) \<and>
                   \<not> (\<exists>r \<in> set (DeniedResources c). names_caller caller r));
       live = (ob_DeletedBy obj = '''')
   in (clp_AllowRead cp \<longleftrightarrow> may (pm_Read (ob_Permission obj))) \<and>
      (clp_AllowDelete cp \<longleftrightarrow> may (pm_Delete (ob_Permission obj))) \<and>
      (clp_AllowCreate cp \<longleftrightarrow> live \<and> may (pm_Create (ob_Permission obj))) \<and>
      (clp_AllowUpdate cp \<longleftrightarrow> live \<and> may (pm_Update (ob_Permission obj))) \<and>
      (clp_AllowShare cp \<longleftrightarrow> live \<and> may (pm_Share (ob_Permission obj)))"
  by (auto simp: WithCallerPermission_def WithConsolidatedPermissions_def consolidatePermissions1_0_def
      WithRolledUp_def Consolidated_def Let_def may_use_def [of caller, symmetric]
      IsInResources_iff [symmetric])

definition grants1_0 :: "string \<Rightarrow> Permission1_0 list \<Rightarrow> (Permission1_0 \<Rightarrow> bool) \<Rightarrow> bool" where
  "grants1_0 g ps flag \<longleftrightarrow> (\<exists>p \<in> set ps. p1_Grantee p = g \<and> flag p)"

lemma or_flags1_0_Grantee [simp]: "p1_Grantee (or_flags1_0 c p) = p1_Grantee c"
  by (simp add: or_flags1_0_def)

lemma map_grantee_step: "map p1_Grantee (consolidate_step1_0 p cs) =
    (if p1_Grantee p \<in> set (map p1_Grantee cs) then map p1_Grantee cs else map p1_Grantee cs @ [p1_Grantee p])"
proof -
  have "map p1_Grantee (map (\<lambda>c. if p1_Grantee c = p1_Grantee p then or_flags1_0 c p else c) cs)
      = map p1_Grantee cs"
    by (induction cs) auto
  then show ?thesis
    unfolding consolidate_step1_0_def list_ex_iff
    by (cases "p1_Grantee p \<in> p1_Grantee ` set cs") (auto simp: image_iff dest: sym)
qed

lemma distinct_step1_0:
  "distinct (map p1_Grantee cs) \<Longrightarrow> distinct (map p1_Grantee (consolidate_step1_0 p cs))"
  unfolding map_grantee_step by auto

lemma grants_step1_0:
  assumes "\<And>c p. flag (or_flags1_0 c p) \<longleftrightarrow> flag c \<or> flag p"
  shows "grants1_0 g (consolidate_step1_0 p cs) flag \<longleftrightarrow>
    grants1_0 g cs flag \<or> p1_Grantee p = g \<and> flag p"
proof (cases "\<exists>c \<in> set cs. p1_Grantee c = p1_Grantee p")
  case True
  let ?f = "\<lambda>c. if p1_Grantee c = p1_Grantee p then or_flags1_0 c p else c"
  have f: "p1_Grantee (?f c) = p1_Grantee c"
    "flag (?f c) \<longleftrightarrow> flag c \<or> p1_Grantee c = p1_Grantee p \<and> flag p" for c
    using assms by simp_all
  have "grants1_0 g (consolidate_step1_0 p cs) flag \<longleftrightarrow> (\<exists>c \<in> set cs. p1_Grantee (?f c) = g \<and> flag (?f c))"
    using True unfolding grants1_0_def consolidate_step1_0_def list_ex_iff by (simp only: if_True set_map bex_simps)
  then show ?thesis
    using True unfolding f grants1_0_def by (metis (no_types, lifting))
next
  case False
  then show ?thesis
    by (auto simp: grants1_0_def consolidate_step1_0_def list_ex_iff)
qed

lemma grants_fold1_0:
  assumes "\<And>c p. flag (or_flags1_0 c p) \<longleftrightarrow> flag c \<or> flag p"
  shows "grants1_0 g (fold consolidate_step1_0 ps cs) flag \<longleftrightarrow> grants1_0 g cs flag \<or> grants1_0 g ps flag"
proof (induction ps arbitrary: cs)
  case (Cons p ps)
  have "grants1_0 g (p # ps) flag \<longleftrightarrow> p1_Grantee p = g \<and> flag p \<or> grants1_0 g ps flag"
    by (auto simp: grants1_0_def)
  then show ?case
    using Cons [of "consolidate_step1_0 p cs"] grants_step1_0 [of flag, OF assms, of g p cs] by simp
qed (simp add: grants1_0_def)

lemma distinct_fold1_0:
  "distinct (map p1_Grantee cs) \<Longrightarrow> distinct (map p1_Grantee (fold consolidate_step1_0 ps cs))"
  by (induction ps arbitrary: cs) (auto simp del: distinct_map intro!: distinct_step1_0)

lemma or_flags1_0_flags [simp, flag_simps]:
  "p1_AllowCreate (or_flags1_0 c p) \<longleftrightarrow> p1_AllowCreate c \<or> p1_AllowCreate p"
  "p1_AllowRead (or_flags1_0 c p) \<longleftrightarrow> p1_AllowRead c \<or> p1_AllowRead p"
  "p1_AllowUpdate (or_flags1_0 c p) \<longleftrightarrow> p1_AllowUpdate c \<or> p1_AllowUpdate p"
  "p1_AllowDelete (or_flags1_0 c p) \<longleftrightarrow> p1_AllowDelete c \<or> p1_AllowDelete p"
  "p1_AllowShare (or_flags1_0 c p) \<longleftrightarrow> p1_AllowShare c \<or> p1_AllowShare p"
  by (simp_all add: or_flags1_0_def)

text \<open>Consolidating an object's list of grants leaves one entry per grantee, and each grantee is
  granted a capability afterwards exactly when one of its entries granted it before.\<close>

theorem consolidate_grants:
  "let ps = ob_Permissions obj; qs = ob_Permissions (consolidatePermissions1_0 obj) in
     distinct (map p1_Grantee qs) \<and>
     map (grants1_0 g qs) [p1_AllowCreate, p1_AllowRead, p1_AllowUpdate, p1_AllowDelete, p1_AllowShare] =
     map (grants1_0 g ps) [p1_AllowCreate, p1_AllowRead, p1_AllowUpdate, p1_AllowDelete, p1_AllowShare]"
proof -
  have "grants1_0 g (fold consolidate_step1_0 ps []) flag = grants1_0 g ps flag"
    if "flag \<in> {p1_AllowCreate, p1_AllowRead, p1_AllowUpdate, p1_AllowDelete, p1_AllowShare}" for ps flag
    using that grants_fold1_0 [of flag g ps "[]"] by (auto simp: grants1_0_def)
  moreover have "distinct (map p1_Grantee (fold consolidate_step1_0 ps []))" for ps
    by (rule distinct_fold1_0) simp
  ultimately show ?thesis
    unfolding consolidatePermissions1_0_def Let_def by simp
qed

end
