(* ===== verification/Access.thy ===== *)
theory Access
  imports Protocol
begin

text \<open>
  \<open>server/isUserAllowedForObjectACM.go\<close>: whether the permission rows of an object allow its caller an
  operation. A row counts when it is not deleted, names the caller, one of the caller's groups or
  everyone, and carries a MAC the server made. The rows that count are combined into the permission
  the handlers go on with; its encrypted key is that of the first of them.

  The context of a request gives the caller and the groups of its snippets; \<open>mk\<close> is the master key
  of the ciphertext cache.
\<close>

subsection \<open>The loop over the permissions\<close>

definition granteeMatch :: "Caller \<Rightarrow> string list \<Rightarrow> ODObjectPermission \<Rightarrow> bool" where
  "granteeMatch caller groups p =
     (if AACFlatten (p_Grantee p) = AACFlatten (DistinguishedName caller) then True
      else if AACFlatten (p_Grantee p) = AACFlatten EveryoneGroup then True
      else if to_lower (p_Grantee p) = to_lower (DistinguishedName caller) then True
      else if to_lower (ns_String (g_GroupName (p_AcmGrantee p))) = to_lower EveryoneGroup then True
      else list_ex (\<lambda>g. AACFlatten (p_Grantee p) = AACFlatten g \<or> to_lower (p_Grantee p) = to_lower g) groups)"

definition matches_required :: "ODObjectPermission \<Rightarrow> ODObjectPermission \<Rightarrow> bool" where
  "matches_required req p \<longleftrightarrow>
     (p_AllowCreate req \<and> p_AllowCreate p) \<or> (p_AllowRead req \<and> p_AllowRead p) \<or>
     (p_AllowUpdate req \<and> p_AllowUpdate p) \<or> (p_AllowDelete req \<and> p_AllowDelete p) \<or>
     (p_AllowShare req \<and> p_AllowShare p)"

definition all_required :: "ODObjectPermission \<Rightarrow> ODObjectPermission \<Rightarrow> bool" where
  "all_required req p \<longleftrightarrow>
     (\<not> p_AllowCreate req \<or> p_AllowCreate p) \<and> (\<not> p_AllowRead req \<or> p_AllowRead p) \<and>
     (\<not> p_AllowUpdate req \<or> p_AllowUpdate p) \<and> (\<not> p_AllowDelete req \<or> p_AllowDelete p) \<and>
     (\<not> p_AllowShare req \<or> p_AllowShare p)"

definition all_flags :: "ODObjectPermission \<Rightarrow> bool" where
  "all_flags p \<longleftrightarrow> p_AllowCreate p \<and> p_AllowRead p \<and> p_AllowUpdate p \<and> p_AllowDelete p \<and> p_AllowShare p"

definition append_grants :: "ODObjectPermission \<Rightarrow> ODObjectPermission \<Rightarrow> ODObjectPermission" where
  "append_grants up p = set_flags (p_AllowCreate up \<or> p_AllowCreate p) (p_AllowRead up \<or> p_AllowRead p)
     (p_AllowUpdate up \<or> p_AllowUpdate p) (p_AllowDelete up \<or> p_AllowDelete p)
     (p_AllowShare up \<or> p_AllowShare p) up"

fun allowed_loop ::
  "(bytes \<Rightarrow> bytes) \<Rightarrow> string \<Rightarrow> Caller \<Rightarrow> string list \<Rightarrow> ODObjectPermission \<Rightarrow> bool
     \<Rightarrow> ODObjectPermission list \<Rightarrow> bool \<Rightarrow> ODObjectPermission \<Rightarrow> bool \<times> ODObjectPermission" where
  "allowed_loop sha mk caller groups req rollup [] auth up = (auth, up)"
| "allowed_loop sha mk caller groups req rollup (p # ps) auth up =
     (if p_IsDeleted p then allowed_loop sha mk caller groups req rollup ps auth up
      else if \<not> granteeMatch caller groups p then allowed_loop sha mk caller groups req rollup ps auth up
      else if \<not> EqualsPermissionMAC sha mk p then allowed_loop sha mk caller groups req rollup ps auth up
      else if matches_required req p then
        (let up' = (if length (p_Grantee up) = 0 then p else append_grants up p);
             auth' = (if \<not> auth then all_required req up' else auth)
         in if auth' \<and> (\<not> rollup \<or> all_flags up') then (auth', up')
            else allowed_loop sha mk caller groups req rollup ps auth' up')
      else allowed_loop sha mk caller groups req rollup ps auth up)"

definition isUserAllowedTo ::
  "(bytes \<Rightarrow> bytes) \<Rightarrow> string \<Rightarrow> Caller \<Rightarrow> string list \<Rightarrow> ODObject \<Rightarrow> ODObjectPermission \<Rightarrow> bool
     \<Rightarrow> bool \<times> ODObjectPermission" where
  "isUserAllowedTo sha mk caller groups obj req rollup =
     (case allowed_loop sha mk caller groups req rollup (o_Permissions obj) False empty_permission of
        (auth, up) \<Rightarrow> (auth, up\<lparr>p_PermissionMAC := CalculatePermissionMAC sha mk up\<rparr>))"

definition require :: "bool \<Rightarrow> bool \<Rightarrow> bool \<Rightarrow> bool \<Rightarrow> bool \<Rightarrow> ODObjectPermission" where
  "require c r u d s = set_flags c r u d s empty_permission"

definition isUserAllowedToReadWithPermission where
  "isUserAllowedToReadWithPermission sha mk caller groups obj =
     isUserAllowedTo sha mk caller groups obj (require False True False False False) False"

definition isUserAllowedToUpdateWithPermission where
  "isUserAllowedToUpdateWithPermission sha mk caller groups obj =
     isUserAllowedTo sha mk caller groups obj (require False True True False False) True"

definition isUserAllowedToShareWithPermission where
  "isUserAllowedToShareWithPermission sha mk caller groups obj =
     isUserAllowedTo sha mk caller groups obj (require False True False False True) True"

definition isUserAllowedToCreate where
  "isUserAllowedToCreate sha mk caller groups obj =
     fst (isUserAllowedTo sha mk caller groups obj (require True True False False False) True)"

definition isUserAllowedToRead where
  "isUserAllowedToRead sha mk caller groups obj =
     fst (isUserAllowedToReadWithPermission sha mk caller groups obj)"

definition isUserAllowedToUpdate where
  "isUserAllowedToUpdate sha mk caller groups obj =
     fst (isUserAllowedToUpdateWithPermission sha mk caller groups obj)"

definition isUserAllowedToDelete where
  "isUserAllowedToDelete sha mk caller groups obj =
     fst (isUserAllowedTo sha mk caller groups obj (require False True False True False) True)"

definition isUserAllowedToShare where
  "isUserAllowedToShare sha mk caller groups obj =
     fst (isUserAllowedToShareWithPermission sha mk caller groups obj)"

definition copyPermissionToGrantee :: "ODObjectPermission \<Rightarrow> ODAcmGrantee \<Rightarrow> ODObjectPermission" where
  "copyPermissionToGrantee original grantee =
     (let dn = ns_String (g_UserDistinguishedName grantee);
          pn = ns_String (g_ProjectName grantee);
          pdn = ns_String (g_ProjectDisplayName grantee);
          gn = ns_String (g_GroupName grantee)
      in if length dn > 0
         then PermissionForUser dn (p_AllowCreate original) (p_AllowRead original)
                (p_AllowUpdate original) (p_AllowDelete original) (p_AllowShare original)
         else PermissionForGroup pn pdn gn (p_AllowCreate original) (p_AllowRead original)
                (p_AllowUpdate original) (p_AllowDelete original) (p_AllowShare original))"

text \<open>The status code of an authorization error, by the prefix of its text.\<close>

definition authHTTPErr :: "string \<Rightarrow> nat" where
  "authHTTPErr e =
     (if has_prefix e ''auth: user not authorized'' then 403
      else if has_prefix e ''auth: acm not specified'' \<or> has_prefix e ''auth: acm not valid''
        \<or> has_prefix e ''auth: acm response type marked as failed'' then 400
      else if has_prefix e ''auth: unable to check user access to acm''
        \<or> has_prefix e ''auth: unable to flatten acm''
        \<or> has_prefix e ''auth: unable to inject permissions into acm''
        \<or> has_prefix e ''auth: unable to normalize permissions''
        \<or> has_prefix e ''auth: unable to rebuild acm from permissions''
        \<or> has_prefix e ''auth: unable to retrieve snippets'' then 502
      else 403)"

subsection \<open>What the loop decides\<close>

datatype capability = CapCreate | CapRead | CapUpdate | CapDelete | CapShare

fun has_cap :: "capability \<Rightarrow> ODObjectPermission \<Rightarrow> bool" where
  "has_cap CapCreate p = p_AllowCreate p"
| "has_cap CapRead p = p_AllowRead p"
| "has_cap CapUpdate p = p_AllowUpdate p"
| "has_cap CapDelete p = p_AllowDelete p"
| "has_cap CapShare p = p_AllowShare p"

definition counts :: "(bytes \<Rightarrow> bytes) \<Rightarrow> string \<Rightarrow> Caller \<Rightarrow> string list \<Rightarrow> ODObjectPermission \<Rightarrow> bool" where
  "counts sha mk caller groups p \<longleftrightarrow>
     \<not> p_IsDeleted p \<and> granteeMatch caller groups p \<and> EqualsPermissionMAC sha mk p"

lemma all_cap_iff: "(\<forall>c. P c) \<longleftrightarrow> P CapCreate \<and> P CapRead \<and> P CapUpdate \<and> P CapDelete \<and> P CapShare"
  by (metis capability.exhaust)

lemma ex_cap_iff: "(\<exists>c. P c) \<longleftrightarrow> P CapCreate \<or> P CapRead \<or> P CapUpdate \<or> P CapDelete \<or> P CapShare"
  by (metis capability.exhaust)

lemma all_required_iff: "all_required req p \<longleftrightarrow> (\<forall>c. has_cap c req \<longrightarrow> has_cap c p)"
  by (auto simp: all_required_def all_cap_iff)

lemma matches_required_iff: "matches_required req p \<longleftrightarrow> (\<exists>c. has_cap c req \<and> has_cap c p)"
  by (auto simp: matches_required_def ex_cap_iff)

lemma has_cap_append_grants [simp]: "has_cap c (append_grants up p) \<longleftrightarrow> has_cap c up \<or> has_cap c p"
  by (cases c) (simp_all add: append_grants_def)

lemma append_grants_rest [simp]:
  "p_Grantee (append_grants up p) = p_Grantee up"
  "p_EncryptKey (append_grants up p) = p_EncryptKey up"
  "p_PermissionIV (append_grants up p) = p_PermissionIV up"
  by (simp_all add: append_grants_def set_flags_def)

lemma has_cap_empty [simp]: "\<not> has_cap c empty_permission"
  by (cases c) (simp_all add: empty_permission_def)

lemma has_cap_update [simp]:
  "has_cap c (p\<lparr>p_PermissionMAC := b\<rparr>) = has_cap c p"
  "has_cap c (p\<lparr>p_EncryptKey := b\<rparr>) = has_cap c p"
  "has_cap c (p\<lparr>p_PermissionIV := b\<rparr>) = has_cap c p"
  "has_cap c (p\<lparr>p_ObjectID := sl\<rparr>) = has_cap c p"
  "has_cap c (p\<lparr>p_CreatedBy := str\<rparr>) = has_cap c p"
  "has_cap c (p\<lparr>p_ExplicitShare := x\<rparr>) = has_cap c p"
  "has_cap c (p\<lparr>p_IsDeleted := x\<rparr>) = has_cap c p"
  by (cases c; simp)+

lemma allowed_loop_count:
  assumes "counts sha mk caller groups p" and "matches_required req p"
    and "up' = (if length (p_Grantee up) = 0 then p else append_grants up p)"
    and "auth' = (if \<not> auth then all_required req up' else auth)"
  shows "allowed_loop sha mk caller groups req rollup (p # ps) auth up =
    (if auth' \<and> (\<not> rollup \<or> all_flags up') then (auth', up')
     else allowed_loop sha mk caller groups req rollup ps auth' up')"
  using assms unfolding counts_def by (cases rollup; auto simp: Let_def)

lemma allowed_loop_skip:
  "\<not> (counts sha mk caller groups p \<and> matches_required req p) \<Longrightarrow>
    allowed_loop sha mk caller groups req rollup (p # ps) auth up =
    allowed_loop sha mk caller groups req rollup ps auth up"
  by (auto simp: counts_def)

declare allowed_loop.simps(2) [simp del]

text \<open>A property the first permission has and combining keeps is true of the result.\<close>

lemma allowed_loop_inv:
  assumes "allowed_loop sha mk caller groups req rollup ps auth up = (a, u)"
    and "I auth up"
    and "\<And>auth up p up'. I auth up \<Longrightarrow> p \<in> set ps \<Longrightarrow> counts sha mk caller groups p \<Longrightarrow>
        matches_required req p \<Longrightarrow> up' = (if length (p_Grantee up) = 0 then p else append_grants up p) \<Longrightarrow>
        I (if \<not> auth then all_required req up' else auth) up'"
  shows "I a u"
  using assms
proof (induction ps arbitrary: auth up)
  case (Cons p ps)
  define up' where up': "up' = (if length (p_Grantee up) = 0 then p else append_grants up p)"
  define auth' where auth': "auth' = (if \<not> auth then all_required req up' else auth)"
  show ?case
  proof (cases "counts sha mk caller groups p \<and> matches_required req p")
    case True
    then have I: "I auth' up'"
      using Cons.prems(2) Cons.prems(3) [of auth up p up'] by (simp add: up' auth')
    note step = allowed_loop_count [OF conjunct1 [OF True] conjunct2 [OF True] up' auth', of rollup ps]
    show ?thesis
    proof (cases "auth' \<and> (\<not> rollup \<or> all_flags up')")
      case stop: True
      then show ?thesis
        using Cons.prems(1) I unfolding step by auto
    next
      case False
      have "allowed_loop sha mk caller groups req rollup ps auth' up' = (a, u)"
        using Cons.prems(1) unfolding step if_not_P [OF False] .
      then show ?thesis
        using Cons.IH [of auth' up'] I Cons.prems(3) by auto
    qed
  next
    case False
    then have "allowed_loop sha mk caller groups req rollup ps auth up = (a, u)"
      using Cons.prems(1) by (simp add: allowed_loop_skip)
    then show ?thesis
      using Cons.IH [of auth up] Cons.prems(2,3) by auto
  qed
qed simp

lemma allowed_loop_sound:
  assumes "allowed_loop sha mk caller groups req rollup ps False empty_permission = (a, u)"
  shows "(a \<longrightarrow> (\<forall>c. has_cap c req \<longrightarrow> (\<exists>p \<in> set ps. counts sha mk caller groups p \<and> has_cap c p))) \<and>
    (\<forall>c. has_cap c u \<longrightarrow> (\<exists>p \<in> set ps. counts sha mk caller groups p \<and> has_cap c p))"
proof -
  let ?G = "\<lambda>c. \<exists>p \<in> set ps. counts sha mk caller groups p \<and> has_cap c p"
  show ?thesis
    by (rule allowed_loop_inv [OF assms, where I = "\<lambda>a u. (a \<longrightarrow> (\<forall>c. has_cap c req \<longrightarrow> ?G c)) \<and>
        (\<forall>c. has_cap c u \<longrightarrow> ?G c)"]) (auto simp: all_required_iff split: if_splits)
qed

lemma allowed_loop_True: "fst (allowed_loop sha mk caller groups req rollup ps True up)"
  by (cases rollup; induction ps arbitrary: up) (simp_all add: allowed_loop.simps Let_def)

lemma allowed_loop_complete:
  assumes "\<And>p. p \<in> set ps \<Longrightarrow> counts sha mk caller groups p \<Longrightarrow> p_Grantee p \<noteq> ''''"
    and "p_Grantee up = '''' \<Longrightarrow> (\<forall>c. \<not> has_cap c up)"
    and "\<not> all_required req up"
    and "\<And>c. has_cap c req \<Longrightarrow> has_cap c up \<or> (\<exists>p \<in> set ps. counts sha mk caller groups p \<and> has_cap c p)"
  shows "fst (allowed_loop sha mk caller groups req rollup ps False up)"
  using assms
proof (induction ps arbitrary: up)
  case Nil
  then show ?case
    by (auto simp: all_required_iff)
next
  case (Cons p ps)
  let ?up = "if length (p_Grantee up) = 0 then p else append_grants up p"
  show ?case
  proof (cases "counts sha mk caller groups p \<and> matches_required req p")
    case True
    then have g: "p_Grantee p \<noteq> ''''"
      using Cons.prems(1) by auto
    have "fst (allowed_loop sha mk caller groups req rollup ps False ?up)" if "\<not> all_required req ?up"
    proof (rule Cons.IH)
      show "\<not> all_required req ?up" by (rule that)
      show "\<forall>c. \<not> has_cap c ?up" if "p_Grantee ?up = ''''"
        using that g by (auto split: if_splits)
      show "has_cap c ?up \<or> (\<exists>p \<in> set ps. counts sha mk caller groups p \<and> has_cap c p)"
        if "has_cap c req" for c
        using Cons.prems(2) Cons.prems(4) [of c] that by (auto split: if_splits)
    qed (use Cons.prems(1) in auto)
    then show ?thesis
      unfolding allowed_loop_count [OF conjunct1 [OF True] conjunct2 [OF True] refl refl]
      using allowed_loop_True [of sha mk caller groups req rollup ps]
      by (cases "all_required req ?up") (simp_all only: if_True if_False fst_conv simp_thms split: if_split)
  next
    case False
    have "fst (allowed_loop sha mk caller groups req rollup ps False up)"
    proof (rule Cons.IH)
      show "has_cap c up \<or> (\<exists>p \<in> set ps. counts sha mk caller groups p \<and> has_cap c p)"
        if "has_cap c req" for c
        using Cons.prems(4) [OF that] False that by (auto simp: matches_required_iff)
    qed (use Cons.prems in auto)
    then show ?thesis
      using False by (simp add: allowed_loop_skip)
  qed
qed

subsection \<open>Properties\<close>

lemma isUserAllowedTo_fst: "fst (isUserAllowedTo sha mk caller groups obj req rollup) =
    fst (allowed_loop sha mk caller groups req rollup (o_Permissions obj) False empty_permission)"
  by (simp add: isUserAllowedTo_def split: prod.splits)

lemma allowed_sound:
  assumes "fst (isUserAllowedTo sha mk caller groups obj req rollup)" and "has_cap c req"
  shows "\<exists>p \<in> set (o_Permissions obj). counts sha mk caller groups p \<and> has_cap c p"
proof -
  obtain a u where au: "allowed_loop sha mk caller groups req rollup (o_Permissions obj) False empty_permission = (a, u)"
    by (cases "allowed_loop sha mk caller groups req rollup (o_Permissions obj) False empty_permission")
  then have a
    using assms(1) by (simp add: isUserAllowedTo_fst)
  then show ?thesis
    using allowed_loop_sound [OF au] assms(2) by blast
qed

lemma allowed_complete:
  assumes "\<And>p. p \<in> set (o_Permissions obj) \<Longrightarrow> p_Grantee p \<noteq> ''''" and "has_cap c0 req"
    and "\<And>c. has_cap c req \<Longrightarrow> \<exists>p \<in> set (o_Permissions obj). counts sha mk caller groups p \<and> has_cap c p"
  shows "fst (isUserAllowedTo sha mk caller groups obj req rollup)"
  unfolding isUserAllowedTo_fst
proof (rule allowed_loop_complete)
  show "\<not> all_required req empty_permission"
    using assms(2) by (auto simp: all_required_iff)
qed (use assms in auto)

lemma allowed_loop_key:
  assumes "allowed_loop sha mk caller groups req rollup ps False empty_permission = (True, u)"
  shows "\<exists>p \<in> set ps. counts sha mk caller groups p \<and> matches_required req p \<and>
      p_EncryptKey u = p_EncryptKey p \<and> p_PermissionIV u = p_PermissionIV p"
proof -
  let ?P = "\<lambda>u. \<exists>p \<in> set ps. counts sha mk caller groups p \<and> matches_required req p \<and>
      p_EncryptKey u = p_EncryptKey p \<and> p_PermissionIV u = p_PermissionIV p"
  have "(\<lambda>a u. (a \<longrightarrow> ?P u) \<and> (p_Grantee u \<noteq> '''' \<longrightarrow> ?P u)) True u"
    by (rule allowed_loop_inv [OF assms]) (auto simp: empty_permission_def split: if_splits)
  then show ?thesis by simp
qed

lemma isUserAllowedTo_True:
  assumes "isUserAllowedTo sha mk caller groups obj req rollup = (True, up)"
  obtains u where "allowed_loop sha mk caller groups req rollup (o_Permissions obj) False empty_permission = (True, u)"
    and "up = u\<lparr>p_PermissionMAC := CalculatePermissionMAC sha mk u\<rparr>"
  using assms by (auto simp: isUserAllowedTo_def split: prod.splits)

lemma has_cap_require:
  "has_cap cap (require c r u d s) \<longleftrightarrow>
     cap = CapCreate \<and> c \<or> cap = CapRead \<and> r \<or> cap = CapUpdate \<and> u \<or> cap = CapDelete \<and> d \<or> cap = CapShare \<and> s"
  by (cases cap) (simp_all add: require_def)

lemma allowed_require_iff:
  assumes "\<And>p. p \<in> set (o_Permissions obj) \<Longrightarrow> p_Grantee p \<noteq> ''''" and "c \<or> r \<or> u \<or> d \<or> s"
  shows "fst (isUserAllowedTo sha mk caller groups obj (require c r u d s) rollup) \<longleftrightarrow>
    (\<forall>cap. has_cap cap (require c r u d s) \<longrightarrow>
       (\<exists>p \<in> set (o_Permissions obj). counts sha mk caller groups p \<and> has_cap cap p))"
proof
  obtain c0 where "has_cap c0 (require c r u d s)"
    using assms(2) by (auto simp: has_cap_require)
  then show "\<forall>cap. has_cap cap (require c r u d s) \<longrightarrow>
       (\<exists>p \<in> set (o_Permissions obj). counts sha mk caller groups p \<and> has_cap cap p) \<Longrightarrow>
      fst (isUserAllowedTo sha mk caller groups obj (require c r u d s) rollup)"
    using allowed_complete [OF assms(1)] by blast
qed (use allowed_sound in blast)

lemmas allowed_defs = isUserAllowedToCreate_def isUserAllowedToRead_def isUserAllowedToUpdate_def
  isUserAllowedToDelete_def isUserAllowedToShare_def isUserAllowedToReadWithPermission_def
  isUserAllowedToUpdateWithPermission_def isUserAllowedToShareWithPermission_def

text \<open>A caller, and a permission the server signed for them, for the concrete instances below.\<close>

definition sample_sha :: "bytes \<Rightarrow> bytes" where
  "sample_sha m = replicate 32 0"

definition sample_perm :: ODObjectPermission where
  "sample_perm = (PermissionForUser ''cn=a'' False True False False True)\<lparr>
     p_EncryptKey := replicate 32 5, p_PermissionMAC := replicate 32 0\<rparr>"

definition sample_caller :: Caller where
  "sample_caller = \<lparr>DistinguishedName = ''cn=a'', UserDistinguishedName = '''', ExternalSystemDistinguishedName = '''',
     SSLClientSDistinguishedName = ''cn=a'', CallerCommonName = ''a'', TransactionType = ''NORMAL'', Groups = []\<rparr>"

lemma sample_sha_length [simp]: "length (sample_sha m) = 32"
  by (simp add: sample_sha_def)

lemma sample_grantee [simp]: "p_Grantee sample_perm = ''cna''"
  by (simp add: sample_perm_def AACFlatten_map char_eval flatten_removed_def)

lemma sample_mac: "CalculatePermissionMAC sample_sha k p = replicate 32 0"
  by (auto simp: CalculatePermissionMAC_def DoMAC_def list_eq_iff_nth_eq sample_sha_def Sum256_def)

lemma sample_counts [simp]: "counts sample_sha k sample_caller gs sample_perm"
  using sample_mac [of k sample_perm]
  by (simp add: counts_def granteeMatch_def EqualsPermissionMAC_iff sample_perm_def sample_caller_def AACFlatten_idem)

lemma sample_has_cap [simp]: "has_cap c sample_perm \<longleftrightarrow> c = CapRead \<or> c = CapShare"
  by (cases c) (simp_all add: sample_perm_def)

text \<open>C9: an operation is allowed exactly when reading and the operation's own capability are each
  granted by a permission of the object that is not deleted, names the caller (or a group of theirs,
  or everyone) and has a valid MAC. The rows may be different ones and in any order; every row names
  a grantee.\<close>

theorem allowed_exactly:
  assumes "\<forall>p \<in> set (o_Permissions obj). p_Grantee p \<noteq> ''''"
  shows "let granted = (\<lambda>cap. \<exists>p \<in> set (o_Permissions obj). counts sha mk caller groups p \<and> has_cap cap p) in
    (isUserAllowedToRead sha mk caller groups obj \<longleftrightarrow> granted CapRead) \<and>
    (isUserAllowedToCreate sha mk caller groups obj \<longleftrightarrow> granted CapRead \<and> granted CapCreate) \<and>
    (isUserAllowedToUpdate sha mk caller groups obj \<longleftrightarrow> granted CapRead \<and> granted CapUpdate) \<and>
    (isUserAllowedToDelete sha mk caller groups obj \<longleftrightarrow> granted CapRead \<and> granted CapDelete) \<and>
    (isUserAllowedToShare sha mk caller groups obj \<longleftrightarrow> granted CapRead \<and> granted CapShare)"
  using assms unfolding Let_def allowed_defs
  by (auto simp: allowed_require_iff has_cap_require all_cap_iff)

theorem allowed_exactly_witness:
  "isUserAllowedToRead sample_sha ''k'' sample_caller [] (empty_object\<lparr>o_Permissions := [sample_perm]\<rparr>) \<and>
   \<not> isUserAllowedToDelete sample_sha ''k'' sample_caller [] (empty_object\<lparr>o_Permissions := [sample_perm]\<rparr>)"
  using allowed_exactly [of "empty_object\<lparr>o_Permissions := [sample_perm]\<rparr>" sample_sha "''k''" sample_caller "[]"]
  by (simp add: Let_def)

lemma read_permission_sound:
  assumes "isUserAllowedToReadWithPermission sha mk caller groups obj = (True, up)"
  shows "(\<exists>p \<in> set (o_Permissions obj). counts sha mk caller groups p \<and> p_AllowRead p \<and>
      p_EncryptKey up = p_EncryptKey p \<and> p_PermissionIV up = p_PermissionIV p) \<and>
    EqualsPermissionMAC sha mk up \<and>
    (\<forall>c. has_cap c up \<longrightarrow> (\<exists>p \<in> set (o_Permissions obj). counts sha mk caller groups p \<and> has_cap c p))"
proof -
  obtain u where l: "allowed_loop sha mk caller groups (require False True False False False) False
      (o_Permissions obj) False empty_permission = (True, u)"
    and up: "up = u\<lparr>p_PermissionMAC := CalculatePermissionMAC sha mk u\<rparr>"
    using assms isUserAllowedTo_True unfolding isUserAllowedToReadWithPermission_def by blast
  show ?thesis
    using allowed_loop_sound [OF l] allowed_loop_key [OF l]
    by (auto simp: up EqualsPermissionMAC_iff matches_required_iff has_cap_require)
qed

lemma sample_read:
  "\<exists>up. isUserAllowedToReadWithPermission sample_sha ''k'' sample_caller []
     (empty_object\<lparr>o_Permissions := [sample_perm], o_RawAcm := acm, o_ContentSize := sz\<rparr>) = (True, up) \<and> p_EncryptKey up = replicate 32 5"
proof -
  let ?obj = "empty_object\<lparr>o_Permissions := [sample_perm], o_RawAcm := acm, o_ContentSize := sz\<rparr>"
  have "isUserAllowedToRead sample_sha ''k'' sample_caller [] ?obj"
    unfolding allowed_defs by (subst allowed_require_iff) (auto simp: has_cap_require)
  then have r: "isUserAllowedToReadWithPermission sample_sha ''k'' sample_caller [] ?obj =
      (True, snd (isUserAllowedToReadWithPermission sample_sha ''k'' sample_caller [] ?obj))"
    by (simp add: isUserAllowedToRead_def prod_eq_iff)
  from read_permission_sound [OF this] have
    "p_EncryptKey (snd (isUserAllowedToReadWithPermission sample_sha ''k'' sample_caller [] ?obj)) = replicate 32 5"
    by (simp add: sample_perm_def)
  then show ?thesis
    using r by metis
qed

text \<open>C26: with which key a reader goes on. When reading is allowed, the permission handed back carries
  the encrypted key and initialization vector of one row that grants the caller reading, its MAC is
  valid, and it grants no capability that no row granted.\<close>

theorem read_permission_key:
  assumes "isUserAllowedToReadWithPermission sha mk caller groups obj = (True, up)"
  shows "(\<exists>p \<in> set (o_Permissions obj). counts sha mk caller groups p \<and> p_AllowRead p \<and>
      p_EncryptKey up = p_EncryptKey p \<and> p_PermissionIV up = p_PermissionIV p) \<and>
    EqualsPermissionMAC sha mk up \<and>
    (\<forall>c. has_cap c up \<longrightarrow> (\<exists>p \<in> set (o_Permissions obj). counts sha mk caller groups p \<and> has_cap c p))"
  using read_permission_sound [OF assms] .

theorem read_permission_key_witness:
  "p_EncryptKey (snd (isUserAllowedToReadWithPermission sample_sha ''k'' sample_caller []
     (empty_object\<lparr>o_Permissions := [sample_perm]\<rparr>))) = replicate 32 5"
proof -
  let ?obj = "empty_object\<lparr>o_Permissions := [sample_perm]\<rparr>"
  have "isUserAllowedToRead sample_sha ''k'' sample_caller [] ?obj"
    unfolding allowed_defs by (subst allowed_require_iff) (auto simp: has_cap_require)
  then have "isUserAllowedToReadWithPermission sample_sha ''k'' sample_caller [] ?obj =
      (True, snd (isUserAllowedToReadWithPermission sample_sha ''k'' sample_caller [] ?obj))"
    by (simp add: isUserAllowedToRead_def prod_eq_iff)
  from read_permission_key [OF this] show ?thesis
    by (simp add: sample_perm_def)
qed

end
