(* ===== verification/Json_Combine.thy ===== *)
theory Json_Combine
  imports Go_Strings
begin

text \<open>
  Decoded JSON, as \<open>encoding/json\<close> delivers it in an \<open>interface{}\<close>, and
  \<open>utils/InterfaceCombining.go\<close>, which merges one such value into another. A JSON object is an
  association list with distinct keys; the list order is the order in which the code's \<open>range\<close> over
  the map visits the keys. Comparing two slices or two maps with \<open>==\<close> panics in Go: the functions
  that compare give \<open>None\<close> then.
\<close>

datatype json = JNull | JBool bool | JNum string | JStr string | JArr "json list"
  | JObj "(string \<times> json) list"

subsection \<open>Equality of interface values and deDupe\<close>

fun go_eq :: "json \<Rightarrow> json \<Rightarrow> bool option" where
  "go_eq (JArr _) (JArr _) = None"
| "go_eq (JObj _) (JObj _) = None"
| "go_eq a b = Some (a = b)"

fun any_eq :: "json \<Rightarrow> json list \<Rightarrow> bool option" where
  "any_eq s [] = Some False"
| "any_eq s (x # xs) = (case go_eq s x of None \<Rightarrow> None
     | Some b \<Rightarrow> if b then Some True else any_eq s xs)"

fun deDupe_from :: "json list \<Rightarrow> json list \<Rightarrow> json list option" where
  "deDupe_from oArr [] = Some oArr"
| "deDupe_from oArr (s # sArr) = (case any_eq s oArr of None \<Rightarrow> None
     | Some b \<Rightarrow> deDupe_from (if b then oArr else oArr @ [s]) sArr)"

definition deDupe :: "json list \<Rightarrow> json list option" where
  "deDupe sArr = deDupe_from [] sArr"

subsection \<open>CombineInterface\<close>

lemma size_list_snd: "size_list (\<lambda>p. size (snd p)) m \<le> size_list (size_prod (\<lambda>x. 0) size) m"
  by (induction m) (auto simp: size_prod_simp)

text \<open>The new value at a key that both have, by the kinds of the two values, the recursion aside.\<close>

fun combine_values :: "json \<Rightarrow> json \<Rightarrow> json option" where
  "combine_values (JStr s) (JStr a) =
     (if s \<noteq> a then map_option JArr (deDupe [JStr s, JStr a]) else Some (JStr s))"
| "combine_values (JArr ss) (JStr a) = map_option JArr (deDupe (ss @ [JStr a]))"
| "combine_values (JStr s) (JArr as) = map_option JArr (deDupe (JStr s # as))"
| "combine_values (JArr ss) (JArr as) = map_option JArr (deDupe (ss @ as))"
| "combine_values s _ = Some s"

function CombineInterface :: "json \<Rightarrow> json \<Rightarrow> json option"
  and combine_keys :: "(string \<times> json) list \<Rightarrow> (string \<times> json) list \<Rightarrow> (string \<times> json) list option" where
  "CombineInterface src add = (case src of
     JObj sMap \<Rightarrow> (case add of JObj aMap \<Rightarrow> map_option JObj (combine_keys sMap aMap)
       | _ \<Rightarrow> Some (JObj sMap))
   | _ \<Rightarrow> Some add)"
| "combine_keys sMap [] = Some sMap"
| "combine_keys sMap ((aK, aV) # aMap) =
     (if aV = JNull then combine_keys sMap aMap
      else case map_of sMap aK of
        None \<Rightarrow> combine_keys (assoc_set aK aV sMap) aMap
      | Some sV \<Rightarrow>
          if sV = JNull then combine_keys (assoc_set aK aV sMap) aMap
          else (case (case aV of JObj _ \<Rightarrow> CombineInterface sV aV | _ \<Rightarrow> combine_values sV aV) of
                  None \<Rightarrow> None
                | Some v \<Rightarrow> combine_keys (assoc_set aK v sMap) aMap))"
  by pat_completeness auto
termination
  by (relation "measure (case_sum (\<lambda>(s, a). 2 * size a) (\<lambda>(sm, am). 2 * size_list (\<lambda>p. size (snd p)) am + 1))")
    (use size_list_snd in \<open>auto simp: le_imp_less_Suc less_Suc_eq_le\<close>)

declare CombineInterface.simps [simp del]

subsection \<open>What combining keeps and adds\<close>

fun is_str :: "json \<Rightarrow> bool" where
  "is_str (JStr s) = True"
| "is_str _ = False"

fun is_strs :: "json \<Rightarrow> bool" where
  "is_strs (JStr s) = True"
| "is_strs (JArr xs) = list_all is_str xs"
| "is_strs _ = False"

fun strings_here :: "json \<Rightarrow> string set" where
  "strings_here (JStr s) = {s}"
| "strings_here (JArr xs) = {s. JStr s \<in> set xs}"
| "strings_here _ = {}"

fun strings_at :: "string list \<Rightarrow> json \<Rightarrow> string set" where
  "strings_at [] j = strings_here j"
| "strings_at (k # ks) (JObj m) = (case map_of m k of None \<Rightarrow> {} | Some v \<Rightarrow> strings_at ks v)"
| "strings_at (k # ks) j = {}"

text \<open>Two values that agree in kind wherever both have one: objects with distinct keys, strings and
  lists of strings, and null.\<close>

fun compat :: "json \<Rightarrow> json \<Rightarrow> bool" where
  "compat (JObj sm) (JObj am) = (distinct (map fst am) \<and>
     list_all (\<lambda>p. snd p = JNull \<or> (case map_of sm (fst p) of None \<Rightarrow> True
       | Some sv \<Rightarrow> sv = JNull \<or> compat sv (snd p))) am)"
| "compat s (JObj am) = False"
| "compat s a = (is_strs s \<and> is_strs a)"

lemma go_eq_str [simp]: "go_eq (JStr s) j = Some (j = JStr s)"
  by (cases j) auto

lemma any_eq_str [simp]: "any_eq (JStr s) xs = Some (JStr s \<in> set xs)"
  by (induction xs) auto

lemma deDupe_from_strs:
  "list_all is_str xs \<Longrightarrow> distinct os \<Longrightarrow>
    \<exists>ys. deDupe_from os xs = Some ys \<and> set ys = set os \<union> set xs \<and> distinct ys"
proof (induction xs arbitrary: os)
  case (Cons x xs)
  then obtain s where x: "x = JStr s"
    by (cases x) auto
  show ?case
    using Cons.IH [of "if JStr s \<in> set os then os else os @ [JStr s]"] Cons.prems
    by (auto simp: x insert_absorb split: if_splits)
qed simp

lemma deDupe_strs:
  "list_all is_str xs \<Longrightarrow> \<exists>ys. deDupe xs = Some ys \<and> set ys = set xs \<and> distinct ys"
  using deDupe_from_strs [of xs "[]"] by (simp add: deDupe_def)

lemma combine_values_strs:
  assumes "is_strs s" and "is_strs a"
  shows "\<exists>v. combine_values s a = Some v \<and> strings_here v = strings_here s \<union> strings_here a \<and> v \<noteq> JNull
    \<and> (\<forall>m. v \<noteq> JObj m)"
proof -
  have d: "\<exists>v. map_option JArr (deDupe xs) = Some v \<and> strings_here v = {s. JStr s \<in> set xs} \<and> v \<noteq> JNull
    \<and> (\<forall>m. v \<noteq> JObj m)" if "list_all is_str xs" for xs
    using deDupe_strs [OF that] by auto
  show ?thesis
  proof (cases s)
    case s: (JStr x)
    show ?thesis
    proof (cases a)
      case (JStr y)
      then show ?thesis using d [of "[JStr x, JStr y]"] s by auto
    next
      case (JArr ys)
      then show ?thesis using d [of "JStr x # ys"] s assms by auto
    qed (use assms in auto)
  next
    case s: (JArr xs)
    show ?thesis
    proof (cases a)
      case (JStr y)
      then show ?thesis using d [of "xs @ [JStr y]"] s assms by auto
    next
      case (JArr ys)
      then show ?thesis using d [of "xs @ ys"] s assms by auto
    qed (use assms in auto)
  qed (use assms in auto)
qed

lemma strings_at_leaf: "(\<forall>m. v \<noteq> JObj m) \<Longrightarrow> strings_at (k # ks) v = {}"
  by (cases v) auto

definition key_compat :: "(string \<times> json) list \<Rightarrow> string \<times> json \<Rightarrow> bool" where
  "key_compat sm p \<longleftrightarrow> snd p = JNull \<or> (case map_of sm (fst p) of None \<Rightarrow> True
       | Some sv \<Rightarrow> sv = JNull \<or> compat sv (snd p))"

definition value_at :: "(string \<times> json) list \<Rightarrow> string \<Rightarrow> string list \<Rightarrow> string set" where
  "value_at m k ks = strings_at (k # ks) (JObj m)"

lemma value_at_set [simp]:
  "value_at (assoc_set k v m) k' ks = (if k' = k then strings_at ks v else value_at m k' ks)"
  by (simp add: value_at_def)

lemma key_compat_set: "fst p \<noteq> k \<Longrightarrow> key_compat (assoc_set k v m) p = key_compat m p"
  by (simp add: key_compat_def)

lemma key_compat_rest:
  "k \<notin> fst ` set m \<Longrightarrow> list_all (key_compat (assoc_set k v sm)) m = list_all (key_compat sm) m"
  by (induction m) (auto simp: key_compat_set)

lemma value_at_Cons: "value_at ((k, v) # m) k' ks = (if k' = k then strings_at ks v else value_at m k' ks)"
  by (simp add: value_at_def)

lemma value_at_absent: "k \<notin> fst ` set m \<Longrightarrow> value_at m k ks = {}"
proof -
  assume "k \<notin> fst ` set m"
  then have "map_of m k = None"
    by (simp add: map_of_eq_None_iff)
  then show ?thesis
    by (simp add: value_at_def)
qed

lemma compat_leaf: "compat s a \<Longrightarrow> \<forall>m. a \<noteq> JObj m \<Longrightarrow> is_strs s \<and> is_strs a"
  by (cases s; cases a) auto

lemma is_strs_leaf: "is_strs s \<Longrightarrow> s \<noteq> JObj m"
  by auto

lemma combine_values_at:
  assumes "is_strs s" and "is_strs a"
  shows "\<exists>v. combine_values s a = Some v \<and> (\<forall>ks. strings_at ks v = strings_at ks s \<union> strings_at ks a)"
proof -
  obtain v where v: "combine_values s a = Some v" "strings_here v = strings_here s \<union> strings_here a"
    "\<forall>m. v \<noteq> JObj m"
    using combine_values_strs [OF assms] by blast
  have "strings_at ks v = strings_at ks s \<union> strings_at ks a" for ks
    using v assms is_strs_leaf by (cases ks) (simp_all add: strings_at_leaf)
  then show ?thesis
    using v(1) by blast
qed

lemma strings_at_null [simp]: "strings_at ks JNull = {}"
  by (cases ks) auto

lemma combine_strings:
  "compat src add \<Longrightarrow> \<exists>sm. src = JObj sm \<Longrightarrow> \<exists>am. add = JObj am \<Longrightarrow>
    \<exists>r. CombineInterface src add = Some r \<and> r \<noteq> JNull \<and>
      (\<forall>path. strings_at path r = strings_at path src \<union> strings_at path add)"
  "list_all (key_compat sMap) aMap \<Longrightarrow> distinct (map fst aMap) \<Longrightarrow>
    \<exists>m. combine_keys sMap aMap = Some m \<and>
      (\<forall>k ks. value_at m k ks = value_at sMap k ks \<union> value_at aMap k ks)"
proof (induction src add and sMap aMap rule: CombineInterface_combine_keys.induct)
  case (1 src add)
  then obtain sm am where s: "src = JObj sm" and a: "add = JObj am" by auto
  have "list_all (key_compat sm) am" "distinct (map fst am)"
    using 1(2) by (auto simp: s a key_compat_def list_all_iff)
  then obtain m where m: "combine_keys sm am = Some m"
    and v: "\<forall>k ks. value_at m k ks = value_at sm k ks \<union> value_at am k ks"
    using 1(1) [OF s a] by blast
  have "strings_at path (JObj m) = strings_at path (JObj sm) \<union> strings_at path (JObj am)" for path
    using v [rule_format, of "hd path" "tl path"] by (cases path) (simp_all add: value_at_def)
  then show ?case
    by (subst CombineInterface.simps) (simp add: s a m)
next
  case (2 sMap)
  then show ?case
    by (simp add: value_at_def)
next
  case (3 sMap aK aV aMap)
  have rest: "list_all (key_compat (assoc_set aK v sMap)) aMap" "aK \<notin> fst ` set aMap"
    "distinct (map fst aMap)" for v
    using 3(6,7) key_compat_rest [of aK aMap v sMap] by auto
  note abs = value_at_absent [OF rest(2)]
  show ?case
  proof (cases "aV = JNull")
    case True
    have "list_all (key_compat sMap) aMap"
      using 3(6) by simp
    then show ?thesis
      using 3(1) [OF True] rest(3) by (auto simp: True value_at_Cons abs)
  next
    case nn: False
    show ?thesis
    proof (cases "map_of sMap aK")
      case None
      have "value_at sMap aK ks = {}" for ks
        using None by (simp add: value_at_def)
      then show ?thesis
        using 3(2) [OF nn None rest(1,3)] nn None by (auto simp: value_at_Cons abs)
    next
      case (Some sV)
      have sv: "value_at sMap aK ks = strings_at ks sV" for ks
        using Some by (simp add: value_at_def)
      show ?thesis
      proof (cases "sV = JNull")
        case True
        then show ?thesis
          using 3(3) [OF nn Some True rest(1,3)] nn Some
          by (auto simp: value_at_Cons abs sv)
      next
        case sn: False
        have c: "compat sV aV"
          using 3(6) nn Some sn by (simp add: key_compat_def)
        define w where "w = (case aV of JObj _ \<Rightarrow> CombineInterface sV aV | _ \<Rightarrow> combine_values sV aV)"
        obtain v where v: "w = Some v" and u: "\<And>ks. strings_at ks v = strings_at ks sV \<union> strings_at ks aV"
        proof (cases "\<exists>am. aV = JObj am")
          case True
          then obtain am where JObj: "aV = JObj am" by blast
          then obtain sm where "sV = JObj sm"
            using c by (cases sV) auto
          then show ?thesis
            using 3(4) [OF nn Some sn JObj c] JObj that by (auto simp: w_def)
        next
          case False
          then have "w = combine_values sV aV"
            by (cases aV) (auto simp: w_def)
          then show ?thesis
            using combine_values_at compat_leaf [OF c] False that by metis
        qed
        have "combine_keys sMap ((aK, aV) # aMap) = combine_keys (assoc_set aK v sMap) aMap"
          using nn Some sn v by (simp add: w_def)
        then show ?thesis
          using 3(5) [OF nn Some sn _ rest(1,3)] v by (auto simp: w_def value_at_Cons abs sv u)
      qed
    qed
  qed
qed

subsection \<open>Properties\<close>

text \<open>Combining one share into another keeps every user and group of both and adds no other: at
  each path the strings of the result are those of the source and those of the value added. The two
  have compatible kinds where both have a value, as the shares the server builds do.\<close>

theorem combine_keeps_strings:
  assumes "compat (JObj sm) (JObj am)"
  shows "\<exists>r. CombineInterface (JObj sm) (JObj am) = Some r \<and>
    (\<forall>path. strings_at path r = strings_at path (JObj sm) \<union> strings_at path (JObj am))"
  using combine_strings(1) [OF assms] by auto

theorem combine_keeps_strings_witness:
  "\<exists>r. CombineInterface (JObj [(''users'', JArr [JStr ''cn=a''])])
      (JObj [(''users'', JArr [JStr ''cn=b'', JStr ''cn=a'']),
             (''projects'', JObj [(''dctc'', JObj [(''disp_nm'', JStr ''dctc''), (''groups'', JArr [JStr ''odrive''])])])]) = Some r \<and>
    strings_at [''users''] r = {''cn=a'', ''cn=b''} \<and> strings_at [''projects'', ''dctc'', ''groups''] r = {''odrive''}"
  using combine_keeps_strings [of "[(''users'', JArr [JStr ''cn=a''])]"
      "[(''users'', JArr [JStr ''cn=b'', JStr ''cn=a'']),
        (''projects'', JObj [(''dctc'', JObj [(''disp_nm'', JStr ''dctc''), (''groups'', JArr [JStr ''odrive''])])])]"]
  by force

text \<open>The combination panics when two lists of objects or lists are merged, since \<open>deDupe\<close>
  compares their elements as interface values.\<close>

theorem combine_panics:
  "CombineInterface (JObj [(''k'', JArr [JArr []])]) (JObj [(''k'', JArr [JArr []])]) = None"
  by (simp add: CombineInterface.simps deDupe_def)

end
