(* ===== verification/Permission_Mapping.thy ===== *)
theory Permission_Mapping
  imports Access Json_Combine
begin

text \<open>
  \<open>mapping/ODPermissionToPermission.go\<close>: between the permission rows of the database and the two
  forms of permission of the protocol, and from the share a client gives, as decoded JSON, to rows.
\<close>

subsection \<open>From rows to the protocol\<close>

definition MapODPermissionToPermission1_0 :: "ODObjectPermission \<Rightarrow> Permission1_0" where
  "MapODPermissionToPermission1_0 i = \<lparr>p1_Grantee = p_Grantee i,
     p1_ProjectName = ns_String (g_ProjectName (p_AcmGrantee i)),
     p1_ProjectDisplayName = ns_String (g_ProjectDisplayName (p_AcmGrantee i)),
     p1_GroupName = ns_String (g_GroupName (p_AcmGrantee i)),
     p1_UserDistinguishedName = ns_String (g_UserDistinguishedName (p_AcmGrantee i)),
     p1_DisplayName = ns_String (g_DisplayName (p_AcmGrantee i)),
     p1_AllowCreate = p_AllowCreate i, p1_AllowRead = p_AllowRead i,
     p1_AllowUpdate = p_AllowUpdate i, p1_AllowDelete = p_AllowDelete i,
     p1_AllowShare = p_AllowShare i\<rparr>"

definition MapODCommonPermissionToCallerPermission :: "ODCommonPermission \<Rightarrow> CallerPermission" where
  "MapODCommonPermissionToCallerPermission i = \<lparr>clp_AllowCreate = cp_AllowCreate i,
     clp_AllowRead = cp_AllowRead i, clp_AllowUpdate = cp_AllowUpdate i,
     clp_AllowDelete = cp_AllowDelete i, clp_AllowShare = cp_AllowShare i\<rparr>"

definition applyEveryonePermissionsIfExists :: "Permission1_0 list \<Rightarrow> Permission1_0 list" where
  "applyEveryonePermissionsIfExists i =
     (case find (\<lambda>q. p1_GroupName q = EveryoneGroup) i of
        None \<Rightarrow> i
      | Some everyonePermissions \<Rightarrow> map (\<lambda>q. or_flags1_0 q everyonePermissions) i)"

definition MapODPermissionsToPermissions1_0 :: "ODObjectPermission list \<Rightarrow> Permission1_0 list" where
  "MapODPermissionsToPermissions1_0 i =
     applyEveryonePermissionsIfExists (map MapODPermissionToPermission1_0 i)"

definition valueInStringArray :: "string list \<Rightarrow> string \<Rightarrow> bool" where
  "valueInStringArray a v = list_ex (\<lambda>s. v = s) a"

definition add_resource :: "bool \<Rightarrow> string \<Rightarrow> string list \<Rightarrow> string list" where
  "add_resource allowed name acc = (if allowed \<and> \<not> valueInStringArray acc name then acc @ [name] else acc)"

text \<open>The resource names of one capability: \<open>has\<close> is its flag and \<open>every\<close> that flag of everyone's row.\<close>

definition capability_names ::
  "(ODObjectPermission \<times> string) list \<Rightarrow> (ODObjectPermission \<Rightarrow> bool) \<Rightarrow> bool \<Rightarrow> PermissionCapability" where
  "capability_names qs has every = \<lparr>AllowedResources =
     sort_strings (fold (\<lambda>(q, name) acc. add_resource (has q \<or> every) name acc) qs []), DeniedResources = []\<rparr>"

fun resource_names :: "ODObjectPermission list \<Rightarrow> (ODObjectPermission \<times> string) list option" where
  "resource_names [] = Some []"
| "resource_names (q # qs) = (case GetResourceName q of None \<Rightarrow> None
     | Some n \<Rightarrow> map_option (\<lambda>r. (q, n) # r) (resource_names qs))"

definition MapODPermissionsToPermission :: "ODObjectPermission list \<Rightarrow> Permission option" where
  "MapODPermissionsToPermission i =
     (let every = find (\<lambda>q. p_Grantee q = AACFlatten EveryoneGroup) i;
          every_has = (\<lambda>has. case every of None \<Rightarrow> False | Some e \<Rightarrow> has e)
      in map_option (\<lambda>qs. \<lparr>pm_Create = capability_names qs p_AllowCreate (every_has p_AllowCreate),
           pm_Read = capability_names qs p_AllowRead (every_has p_AllowRead),
           pm_Update = capability_names qs p_AllowUpdate (every_has p_AllowUpdate),
           pm_Delete = capability_names qs p_AllowDelete (every_has p_AllowDelete),
           pm_Share = capability_names qs p_AllowShare (every_has p_AllowShare)\<rparr>)
         (resource_names i))"

subsection \<open>From a share to rows\<close>

record ObjectShare =
  os_Share :: json
  os_AllowCreate :: bool
  os_AllowRead :: bool
  os_AllowUpdate :: bool
  os_AllowDelete :: bool
  os_AllowShare :: bool

definition share_user :: "ObjectShare \<Rightarrow> string \<Rightarrow> ODObjectPermission" where
  "share_user i u = PermissionForUser u (os_AllowCreate i) (os_AllowRead i) (os_AllowUpdate i)
     (os_AllowDelete i) (os_AllowShare i)"

definition share_group :: "ObjectShare \<Rightarrow> string \<Rightarrow> string \<Rightarrow> string \<Rightarrow> ODObjectPermission" where
  "share_group i k pdn g = PermissionForGroup k pdn g (os_AllowCreate i) (os_AllowRead i)
     (os_AllowUpdate i) (os_AllowDelete i) (os_AllowShare i)"

text \<open>An element of "users": a type assertion or \<open>reflect.TypeOf(nil).Kind()\<close> panics.\<close>

fun share_users :: "ObjectShare \<Rightarrow> json \<Rightarrow> ODObjectPermission list \<Rightarrow> ODObjectPermission list res" where
  "share_users i JNull acc = Ok acc"
| "share_users i (JArr els) acc = fold_res (\<lambda>el acc. case el of
       JNull \<Rightarrow> Panic
     | JStr u \<Rightarrow> Ok (if length u > 0 then acc @ [share_user i u] else acc)
     | _ \<Rightarrow> Ok acc) els acc"
| "share_users i _ acc = Panic"

fun display_name :: "(string \<times> json) list \<Rightarrow> string res" where
  "display_name [] = Ok ''''"
| "display_name ((k, v) # m) =
     (if v \<noteq> JNull \<and> to_lower k = ''disp_nm'' then
        (if k \<noteq> ''disp_nm'' then Fail ''Share projects has a field that is not the correct case''
         else (case v of JStr s \<Rightarrow> Ok s | _ \<Rightarrow> Fail ''Share projects has an unusable value for disp_nm''))
      else display_name m)"

fun share_groups :: "ObjectShare \<Rightarrow> string \<Rightarrow> string \<Rightarrow> string \<times> json
     \<Rightarrow> ODObjectPermission list \<Rightarrow> ODObjectPermission list res" where
  "share_groups i projectKey pdn (k, v) acc =
     (if v \<noteq> JNull \<and> to_lower k = ''groups'' then
        (case v of
           JArr els \<Rightarrow> Ok (acc @ concat (map (\<lambda>el. case el of
               JStr g \<Rightarrow> (if length g > 0 then [share_group i projectKey pdn g] else [])
             | _ \<Rightarrow> []) els))
         | _ \<Rightarrow> Panic)
      else Ok acc)"

fun share_project :: "ObjectShare \<Rightarrow> string \<times> json \<Rightarrow> ODObjectPermission list \<Rightarrow> ODObjectPermission list res" where
  "share_project i (projectKey, JNull) acc = Ok acc"
| "share_project i (projectKey, JObj m) acc =
     bind_res (display_name m) (\<lambda>pdn. fold_res (share_groups i projectKey pdn) m acc)"
| "share_project i (projectKey, _) acc = Fail ''Share projects does not convert to map''"

fun share_projects :: "ObjectShare \<Rightarrow> json \<Rightarrow> ODObjectPermission list \<Rightarrow> ODObjectPermission list res" where
  "share_projects i JNull acc = Ok acc"
| "share_projects i (JObj m) acc = fold_res (share_project i) m acc"
| "share_projects i _ acc = Fail ''Share projects does not convert to map''"

definition MapObjectShareToODPermissions :: "ObjectShare \<Rightarrow> ODObjectPermission list res" where
  "MapObjectShareToODPermissions i = (case os_Share i of
     JNull \<Rightarrow> Ok []
   | JStr u \<Rightarrow> Ok (if length u > 0 then [share_user i u] else [])
   | JObj m \<Rightarrow> fold_res (\<lambda>(k, v) acc.
        if to_lower k = ''users'' then share_users i v acc
        else if to_lower k = ''projects'' then share_projects i v acc
        else Ok acc) m []
   | _ \<Rightarrow> Fail ''Share does not convert to map'')"

definition MapObjectSharesToODPermissions :: "ObjectShare list \<Rightarrow> ODObjectPermission list res" where
  "MapObjectSharesToODPermissions i = fold_res (\<lambda>q acc.
     bind_res (MapObjectShareToODPermissions q) (\<lambda>ps. Ok (acc @ ps))) i []"

subsection \<open>From the protocol's permission to rows\<close>

definition or_flags :: "ODObjectPermission \<Rightarrow> ODObjectPermission \<Rightarrow> ODObjectPermission" where
  "or_flags a b = set_flags (p_AllowCreate a \<or> p_AllowCreate b) (p_AllowRead a \<or> p_AllowRead b)
     (p_AllowUpdate a \<or> p_AllowUpdate b) (p_AllowDelete a \<or> p_AllowDelete b)
     (p_AllowShare a \<or> p_AllowShare b) a"

definition mergeODPermissions ::
  "ODObjectPermission \<Rightarrow> string \<Rightarrow> (string \<times> ODObjectPermission) list \<Rightarrow> (string \<times> ODObjectPermission) list res" where
  "mergeODPermissions perm resource permissions =
     (let flattened = GetFlattenedNameFromResource resource in
      if flattened \<noteq> '''' then
        (case map_of permissions flattened of
           Some mapped \<Rightarrow> Ok (assoc_set flattened (or_flags mapped perm) permissions)
         | None \<Rightarrow> (case CreateODPermissionFromResource resource of
              Inl e \<Rightarrow> Fail e
            | Inr mapped \<Rightarrow> Ok (assoc_set flattened (or_flags mapped perm) permissions)))
      else Ok permissions)"

definition only_flag :: "nat \<Rightarrow> ODObjectPermission" where
  "only_flag n = set_flags (n = 0) (n = 1) (n = 2) (n = 3) (n = 4) empty_permission"

definition MapPermissionToODPermissions :: "Permission \<Rightarrow> ODObjectPermission list res" where
  "MapPermissionToODPermissions p =
     (let i = Consolidated p in
      bind_res (fold_res (mergeODPermissions (only_flag 0)) (AllowedResources (pm_Create i)) []) (\<lambda>m0.
      bind_res (fold_res (mergeODPermissions (only_flag 1)) (AllowedResources (pm_Read i)) m0) (\<lambda>m1.
      bind_res (fold_res (mergeODPermissions (only_flag 2)) (AllowedResources (pm_Update i)) m1) (\<lambda>m2.
      bind_res (fold_res (mergeODPermissions (only_flag 3)) (AllowedResources (pm_Delete i)) m2) (\<lambda>m3.
      bind_res (fold_res (mergeODPermissions (only_flag 4)) (AllowedResources (pm_Share i)) m3) (\<lambda>m4.
      Ok (map snd (filter (\<lambda>(k, v). p_Grantee v = k) m4))))))))"

subsection \<open>What the rows of a permission grant\<close>

fun cap_of :: "capability \<Rightarrow> Permission \<Rightarrow> PermissionCapability" where
  "cap_of CapCreate p = pm_Create p"
| "cap_of CapRead p = pm_Read p"
| "cap_of CapUpdate p = pm_Update p"
| "cap_of CapDelete p = pm_Delete p"
| "cap_of CapShare p = pm_Share p"

definition row_grants :: "(string \<times> ODObjectPermission) list \<Rightarrow> string \<Rightarrow> capability \<Rightarrow> bool" where
  "row_grants m f c \<longleftrightarrow> (\<exists>v. map_of m f = Some v \<and> has_cap c v)"

definition named :: "string list \<Rightarrow> string \<Rightarrow> bool" where
  "named rs f \<longleftrightarrow> f \<noteq> '''' \<and> (\<exists>r \<in> set rs. GetFlattenedNameFromResource r = f)"

lemma has_cap_or_flags [simp]: "has_cap c (or_flags a b) \<longleftrightarrow> has_cap c a \<or> has_cap c b"
  by (cases c) (simp_all add: or_flags_def)

lemma p_Grantee_or_flags [simp]: "p_Grantee (or_flags a b) = p_Grantee a"
  by (simp add: or_flags_def)

lemma created_has_no_cap: "CreateODPermissionFromResource r = Inr v \<Longrightarrow> \<not> has_cap c v"
  by (cases c) (auto simp: CreateODPermissionFromResource_def createODPermissionFromUserResource_def
      createODPermissionFromGroupResource_def Let_def split: if_splits)

lemma merge_grants:
  assumes "mergeODPermissions perm r m = Ok m'"
  shows "row_grants m' f c \<longleftrightarrow> row_grants m f c \<or> named [r] f \<and> has_cap c perm"
    and "distinct (map fst m) \<Longrightarrow> distinct (map fst m')"
  using assms created_has_no_cap
  by (auto simp: mergeODPermissions_def Let_def row_grants_def named_def
      split: if_splits option.splits sum.splits)

lemma merge_all_grants:
  assumes "fold_res (mergeODPermissions perm) rs m = Ok m'"
  shows "(row_grants m' f c \<longleftrightarrow> row_grants m f c \<or> named rs f \<and> has_cap c perm) \<and>
    (distinct (map fst m) \<longrightarrow> distinct (map fst m'))"
  using assms
proof (induction rs arbitrary: m)
  case (Cons r rs)
  then obtain m1 where m1: "mergeODPermissions perm r m = Ok m1"
    and rest: "fold_res (mergeODPermissions perm) rs m1 = Ok m'"
    by (auto simp: bind_res_Ok_iff)
  have "named (r # rs) f \<longleftrightarrow> named [r] f \<or> named rs f"
    by (auto simp: named_def)
  then show ?case
    using Cons.IH [OF rest] merge_grants [OF m1] by blast
qed (simp add: named_def)

lemma has_cap_only_flag: "has_cap c (only_flag n) \<longleftrightarrow>
    (n = 0 \<and> c = CapCreate) \<or> (n = 1 \<and> c = CapRead) \<or> (n = 2 \<and> c = CapUpdate) \<or>
    (n = 3 \<and> c = CapDelete) \<or> (n = 4 \<and> c = CapShare)"
  by (cases c) (auto simp: only_flag_def)

lemma MapPermission_rows:
  assumes "MapPermissionToODPermissions p = Ok rows"
  shows "\<exists>m. rows = map snd (filter (\<lambda>(k, v). p_Grantee v = k) m) \<and> distinct (map fst m) \<and>
    (\<forall>f c. row_grants m f c \<longleftrightarrow> named (AllowedResources (RemoveDuplicates (cap_of c p))) f)"
proof -
  let ?rs = "\<lambda>c. AllowedResources (RemoveDuplicates (cap_of c p))"
  obtain m0 m1 m2 m3 m4 where
    m: "fold_res (mergeODPermissions (only_flag 0)) (?rs CapCreate) [] = Ok m0"
    "fold_res (mergeODPermissions (only_flag 1)) (?rs CapRead) m0 = Ok m1"
    "fold_res (mergeODPermissions (only_flag 2)) (?rs CapUpdate) m1 = Ok m2"
    "fold_res (mergeODPermissions (only_flag 3)) (?rs CapDelete) m2 = Ok m3"
    "fold_res (mergeODPermissions (only_flag 4)) (?rs CapShare) m3 = Ok m4"
    and rows: "rows = map snd (filter (\<lambda>(k, v). p_Grantee v = k) m4)"
    using assms by (auto simp: MapPermissionToODPermissions_def Consolidated_def Let_def bind_res_Ok_iff)
  note g = merge_all_grants [OF m(1)] merge_all_grants [OF m(2)] merge_all_grants [OF m(3)]
    merge_all_grants [OF m(4)] merge_all_grants [OF m(5)]
  have "row_grants m4 f c \<longleftrightarrow> named (?rs c) f" for f c
    using g [of f c] by (cases c) (simp_all add: has_cap_only_flag, simp_all add: row_grants_def)
  moreover have "distinct (map fst m4)"
    using g by simp
  ultimately show ?thesis
    using rows by blast
qed


definition sample_permission :: "string \<Rightarrow> Permission" where
  "sample_permission r = (let none = \<lparr>AllowedResources = [], DeniedResources = []\<rparr> in
     \<lparr>pm_Create = none, pm_Read = \<lparr>AllowedResources = [r], DeniedResources = []\<rparr>, pm_Update = none,
      pm_Delete = none, pm_Share = none\<rparr>)"

lemma cap_of_sample [simp]:
  "AllowedResources (cap_of c (sample_permission r)) = (if c = CapRead then [r] else [])"
  "DeniedResources (cap_of c (sample_permission r)) = []"
  by (cases c; simp add: sample_permission_def Let_def)+

lemma map_sample_permission:
  assumes "GetFlattenedNameFromResource r = f" and "f \<noteq> ''''" and "CreateODPermissionFromResource r = Inr v"
  shows "MapPermissionToODPermissions (sample_permission r) =
    Ok (if p_Grantee v = f then [or_flags v (only_flag 1)] else [])"
  using assms by (simp add: MapPermissionToODPermissions_def sample_permission_def Consolidated_def
      RemoveDuplicates_def mergeODPermissions_def Let_def)


text \<open>A grant to a group whose project display name does not flatten to its project key is dropped
  without an error: reading granted to \<open>group/dctc/Team One/odrive\<close> gives no row at all, since the
  row is filed under the name made from the project key and then compared with the grantee made from
  the display name.\<close>

theorem mismatched_group_dropped:
  "MapPermissionToODPermissions (sample_permission ''group/dctc/Team One/odrive'') = Ok []"
proof -
  have s: "split_char (CHR ''/'') (replace_n (Some 1) ''group/'' '''' ''group/dctc/Team One/odrive'')
      = [''dctc'', ''Team One'', ''odrive'']"
    using replace_first_prefix [of "''group/''" "''''" "''dctc/Team One/odrive''"] by simp
  have f: "GetFlattenedNameFromResource ''group/dctc/Team One/odrive'' = ''dctc_odrive''"
    by (simp only: GetFlattenedNameFromResource_def GetFlattenedGroupFromResource_def s Let_def)
      (simp add: AACFlatten_map char_eval flatten_removed_def)
  have v: "CreateODPermissionFromResource ''group/dctc/Team One/odrive''
      = Inr (PermissionForGroup ''dctc'' ''Team One'' ''odrive'' False False False False False)"
    by (simp only: CreateODPermissionFromResource_def createODPermissionFromGroupResource_def s Let_def) simp
  have "p_Grantee (PermissionForGroup ''dctc'' ''Team One'' ''odrive'' False False False False False) = ''teamone_odrive''"
    by (simp add: PermissionForGroup_grantee AACFlatten_map char_eval flatten_removed_def)
  then show ?thesis
    using map_sample_permission [OF f _ v] by simp
qed

end
