(* ===== verification/Acm_Auth.thy ===== *)
theory Acm_Auth
  imports Permission_Mapping
begin

text \<open>
  \<open>auth/aac.go\<close> and \<open>auth/aacoff.go\<close>: keeping the permission rows of an object and the share in its
  access control metadata (ACM) in step, ownership, and the calls to the access control service.

  \<open>unm\<close> is \<open>json.Unmarshal\<close> into an \<open>interface{}\<close> (\<open>None\<close> on an error) and \<open>mar\<close> is
  \<open>json.Marshal\<close>; the access control service (\<open>AAC\<close>) is a record of functions. Texts of errors are
  reduced to the constant of \<open>auth/interface.go\<close> they begin with.
\<close>

subsection \<open>JSON text (utils/InterfaceMarshalling.go)\<close>

type_synonym unmarshal = "string \<Rightarrow> json option"
type_synonym marshal = "json \<Rightarrow> string option"

definition UnmarshalStringToMap :: "unmarshal \<Rightarrow> string \<Rightarrow> (string \<times> json) list option" where
  "UnmarshalStringToMap unm s = (case unm s of Some (JObj m) \<Rightarrow> Some m | _ \<Rightarrow> None)"

definition MarshalInterfaceToString :: "marshal \<Rightarrow> json \<Rightarrow> string option" where
  "MarshalInterfaceToString mar j = (case j of JNull \<Rightarrow> Some '''' | JStr s \<Rightarrow> Some s | _ \<Rightarrow> mar j)"

definition NormalizeMarshalledInterface :: "unmarshal \<Rightarrow> marshal \<Rightarrow> string \<Rightarrow> string option" where
  "NormalizeMarshalledInterface unm mar s = (case unm s of None \<Rightarrow> None | Some j \<Rightarrow> mar j)"

subsection \<open>Ownership and groups\<close>

definition aacIsPermissionFor :: "ODObjectPermission \<Rightarrow> string \<Rightarrow> bool" where
  "aacIsPermissionFor p grantee \<longleftrightarrow> AACFlatten (p_Grantee p) = AACFlatten grantee"

definition aacIsUserOwner :: "string \<Rightarrow> string list \<Rightarrow> string \<Rightarrow> bool" where
  "aacIsUserOwner userIdentity resourceStrings objectOwner =
     (if userIdentity = '''' then False
      else if trim_space userIdentity = trim_space objectOwner then True
      else if ''user/'' @ trim_space userIdentity = trim_space objectOwner then True
      else list_ex (\<lambda>r. trim_space objectOwner = trim_space r) resourceStrings)"

definition aacGetGroupsFromSnippets :: "RawSnippetFields list option \<Rightarrow> string list" where
  "aacGetGroupsFromSnippets snippets = (case snippets of None \<Rightarrow> []
     | Some fs \<Rightarrow> (case find (\<lambda>f. FieldName f = ''f_share'') fs of None \<Rightarrow> [] | Some f \<Rightarrow> FieldValues f))"

subsection \<open>Rows into the share of the ACM\<close>

text \<open>The display name of a project is made the lower case of its key, unless it is the key. A project
  that is null panics, where the code asks for its kind.\<close>

fun set_disp_nm :: "string \<Rightarrow> (string \<times> json) list \<Rightarrow> (string \<times> json) list" where
  "set_disp_nm key [] = []"
| "set_disp_nm key ((k, v) # m) =
     (if to_lower k = ''disp_nm'' \<and> v \<noteq> JStr key then (k, JStr (to_lower key)) else (k, v)) # set_disp_nm key m"

fun fix_projects :: "(string \<times> json) list \<Rightarrow> (string \<times> json) list option" where
  "fix_projects [] = Some []"
| "fix_projects ((k, JNull) # m) = None"
| "fix_projects ((k, JObj p) # m) = map_option ((#) (k, JObj (set_disp_nm k p))) (fix_projects m)"
| "fix_projects ((k, v) # m) = map_option ((#) (k, v)) (fix_projects m)"

fun fix_share :: "(string \<times> json) list \<Rightarrow> (string \<times> json) list option" where
  "fix_share [] = Some []"
| "fix_share ((k, v) # m) =
     (case (if to_lower k = ''projects'' then (case v of JObj ps \<Rightarrow> map_option JObj (fix_projects ps) | _ \<Rightarrow> Some v)
            else Some v) of
        None \<Rightarrow> None | Some v' \<Rightarrow> map_option ((#) (k, v')) (fix_share m))"

fun fix_acm :: "(string \<times> json) list \<Rightarrow> (string \<times> json) list option" where
  "fix_acm [] = Some []"
| "fix_acm ((k, v) # m) =
     (case (if to_lower k = ''share'' then (case v of JObj sh \<Rightarrow> map_option JObj (fix_share sh) | _ \<Rightarrow> Some v)
            else Some v) of
        None \<Rightarrow> None | Some v' \<Rightarrow> map_option ((#) (k, v')) (fix_acm m))"

fun inject_loop :: "unmarshal \<Rightarrow> ODObjectPermission list \<Rightarrow> (string \<times> json) list \<Rightarrow> (string \<times> json) list res" where
  "inject_loop unm [] acmMap = Ok acmMap"
| "inject_loop unm (p # ps) acmMap =
     (if p_IsDeleted p then inject_loop unm ps acmMap
      else if \<not> p_AllowRead p then inject_loop unm ps acmMap
      else if aacIsPermissionFor p EveryoneGroup then Ok (assoc_del ''share'' acmMap)
      else (case unm (to_lower (p_AcmShare p)) of
              None \<Rightarrow> Fail ''auth: unable to inject permissions into acm''
            | Some pj \<Rightarrow>
                (case CombineInterface (case map_of acmMap ''share'' of None \<Rightarrow> JNull | Some s \<Rightarrow> s) pj of
                   None \<Rightarrow> Panic
                 | Some sh \<Rightarrow> inject_loop unm ps (assoc_set ''share'' sh acmMap))))"

text \<open>The ACM and the error, \<open>None\<close> for nil: with an error the ACM handed back is the one given.\<close>

definition aacInjectPermissionsIntoACM ::
  "unmarshal \<Rightarrow> marshal \<Rightarrow> ODObjectPermission list \<Rightarrow> string \<Rightarrow> (string \<times> string option) res" where
  "aacInjectPermissionsIntoACM unm mar permissions acm =
     (let err = Ok (acm, Some ''auth: unable to inject permissions into acm'') in
      case UnmarshalStringToMap unm acm of None \<Rightarrow> err | Some acmMap0 \<Rightarrow>
     (case fix_acm acmMap0 of None \<Rightarrow> Panic | Some acmMap \<Rightarrow>
     (case inject_loop unm permissions acmMap of Panic \<Rightarrow> Panic | Fail e \<Rightarrow> err | Ok m \<Rightarrow>
     (case MarshalInterfaceToString mar (JObj m) of None \<Rightarrow> err | Some s \<Rightarrow>
     (case NormalizeMarshalledInterface unm mar s of None \<Rightarrow> err | Some n \<Rightarrow> Ok (n, None))))))"

definition aacRebuildACMFromPermissions ::
  "unmarshal \<Rightarrow> marshal \<Rightarrow> ODObjectPermission list \<Rightarrow> string \<Rightarrow> (string \<times> string option) res" where
  "aacRebuildACMFromPermissions unm mar permissions acm =
     (let err = Ok (acm, Some ''auth: unable to rebuild acm from permissions'') in
      case UnmarshalStringToMap unm acm of None \<Rightarrow> err | Some acmMap \<Rightarrow>
     (case MarshalInterfaceToString mar (JObj (assoc_del ''share'' acmMap)) of None \<Rightarrow> err | Some s \<Rightarrow>
     (case aacInjectPermissionsIntoACM unm mar permissions s of
        Ok (m, None) \<Rightarrow> Ok (m, None)
      | Ok (_, Some _) \<Rightarrow> err
      | Fail e \<Rightarrow> Fail e
      | Panic \<Rightarrow> Panic)))"

subsection \<open>The rows a change of permissions comes to\<close>

text \<open>The rows given, after those the share names, with everyone's reading dropped when the share
  names somebody; and whether everyone was among them.\<close>

fun take_permissions :: "bool \<Rightarrow> ODObjectPermission list \<Rightarrow> ODObjectPermission list \<times> bool" where
  "take_permissions acmSaysEveryone [] = ([], False)"
| "take_permissions acmSaysEveryone (p # ps) =
     (let every = \<not> p_IsDeleted p \<and> p_AllowRead p \<and> aacIsPermissionFor p EveryoneGroup;
          p' = (if every \<and> \<not> acmSaysEveryone then p\<lparr>p_IsDeleted := True\<rparr> else p);
          (rest, has) = take_permissions acmSaysEveryone ps
      in ((if \<not> p_IsDeleted p' \<or> \<not> perm_IsCreating p' then p' # rest else rest), every \<or> has))"

text \<open>One pass from the last row to the first: a row whose reading must go is marked deleted and
  replaced, at the end of the list, by one without reading.\<close>

definition loses_read :: "ODObjectPermission list \<Rightarrow> bool \<Rightarrow> bool \<Rightarrow> ODObjectPermission \<Rightarrow> bool" where
  "loses_read sharePermissions hasExplicit acmSaysEveryone p \<longleftrightarrow>
     ((\<not> hasExplicit \<and> \<not> list_ex (\<lambda>sp. aacIsPermissionFor p (p_Grantee sp)) sharePermissions) \<or> acmSaysEveryone)
     \<and> \<not> p_IsDeleted p \<and> p_AllowRead p \<and> \<not> aacIsPermissionFor p EveryoneGroup"

definition adjust_read :: "(ODObjectPermission \<Rightarrow> bool) \<Rightarrow> ODObjectPermission list \<Rightarrow> ODObjectPermission list" where
  "adjust_read loses ps =
     map (\<lambda>p. if loses p then p\<lparr>p_IsDeleted := True\<rparr> else p) ps
     @ map PermissionWithoutRead (filter loses (rev ps))"

definition grants_nothing :: "ODObjectPermission \<Rightarrow> bool" where
  "grants_nothing p \<longleftrightarrow> \<not> p_AllowCreate p \<and> \<not> p_AllowRead p \<and> \<not> p_AllowUpdate p \<and> \<not> p_AllowDelete p
     \<and> \<not> p_AllowShare p"

definition drop_empty :: "bool \<Rightarrow> ODObjectPermission list \<Rightarrow> ODObjectPermission list" where
  "drop_empty isCreating ps = concat (map (\<lambda>p.
     if grants_nothing p
     then (if isCreating \<or> perm_IsCreating p then [] else [p\<lparr>p_IsDeleted := True\<rparr>])
     else [p]) ps)"

definition normalize_rows ::
  "string \<Rightarrow> ODObjectPermission list \<Rightarrow> ODObjectPermission list \<Rightarrow> bool \<Rightarrow> ODObjectPermission list" where
  "normalize_rows objectOwner sharePermissions permissions isCreating =
     (let acmSaysEveryone = (length sharePermissions = 0);
          hasExplicit = (length permissions > 0);
          (taken, hasEveryone) = take_permissions acmSaysEveryone permissions;
          everyone = (if acmSaysEveryone \<and> \<not> hasEveryone
            then [PermissionForGroup '''' '''' EveryoneGroup False True False False False] else []);
          ownerCRUDS = fst (PermissionForOwner objectOwner);
          modified = sharePermissions @ taken @ everyone @ [ownerCRUDS];
          shares = sharePermissions @ [ownerCRUDS]
      in drop_empty isCreating (adjust_read (loses_read shares hasExplicit acmSaysEveryone) modified))"

text \<open>The rows, the ACM and the error.\<close>

definition aacNormalizePermissionsFromACM ::
  "unmarshal \<Rightarrow> marshal \<Rightarrow> string \<Rightarrow> ODObjectPermission list \<Rightarrow> string \<Rightarrow> bool
     \<Rightarrow> (ODObjectPermission list \<times> string \<times> string option) res" where
  "aacNormalizePermissionsFromACM unm mar objectOwner permissions acm isCreating =
     (let err = Ok ([], '''', Some ''auth: unable to normalize permissions'') in
      case UnmarshalStringToMap unm acm of None \<Rightarrow> err | Some acmMap \<Rightarrow>
     (case MapObjectShareToODPermissions \<lparr>os_Share = (case map_of acmMap ''share'' of None \<Rightarrow> JNull | Some s \<Rightarrow> s),
             os_AllowCreate = False, os_AllowRead = True, os_AllowUpdate = False,
             os_AllowDelete = False, os_AllowShare = False\<rparr> of
        Panic \<Rightarrow> Panic | Fail e \<Rightarrow> err | Ok sharePermissions \<Rightarrow>
     (let rows = normalize_rows objectOwner sharePermissions permissions isCreating in
      case aacRebuildACMFromPermissions unm mar rows acm of
        Panic \<Rightarrow> Panic | Fail e \<Rightarrow> Fail e
      | Ok (m, None) \<Rightarrow> Ok (rows, m, None)
      | Ok (m, Some e) \<Rightarrow> Ok (rows, m, Some ''auth: unable to normalize permissions''))))"

subsection \<open>What normalizing keeps\<close>

lemma PermissionWithoutRead_flags [simp, flag_simps]:
  "p_AllowCreate (PermissionWithoutRead p) = p_AllowCreate p"
  "p_AllowRead (PermissionWithoutRead p) = False"
  "p_AllowUpdate (PermissionWithoutRead p) = p_AllowUpdate p"
  "p_AllowDelete (PermissionWithoutRead p) = p_AllowDelete p"
  "p_AllowShare (PermissionWithoutRead p) = p_AllowShare p"
  "p_IsDeleted (PermissionWithoutRead p) = False"
  by (simp_all add: PermissionWithoutRead_def Let_def)

lemma WithoutRead_owner:
  "p_Grantee (PermissionWithoutRead (fst (PermissionForOwner x))) = p_Grantee (fst (PermissionForOwner x))"
  by (simp add: PermissionWithoutRead_def PermissionForOwner_def Let_def PermissionForGroup_grantee
      empty_grantee_def null_string_def)

lemma set_adjust_read: "set (adjust_read loses ps) =
    {p \<in> set ps. \<not> loses p} \<union> (\<lambda>p. p\<lparr>p_IsDeleted := True\<rparr>) ` {p \<in> set ps. loses p}
    \<union> PermissionWithoutRead ` {p \<in> set ps. loses p}"
  by (auto simp: adjust_read_def)

lemma live_drop_empty:
  "{p \<in> set (drop_empty c ps). \<not> p_IsDeleted p} = {p \<in> set ps. \<not> p_IsDeleted p \<and> \<not> grants_nothing p}"
  by (auto simp: drop_empty_def split: if_splits)

lemma take_permissions_everyone:
  assumes "take_permissions True ps = (taken, True)"
  shows "\<exists>e \<in> set taken. \<not> p_IsDeleted e \<and> p_AllowRead e \<and> aacIsPermissionFor e EveryoneGroup"
  using assms
proof (induction ps arbitrary: taken)
  case (Cons p ps)
  obtain rest has where r: "take_permissions True ps = (rest, has)"
    by (cases "take_permissions True ps")
  show ?case
    using Cons.prems Cons.IH [of rest] by (auto simp: r Let_def split: if_splits)
qed simp

lemma take_permissions_no_everyone:
  assumes "take_permissions False ps = (taken, has)" and "e \<in> set taken" and "\<not> p_IsDeleted e"
  shows "\<not> (p_AllowRead e \<and> aacIsPermissionFor e EveryoneGroup)"
  using assms
proof (induction ps arbitrary: taken has)
  case (Cons p ps)
  obtain rest has' where r: "take_permissions False ps = (rest, has')"
    by (cases "take_permissions False ps")
  show ?case
    using Cons.prems Cons.IH [OF r] by (auto simp: r Let_def split: if_splits)
qed simp

definition owner_row :: "string \<Rightarrow> ODObjectPermission" where
  "owner_row x = fst (PermissionForOwner x)"

lemma owner_row_flags [simp, flag_simps]:
  "p_AllowCreate (owner_row x)" "p_AllowRead (owner_row x)" "p_AllowUpdate (owner_row x)"
  "p_AllowDelete (owner_row x)" "p_AllowShare (owner_row x)" "\<not> p_IsDeleted (owner_row x)"
  using PermissionForOwner_flags(1) [of x] by (simp_all add: owner_row_def)

lemma live_normalize_rows:
  assumes "take_permissions (length sh = 0) ps = (taken, hasE)"
  shows "{p \<in> set (normalize_rows owner sh ps c). \<not> p_IsDeleted p} =
    {p \<in> set (adjust_read (loses_read (sh @ [owner_row owner]) (length ps > 0) (length sh = 0))
        (sh @ taken @ (if length sh = 0 \<and> \<not> hasE
            then [PermissionForGroup '''' '''' EveryoneGroup False True False False False] else [])
          @ [owner_row owner])). \<not> p_IsDeleted p \<and> \<not> grants_nothing p}"
  unfolding normalize_rows_def Let_def assms prod.case live_drop_empty owner_row_def ..

lemma everyone_row [simp]:
  "aacIsPermissionFor (PermissionForGroup '''' '''' EveryoneGroup c r u d s) EveryoneGroup"
  by (simp add: aacIsPermissionFor_def PermissionForGroup_grantee AACFlatten_idem EveryoneGroup_def
      trim_space_def is_space_def)

text \<open>After normalizing, the owner of the object has a live row granting create, update, delete and
  share, and reading as well unless the ACM is shared with everyone, in which case a live row grants
  reading to everyone.\<close>

theorem owner_keeps_cruds:
  "let rows = normalize_rows owner sh ps c in
   \<exists>r \<in> set rows. \<not> p_IsDeleted r \<and> p_Grantee r = p_Grantee (fst (PermissionForOwner owner)) \<and>
     p_AllowCreate r \<and> p_AllowUpdate r \<and> p_AllowDelete r \<and> p_AllowShare r \<and>
     (p_AllowRead r \<or> sh = [] \<and>
       (\<exists>e \<in> set rows. \<not> p_IsDeleted e \<and> p_AllowRead e \<and> aacIsPermissionFor e EveryoneGroup))"
proof -
  obtain taken hasE where t: "take_permissions (length sh = 0) ps = (taken, hasE)"
    by (cases "take_permissions (length sh = 0) ps")
  let ?o = "owner_row owner"
  let ?e = "PermissionForGroup '''' '''' EveryoneGroup False True False False False"
  let ?loses = "loses_read (sh @ [?o]) (length ps > 0) (length sh = 0)"
  let ?mod = "sh @ taken @ (if length sh = 0 \<and> \<not> hasE then [?e] else []) @ [?o]"
  let ?rows = "normalize_rows owner sh ps c"
  have inrows: "p \<in> set ?rows"
    if "p \<in> set (adjust_read ?loses ?mod)" "\<not> p_IsDeleted p" "\<not> grants_nothing p" for p
    using live_normalize_rows [OF t, of owner c] that by blast
  have every: "\<exists>e \<in> set ?rows. \<not> p_IsDeleted e \<and> p_AllowRead e \<and> aacIsPermissionFor e EveryoneGroup"
    if "sh = []"
  proof -
    have "\<exists>e \<in> set ?mod. \<not> p_IsDeleted e \<and> p_AllowRead e \<and> aacIsPermissionFor e EveryoneGroup"
      using take_permissions_everyone [of ps taken] t that by (cases hasE) auto
    then obtain e where e: "e \<in> set ?mod" "\<not> p_IsDeleted e" "p_AllowRead e" "aacIsPermissionFor e EveryoneGroup"
      by blast
    then have "e \<in> set (adjust_read ?loses ?mod)"
      by (simp add: set_adjust_read loses_read_def)
    with e show ?thesis
      using inrows [of e] by (auto simp: grants_nothing_def)
  qed
  show ?thesis
  proof (cases "?loses ?o")
    case True
    then have "sh = []"
      by (auto simp: loses_read_def aacIsPermissionFor_def)
    have "PermissionWithoutRead ?o \<in> set (adjust_read ?loses ?mod)"
      using True by (auto simp: set_adjust_read)
    then have "PermissionWithoutRead ?o \<in> set ?rows"
      using inrows by (simp add: grants_nothing_def)
    then show ?thesis
      using every [OF \<open>sh = []\<close>] \<open>sh = []\<close> WithoutRead_owner [of owner]
      unfolding Let_def by (intro bexI [of _ "PermissionWithoutRead ?o"]) (auto simp: owner_row_def [symmetric])
  next
    case False
    then have "?o \<in> set (adjust_read ?loses ?mod)"
      by (auto simp: set_adjust_read)
    then have "?o \<in> set ?rows"
      using inrows by (simp add: grants_nothing_def)
    then show ?thesis
      unfolding Let_def by (intro bexI [of _ ?o]) (auto simp: owner_row_def [symmetric])
  qed
qed

text \<open>After normalizing, reading and the ACM's share agree about everyone: when the share names
  nobody, every live row that grants reading is everyone's; when it names somebody, and neither the
  share nor the owner is everyone, no live row grants reading to everyone.\<close>

theorem normalized_reads:
  assumes "r \<in> set (normalize_rows owner sh ps c)" and "\<not> p_IsDeleted r" and "p_AllowRead r"
  shows "if sh = [] then aacIsPermissionFor r EveryoneGroup
    else aacIsPermissionFor r EveryoneGroup \<longrightarrow>
      (\<exists>s \<in> set (sh @ [fst (PermissionForOwner owner)]). aacIsPermissionFor s EveryoneGroup)"
proof -
  obtain taken hasE where t: "take_permissions (length sh = 0) ps = (taken, hasE)"
    by (cases "take_permissions (length sh = 0) ps")
  have r: "r \<in> set (adjust_read (loses_read (sh @ [owner_row owner]) (length ps > 0) (length sh = 0))
      (sh @ taken @ (if length sh = 0 \<and> \<not> hasE
        then [PermissionForGroup '''' '''' EveryoneGroup False True False False False] else []) @ [owner_row owner]))"
    using live_normalize_rows [OF t, of owner c] assms(1,2) by blast
  show ?thesis
  proof (cases "sh = []")
    case True
    then show ?thesis
      using r assms(2,3) by (auto simp: set_adjust_read loses_read_def)
  next
    case False
    then have "r \<in> set sh \<union> set taken \<union> {owner_row owner}"
      using r assms(2,3) by (auto simp: set_adjust_read)
    then show ?thesis
      using take_permissions_no_everyone [of ps taken hasE r] t False assms(2,3)
      by (auto simp: owner_row_def [symmetric])
  qed
qed

theorem normalized_reads_witness:
  "PermissionForUser ''cn=a'' False True False False False \<in>
     set (normalize_rows '''' [PermissionForUser ''cn=a'' False True False False False] [] True) \<and>
   \<not> aacIsPermissionFor (PermissionForUser ''cn=a'' False True False False False) EveryoneGroup"
proof -
  let ?p = "PermissionForUser ''cn=a'' False True False False False"
  have mem: "?p \<in> set (normalize_rows '''' [?p] [] True)"
    by (auto simp: normalize_rows_def Let_def drop_empty_def adjust_read_def loses_read_def
        aacIsPermissionFor_def grants_nothing_def)
  have imp: "aacIsPermissionFor ?p EveryoneGroup \<longrightarrow>
      (\<exists>s \<in> set ([?p] @ [fst (PermissionForOwner '''')]). aacIsPermissionFor s EveryoneGroup)"
    using normalized_reads [OF mem] by simp
  have neg: "\<not> (\<exists>s \<in> set ([?p] @ [fst (PermissionForOwner '''')]). aacIsPermissionFor s EveryoneGroup)"
    by (simp add: aacIsPermissionFor_def PermissionForOwner_def NewODAcmGranteeFromResourceName_def empty_grantee_def
        null_string_def PermissionForGroup_grantee AACFlatten_map EveryoneGroup_def char_eval flatten_removed_def)
  show ?thesis
    using mem by (rule conjI) (rule contrapos_nn [OF neg mp [OF imp]])
qed

subsection \<open>The access control service (aac.go)\<close>

datatype 'a svc = SvcErr | SvcNil | SvcResp 'a

record AcmResponse =
  ar_Success :: bool
  ar_Messages :: "string list"
  ar_AcmValid :: bool
  ar_AcmInfo :: "string option"

record CheckAccessResponse =
  cr_Success :: bool
  cr_Messages :: "string list"
  cr_HasAccess :: bool

record SnippetResponse =
  sr_Success :: bool
  sr_Messages :: "string list"
  sr_Found :: bool
  sr_Snippets :: string

record AacService =
  PopulateAndValidateAcm :: "string \<Rightarrow> AcmResponse svc"
  CheckAccess :: "string \<Rightarrow> string \<Rightarrow> string \<Rightarrow> CheckAccessResponse svc"
  GetSnippets :: "string \<Rightarrow> string \<Rightarrow> string \<Rightarrow> SnippetResponse svc"

definition tokenType :: string where "tokenType = ''pki_dias''"
definition snippetType :: string where "snippetType = ''odrive-raw''"

text \<open>The flattened ACM, the messages and the error, \<open>None\<close> for nil.\<close>

definition GetFlattenedACM :: "AacService option \<Rightarrow> string \<Rightarrow> string \<times> string list \<times> string option" where
  "GetFlattenedACM service acm =
     (if acm = '''' then (acm, [], Some ''auth: acm not specified'')
      else case service of None \<Rightarrow> (acm, [], Some ''auth: service is not set on auth module'')
      | Some svc \<Rightarrow> (case PopulateAndValidateAcm svc acm of
          SvcErr \<Rightarrow> (acm, [], Some ''auth: unable to flatten acm'')
        | SvcNil \<Rightarrow> (acm, [], Some ''auth: service returned a nil response'')
        | SvcResp r \<Rightarrow>
            if \<not> ar_Success r then (acm, ar_Messages r, Some ''auth: acm response type marked as failed'')
            else if \<not> ar_AcmValid r then (acm, ar_Messages r, Some ''auth: acm not valid'')
            else (case ar_AcmInfo r of
                None \<Rightarrow> (acm, ar_Messages r, Some ''auth: service returned an unsuccessful response'')
              | Some flat \<Rightarrow> (flat, ar_Messages r, None))))"

definition IsUserAuthorizedForACM :: "AacService option \<Rightarrow> string \<Rightarrow> string \<Rightarrow> bool \<times> string option" where
  "IsUserAuthorizedForACM service userIdentity acm =
     (if acm = '''' then (False, Some ''auth: acm not specified'')
      else if userIdentity = '''' then (False, Some ''auth: user not specified'')
      else case service of None \<Rightarrow> (False, Some ''auth: service is not set on auth module'')
      | Some svc \<Rightarrow> (case GetFlattenedACM service acm of
          (_, _, Some e) \<Rightarrow> (False, Some e)
        | (flattenedACM, _, None) \<Rightarrow> (case CheckAccess svc userIdentity tokenType flattenedACM of
              SvcErr \<Rightarrow> (False, Some ''auth: unable to check user access to acm'')
            | SvcNil \<Rightarrow> (False, Some ''auth: service returned a nil response'')
            | SvcResp r \<Rightarrow>
                let msgs = join_str ''/'' (cr_Messages r) in
                if \<not> cr_Success r
                then (False, Some (''auth: service returned an unsuccessful response '' @ msgs))
                else if \<not> cr_HasAccess r then (False, Some (''auth: user not authorized '' @ msgs))
                else (True, None))))"

definition NewAACAuth_Version :: "string \<Rightarrow> string" where
  "NewAACAuth_Version AACAnnouncementPoint =
     (if length AACAnnouncementPoint > 0 then
        (let parts = split_char (CHR ''/'') AACAnnouncementPoint;
             v = (if length parts > 1 then parts ! (length parts - 2) else ''1.1'')
         in if contains_str AACAnnouncementPoint ''/1.0/'' then ''1.0'' else v)
      else ''1.1'')"

definition GetSnippetsForUser ::
  "AacService option \<Rightarrow> string \<Rightarrow> (string \<Rightarrow> string + RawSnippetFields list) \<Rightarrow> string
     \<Rightarrow> string + RawSnippetFields list" where
  "GetSnippetsForUser service version convert userIdentity =
     (if userIdentity = '''' then Inl ''auth: user not specified''
      else case service of None \<Rightarrow> Inl ''auth: service is not set on auth module''
      | Some svc \<Rightarrow> (case GetSnippets svc userIdentity tokenType snippetType of
          SvcErr \<Rightarrow> Inl ''auth: unable to retrieve snippets''
        | SvcNil \<Rightarrow> Inl ''auth: service returned a nil response''
        | SvcResp r \<Rightarrow>
            let msgs = join_str ''/'' (sr_Messages r) in
            if \<not> sr_Success r then Inl (''auth: service returned an unsuccessful response '' @ msgs)
            else if version = ''1.1'' \<and> \<not> sr_Found r
            then Inl (''auth: service returned an unsuccessful response '' @ msgs)
            else convert (sr_Snippets r)))"

definition GetGroupsForUser ::
  "AacService option \<Rightarrow> string \<Rightarrow> (string \<Rightarrow> string + RawSnippetFields list) \<Rightarrow> string \<Rightarrow> string + string list" where
  "GetGroupsForUser service version convert userIdentity =
     (case GetSnippetsForUser service version convert userIdentity of
        Inl e \<Rightarrow> Inl e | Inr fs \<Rightarrow> Inr (aacGetGroupsFromSnippets (Some fs)))"

text \<open>\<open>NormalizePermissionsFromACM\<close> of \<open>AACAuth\<close>: the error of the inner call is overwritten.\<close>

definition NormalizePermissionsFromACM ::
  "unmarshal \<Rightarrow> marshal \<Rightarrow> AacService option \<Rightarrow> string \<Rightarrow> ODObjectPermission list \<Rightarrow> string \<Rightarrow> bool
     \<Rightarrow> (ODObjectPermission list \<times> string \<times> string option) res" where
  "NormalizePermissionsFromACM unm mar service objectOwner permissions acm isCreating =
     (case aacNormalizePermissionsFromACM unm mar objectOwner permissions acm isCreating of
        Panic \<Rightarrow> Panic | Fail e \<Rightarrow> Fail e
      | Ok (modifiedPermissions, modifiedACM, _) \<Rightarrow>
         (case GetFlattenedACM service modifiedACM of
            (flat, _, Some e) \<Rightarrow> Ok (modifiedPermissions, flat, Some e)
          | (flat, _, None) \<Rightarrow>
              let rebuild = Some ''auth: unable to rebuild acm from permissions'' in
              (case UnmarshalStringToMap unm flat of
                 None \<Rightarrow> Ok (modifiedPermissions, flat, rebuild)
               | Some acmMap \<Rightarrow> (case MarshalInterfaceToString mar (JObj acmMap) of
                     None \<Rightarrow> Ok (modifiedPermissions, '''', rebuild)
                   | Some s \<Rightarrow> Ok (modifiedPermissions, s, None)))))"

subsection \<open>The service switched off (aacoff.go)\<close>

definition off_GetFlattenedACM :: "string \<Rightarrow> string \<times> string list \<times> string option" where
  "off_GetFlattenedACM acm = (if acm = '''' then (acm, [], Some ''auth: acm not specified'')
     else (acm, [], Some ''auth: service is not set on auth module''))"

definition off_IsUserAuthorizedForACM :: "string \<Rightarrow> string \<Rightarrow> bool \<times> string option" where
  "off_IsUserAuthorizedForACM userIdentity acm =
     (if acm = '''' then (False, Some ''auth: acm not specified'')
      else if userIdentity = '''' then (False, Some ''auth: user not specified'')
      else (False, Some ''auth: service is not set on auth module''))"

lemma off_agrees:
  "off_GetFlattenedACM acm = GetFlattenedACM None acm"
  "off_IsUserAuthorizedForACM u acm = IsUserAuthorizedForACM None u acm"
  by (simp_all add: off_GetFlattenedACM_def off_IsUserAuthorizedForACM_def GetFlattenedACM_def
      IsUserAuthorizedForACM_def)

text \<open>C27: a user is found authorized for an ACM exactly when the service validated and flattened the ACM
  and then answered, for the flattened one, that the user has access; a missing service, an error,
  a nil answer or an unsuccessful one all deny, and an error always comes with a denial.\<close>

theorem authorized_exactly:
  "IsUserAuthorizedForACM service u acm = (True, None) \<longleftrightarrow>
     acm \<noteq> '''' \<and> u \<noteq> '''' \<and> (\<exists>svc r flat c. service = Some svc \<and>
       PopulateAndValidateAcm svc acm = SvcResp r \<and> ar_Success r \<and> ar_AcmValid r \<and> ar_AcmInfo r = Some flat \<and>
       CheckAccess svc u ''pki_dias'' flat = SvcResp c \<and> cr_Success c \<and> cr_HasAccess c)"
  by (cases service) (auto simp: IsUserAuthorizedForACM_def GetFlattenedACM_def tokenType_def Let_def
      split: svc.splits option.splits if_splits)

text \<open>A decoder that knows two texts, and a service that returns the ACM as it is.\<close>

definition sample_unm :: unmarshal where
  "sample_unm s = (if s = ''A'' then Some (JObj [(''share'', JObj [(''users'', JArr [JStr ''a''])])])
     else if s = ''E'' then Some (JObj []) else None)"

definition sample_mar :: marshal where
  "sample_mar j = (if j = JObj [] then Some ''E'' else Some ''A'')"

definition sample_service :: AacService where
  "sample_service = \<lparr>PopulateAndValidateAcm = (\<lambda>acm. SvcResp \<lparr>ar_Success = True, ar_Messages = [],
       ar_AcmValid = True, ar_AcmInfo = Some acm\<rparr>),
     CheckAccess = (\<lambda>u t a. SvcResp \<lparr>cr_Success = True, cr_Messages = [], cr_HasAccess = True\<rparr>),
     GetSnippets = (\<lambda>u t s. SvcNil)\<rparr>"

lemma sample_rows:
  "normalize_rows ''user/o'' [PermissionForUser ''a'' False True False False False] [] True =
    [PermissionForUser ''a'' False True False False False, owner_row ''user/o'']"
proof -
  have "\<not> grants_nothing (owner_row ''user/o'')"
    by (simp add: grants_nothing_def)
  moreover have "\<not> loses_read ([PermissionForUser ''a'' False True False False False] @ [owner_row ''user/o'']) False False p"
    if "p \<in> {PermissionForUser ''a'' False True False False False, owner_row ''user/o''}" for p
    using that by (auto simp: loses_read_def aacIsPermissionFor_def)
  ultimately show ?thesis
    by (simp add: normalize_rows_def Let_def adjust_read_def drop_empty_def grants_nothing_def
        owner_row_def [symmetric])
qed

text \<open>An error of rebuilding the ACM is lost. Here the share text of a row cannot be parsed, so the
  inner call fails and keeps the ACM as it was given; \<open>AACAuth\<close> overwrites the error with that of
  flattening and reports success, with the changed rows beside the unchanged ACM.\<close>

theorem normalize_hides_error:
  "let rows = normalize_rows ''user/o'' [PermissionForUser ''a'' False True False False False] [] True in
   aacNormalizePermissionsFromACM sample_unm sample_mar ''user/o'' [] ''A'' True
     = Ok (rows, ''A'', Some ''auth: unable to normalize permissions'') \<and>
   NormalizePermissionsFromACM sample_unm sample_mar (Some sample_service) ''user/o'' [] ''A'' True
     = Ok (rows, ''A'', None)"
proof -
  let ?rows = "normalize_rows ''user/o'' [PermissionForUser ''a'' False True False False False] [] True"
  have un: "UnmarshalStringToMap sample_unm ''A'' = Some [(''share'', JObj [(''users'', JArr [JStr ''a''])])]"
    by (simp add: UnmarshalStringToMap_def sample_unm_def)
  have sp: "MapObjectShareToODPermissions \<lparr>os_Share = JObj [(''users'', JArr [JStr ''a''])],
      os_AllowCreate = False, os_AllowRead = True, os_AllowUpdate = False, os_AllowDelete = False,
      os_AllowShare = False\<rparr> = Ok [PermissionForUser ''a'' False True False False False]"
    by (simp add: MapObjectShareToODPermissions_def share_user_def char_eval)
  have ne: "\<not> aacIsPermissionFor (PermissionForUser ''a'' False True False False False) EveryoneGroup"
    by (simp add: aacIsPermissionFor_def AACFlatten_map EveryoneGroup_def char_eval flatten_removed_def)
  have share: "sample_unm (to_lower (p_AcmShare (PermissionForUser ''a'' False True False False False))) = None"
    by (simp add: PermissionForUser_def Let_def sample_unm_def dq_def char_eval)
  have "aacInjectPermissionsIntoACM sample_unm sample_mar ?rows ''E'' =
      Ok (''E'', Some ''auth: unable to inject permissions into acm'')"
    using ne share by (simp add: aacInjectPermissionsIntoACM_def sample_rows UnmarshalStringToMap_def)
      (simp add: sample_unm_def)
  then have "aacRebuildACMFromPermissions sample_unm sample_mar ?rows ''A'' =
      Ok (''A'', Some ''auth: unable to rebuild acm from permissions'')"
    by (simp add: aacRebuildACMFromPermissions_def un MarshalInterfaceToString_def sample_mar_def)
  then have inner: "aacNormalizePermissionsFromACM sample_unm sample_mar ''user/o'' [] ''A'' True
     = Ok (?rows, ''A'', Some ''auth: unable to normalize permissions'')"
    by (simp add: aacNormalizePermissionsFromACM_def un sp Let_def)
  moreover have "GetFlattenedACM (Some sample_service) ''A'' = (''A'', [], None)"
    by (simp add: GetFlattenedACM_def sample_service_def)
  ultimately show ?thesis
    by (simp add: NormalizePermissionsFromACM_def un MarshalInterfaceToString_def sample_mar_def)
qed

end
