(* ===== verification/Util.thy ===== *)
theory Util
  imports Go_Strings
begin

text \<open>
  \<open>util\<close>: matching error messages (\<open>contains.go\<close>), delimited paths (\<open>delimiter.go\<close>), the check of file
  paths (\<open>regex.go\<close>), content types (\<open>isapplicationjson.go\<close>), GUIDs (\<open>guid.go\<close>) and signed bytes
  (\<open>byte.go\<close>). The bytes that \<open>crypto/rand\<close> gives are an argument.
\<close>

subsection \<open>Messages and content types\<close>

definition ContainsAny :: "string \<Rightarrow> string list \<Rightarrow> bool" where
  "ContainsAny msg a \<longleftrightarrow> list_ex (\<lambda>s. contains_str msg s) a"

definition FirstMatch :: "string \<Rightarrow> string list \<Rightarrow> string" where
  "FirstMatch msg a = (case find (\<lambda>s. contains_str msg s) a of Some s \<Rightarrow> s | None \<Rightarrow> '''')"

definition IsApplicationJSON :: "string \<Rightarrow> bool" where
  "IsApplicationJSON contentType \<longleftrightarrow> trim_space (split_char CHR '';'' contentType ! 0) = ''application/json''"

subsection \<open>Delimited paths\<close>

definition DefaultPathDelimiter :: string where
  "DefaultPathDelimiter = [CHR 0x1E]"

function trim_prefixes :: "string \<Rightarrow> string \<Rightarrow> string" where
  "trim_prefixes d s = (if d \<noteq> [] \<and> has_prefix s d then trim_prefixes d (drop (length d) s) else s)"
  by pat_completeness auto
termination
  by (relation "measure (\<lambda>(d, s). length s)") (auto simp: prefix_def)

function trim_suffixes :: "string \<Rightarrow> string \<Rightarrow> string" where
  "trim_suffixes d s = (if d \<noteq> [] \<and> has_suffix s d then trim_suffixes d (take (length s - length d) s) else s)"
  by pat_completeness auto
termination
  by (relation "measure (\<lambda>(d, s). length s)") (auto simp: suffix_def)

lemma index_str_Some:
  "index_str s p = Some i \<Longrightarrow> i + length p \<le> length s \<and> take (length p) (drop i s) = p"
proof (induction s arbitrary: i)
  case (Cons c s)
  show ?case
  proof (cases "prefix p (c # s)")
    case True
    then show ?thesis
      using Cons.prems prefix_length_le [OF True] by (auto simp: prefix_def)
  next
    case False
    then show ?thesis
      using Cons by (auto split: option.splits)
  qed
qed (auto split: if_splits)

text \<open>\<open>strings.Split\<close> at a delimiter that is not empty.\<close>

function split_str :: "string \<Rightarrow> string \<Rightarrow> string list" where
  "split_str d s = (case index_str s d of
     Some i \<Rightarrow> if d = [] then [s] else take i s # split_str d (drop (i + length d) s)
   | None \<Rightarrow> [s])"
  by pat_completeness auto
termination
  by (relation "measure (\<lambda>(d, s). length s)") (auto dest!: index_str_Some simp flip: length_greater_0_conv)

definition GetNextDelimitedPart :: "string \<Rightarrow> string \<Rightarrow> string \<times> string" where
  "GetNextDelimitedPart value0 delimiter0 =
     (let delimiter = (if length delimiter0 = 0 then DefaultPathDelimiter else delimiter0);
          cleansed = trim_suffixes delimiter (trim_prefixes delimiter value0);
          res = split_str delimiter cleansed
      in if length res > 1 then (hd res, join_str delimiter (tl res)) else ('''', cleansed))"

lemma split_str_not_Nil [simp]: "split_str d s \<noteq> []"
  by (subst split_str.simps) (auto split: option.splits)

declare split_str.simps [simp del] trim_prefixes.simps [simp del] trim_suffixes.simps [simp del]

lemma join_Cons: "ss \<noteq> [] \<Longrightarrow> join_str d (s # ss) = s @ d @ join_str d ss"
  by (cases ss) simp_all

lemma join_split_str [simp]: "join_str d (split_str d s) = s"
proof (induction d s rule: split_str.induct)
  case (1 d s)
  show ?case
  proof (cases "index_str s d")
    case None
    then show ?thesis
      by (simp add: split_str.simps [of d s])
  next
    case (Some i)
    show ?thesis
    proof (cases "d = []")
      case False
      have "take i s @ d @ drop (i + length d) s = s"
        using index_str_Some [OF Some] by (metis append_take_drop_id drop_drop add.commute)
      then show ?thesis
        using 1 Some False by (simp add: split_str.simps [of d s] join_Cons)
    next
      case True
      then show ?thesis
        using Some by (simp add: split_str.simps [of "[]" s])
    qed
  qed
qed

subsection \<open>Paths of files\<close>

definition SanitizePath :: "string \<Rightarrow> string \<Rightarrow> string option" where
  "SanitizePath root path =
     (if \<not> has_prefix path root then Some (''normalized path is not in root.  definite attack attempt: '' @ path)
      else if contains_str path ''..'' then Some (''relative path detected. possible attack. path string: '' @ path)
      else if contains_str path ''%'' then Some (''encoding metacharacter detected. possible attack. path string: '' @ path)
      else None)"

subsection \<open>Identifiers and signed bytes\<close>

definition NewGUIDBytes :: "bytes \<Rightarrow> bytes" where
  "NewGUIDBytes rnd = (let guid = rnd[8 := or (and (rnd ! 8) (not 0xC0)) 0x80]
     in guid[6 := or (and (guid ! 6) (not 0xF0)) 0x40])"

definition NewGUID :: "bytes \<Rightarrow> string" where
  "NewGUID rnd = (let guid = NewGUIDBytes rnd in
     hex_encode (take 4 guid) @ hex_encode (take 2 (drop 4 guid)) @ hex_encode (take 2 (drop 6 guid)) @
     hex_encode (take 2 (drop 8 guid)) @ hex_encode (drop 10 guid))"

definition StringToInt8Slice :: "string \<Rightarrow> 8 word list" where
  "StringToInt8Slice input = str_bytes input"

end
