(* ===== verification/Paging.thy ===== *)
theory Paging
  imports Util
begin

text \<open>
  Paging requests: what the service accepts (\<open>protocol/PagingRequest.go\<close>), its copy for the data layer
  (\<open>mapping/PagingRequest.go\<close>), and the arithmetic of limits, offsets and page counts
  (\<open>dao/paging.go\<close>). The values of a query string are an association list from names to their
  values; an \<open>int\<close> of the program is 64 bits wide, and the product in \<open>GetOffset\<close> wraps.
\<close>

subsection \<open>Limits, offsets and page counts (\<open>dao/paging.go\<close>)\<close>

definition absoluteMaxPageSize :: int where
  "absoluteMaxPageSize = 10000"

definition GetSanitizedPageNumber :: "int \<Rightarrow> int" where
  "GetSanitizedPageNumber pageNumber = (if pageNumber < 1 then 1 else pageNumber)"

definition GetSanitizedPageSize :: "int \<Rightarrow> int" where
  "GetSanitizedPageSize pageSize =
     (if pageSize < 1 then 1 else if pageSize > absoluteMaxPageSize then absoluteMaxPageSize else pageSize)"

definition GetLimit :: "int \<Rightarrow> int \<Rightarrow> int" where
  "GetLimit pageNumber pageSize = GetSanitizedPageSize pageSize"

definition GetOffset :: "int \<Rightarrow> int \<Rightarrow> int" where
  "GetOffset pageNumber pageSize =
     wrap64 ((GetSanitizedPageNumber pageNumber - 1) * GetSanitizedPageSize pageSize)"

text \<open>The loop of \<open>GetPageCount\<close>; a division by zero panics.\<close>

partial_function (option) count_up :: "int \<Rightarrow> int \<Rightarrow> int \<Rightarrow> int option" where
  "count_up pageCount pageSize totalRows =
     (if wrap64 (pageCount * pageSize) < totalRows then count_up (wrap64 (pageCount + 1)) pageSize totalRows
      else Some pageCount)"

definition GetPageCount :: "int \<Rightarrow> int \<Rightarrow> int res option" where
  "GetPageCount totalRows pageSize =
     (if pageSize = 0 then Some Panic
      else map_option Ok (count_up (wrap64 (go_div totalRows pageSize)) pageSize totalRows))"

lemma sanitized_size: "1 \<le> GetSanitizedPageSize s \<and> GetSanitizedPageSize s \<le> 10000"
  by (simp add: GetSanitizedPageSize_def absoluteMaxPageSize_def)

lemma sanitized_number: "1 \<le> GetSanitizedPageNumber n"
  by (simp add: GetSanitizedPageNumber_def)

text \<open>The rows of a query that a page asks for, and how many pages there are.\<close>

definition page_rows :: "int \<Rightarrow> int \<Rightarrow> 'a list \<Rightarrow> 'a list" where
  "page_rows pageNumber pageSize rows =
     take (nat (GetLimit pageNumber pageSize)) (drop (nat (GetOffset pageNumber pageSize)) rows)"

lemma page_count_nonneg:
  assumes "1 \<le> s" and "s \<le> 10000" and "0 \<le> t" and "t < 2 ^ 62"
  shows "GetPageCount t s = Some (Ok ((t + s - 1) div s))"
proof -
  have q: "t div s * s \<le> t" "t < (t div s + 1) * s"
    using assms(1) by (auto simp: div_mult_mod_eq [symmetric] algebra_simps intro: pos_mod_bound
      dest: pos_mod_sign [of s t]) (smt (verit) mult.commute mult_div_mod_eq pos_mod_bound pos_mod_sign)+
  have r: "0 \<le> t div s" "t div s \<le> t"
    using assms by (auto simp: pos_imp_zdiv_nonneg_iff) (metis div_by_1 int_one_le_iff_zero_less zdiv_mono2 zero_less_one)
  have w: "wrap64 (t div s) = t div s" "wrap64 (t div s * s) = t div s * s" "wrap64 (t div s + 1) = t div s + 1"
      "wrap64 ((t div s + 1) * s) = (t div s + 1) * s"
    using assms q r by (auto intro!: wrap64_id) (simp_all add: algebra_simps)
  have "(t + s - 1) div s = (if t div s * s < t then t div s + 1 else t div s)"
    using assms(1) q
      int_div_pos_eq [of "t + s - 1" s "t div s + 1" "t - 1 - t div s * s"]
      int_div_pos_eq [of "t + s - 1" s "t div s" "s - 1"]
    by (auto simp: algebra_simps)
  then show ?thesis
    using assms w q by (simp add: GetPageCount_def count_up.simps)
qed

lemma offset_exact:
  assumes "1 \<le> k" and "1 \<le> s" and "s \<le> 10000" and "k \<le> 2 ^ 48"
  shows "GetOffset k s = (k - 1) * s"
proof -
  have "(k - 1) * s \<le> 2 ^ 48 * 10000"
    using assms by (intro mult_mono) auto
  then show ?thesis
    using assms wrap64_id [of "(k - 1) * s"]
    by (simp add: GetOffset_def GetSanitizedPageNumber_def GetSanitizedPageSize_def absoluteMaxPageSize_def
        order.trans [of _ 0])
qed

lemma page_rows_exact:
  assumes "GetSanitizedPageSize s = int S" and "k < 2 ^ 48"
  shows "page_rows (int k + 1) s rows = take S (drop (k * S) rows)"
proof -
  have "GetOffset (int k + 1) s = GetOffset (int k + 1) (int S)"
    using assms(1) sanitized_size [of s] by (simp add: GetOffset_def GetSanitizedPageSize_def absoluteMaxPageSize_def)
  also have "\<dots> = int (k * S)"
    using offset_exact [of "int k + 1" "int S"] assms sanitized_size [of s] by simp
  finally have "nat (GetOffset (int k + 1) s) = k * S"
    by (simp only: nat_int)
  then show ?thesis
    using assms(1) by (simp add: page_rows_def GetLimit_def)
qed

lemma pages_concat:
  "concat (map (\<lambda>k. take s (drop (k * s) xs)) [0..<n]) = take (n * s) xs"
proof (induction n)
  case (Suc n)
  then show ?case
    by (simp add: take_add add.commute [of s])
qed simp

text \<open>C33: the pages from the first to the page count, in order, are the rows of the query: no row is
  missed and none is given twice.\<close>

theorem pages_partition:
  assumes "int (length rows) < 2 ^ 32" and "GetPageCount (int (length rows)) (GetSanitizedPageSize s) = Some (Ok n)"
  shows "concat (map (\<lambda>k. page_rows k s rows) [1..n]) = rows"
proof -
  obtain S where S: "GetSanitizedPageSize s = int S" "1 \<le> S" "S \<le> 10000"
    using sanitized_size [of s] by (metis int_ops(2) nat_int nat_le_iff nat_mono nat_one_as_int of_nat_le_iff
      of_nat_numeral zero_le_imp_eq_int zero_le_one order_trans)
  define N where "N = (length rows + S - 1) div S"
  have "n = int N"
    using assms page_count_nonneg [of "int S" "int (length rows)"] S
    by (simp add: N_def zdiv_int of_nat_diff)
  moreover have cover: "length rows \<le> N * S"
    using dividend_less_times_div [of S "length rows + S - 1"] S(2) by (simp add: N_def algebra_simps)
  moreover have "N \<le> length rows + S - 1"
    by (simp add: N_def)
  then have "int N < 2 ^ 48"
    using assms(1) S(3) by simp
  then have "map (\<lambda>k. page_rows k s rows) [1..int N] = map (\<lambda>k. take S (drop (k * S) rows)) [0..<N]"
    by (intro nth_equalityI) (auto simp: page_rows_exact [OF S(1)] add.commute [of 1])
  ultimately show ?thesis
    using pages_concat [of S rows N] by simp
qed

lemma pages_partition_witness:
  "concat (map (\<lambda>k. page_rows k 2 [10, 11, 12 :: nat]) [1..2]) = [10, 11, 12]"
proof -
  have "GetPageCount (int (length [10, 11, 12 :: nat])) (GetSanitizedPageSize 2) = Some (Ok 2)"
    using page_count_nonneg [of 2 3] by (simp add: GetSanitizedPageSize_def absoluteMaxPageSize_def)
  then show ?thesis
    by (intro pages_partition) simp_all
qed

lemma offset_overflows: "GetOffset 461168601842738793 20 = - 9223372036854775776"
  by code_simp

subsection \<open>What a request may ask for (\<open>protocol/PagingRequest.go\<close>)\<close>

record FilterSetting =
  fl_FilterField :: string
  fl_Condition :: string
  fl_Expression :: string

record SortSetting =
  so_SortField :: string
  so_SortAscending :: bool

record PagingRequest =
  pq_PageNumber :: int
  pq_PageSize :: int
  pq_ObjectID :: string
  pq_FilterSettings :: "FilterSetting list"
  pq_SortSettings :: "SortSetting list"
  pq_FilterMatchType :: string

definition empty_paging :: PagingRequest where
  "empty_paging = \<lparr>pq_PageNumber = 0, pq_PageSize = 0, pq_ObjectID = '''', pq_FilterSettings = [],
     pq_SortSettings = [], pq_FilterMatchType = ''''\<rparr>"

type_synonym url_values = "(string \<times> string list) list"

definition url_all :: "url_values \<Rightarrow> string \<Rightarrow> string list" where
  "url_all v n = (case map_of v n of Some vs \<Rightarrow> vs | None \<Rightarrow> [])"

definition url_get :: "url_values \<Rightarrow> string \<Rightarrow> string" where
  "url_get v n = (case url_all v n of [] \<Rightarrow> '''' | x # xs \<Rightarrow> x)"

text \<open>The value \<open>strconv.Atoi\<close> gives beside an error that is ignored: the nearest number when out of
  range, zero otherwise.\<close>

definition Atoi_value :: "string \<Rightarrow> int" where
  "Atoi_value s = (case parse_int s of None \<Rightarrow> 0
     | Some n \<Rightarrow> max (- 9223372036854775808) (min 9223372036854775807 n))"

fun GetQueryParamAsPositiveInt :: "url_values \<Rightarrow> string list \<Rightarrow> int \<Rightarrow> int" where
  "GetQueryParamAsPositiveInt urlValues [] defaultValue = defaultValue"
| "GetQueryParamAsPositiveInt urlValues (n # names) defaultValue =
     (if length n > 0 \<and> length (url_get urlValues n) > 0 then
        (case ParseInt64 (url_get urlValues n) of
           Some v \<Rightarrow> if v > 0 then v else GetQueryParamAsPositiveInt urlValues names defaultValue
         | None \<Rightarrow> GetQueryParamAsPositiveInt urlValues names defaultValue)
      else GetQueryParamAsPositiveInt urlValues names defaultValue)"

definition nth_or_first :: "'a list \<Rightarrow> nat \<Rightarrow> 'a" where
  "nth_or_first xs i = (if length xs > i then xs ! i else xs ! 0)"

definition makeFilterSettingsFromQueryParam :: "url_values \<Rightarrow> FilterSetting list" where
  "makeFilterSettingsFromQueryParam urlValues =
     (let filterFields = url_all urlValues ''filterField'';
          conditions = url_all urlValues ''condition'';
          expressions = url_all urlValues ''expression''
      in if length filterFields > 0 \<and> length conditions > 0 \<and> length expressions > 0
         then map (\<lambda>(i, filterField). \<lparr>fl_FilterField = filterField, fl_Condition = nth_or_first conditions i,
             fl_Expression = nth_or_first expressions i\<rparr>) (enumerate 0 filterFields)
         else [])"

definition makeSortSettingsFromQueryParam :: "url_values \<Rightarrow> SortSetting list" where
  "makeSortSettingsFromQueryParam urlValues =
     (let sortFields = url_all urlValues ''sortField'';
          sortAscendingValues = url_all urlValues ''sortAscending''
      in map (\<lambda>(i, sortField). \<lparr>so_SortField = sortField, so_SortAscending =
             (if length sortAscendingValues > 0 then nth_or_first sortAscendingValues i = ''true'' else False)\<rparr>)
           (enumerate 0 sortFields))"

text \<open>The request and whether its parent identifier could be decoded.\<close>

definition newPagingRequestFromURLValues :: "url_values \<Rightarrow> PagingRequest \<times> string option" where
  "newPagingRequestFromURLValues urlValues =
     (let pr = \<lparr>pq_PageNumber = GetQueryParamAsPositiveInt urlValues [''PageNumber'', ''pageNumber''] 1,
                pq_PageSize = GetQueryParamAsPositiveInt urlValues [''PageSize'', ''pageSize''] 20,
                pq_ObjectID = url_get urlValues ''parentId'',
                pq_FilterSettings = makeFilterSettingsFromQueryParam urlValues,
                pq_SortSettings = makeSortSettingsFromQueryParam urlValues,
                pq_FilterMatchType = (if to_lower (trim_space (url_get urlValues ''filterMatchType'')) \<in> {''all'', ''and''}
                  then ''and'' else ''or'')\<rparr>
      in if length (pq_ObjectID pr) > 0 \<and> hex_decode (pq_ObjectID pr) = None
         then (pr, Some ''Object Identifier in Request URI is not a hex string'') else (pr, None))"

text \<open>What decoding the body came to: no body, an error, the end of an empty body, or a request.\<close>

datatype json_body = NoBody | BodyError string | BodyEOF | Body PagingRequest

definition newPagingRequestFromJSONBody :: "json_body \<Rightarrow> PagingRequest \<times> string option" where
  "newPagingRequestFromJSONBody body = (case body of
     NoBody \<Rightarrow> (empty_paging, Some ''JSON body was nil'')
   | BodyError e \<Rightarrow> (empty_paging, Some e)
   | BodyEOF \<Rightarrow> (empty_paging\<lparr>pq_PageNumber := 1, pq_PageSize := 20\<rparr>, None)
   | Body pr \<Rightarrow> (pr, None))"

record paging_http =
  ph_Method :: string
  ph_Query :: url_values
  ph_ContentType :: string
  ph_Body :: json_body

text \<open>The request before its page size is constrained.\<close>

definition requested_page :: "paging_http \<Rightarrow> string + PagingRequest" where
  "requested_page r =
     (if ph_Method r = ''GET'' then Inr (fst (newPagingRequestFromURLValues (ph_Query r)))
      else if ph_Method r = ''POST'' then
        (if IsApplicationJSON (ph_ContentType r) then
           (case newPagingRequestFromJSONBody (ph_Body r) of
              (pr, Some e) \<Rightarrow> Inl ''Error parsing request from message body''
            | (pr, None) \<Rightarrow> Inr pr)
         else Inl ''Unsupported content-type to parse paging information'')
      else Inl ''Unsupported HTTP Method'')"

definition constrain_size :: "string \<Rightarrow> PagingRequest \<Rightarrow> PagingRequest" where
  "constrain_size maxPageSize pr =
     (let pr1 = (if pq_PageSize pr \<le> 0 then pr\<lparr>pq_PageSize := 1\<rparr> else pr);
          maxPageSizeAllowed = Atoi_value maxPageSize
      in if pq_PageSize pr1 > maxPageSizeAllowed then pr1\<lparr>pq_PageSize := maxPageSizeAllowed\<rparr> else pr1)"

definition NewPagingRequest :: "string \<Rightarrow> paging_http \<Rightarrow> (string \<times> string) list option \<Rightarrow> bool
    \<Rightarrow> string + PagingRequest" where
  "NewPagingRequest maxPageSize r captured isObjectIDRequired =
     (case requested_page r of
        Inl e \<Rightarrow> Inl e
      | Inr pr0 \<Rightarrow>
         (let pr1 = constrain_size maxPageSize pr0;
              oid = (case captured of None \<Rightarrow> '''' | Some c \<Rightarrow> case map_of c ''objectId'' of Some s \<Rightarrow> s | None \<Rightarrow> '''');
              pr2 = (if oid \<noteq> '''' then pr1\<lparr>pq_ObjectID := oid\<rparr> else pr1)
          in if oid \<noteq> '''' \<and> hex_decode oid = None
             then Inl ''Object Identifier in Request URI is not a hex string''
             else if isObjectIDRequired \<and> length (pq_ObjectID pr2) \<noteq> 32
             then Inl ''Object Identifier not found in Request URI''
             else Inr pr2))"

text \<open>The data layer has its own copy of the request, without the identifier (\<open>mapping/PagingRequest.go\<close>).\<close>

record DAOPagingRequest =
  dq_PageNumber :: int
  dq_PageSize :: int
  dq_FilterSettings :: "FilterSetting list"
  dq_SortSettings :: "SortSetting list"
  dq_FilterMatchType :: string

definition MapPagingRequestToDAOPagingRequest :: "PagingRequest \<Rightarrow> DAOPagingRequest" where
  "MapPagingRequestToDAOPagingRequest i = \<lparr>dq_PageNumber = pq_PageNumber i, dq_PageSize = pq_PageSize i,
     dq_FilterSettings = pq_FilterSettings i, dq_SortSettings = pq_SortSettings i,
     dq_FilterMatchType = pq_FilterMatchType i\<rparr>"

text \<open>C40: whatever is asked for, an accepted request has a page size from one to the configured maximum,
  when that is positive; one that must name an object names one by 32 hexadecimal digits, if it does so in
  the path.\<close>

theorem page_size_bounded:
  assumes "NewPagingRequest mx r captured required = Inr pr" and "1 \<le> Atoi_value mx"
  shows "1 \<le> pq_PageSize pr \<and> pq_PageSize pr \<le> Atoi_value mx \<and>
    (required \<longrightarrow> length (pq_ObjectID pr) = 32) \<and>
    GetLimit (pq_PageNumber pr) (pq_PageSize pr) \<le> pq_PageSize pr"
  using assms
  by (auto simp: NewPagingRequest_def constrain_size_def Let_def GetLimit_def GetSanitizedPageSize_def
      absoluteMaxPageSize_def split: sum.splits if_splits)

lemma page_size_bounded_witness:
  "\<exists>pr. NewPagingRequest ''20'' \<lparr>ph_Method = ''GET'', ph_Query = [(''pageSize'', [''500''])], ph_ContentType = [],
      ph_Body = NoBody\<rparr> None False = Inr pr \<and> pq_PageSize pr \<le> 20"
proof -
  have "Atoi_value ''20'' = 20"
    by code_simp
  moreover obtain pr where pr: "NewPagingRequest ''20'' \<lparr>ph_Method = ''GET'', ph_Query = [(''pageSize'', [''500''])],
      ph_ContentType = [], ph_Body = NoBody\<rparr> None False = Inr pr"
    by (simp add: NewPagingRequest_def requested_page_def)
  ultimately show ?thesis
    using page_size_bounded [OF pr] by auto
qed

end
