(* ===== verification/Dao_Query.thy ===== *)
theory Dao_Query
  imports Paging Models
begin

text \<open>
  The text of the queries of \<open>dao.SearchObjectsByNameOrDescription.go\<close>: filters, sort orders, limits
  and row counts built from what a caller sends, the escaping of strings, and the filter on custom
  properties that runs after the query. A Go string is its bytes, so \<open>string(v)\<close> of a byte is the UTF-8
  code of the code point \<open>v\<close>.
\<close>

subsection \<open>Escaping\<close>

definition utf8_of_byte :: "char \<Rightarrow> string" where
  "utf8_of_byte c = (let v = of_char c :: nat in
     if v < 128 then [c] else [char_of (192 + v div 64), char_of (128 + v mod 64)])"

definition squote :: char where "squote = CHR 0x27"
definition bslash :: char where "bslash = CHR 0x5C"

definition safe_char2 :: "char \<Rightarrow> string" where
  "safe_char2 v =
     (if v = CHR 0x00 then [bslash, CHR ''0'']
      else if v = CHR 0x08 then [bslash, CHR ''b'']
      else if v = CHR 0x09 then [bslash, CHR ''t'']
      else if v = CHR 0x0A then [bslash, CHR ''n'']
      else if v = CHR 0x0D then [bslash, CHR ''r'']
      else if v = CHR 0x1A then [bslash, CHR ''Z'']
      else if v = CHR 0x22 then [bslash, v]
      else if v = CHR 0x25 then [bslash, v]
      else if v = CHR 0x27 then [bslash, v]
      else if v = CHR 0x5C then [bslash, v]
      else utf8_of_byte v)"

definition safe_char :: "char \<Rightarrow> string" where
  "safe_char v = (if v = CHR 0x5F then [bslash, v] else safe_char2 v)"

definition MySQLSafeString :: "string \<Rightarrow> string" where
  "MySQLSafeString i = concat (map safe_char i)"

definition MySQLSafeString2 :: "string \<Rightarrow> string" where
  "MySQLSafeString2 i = concat (map safe_char2 i)"

subsection \<open>Fields, sort orders and filters\<close>

definition db_fields :: "(string \<times> string list) list" where
  "db_fields = [
     (''o.changecount'', [''changecount'', ''version'']),
     (''o.createdby'', [''createdby'', ''creator'']),
     (''o.createddate'', [''createddate'', ''created_dt'']),
     (''o.containsuspersonsdata'', [''containsuspersonsdata'', ''uspersons'', ''isusperson'']),
     (''o.contentsize'', [''contentsize'', ''size'']),
     (''o.contenttype'', [''contenttype'', ''mimetype'']),
     (''o.description'', [''description'', ''abstract'']),
     (''o.exemptfromfoia'', [''exemptfromfoia'', ''foiaexempt'', ''isfoiaexempt'']),
     (''o.id'', [''id'']),
     (''o.modifiedby'', [''modifiedby'', ''modifier'']),
     (''o.modifieddate'', [''modifieddate'', ''date'', ''updated_dt'']),
     (''o.name'', [''name'', ''title'']),
     (''o.ownedby'', [''ownedby'', ''owner'']),
     (''ot.name'', [''typename'', ''type'', ''kind'']),
     (''o.parentid'', [''parentid'', ''parent'', ''folderid''])]"

definition getDBFieldFromPagingRequestField :: "string \<Rightarrow> string" where
  "getDBFieldFromPagingRequestField fieldName =
     (let field = to_lower (trim_space fieldName) in
      case find (\<lambda>(dbField, aliases). field \<in> set aliases) db_fields of
        Some (dbField, _) \<Rightarrow> dbField | None \<Rightarrow> '''')"

definition order_item :: "SortSetting \<Rightarrow> string" where
  "order_item s = '' '' @ getDBFieldFromPagingRequestField (so_SortField s) @
     (if so_SortAscending s then '' asc'' else '' desc'')"

definition buildOrderBy :: "DAOPagingRequest \<Rightarrow> string" where
  "buildOrderBy pr =
     (let known = filter (\<lambda>s. length (getDBFieldFromPagingRequestField (so_SortField s)) \<noteq> 0) (dq_SortSettings pr)
      in '' order by'' @ (if known = [] then '' o.modifieddate desc'' else join_str '','' (map order_item known)))"

definition asArchive :: "string \<Rightarrow> string" where
  "asArchive s = replace_all '' o.'' '' ao.'' s"

definition buildOrderByArchive :: "DAOPagingRequest \<Rightarrow> string" where
  "buildOrderByArchive pr = asArchive (buildOrderBy pr)"

definition sql_quoted :: "string \<Rightarrow> string \<Rightarrow> string \<Rightarrow> string" where
  "sql_quoted before expression after = [squote] @ before @ MySQLSafeString expression @ after @ [squote]"

text \<open>The operator of a condition, and the wildcards before and after its expression.\<close>

definition condition_op :: "string \<Rightarrow> string \<times> string \<times> string" where
  "condition_op condition =
     (let c = to_lower condition in
      if c = ''morethan'' then ('' > '', '''', '''')
      else if c = ''lessthan'' then ('' < '', '''', '''')
      else if c = ''notbegins'' then ('' not like '', '''', ''%'')
      else if c = ''begins'' then ('' like '', '''', ''%'')
      else if c = ''notends'' then ('' not like '', ''%'', '''')
      else if c = ''ends'' then ('' like '', ''%'', '''')
      else if c = ''notcontains'' then ('' not like '', ''%'', ''%'')
      else if c = ''contains'' then ('' like '', ''%'', ''%'')
      else if c = ''notequals'' then ('' not like '', '''', '''')
      else ('' like '', '''', ''''))"

definition condition_sql :: "string \<Rightarrow> string \<Rightarrow> string" where
  "condition_sql condition expression =
     (case condition_op condition of (op, before, after) \<Rightarrow> op @ sql_quoted before expression after)"

definition match_type :: "DAOPagingRequest \<Rightarrow> string" where
  "match_type pr = (if dq_FilterMatchType pr = ''and'' then '' and '' else '' or '')"

definition filter_item :: "string \<Rightarrow> FilterSetting \<Rightarrow> string" where
  "filter_item matchType f =
     (let dbField = getDBFieldFromPagingRequestField (fl_FilterField f) in
      if length dbField = 0 then ''''
      else matchType @ (if has_suffix dbField ''id'' then '' hex('' @ dbField @ '') '' else dbField) @
        condition_sql (fl_Condition f) (fl_Expression f))"

definition buildFilter :: "DAOPagingRequest \<Rightarrow> string" where
  "buildFilter pr =
     (let out = concat (map (filter_item (match_type pr)) (dq_FilterSettings pr))
      in if length out > 0 then replace_n (Some 1) (match_type pr) '' and ('' out @ '')'' else out)"

definition buildFilterSortAndLimit :: "DAOPagingRequest \<Rightarrow> string" where
  "buildFilterSortAndLimit pr = buildFilter pr @ buildOrderBy pr @
     '' limit '' @ fmt_int (GetLimit (dq_PageNumber pr) (dq_PageSize pr)) @
     '' offset '' @ fmt_int (GetOffset (dq_PageNumber pr) (dq_PageSize pr))"

definition buildFilterSortAndLimitArchive :: "DAOPagingRequest \<Rightarrow> string" where
  "buildFilterSortAndLimitArchive pr = replace_all '' o.'' '' ao.'' (buildFilterSortAndLimit pr)"

text \<open>The text before the first occurrence of a string, and from it on, when it is not at the start.\<close>

definition cut_before :: "string \<Rightarrow> string \<Rightarrow> string \<Rightarrow> string" where
  "cut_before low p s = (case index_str low p of Some i \<Rightarrow> if i > 0 then take i s else s | None \<Rightarrow> s)"

definition queryRowCount :: "string \<Rightarrow> string res" where
  "queryRowCount query =
     (let lquery = to_lower query;
          pos = (\<lambda>p. case index_str lquery p of Some i \<Rightarrow> i > 0 | None \<Rightarrow> False)
      in if pos ''sql_calc_found_rows'' then Ok ''select found_rows()''
         else (let queryCount = cut_before lquery ''limit '' query in
           if pos '' count('' then Ok (''select count(0) from ('' @ lquery @ '')'')
           else (case index_str lquery ''from '' of
               Some i \<Rightarrow> if i > length queryCount then Panic
                 else if i > 0 then Ok (''select count(0) '' @ drop i queryCount) else Ok queryCount
             | None \<Rightarrow> Ok queryCount)))"

subsection \<open>What a caller's text can do to a query\<close>

text \<open>How the database reads a text: a quote opens a string literal and the next one closes it, unless a
  backslash comes before it. \<open>skeleton\<close> is the text with the content of its literals taken out, and
  whether it ends inside one.\<close>

fun skeleton :: "bool \<Rightarrow> string \<Rightarrow> string \<times> bool" where
  "skeleton inside [] = ([], inside)"
| "skeleton False (c # s) = apfst ((#) c) (skeleton (c = squote) s)"
| "skeleton True [c] = (if c = squote then ([c], False) else ([], True))"
| "skeleton True (c # d # s) =
     (if c = bslash then skeleton True s
      else if c = squote then apfst ((#) c) (skeleton False (d # s)) else skeleton True (d # s))"

lemma skeleton_inside_plain:
  "c \<noteq> squote \<Longrightarrow> c \<noteq> bslash \<Longrightarrow> s \<noteq> [] \<Longrightarrow> skeleton True (c # s) = skeleton True s"
  by (cases s) auto

lemma skeleton_close: "skeleton True (squote # s) = apfst ((#) squote) (skeleton False s)"
  by (cases s) (auto simp: squote_def bslash_def)

lemma skeleton_plain:
  assumes "squote \<notin> set a" and "bslash \<notin> set a" and "s \<noteq> []"
  shows "skeleton True (a @ s) = skeleton True s"
  using assms by (induction a) (auto simp: skeleton_inside_plain)

lemma utf8_plain:
  assumes "v \<noteq> squote" and "v \<noteq> bslash"
  shows "squote \<notin> set (utf8_of_byte v)" and "bslash \<notin> set (utf8_of_byte v)"
proof -
  have big: "char_of n \<noteq> squote \<and> char_of n \<noteq> bslash" if "128 \<le> n" "n < 256" for n :: nat
    using that by (simp add: squote_def bslash_def char_of_eq_iff take_bit_eq_mod)
  have "(of_char v :: nat) < 256"
    by (metis of_char_mod_256 mod_less_divisor zero_less_numeral)
  then have "of_char v div 64 < (4 :: nat)"
    by (simp add: less_mult_imp_div_less)
  moreover have "of_char v mod 64 < (128 :: nat)"
    by (rule less_trans [OF mod_less_divisor]) simp_all
  ultimately show "squote \<notin> set (utf8_of_byte v)" "bslash \<notin> set (utf8_of_byte v)"
    using assms big [of "192 + of_char v div 64"] big [of "128 + of_char v mod 64"]
    by (auto simp: utf8_of_byte_def Let_def)
qed

lemma skeleton_escaped: "skeleton True (bslash # x # s) = skeleton True s"
  by simp

lemma skeleton_safe_char:
  assumes "s \<noteq> []"
  shows "skeleton True (safe_char v @ s) = skeleton True s"
proof (cases "\<exists>x. safe_char v = [bslash, x]")
  case False
  then have "v \<noteq> squote" "v \<noteq> bslash" "safe_char v = utf8_of_byte v"
    by (auto simp: safe_char_def safe_char2_def squote_def bslash_def split: if_splits)
  then show ?thesis
    using skeleton_plain [of "utf8_of_byte v" s] utf8_plain [of v] assms by simp
qed (auto simp: skeleton_escaped)

lemma skeleton_safe: "s \<noteq> [] \<Longrightarrow> skeleton True (MySQLSafeString e @ s) = skeleton True s"
  unfolding MySQLSafeString_def
  by (induction e) (simp_all add: skeleton_safe_char)

lemma skeleton_outside:
  assumes "squote \<notin> set a"
  shows "skeleton False (a @ s) = apfst ((@) a) (skeleton False s)"
  using assms by (induction a) (auto simp: apfst_def map_prod_def split: prod.splits)

lemma skeleton_quoted:
  assumes "set before \<subseteq> {CHR ''%''}" and "set after \<subseteq> {CHR ''%''}"
  shows "skeleton False (sql_quoted before e after @ s) = apfst ((@) [squote, squote]) (skeleton False s)"
proof -
  have skip: "skeleton True (a @ t) = skeleton True t" if "set a \<subseteq> {CHR ''%''}" "t \<noteq> []" for a t
    using that by (induction a) (auto simp: squote_def bslash_def skeleton_inside_plain)
  have "skeleton False (sql_quoted before e after @ s) = apfst ((#) squote) (skeleton True (squote # s))"
    using assms by (simp add: sql_quoted_def skip skeleton_safe)
  then show ?thesis
    by (cases "skeleton False s") (simp add: skeleton_close)
qed

definition blank_expressions :: "DAOPagingRequest \<Rightarrow> DAOPagingRequest" where
  "blank_expressions pr = pr\<lparr>dq_FilterSettings := map (\<lambda>f. f\<lparr>fl_Expression := ''''\<rparr>) (dq_FilterSettings pr)\<rparr>"

lemma find_mem: "find P xs = Some x \<Longrightarrow> x \<in> set xs"
  by (auto simp: find_Some_iff)

lemma squote_not_in_field: "squote \<notin> set (getDBFieldFromPagingRequestField f)"
proof -
  have "\<forall>(d, a) \<in> set db_fields. squote \<notin> set d"
    by code_simp
  then show ?thesis
    by (auto simp: getDBFieldFromPagingRequestField_def Let_def split: option.splits dest!: sym [THEN find_mem])
qed

lemma condition_op_plain:
  "condition_op c = (op, before, after) \<Longrightarrow>
     squote \<notin> set op \<and> set before \<subseteq> {CHR ''%''} \<and> set after \<subseteq> {CHR ''%''}"
  by (auto simp: condition_op_def Let_def squote_def split: if_splits)

text \<open>The skeleton of a filter is that of the same filter on empty strings.\<close>

lemma skeleton_condition:
  "skeleton False (condition_sql c e @ s) =
     apfst ((@) (fst (condition_op c) @ [squote, squote])) (skeleton False s)"
proof -
  obtain op before after where op: "condition_op c = (op, before, after)"
    by (cases "condition_op c")
  then show ?thesis
    using condition_op_plain [OF op]
    by (cases "skeleton False s") (simp add: condition_sql_def skeleton_outside skeleton_quoted)
qed

lemma skeleton_item:
  assumes "squote \<notin> set m"
  shows "\<exists>p. \<forall>e t. skeleton False (filter_item m (f\<lparr>fl_Expression := e\<rparr>) @ t) = apfst ((@) p) (skeleton False t)"
proof (cases "getDBFieldFromPagingRequestField (fl_FilterField f) = []")
  case False
  let ?d = "getDBFieldFromPagingRequestField (fl_FilterField f)"
  define a where "a = m @ (if has_suffix ?d ''id'' then '' hex('' @ ?d @ '') '' else ?d)"
  have out: "squote \<notin> set a"
    using assms squote_not_in_field [of "fl_FilterField f"] by (auto simp: squote_def a_def)
  have "skeleton False (a @ condition_sql (fl_Condition f) e @ t) =
      apfst ((@) (a @ fst (condition_op (fl_Condition f)) @ [squote, squote])) (skeleton False t)" for e t
    unfolding skeleton_outside [OF out] skeleton_condition by (cases "skeleton False t") simp
  moreover have "filter_item m (f\<lparr>fl_Expression := e\<rparr>) = a @ condition_sql (fl_Condition f) e" for e
    using False by (simp add: filter_item_def Let_def a_def)
  ultimately show ?thesis
    by (metis append_assoc)
qed (auto simp: filter_item_def apfst_def map_prod_def intro!: exI [of _ "[]"] split: prod.splits)

lemma skeleton_items:
  assumes "squote \<notin> set m"
  shows "skeleton False (concat (map (filter_item m) fs) @ s) =
    skeleton False (concat (map (filter_item m) (map (\<lambda>f. f\<lparr>fl_Expression := ''''\<rparr>) fs)) @ s)"
proof (induction fs)
  case (Cons f fs)
  obtain p where "\<And>e t. skeleton False (filter_item m (f\<lparr>fl_Expression := e\<rparr>) @ t) = apfst ((@) p) (skeleton False t)"
    using skeleton_item [OF assms] by blast
  from this [of "fl_Expression f"] this [of "''''"] show ?case
    using Cons by simp
qed simp

lemma filter_out:
  "buildFilter pr = (let out = concat (map (filter_item (match_type pr)) (dq_FilterSettings pr)) in
     if out = [] then [] else '' and ('' @ drop (length (match_type pr)) out @ '')'')"
proof -
  have start: "out = [] \<or> (\<exists>t. out = match_type pr @ t)"
    if "out = concat (map (filter_item (match_type pr)) fs)" for out fs
    using that by (induction fs arbitrary: out) (auto simp: filter_item_def Let_def)
  have ne: "match_type pr \<noteq> []"
    by (simp add: match_type_def)
  let ?out = "concat (map (filter_item (match_type pr)) (dq_FilterSettings pr))"
  consider "?out = []" | t where "?out = match_type pr @ t" "?out \<noteq> []"
    using start [OF refl, of "dq_FilterSettings pr"] by blast
  then show ?thesis
  proof cases
    case 2
    then show ?thesis
      using replace_first_prefix [OF ne, of "'' and (''" t] by (simp add: buildFilter_def Let_def)
  qed (simp add: buildFilter_def)
qed

lemma skeleton_filter:
  "skeleton False (buildFilter pr @ s) = skeleton False (buildFilter (blank_expressions pr) @ s)"
proof -
  let ?m = "match_type pr"
  let ?out = "concat (map (filter_item ?m) (dq_FilterSettings pr))"
  let ?out' = "concat (map (filter_item ?m) (map (\<lambda>f. f\<lparr>fl_Expression := ''''\<rparr>) (dq_FilterSettings pr)))"
  have m: "squote \<notin> set ?m" and ne: "?m \<noteq> []"
    by (simp_all add: match_type_def squote_def)
  have start: "concat (map (filter_item ?m) fs) = [] \<or>
      (\<exists>t. concat (map (filter_item ?m) fs) = ?m @ t)" for fs
    by (induction fs) (auto simp: filter_item_def Let_def)
  have empty: "?out = [] \<longleftrightarrow> ?out' = []"
    by (auto simp: filter_item_def Let_def match_type_def)
  have eq: "skeleton False (?out @ t) = skeleton False (?out' @ t)" for t
    by (rule skeleton_items [OF m])
  have same: "match_type (blank_expressions pr) = ?m"
    and settings: "dq_FilterSettings (blank_expressions pr) =
      map (\<lambda>f. f\<lparr>fl_Expression := ''''\<rparr>) (dq_FilterSettings pr)"
    by (simp_all add: match_type_def blank_expressions_def)
  show ?thesis
  proof (cases "?out = []")
    case True
    then show ?thesis
      using empty same by (simp add: filter_out blank_expressions_def)
  next
    case False
    then obtain t t' where t: "?out = ?m @ t" "?out' = ?m @ t'"
      using start [of "dq_FilterSettings pr"] start [of "map (\<lambda>f. f\<lparr>fl_Expression := ''''\<rparr>) (dq_FilterSettings pr)"]
        empty by blast
    have False': "?out' \<noteq> []"
      using False empty by blast
    have "skeleton False (t @ u) = skeleton False (t' @ u)" for u
      using eq [of u] skeleton_outside [OF m] unfolding t append_assoc
      by (cases "skeleton False (t @ u)"; cases "skeleton False (t' @ u)") simp
    moreover have "skeleton False (('' and ('' @ v @ '')'') @ s) =
        apfst ((@) '' and ('') (skeleton False (v @ '')'' @ s))" for v
      using skeleton_outside [of "'' and (''" "v @ '')'' @ s"] by (simp add: squote_def)
    moreover have "buildFilter pr = '' and ('' @ t @ '')''"
      unfolding filter_out Let_def t(1) using ne by simp
    moreover have "buildFilter (blank_expressions pr) = '' and ('' @ t' @ '')''"
      unfolding filter_out Let_def same settings t(2) using ne by simp
    ultimately show ?thesis
      by simp
  qed
qed


text \<open>A filter on a name that contains \<open>limit \<close> followed by a blank breaks the row count that goes with the query: the count
  is cut inside the string literal.\<close>

theorem count_breaks:
  "case queryRowCount (''select o.id from object o where o.isdeleted = 0'' @
      buildFilterSortAndLimit \<lparr>dq_PageNumber = 1, dq_PageSize = 20,
        dq_FilterSettings = [\<lparr>fl_FilterField = ''name'', fl_Condition = ''contains'', fl_Expression = ''the limit of''\<rparr>],
        dq_SortSettings = [], dq_FilterMatchType = ''or''\<rparr>) of Ok q \<Rightarrow> snd (skeleton False q) | _ \<Rightarrow> False"
  by code_simp

subsection \<open>Filtering on custom properties\<close>

definition property_condition :: "string \<Rightarrow> string \<Rightarrow> string \<Rightarrow> bool" where
  "property_condition condition v c =
     (if condition = ''morethan'' then \<not> str_le v c
      else if condition = ''lessthan'' then \<not> str_le c v
      else if condition = ''notbegins'' then \<not> has_prefix v c
      else if condition = ''begins'' then has_prefix v c
      else if condition = ''notends'' then \<not> has_suffix v c
      else if condition = ''ends'' then has_suffix v c
      else if condition = ''notcontains'' then \<not> contains_str v c
      else if condition = ''contains'' then contains_str v c
      else if condition = ''notequals'' then v \<noteq> c
      else v = c)"

text \<open>The properties of an object against one filter: whether all that have its name match, and whether
  one has; the loop ends at the first that does not match.\<close>

fun scan_properties :: "string \<Rightarrow> string \<Rightarrow> string \<Rightarrow> ODObjectPropertyEx list \<Rightarrow> bool \<times> bool" where
  "scan_properties field condition check [] = (True, False)"
| "scan_properties field condition check (p # ps) =
     (if to_lower (pr_Name p) = field then
        (if property_condition condition (to_lower (ns_String (pr_Value p))) check
         then (fst (scan_properties field condition check ps), True) else (False, True))
      else scan_properties field condition check ps)"

fun match_filters :: "FilterSetting list \<Rightarrow> ODObjectPropertyEx list \<Rightarrow> bool" where
  "match_filters [] props = True"
| "match_filters (f # fs) props =
     (if length (getDBFieldFromPagingRequestField (fl_FilterField f)) \<noteq> 0 then match_filters fs props
      else (let condition = to_lower (fl_Condition f);
                (matching, found) = scan_properties (to_lower (fl_FilterField f)) condition
                  (to_lower (fl_Expression f)) props
            in if \<not> matching \<or> \<not> found \<and> \<not> has_prefix condition ''not'' then False
               else match_filters fs props))"

record ODObjectResultset =
  rs_TotalRows :: int
  rs_PageCount :: int
  rs_PageNumber :: int
  rs_PageSize :: int
  rs_PageRows :: int
  rs_Objects :: "ODObject list"

definition postProcessingFilterOnCustomProperties :: "ODObjectResultset \<Rightarrow> DAOPagingRequest \<Rightarrow> ODObjectResultset" where
  "postProcessingFilterOnCustomProperties response pr =
     (if length (dq_FilterSettings pr) = 0 \<or> dq_FilterMatchType pr \<noteq> ''and'' then response
      else (let kept = filter (\<lambda>x. match_filters (dq_FilterSettings pr) (o_Properties x)) (rs_Objects response)
            in response\<lparr>rs_Objects := kept, rs_PageRows := int (length kept)\<rparr>))"

lemma scan_fst: "fst (scan_properties n c e ps) \<longleftrightarrow>
    (\<forall>p \<in> set ps. to_lower (pr_Name p) = n \<longrightarrow> property_condition c (to_lower (ns_String (pr_Value p))) e)"
  by (induction ps) auto

lemma scan_snd: "snd (scan_properties n c e ps) \<longleftrightarrow> (\<exists>p \<in> set ps. to_lower (pr_Name p) = n)"
  by (induction ps) auto

text \<open>The filters on custom properties, and what they ask of an object.\<close>

definition custom_filters :: "DAOPagingRequest \<Rightarrow> FilterSetting list" where
  "custom_filters pr = filter (\<lambda>f. getDBFieldFromPagingRequestField (fl_FilterField f) = []) (dq_FilterSettings pr)"

definition meets :: "FilterSetting \<Rightarrow> ODObjectPropertyEx list \<Rightarrow> bool" where
  "meets f ps \<longleftrightarrow>
     (let named = filter (\<lambda>p. to_lower (pr_Name p) = to_lower (fl_FilterField f)) ps; c = to_lower (fl_Condition f) in
      (named \<noteq> [] \<or> has_prefix c ''not'') \<and>
      list_all (\<lambda>p. property_condition c (to_lower (ns_String (pr_Value p))) (to_lower (fl_Expression f))) named)"

lemma match_filters_iff:
  "match_filters fs ps \<longleftrightarrow>
     list_all (\<lambda>f. meets f ps) (filter (\<lambda>f. getDBFieldFromPagingRequestField (fl_FilterField f) = []) fs)"
proof (induction fs)
  case (Cons f fs)
  obtain m n where s: "scan_properties (to_lower (fl_FilterField f)) (to_lower (fl_Condition f))
      (to_lower (fl_Expression f)) ps = (m, n)"
    by (cases "scan_properties (to_lower (fl_FilterField f)) (to_lower (fl_Condition f)) (to_lower (fl_Expression f)) ps")
  have "m \<longleftrightarrow> (\<forall>p \<in> set ps. to_lower (pr_Name p) = to_lower (fl_FilterField f) \<longrightarrow>
      property_condition (to_lower (fl_Condition f)) (to_lower (ns_String (pr_Value p))) (to_lower (fl_Expression f)))"
    and "n \<longleftrightarrow> (\<exists>p \<in> set ps. to_lower (pr_Name p) = to_lower (fl_FilterField f))"
    using scan_fst [of "to_lower (fl_FilterField f)" "to_lower (fl_Condition f)" "to_lower (fl_Expression f)" ps]
      scan_snd [of "to_lower (fl_FilterField f)" "to_lower (fl_Condition f)" "to_lower (fl_Expression f)" ps] s
    by simp_all
  then have "meets f ps \<longleftrightarrow> m \<and> (n \<or> has_prefix (to_lower (fl_Condition f)) ''not'')"
    by (auto simp: meets_def Let_def list_all_iff filter_empty_conv)
  then show ?case
    using Cons s by auto
qed simp

text \<open>C32: with filters that must all match, an object is kept exactly when every filter on a custom property
  is met: some property has its name, unless its condition is negative, and all that have the name satisfy
  the condition; the order of the rows is kept.\<close>

theorem custom_filter_spec:
  "rs_Objects (postProcessingFilterOnCustomProperties response pr) =
     (if dq_FilterMatchType pr = ''and''
      then filter (\<lambda>x. list_all (\<lambda>f. meets f (o_Properties x)) (custom_filters pr)) (rs_Objects response)
      else rs_Objects response)"
  by (simp add: postProcessingFilterOnCustomProperties_def match_filters_iff custom_filters_def Let_def)

subsection \<open>Owners and groups\<close>

text \<open>The index of the last slash; cutting before it panics when there is none.\<close>

definition last_slash :: "string \<Rightarrow> nat option" where
  "last_slash s = (if CHR ''/'' \<in> set s then Some (length s - 1 - length (takeWhile (\<lambda>c. c \<noteq> CHR ''/'') (rev s))) else None)"

definition removeDisplayNameFromResourceString :: "string \<Rightarrow> string res" where
  "removeDisplayNameFromResourceString r =
     (case last_slash r of
        None \<Rightarrow> Panic
      | Some i \<Rightarrow>
         (let allButLastPart = take i r; parts = split_char CHR ''/'' r; partCount = length parts in
          Ok (if parts ! 0 = ''user'' then (if partCount = 3 then allButLastPart else r)
              else if parts ! 0 = ''group'' then
                (if partCount = 3 then (if AACFlatten (parts ! 1) = AACFlatten (parts ! 2) then allButLastPart else r)
                 else if partCount = 5 then allButLastPart else r)
              else r)))"

definition buildJoinUserToACM :: "slice \<Rightarrow> string" where
  "buildJoinUserToACM userID =
     '' inner join acm2 on o.acmid = acm2.id inner join useracm on acm2.id = useracm.acmid and useracm.userid = unhex('' @
     [squote] @ hex_encode (slice_bytes userID) @ [squote] @ '') ''"

text \<open>The grantee of the group, when the data layer knows it.\<close>

definition buildFilterRequireObjectsGroupOwns :: "ODAcmGrantee option \<Rightarrow> string" where
  "buildFilterRequireObjectsGroupOwns acmGrantee = '' and '' @ (case acmGrantee of
     None \<Rightarrow> ''1 = 0''
   | Some g \<Rightarrow> ''o.ownedby = '' @ [squote] @ MySQLSafeString2 (ResourceNameRaw g) @ [squote])"

text \<open>The identifiers of ACM values come from the database: one, or \<open>-1\<close>, for a name, and all those of
  the shares of a user.\<close>

definition getACMValueFor :: "(string \<Rightarrow> int list) \<Rightarrow> string \<Rightarrow> int" where
  "getACMValueFor values_of valueName = (case values_of valueName of [] \<Rightarrow> - 1 | v # vs \<Rightarrow> v)"

definition buildFilterRequireObjectsIOwn :: "(string \<Rightarrow> int list) \<Rightarrow> string \<Rightarrow> string" where
  "buildFilterRequireObjectsIOwn values_of dn =
     '' and o.ownedbyid = '' @ fmt_int (getACMValueFor values_of (AACFlatten dn))"

definition buildFilterExcludeObjectsIOrMyGroupsOwn :: "string list \<Rightarrow> string" where
  "buildFilterExcludeObjectsIOrMyGroupsOwn ids = '' and o.ownedbyid not in (-1,'' @ join_str '','' ids @ '')''"

definition buildFilterRequireObjectsIOrMyGroupsOwn :: "string list \<Rightarrow> string" where
  "buildFilterRequireObjectsIOrMyGroupsOwn ids = '' and o.ownedbyid in (-1,'' @ join_str '','' ids @ '')''"

definition getGroupsFromSnippets :: "string \<Rightarrow> RawSnippetFields list option \<Rightarrow> string list" where
  "getGroupsFromSnippets dn snippets = (case snippets of
     None \<Rightarrow> [AACFlatten dn]
   | Some fs \<Rightarrow> (case find (\<lambda>f. FieldName f = ''f_share'') fs of
       Some f \<Rightarrow> FieldValues f | None \<Rightarrow> [AACFlatten dn]))"

text \<open>\<open>isUserMemberOf\<close> (\<open>dao.DeleteObject.go\<close>): the last field of the snippets that is the share.\<close>

definition isUserMemberOf :: "RawSnippetFields list option \<Rightarrow> string \<Rightarrow> bool" where
  "isUserMemberOf snippets groupName = (case snippets of None \<Rightarrow> False
   | Some fs \<Rightarrow> (case filter (\<lambda>f. FieldName f = ''f_share'') fs of
       [] \<Rightarrow> False
     | shares \<Rightarrow> list_ex (\<lambda>v. to_lower v = to_lower groupName) (FieldValues (last shares))))"

end
