(* ===== verification/Object_Mapping.thy ===== *)
theory Object_Mapping
  imports Acm_Auth Dao_Query
begin

text \<open>
  \<open>mapping/ODObjectToObject.go\<close>, \<open>ODPropertyToProperty.go\<close> and the two responses of a deletion: between
  the object of the database and the object of the protocol, and from requests to objects. Identifiers are written
  in hexadecimal. A panic of the mapping of permissions is \<open>None\<close>; the text of an error is reduced to its constant
  part and the value it names. A time that is null is sent as the zero time of Go, which is \<open>0\<close> here.
\<close>

subsection \<open>Properties\<close>

definition MapODPropertyToProperty :: "ODObjectPropertyEx \<Rightarrow> Property" where
  "MapODPropertyToProperty i = \<lparr>py_ID = hex_encode (slice_bytes (pr_ID i)), py_CreatedDate = pr_CreatedDate i,
     py_CreatedBy = pr_CreatedBy i, py_ModifiedDate = pr_ModifiedDate i, py_ModifiedBy = pr_ModifiedBy i,
     py_ChangeCount = pr_ChangeCount i, py_ChangeToken = pr_ChangeToken i, py_Name = pr_Name i,
     py_Value = (if ns_Valid (pr_Value i) then ns_String (pr_Value i) else ''''),
     py_ClassificationPM = (if ns_Valid (pr_ClassificationPM i) then ns_String (pr_ClassificationPM i) else '''')\<rparr>"

definition MapODPropertiesToProperties :: "ODObjectPropertyEx list \<Rightarrow> Property list" where
  "MapODPropertiesToProperties i = map MapODPropertyToProperty i"

text \<open>The length that is tested is that of the identifier of the result, which is still empty: the identifier of
  the request is never taken.\<close>

definition MapPropertyToODProperty :: "Property \<Rightarrow> string + ODObjectPropertyEx" where
  "MapPropertyToODProperty i = (case hex_decode (py_ID i) of
     None \<Rightarrow> Inl (''Unable to decode property id from '' @ py_ID i)
   | Some b \<Rightarrow>
      (let out = \<lparr>pr_ID = None, pr_CreatedDate = 0, pr_CreatedBy = '''', pr_ModifiedDate = 0, pr_ModifiedBy = '''',
             pr_IsDeleted = False, pr_DeletedDate = None, pr_DeletedBy = null_string, pr_ChangeCount = 0, pr_ChangeToken = '''',
             pr_Name = '''', pr_Value = null_string, pr_ClassificationPM = null_string\<rparr>;
           out1 = (if slice_len (pr_ID out) = 0 then out\<lparr>pr_ID := None\<rparr> else out\<lparr>pr_ID := Some b\<rparr>)
       in Inr (out1\<lparr>pr_CreatedDate := py_CreatedDate i, pr_CreatedBy := py_CreatedBy i, pr_ModifiedDate := py_ModifiedDate i,
            pr_ModifiedBy := py_ModifiedBy i, pr_ChangeCount := py_ChangeCount i, pr_ChangeToken := py_ChangeToken i,
            pr_Name := py_Name i, pr_Value := \<lparr>ns_String = py_Value i, ns_Valid = True\<rparr>,
            pr_ClassificationPM := \<lparr>ns_String = py_ClassificationPM i, ns_Valid = True\<rparr>\<rparr>)))"

fun MapPropertiesToODProperties :: "Property list \<Rightarrow> string + ODObjectPropertyEx list" where
  "MapPropertiesToODProperties [] = Inr []"
| "MapPropertiesToODProperties (q # qs) = (case MapPropertyToODProperty q of
     Inl e \<Rightarrow> Inl e | Inr p \<Rightarrow> (case MapPropertiesToODProperties qs of Inl e \<Rightarrow> Inl e | Inr ps \<Rightarrow> Inr (p # ps)))"

subsection \<open>An object for the client\<close>

definition time_of :: "int option \<Rightarrow> int" where
  "time_of t = (case t of None \<Rightarrow> 0 | Some n \<Rightarrow> n)"

definition CreateReturnableACM :: "unmarshal \<Rightarrow> string \<Rightarrow> json option" where
  "CreateReturnableACM unm acm = unm acm"

definition returnable_acm :: "unmarshal \<Rightarrow> NullString \<Rightarrow> json" where
  "returnable_acm unm acm = (if ns_Valid acm
     then (case CreateReturnableACM unm (ns_String acm) of None \<Rightarrow> JStr '''' | Some j \<Rightarrow> j) else JStr '''')"

definition no_caller_permission :: CallerPermission where
  "no_caller_permission = \<lparr>clp_AllowCreate = False, clp_AllowRead = False, clp_AllowUpdate = False, clp_AllowDelete = False,
     clp_AllowShare = False\<rparr>"

definition MapODObjectToObject :: "unmarshal \<Rightarrow> ODObject \<Rightarrow> json Object option" where
  "MapODObjectToObject unm i = map_option (\<lambda>permission.
     \<lparr>ob_ID = hex_encode (slice_bytes (o_ID i)), ob_CreatedDate = o_CreatedDate i, ob_CreatedBy = o_CreatedBy i,
      ob_ModifiedDate = o_ModifiedDate i, ob_ModifiedBy = o_ModifiedBy i, ob_DeletedDate = time_of (o_DeletedDate i),
      ob_DeletedBy = ns_String (o_DeletedBy i), ob_ChangeCount = o_ChangeCount i, ob_ChangeToken = o_ChangeToken i,
      ob_OwnedBy = ns_String (o_OwnedBy i), ob_TypeID = hex_encode (slice_bytes (o_TypeID i)),
      ob_TypeName = ns_String (o_TypeName i), ob_Name = o_Name i, ob_Description = ns_String (o_Description i),
      ob_ParentID = hex_encode (slice_bytes (o_ParentID i)), ob_RawAcm = returnable_acm unm (o_RawAcm i),
      ob_ContentType = ns_String (o_ContentType i),
      ob_ContentSize = (if ni_Valid (o_ContentSize i) then ni_Int64 (o_ContentSize i) else 0),
      ob_ContentHash = (if ni_Valid (o_ContentSize i) then hex_encode (slice_bytes (o_ContentHash i)) else ''''),
      ob_ContainsUSPersonsData = o_ContainsUSPersonsData i, ob_ExemptFromFOIA = o_ExemptFromFOIA i,
      ob_Properties = MapODPropertiesToProperties (o_Properties i), ob_CallerPermission = no_caller_permission,
      ob_Permissions = MapODPermissionsToPermissions1_0 (o_Permissions i), ob_Permission = permission, ob_Breadcrumbs = [],
      ob_IsPDFAvailable = False\<rparr>) (MapODPermissionsToPermission (o_Permissions i))"

record 'acm DeletedObject =
  dl_ID :: string
  dl_CreatedDate :: int
  dl_CreatedBy :: string
  dl_ModifiedDate :: int
  dl_ModifiedBy :: string
  dl_DeletedDate :: int
  dl_DeletedBy :: string
  dl_ChangeCount :: int
  dl_ChangeToken :: string
  dl_OwnedBy :: string
  dl_TypeID :: string
  dl_TypeName :: string
  dl_Name :: string
  dl_Description :: string
  dl_ParentID :: string
  dl_RawAcm :: 'acm
  dl_ContentType :: string
  dl_ContentSize :: int
  dl_ContentHash :: string
  dl_ContainsUSPersonsData :: string
  dl_ExemptFromFOIA :: string
  dl_Properties :: "Property list"
  dl_CallerPermission :: CallerPermission
  dl_Permissions :: "Permission1_0 list"
  dl_Permission :: Permission

definition valid_string :: "NullString \<Rightarrow> string" where
  "valid_string n = (if ns_Valid n then ns_String n else '''')"

definition MapODObjectToDeletedObject :: "unmarshal \<Rightarrow> ODObject \<Rightarrow> json DeletedObject option" where
  "MapODObjectToDeletedObject unm i = map_option (\<lambda>permission.
     \<lparr>dl_ID = hex_encode (slice_bytes (o_ID i)), dl_CreatedDate = o_CreatedDate i, dl_CreatedBy = o_CreatedBy i,
      dl_ModifiedDate = o_ModifiedDate i, dl_ModifiedBy = o_ModifiedBy i, dl_DeletedDate = time_of (o_DeletedDate i),
      dl_DeletedBy = ns_String (o_DeletedBy i), dl_ChangeCount = o_ChangeCount i, dl_ChangeToken = o_ChangeToken i,
      dl_OwnedBy = valid_string (o_OwnedBy i), dl_TypeID = hex_encode (slice_bytes (o_TypeID i)),
      dl_TypeName = valid_string (o_TypeName i), dl_Name = o_Name i, dl_Description = valid_string (o_Description i),
      dl_ParentID = hex_encode (slice_bytes (o_ParentID i)), dl_RawAcm = returnable_acm unm (o_RawAcm i),
      dl_ContentType = valid_string (o_ContentType i),
      dl_ContentSize = (if ni_Valid (o_ContentSize i) then ni_Int64 (o_ContentSize i) else 0),
      dl_ContentHash = (if ni_Valid (o_ContentSize i) then hex_encode (slice_bytes (o_ContentHash i)) else ''''),
      dl_ContainsUSPersonsData = o_ContainsUSPersonsData i, dl_ExemptFromFOIA = o_ExemptFromFOIA i,
      dl_Properties = MapODPropertiesToProperties (o_Properties i), dl_CallerPermission = no_caller_permission,
      dl_Permissions = MapODPermissionsToPermissions1_0 (o_Permissions i), dl_Permission = permission\<rparr>)
    (MapODPermissionsToPermission (o_Permissions i))"

text \<open>\<open>DeletedObject.WithCallerPermission\<close>.\<close>

definition deleted_WithCallerPermission :: "Caller \<Rightarrow> 'acm DeletedObject \<Rightarrow> 'acm DeletedObject" where
  "deleted_WithCallerPermission caller obj = obj\<lparr>dl_CallerPermission := (WithRolledUp caller (dl_Permission obj))
     \<lparr>clp_AllowCreate := False, clp_AllowUpdate := False, clp_AllowShare := False\<rparr>\<rparr>"

fun MapODObjectsToObjects :: "unmarshal \<Rightarrow> ODObject list \<Rightarrow> json Object list option" where
  "MapODObjectsToObjects unm [] = Some []"
| "MapODObjectsToObjects unm (q # qs) = (case MapODObjectToObject unm q of None \<Rightarrow> None
     | Some x \<Rightarrow> map_option ((#) x) (MapODObjectsToObjects unm qs))"

record 'acm ObjectResultset =
  pr_TotalRows :: int
  pr_PageCount :: int
  pr_PageNumber :: int
  pr_PageSize :: int
  pr_PageRows :: int
  pr_Objects :: "'acm Object list"

definition MapODObjectResultsetToObjectResultset :: "unmarshal \<Rightarrow> ODObjectResultset \<Rightarrow> json ObjectResultset option" where
  "MapODObjectResultsetToObjectResultset unm i = map_option (\<lambda>xs. \<lparr>pr_TotalRows = rs_TotalRows i, pr_PageCount = rs_PageCount i,
     pr_PageNumber = rs_PageNumber i, pr_PageSize = rs_PageSize i, pr_PageRows = rs_PageRows i, pr_Objects = xs\<rparr>)
     (MapODObjectsToObjects unm (rs_Objects i))"

record DeletedObjectResponse =
  dr_ID :: string
  dr_DeletedDate :: int
  dr_CallerPermission :: CallerPermission

record ExpungedObjectResponse =
  er_ExpungedDate :: int
  er_CallerPermission :: CallerPermission

definition MapODObjectToDeletedObjectResponse :: "ODObject \<Rightarrow> DeletedObjectResponse" where
  "MapODObjectToDeletedObjectResponse i = \<lparr>dr_ID = hex_encode (slice_bytes (o_ID i)), dr_DeletedDate = time_of (o_DeletedDate i),
     dr_CallerPermission = no_caller_permission\<rparr>"

definition MapODObjectToExpungedObjectResponse :: "ODObject \<Rightarrow> ExpungedObjectResponse" where
  "MapODObjectToExpungedObjectResponse i = \<lparr>er_ExpungedDate = time_of (o_ExpungedDate i),
     er_CallerPermission = no_caller_permission\<rparr>"

definition deletedResponse_WithCallerPermission :: "Caller \<Rightarrow> DeletedObjectResponse \<Rightarrow> DeletedObjectResponse" where
  "deletedResponse_WithCallerPermission caller obj =
     obj\<lparr>dr_CallerPermission := no_caller_permission\<lparr>clp_AllowRead := True, clp_AllowDelete := True\<rparr>\<rparr>"

definition expungedResponse_WithCallerPermission :: "Caller \<Rightarrow> ExpungedObjectResponse \<Rightarrow> ExpungedObjectResponse" where
  "expungedResponse_WithCallerPermission caller obj =
     obj\<lparr>er_CallerPermission := no_caller_permission\<lparr>clp_AllowRead := True, clp_AllowDelete := True\<rparr>\<rparr>"

subsection \<open>Requests\<close>

record MoveObjectRequest =
  mq_ID :: string
  mq_ChangeToken :: string
  mq_ParentID :: string

record ChangeOwnerRequest =
  cq_ID :: string
  cq_ChangeToken :: string
  cq_NewOwner :: string
  cq_ApplyRecursively :: bool

record DeleteObjectRequest =
  dq_ID :: string
  dq_ChangeToken :: string

definition decode_id :: "string \<Rightarrow> string + bytes" where
  "decode_id s = (if s = '''' then Inl ''Unable to decode id from empty string''
     else case hex_decode s of None \<Rightarrow> Inl ''Unable to decode id'' | Some b \<Rightarrow> Inr b)"

definition MapMoveObjectRequestToODObject :: "MoveObjectRequest \<Rightarrow> string + ODObject" where
  "MapMoveObjectRequestToODObject i = (case decode_id (mq_ID i) of
     Inl e \<Rightarrow> Inl e
   | Inr b \<Rightarrow> (case hex_decode (mq_ParentID i) of
        None \<Rightarrow> Inl (''Unable to decode parent id from '' @ mq_ParentID i)
      | Some parent \<Rightarrow> Inr (empty_object\<lparr>o_ID := Some b, o_ChangeToken := mq_ChangeToken i,
           o_ParentID := (if length parent = 0 then None else Some parent)\<rparr>)))"

definition MapChangeOwnerRequestToODObject :: "ChangeOwnerRequest \<Rightarrow> string + ODObject" where
  "MapChangeOwnerRequestToODObject i = (case decode_id (cq_ID i) of
     Inl e \<Rightarrow> Inl e
   | Inr b \<Rightarrow> Inr (empty_object\<lparr>o_ID := Some b, o_ChangeToken := cq_ChangeToken i, o_OwnedBy := ToNullString (cq_NewOwner i)\<rparr>))"

definition MapDeleteObjectRequestToODObject :: "DeleteObjectRequest \<Rightarrow> string + ODObject" where
  "MapDeleteObjectRequestToODObject i = (case decode_id (dq_ID i) of
     Inl e \<Rightarrow> Inl e | Inr b \<Rightarrow> Inr (empty_object\<lparr>o_ID := Some b, o_ChangeToken := dq_ChangeToken i\<rparr>))"

record CreateObjectRequest =
  nq_TypeName :: string
  nq_Name :: string
  nq_NamePathDelimiter :: string
  nq_Description :: string
  nq_ParentID :: string
  nq_RawAcm :: json
  nq_ContentType :: string
  nq_ContentSize :: int
  nq_Permission :: Permission
  nq_ContainsUSPersonsData :: string
  nq_ExemptFromFOIA :: string
  nq_Properties :: "Property list"
  nq_Permissions :: "ObjectShare list"
  nq_OwnedBy :: string

text \<open>The two overwrites change the object in place; on an error the caller gives up, so the error stands alone.\<close>

definition OverwriteODObjectWithCreateObjectRequest :: "marshal \<Rightarrow> ODObject \<Rightarrow> CreateObjectRequest \<Rightarrow> ODObject res" where
  "OverwriteODObjectWithCreateObjectRequest mar obj i =
     (let obj1 = obj\<lparr>o_TypeName := ToNullString (nq_TypeName i), o_Name := trim_space (nq_Name i),
            o_Description := ToNullString (nq_Description i)\<rparr> in
      case hex_decode (nq_ParentID i) of
        None \<Rightarrow> Fail (''Unable to decode parent id from '' @ nq_ParentID i)
      | Some parentID \<Rightarrow>
         (let obj2 = (if length parentID = 0 then obj1 else obj1\<lparr>o_ParentID := Some parentID\<rparr>) in
          case MarshalInterfaceToString mar (nq_RawAcm i) of
            None \<Rightarrow> Fail ''Unable to convert ACM''
          | Some parsedACM \<Rightarrow> if length parsedACM = 0 then Fail ''ACM is required when creating object''
              else (case MapPropertiesToODProperties (nq_Properties i) of
                  Inl e \<Rightarrow> Fail e
                | Inr props \<Rightarrow> bind_res (MapPermissionToODPermissions (nq_Permission i)) (\<lambda>ps.
                    bind_res (if length ps = 0 then MapObjectSharesToODPermissions (nq_Permissions i) else Ok ps) (\<lambda>ps'.
                    Ok (obj2\<lparr>o_RawAcm := ToNullString parsedACM, o_ContentType := ToNullString (nq_ContentType i),
                        o_ContentSize := \<lparr>ni_Int64 = nq_ContentSize i, ni_Valid = True\<rparr>, o_Properties := props,
                        o_Permissions := ps', o_OwnedBy := (if length (nq_OwnedBy i) > 0 then ToNullString (nq_OwnedBy i) else o_OwnedBy obj2),
                        o_ContainsUSPersonsData := nq_ContainsUSPersonsData i, o_ExemptFromFOIA := nq_ExemptFromFOIA i\<rparr>))))))"

record UpdateObjectAndStreamRequest =
  uq_ID :: string
  uq_ChangeToken :: string
  uq_TypeID :: string
  uq_TypeName :: string
  uq_Name :: string
  uq_Description :: string
  uq_RawAcm :: json
  uq_Permission :: Permission
  uq_ContentType :: string
  uq_ContentSize :: int
  uq_ContainsUSPersonsData :: string
  uq_ExemptFromFOIA :: string
  uq_Properties :: "Property list"
  uq_RecursiveShare :: bool

definition replace_permissions :: "ODObjectPermission list \<Rightarrow> string \<Rightarrow> ODObjectPermission list \<Rightarrow> ODObjectPermission list" where
  "replace_permissions provided parsedACM ps =
     (if length provided > 0 then map (\<lambda>d. d\<lparr>p_IsDeleted := True\<rparr>) ps @ provided
      else if length parsedACM > 0 then map (\<lambda>d. d\<lparr>p_IsDeleted := True\<rparr>) ps else ps)"

definition OverwriteODObjectWithUpdateObjectAndStreamRequest ::
  "marshal \<Rightarrow> ODObject \<Rightarrow> UpdateObjectAndStreamRequest \<Rightarrow> ODObject res" where
  "OverwriteODObjectWithUpdateObjectAndStreamRequest mar obj i =
     (case hex_decode (uq_ID i) of
        None \<Rightarrow> Fail ''encoding/hex''
      | Some oid \<Rightarrow> (let obj1 = (if length oid = 0 then obj else obj\<lparr>o_ID := Some oid\<rparr>) in
     case hex_decode (uq_TypeID i) of
        None \<Rightarrow> Fail ''encoding/hex''
      | Some typeID \<Rightarrow>
       (let obj2 = obj1\<lparr>o_TypeID := (if length typeID = 0 then None else Some typeID),
              o_TypeName := (if length (uq_TypeName i) > 0 then ToNullString (uq_TypeName i) else o_TypeName obj1)\<rparr> in
     if length (uq_Name i) > 0 \<and> length (fst (GetNextDelimitedPart (uq_Name i) DefaultPathDelimiter)) > 0
     then Fail (''bad request: name cannot include path delimiter '' @ DefaultPathDelimiter)
     else (let obj3 = obj2\<lparr>o_Name := (if length (uq_Name i) > 0 then trim_space (uq_Name i) else o_Name obj2),
              o_Description := (if length (uq_Description i) > 0 then ToNullString (uq_Description i) else o_Description obj2)\<rparr> in
     case MarshalInterfaceToString mar (uq_RawAcm i) of
        None \<Rightarrow> Fail ''Unable to convert ACM''
      | Some parsedACM \<Rightarrow>
     bind_res (MapPermissionToODPermissions (uq_Permission i)) (\<lambda>provided.
     case MapPropertiesToODProperties (uq_Properties i) of
        Inl e \<Rightarrow> Fail e
      | Inr props \<Rightarrow> Ok (obj3\<lparr>o_RawAcm := (if length parsedACM > 0 then ToNullString parsedACM else o_RawAcm obj3),
            o_Permissions := replace_permissions provided parsedACM (o_Permissions obj3),
            o_ContentType := (if length (uq_ContentType i) > 0 then ToNullString (uq_ContentType i) else o_ContentType obj3),
            o_ContentSize := (o_ContentSize obj3)\<lparr>ni_Int64 := uq_ContentSize i\<rparr>, o_Properties := props,
            o_ContainsUSPersonsData := uq_ContainsUSPersonsData i, o_ExemptFromFOIA := uq_ExemptFromFOIA i\<rparr>))))))"

subsection \<open>What the mappings keep\<close>

text \<open>The identifier of a property sent by a client is lost.\<close>

lemma property_id_lost: "MapPropertyToODProperty i = Inr p \<Longrightarrow> pr_ID p = None"
  by (auto simp: MapPropertyToODProperty_def Let_def slice_len_def slice_bytes_def split: option.splits if_splits)

lemma hex_encode_Nil [simp]: "hex_encode [] = []"
  by (simp add: hex_encode_def)

lemma py_ID_mapped: "py_ID (MapODPropertyToProperty p) = hex_encode (slice_bytes (pr_ID p))"
  by (simp add: MapODPropertyToProperty_def)

lemma property_roundtrip:
  assumes "MapPropertyToODProperty (MapODPropertyToProperty p) = Inr q"
  shows "MapODPropertyToProperty q = (MapODPropertyToProperty p)\<lparr>py_ID := ''''\<rparr>"
proof -
  have "pr_ID q = None"
    by (rule property_id_lost [OF assms])
  moreover have "\<And>v. MapPropertyToODProperty v = Inr q \<Longrightarrow> MapODPropertyToProperty q = v\<lparr>py_ID := hex_encode (slice_bytes (pr_ID q))\<rparr>"
    by (auto simp: MapPropertyToODProperty_def MapODPropertyToProperty_def Let_def split: option.splits)
  ultimately show ?thesis
    using assms by (simp add: slice_bytes_def)
qed

lemma property_always: "\<exists>q. MapPropertyToODProperty (MapODPropertyToProperty p) = Inr q"
  by (simp add: MapPropertyToODProperty_def py_ID_mapped)

text \<open>An update that gives permissions or an ACM leaves no old permission in force.\<close>

lemma replaced_permissions:
  assumes "provided \<noteq> [] \<or> acm \<noteq> ''''"
  shows "filter (\<lambda>p. \<not> p_IsDeleted p) (replace_permissions provided acm ps) = filter (\<lambda>p. \<not> p_IsDeleted p) provided"
  using assms by (auto simp: replace_permissions_def filter_empty_conv)

lemma MapODObjectToObject_id:
  "MapODObjectToObject unm i = Some x \<Longrightarrow> ob_ID x = hex_encode (slice_bytes (o_ID i)) \<and> ob_ParentID x = hex_encode (slice_bytes (o_ParentID i)) \<and>
     ob_ChangeToken x = o_ChangeToken i \<and> ob_ChangeCount x = o_ChangeCount i"
  by (auto simp: MapODObjectToObject_def)

lemma MapDeleteObjectRequest_id:
  "MapDeleteObjectRequestToODObject i = Inr x \<Longrightarrow> o_ChangeToken x = dq_ChangeToken i \<and> hex_decode (dq_ID i) = Some (slice_bytes (o_ID x)) \<and>
     slice_len (o_ID x) \<noteq> 0"
  by (auto simp: MapDeleteObjectRequestToODObject_def decode_id_def slice_bytes_def slice_len_def split: option.splits if_splits
      elim: hex_decode.elims)

end
