(* ===== verification/Ciphertext_Cache.thy ===== *)
theory Ciphertext_Cache
  imports Complex_Main Go_Strings Crypto_Stream
begin

text \<open>
  \<open>ciphertext/cache.go\<close>, \<open>ciphertext/ciphertext.go\<close>, \<open>ciphertext/interface.go\<close> and
  \<open>ciphertext/local.go\<close>: the local cache of ciphertexts in front of permanent storage. The cache is a
  directory whose file names carry a state (\<open>.uploading\<close>, \<open>.uploaded\<close>, \<open>.cached\<close>, \<open>.caching\<close>,
  \<open>.orphaned\<close>); the state here keeps the files, which operations fail on which names, and the clock.

  Permanent storage is an interface of the code: its operations are the record \<open>storage_ops\<close>, what
  the code relies on is the locale \<open>permanent_storage\<close>, and \<open>PermanentStorageLocalData\<close> of local.go
  is an interpretation. The peers asked for a ciphertext are a function of the address and offset.
  Names are relative to the mount point; sleeping and logging are left out.
\<close>

subsection \<open>File names\<close>

definition FileStateCached :: string where "FileStateCached = ''.cached''"
definition FileStateCaching :: string where "FileStateCaching = ''.caching''"
definition FileStateUploaded :: string where "FileStateUploaded = ''.uploaded''"
definition FileStateUploading :: string where "FileStateUploading = ''.uploading''"
definition FileStateOrphaned :: string where "FileStateOrphaned = ''.orphaned''"

lemmas file_states = FileStateCached_def FileStateCaching_def FileStateUploaded_def
  FileStateUploading_def FileStateOrphaned_def

definition NewFileName :: "string \<Rightarrow> string \<Rightarrow> string" where
  "NewFileName rName ext = rName @ ext"

text \<open>\<open>path.Ext\<close>: from the last dot of the last element of the path, or empty.\<close>

definition path_ext :: "string \<Rightarrow> string" where
  "path_ext p = (let r = rev p; e = takeWhile (\<lambda>c. c \<noteq> CHR ''.'' \<and> c \<noteq> CHR ''/'') r in
     if length e < length r \<and> r ! length e = CHR ''.'' then CHR ''.'' # rev e else [])"

lemma path_ext_state:
  "ext = CHR ''.'' # e \<Longrightarrow> CHR ''.'' \<notin> set e \<Longrightarrow> CHR ''/'' \<notin> set e \<Longrightarrow> path_ext (s @ ext) = ext"
proof -
  assume e: "ext = CHR ''.'' # e" "CHR ''.'' \<notin> set e" "CHR ''/'' \<notin> set e"
  then have "takeWhile (\<lambda>c. c \<noteq> CHR ''.'' \<and> c \<noteq> CHR ''/'') (rev (s @ ext)) = rev e"
    by (auto intro!: takeWhile_tail simp: takeWhile_eq_all_conv takeWhile_append)
  then show ?thesis
    by (simp add: path_ext_def Let_def e(1) nth_append)
qed

lemma path_ext_NewFileName [simp]:
  "path_ext (NewFileName r FileStateCached) = FileStateCached"
  "path_ext (NewFileName r FileStateCaching) = FileStateCaching"
  "path_ext (NewFileName r FileStateUploaded) = FileStateUploaded"
  "path_ext (NewFileName r FileStateUploading) = FileStateUploading"
  "path_ext (NewFileName r FileStateOrphaned) = FileStateOrphaned"
  by (simp_all add: NewFileName_def file_states path_ext_state)

lemma NewFileName_inject [simp]: "NewFileName r e = NewFileName r' e \<longleftrightarrow> r = r'"
  by (simp add: NewFileName_def)

lemma NewFileName_states [simp]:
  "NewFileName r FileStateUploaded \<noteq> NewFileName r' FileStateCached"
  "NewFileName r FileStateUploaded \<noteq> NewFileName r' FileStateCaching"
  "NewFileName r FileStateUploaded \<noteq> NewFileName r' FileStateUploading"
  "NewFileName r FileStateUploaded \<noteq> NewFileName r' FileStateOrphaned"
  "NewFileName r FileStateCached \<noteq> NewFileName r' FileStateCaching"
  "NewFileName r FileStateCached \<noteq> NewFileName r' FileStateUploading"
  "NewFileName r FileStateCached \<noteq> NewFileName r' FileStateOrphaned"
  "NewFileName r FileStateCaching \<noteq> NewFileName r' FileStateUploading"
  "NewFileName r FileStateCached \<noteq> NewFileName r' FileStateUploaded"
  "NewFileName r FileStateCaching \<noteq> NewFileName r' FileStateUploaded"
  "NewFileName r FileStateUploading \<noteq> NewFileName r' FileStateUploaded"
  "NewFileName r FileStateOrphaned \<noteq> NewFileName r' FileStateUploaded"
  "NewFileName r FileStateCaching \<noteq> NewFileName r' FileStateCached"
  "NewFileName r FileStateUploading \<noteq> NewFileName r' FileStateCached"
  "NewFileName r FileStateOrphaned \<noteq> NewFileName r' FileStateCached"
  "NewFileName r FileStateUploading \<noteq> NewFileName r' FileStateCaching"
  by (rule notI, drule arg_cong [of _ _ path_ext], simp, simp add: file_states)+

subsection \<open>The file system\<close>

datatype fs_op = OpStat | OpOpen | OpCreate | OpRename | OpRemove | OpTruncate | OpChtimes | OpWrite

datatype fs_err = NotExist | Exist | OtherErr

record cfile =
  f_Data :: bytes
  f_Mtime :: int

record FileSystem =
  fs_Files :: "string \<Rightarrow> cfile option"
  fs_Fault :: "fs_op \<Rightarrow> string \<Rightarrow> bool"
  fs_Now :: int

definition IsNotExist :: "fs_err option \<Rightarrow> bool" where "IsNotExist e \<longleftrightarrow> e = Some NotExist"
definition IsExist :: "fs_err option \<Rightarrow> bool" where "IsExist e \<longleftrightarrow> e = Some Exist"

definition set_file :: "string \<Rightarrow> cfile option \<Rightarrow> FileSystem \<Rightarrow> FileSystem" where
  "set_file n f fs = fs\<lparr>fs_Files := (fs_Files fs)(n := f)\<rparr>"

text \<open>An operation on a name that is there and does not fail.\<close>

definition fs_err_of :: "fs_op \<Rightarrow> FileSystem \<Rightarrow> string \<Rightarrow> fs_err option" where
  "fs_err_of opr fs n = (if fs_Fault fs opr n then Some OtherErr
     else if fs_Files fs n = None then Some NotExist else None)"

definition fs_Stat :: "FileSystem \<Rightarrow> string \<Rightarrow> cfile option \<times> fs_err option" where
  "fs_Stat fs n = (if fs_err_of OpStat fs n = None then fs_Files fs n else None, fs_err_of OpStat fs n)"

definition fs_Open :: "FileSystem \<Rightarrow> string \<Rightarrow> cfile option \<times> fs_err option" where
  "fs_Open fs n = (if fs_err_of OpOpen fs n = None then fs_Files fs n else None, fs_err_of OpOpen fs n)"

definition fs_Create :: "FileSystem \<Rightarrow> string \<Rightarrow> fs_err option \<times> FileSystem" where
  "fs_Create fs n = (if fs_Fault fs OpCreate n then (Some OtherErr, fs)
     else (None, set_file n (Some \<lparr>f_Data = [], f_Mtime = fs_Now fs\<rparr>) fs))"

definition fs_Remove :: "FileSystem \<Rightarrow> string \<Rightarrow> fs_err option \<times> FileSystem" where
  "fs_Remove fs n = (fs_err_of OpRemove fs n,
     if fs_err_of OpRemove fs n = None then set_file n None fs else fs)"

definition fs_Rename :: "FileSystem \<Rightarrow> string \<Rightarrow> string \<Rightarrow> fs_err option \<times> FileSystem" where
  "fs_Rename fs a b = (fs_err_of OpRename fs a,
     if fs_err_of OpRename fs a = None \<and> a \<noteq> b then set_file a None (set_file b (fs_Files fs a) fs) else fs)"

definition fs_Truncate :: "FileSystem \<Rightarrow> string \<Rightarrow> fs_err option \<times> FileSystem" where
  "fs_Truncate fs n = (fs_err_of OpTruncate fs n,
     if fs_err_of OpTruncate fs n = None then set_file n (Some \<lparr>f_Data = [], f_Mtime = fs_Now fs\<rparr>) fs else fs)"

definition fs_Chtimes :: "FileSystem \<Rightarrow> string \<Rightarrow> FileSystem" where
  "fs_Chtimes fs n = (if fs_err_of OpChtimes fs n = None
     then set_file n (map_option (f_Mtime_update (\<lambda>_. fs_Now fs)) (fs_Files fs n)) fs else fs)"

text \<open>What ends up in a file that was just created, when \<open>b\<close> is written to it.\<close>

definition fs_Write :: "FileSystem \<Rightarrow> string \<Rightarrow> bytes \<Rightarrow> FileSystem" where
  "fs_Write fs n b = set_file n (Some \<lparr>f_Data = b, f_Mtime = fs_Now fs\<rparr>) fs"

lemma set_file_simps [simp]:
  "fs_Files (set_file n f fs) = (fs_Files fs)(n := f)"
  "fs_Fault (set_file n f fs) = fs_Fault fs"
  "fs_Now (set_file n f fs) = fs_Now fs"
  by (simp_all add: set_file_def)

lemma fs_err_of_not_Exist [simp]: "\<not> IsExist (fs_err_of opr fs n)" "\<not> IsExist None"
  by (simp_all add: IsExist_def fs_err_of_def)

lemma fs_err_of_None: "fs_err_of opr fs n = None \<longleftrightarrow> \<not> fs_Fault fs opr n \<and> fs_Files fs n \<noteq> None"
  by (simp add: fs_err_of_def)

subsection \<open>Permanent storage\<close>

definition PermanentStorageNotFoundErrorString :: string where
  "PermanentStorageNotFoundErrorString = ''not found in permanent storage''"

definition PermanentStorageNotSet :: string where
  "PermanentStorageNotSet = ''there is no PermanentStorage set''"

text \<open>
  \<open>ps_Download\<close> is told whether the file it writes to can be written, and gives the bytes that end up
  in it and the error; \<open>ps_GetStream\<close> gives an error or a reader, \<open>None\<close> for a nil one.
\<close>

record 'st storage_ops =
  ps_Upload :: "'st \<Rightarrow> string \<Rightarrow> mem_reader \<Rightarrow> string option \<times> 'st"
  ps_Download :: "'st \<Rightarrow> string \<Rightarrow> bool \<Rightarrow> (bytes \<times> string option) \<times> 'st"
  ps_GetStream :: "'st \<Rightarrow> string \<Rightarrow> int \<Rightarrow> int \<Rightarrow> (string + mem_reader option) \<times> 'st"

locale permanent_storage =
  fixes ps :: "'st storage_ops" and view :: "'st \<Rightarrow> string \<Rightarrow> bytes option"
  assumes upload_ok: "mem_clean r \<Longrightarrow> ps_Upload ps st key r = (None, st') \<Longrightarrow>
      view st' = (view st)(key \<mapsto> mem_content r)"
    and upload_other: "mem_clean r \<Longrightarrow> ps_Upload ps st key r = (e, st') \<Longrightarrow> k \<noteq> key \<Longrightarrow> view st' k = view st k"
    and download_ok: "ps_Download ps st key True = ((b, None), st') \<Longrightarrow> view st key = Some b"
    and download_view: "ps_Download ps st key w = (x, st') \<Longrightarrow> view st' = view st"
    and stream_ok: "ps_GetStream ps st key start stop = (Inr (Some r), st') \<Longrightarrow> 0 \<le> start \<Longrightarrow>
      mem_clean r \<and> (\<exists>c rest. view st key = Some c \<and> drop (nat start) c = mem_content r @ rest \<and>
        (rest = [] \<or> start \<le> stop \<and> stop - start + 1 \<le> int (length (mem_content r))))"
    and stream_view: "ps_GetStream ps st key start stop = (y, st') \<Longrightarrow> view st' = view st"

text \<open>\<open>PermanentStorageLocalData\<close>: a directory. \<open>ls_Fault\<close> says which names cannot be created or opened,
  \<open>ls_Room\<close> how many bytes still fit on the disk, if that is bounded.\<close>

record PermanentStorageLocalData =
  ls_Files :: "string \<Rightarrow> bytes option"
  ls_Fault :: "fs_op \<Rightarrow> string \<Rightarrow> bool"
  ls_Room :: "nat option"

definition local_Upload :: "PermanentStorageLocalData \<Rightarrow> string \<Rightarrow> mem_reader
    \<Rightarrow> string option \<times> PermanentStorageLocalData" where
  "local_Upload st key fIn =
     (if ls_Fault st OpCreate key then (Some ''create'', st)
      else (case io_copy mem_read 32768 fIn \<lparr>w_out = [], w_cap = ls_Room st\<rparr> 0 of
          None \<Rightarrow> (Some ''no return'', st)
        | Some (_, err, _, w) \<Rightarrow>
            (map_option (\<lambda>e. case e of EOF \<Rightarrow> ''EOF'' | Err s \<Rightarrow> s) err,
             st\<lparr>ls_Files := (ls_Files st)(key \<mapsto> w_out w), ls_Room := w_cap w\<rparr>)))"

lemma mem_read_size: "mem_read r k = (b, None, r') \<Longrightarrow> 0 < k \<Longrightarrow> mem_size r' < mem_size r"
  by (cases "(r, k)" rule: mem_read.cases) (auto simp: mem_size_def split: if_splits)

text \<open>The errors of \<open>fOut.WriteAt\<close> are not looked at.\<close>

function download_loop :: "bool \<Rightarrow> mem_reader \<Rightarrow> int \<Rightarrow> bytes \<Rightarrow> int \<times> bytes \<times> string option" where
  "download_loop writable r pos out = (case mem_read r 1024 of
     (b, None, r') \<Rightarrow> download_loop writable r' (pos + int (length b)) (if writable then out @ b else out)
   | (b, Some EOF, r') \<Rightarrow> (pos, out, None)
   | (b, Some (Err e), r') \<Rightarrow> (pos, out, Some e))"
  by pat_completeness auto
termination
  by (relation "measure (\<lambda>(w, r, a, out). mem_size r)") (auto dest: mem_read_size [OF sym])

declare download_loop.simps [simp del]

definition local_Download :: "PermanentStorageLocalData \<Rightarrow> string \<Rightarrow> bool
    \<Rightarrow> (bytes \<times> string option) \<times> PermanentStorageLocalData" where
  "local_Download st key writable = (case ls_Files st key of
     None \<Rightarrow> (([], Some PermanentStorageNotFoundErrorString), st)
   | Some c \<Rightarrow> (if ls_Fault st OpOpen key then ([], Some ''open'')
       else (case download_loop writable (bytes_reader c) 0 [] of (_, out, e) \<Rightarrow> (out, e)), st))"

definition local_GetStream :: "PermanentStorageLocalData \<Rightarrow> string \<Rightarrow> int \<Rightarrow> int
    \<Rightarrow> (string + mem_reader option) \<times> PermanentStorageLocalData" where
  "local_GetStream st key start stop = ((case ls_Files st key of
     None \<Rightarrow> Inl PermanentStorageNotFoundErrorString
   | Some c \<Rightarrow> if ls_Fault st OpOpen key then Inl ''open''
       else if start < 0 then Inl ''seek''
       else Inr (Some (bytes_reader (drop (nat start) c)))), st)"

definition local_storage :: "PermanentStorageLocalData storage_ops" where
  "local_storage = \<lparr>ps_Upload = local_Upload, ps_Download = local_Download, ps_GetStream = local_GetStream\<rparr>"

lemma download_loop_all:
  "mem_clean r \<Longrightarrow> download_loop True r pos out = (pos + int (length (mem_content r)), out @ mem_content r, None)"
proof (induction "mem_size r" arbitrary: r pos out rule: less_induct)
  case less
  obtain b e r' where rd: "mem_read r 1024 = (b, e, r')"
    by (metis prod_cases3)
  note step = mem_src.rd_step [OF less.prems _ rd]
  show ?case
  proof (cases e)
    case None
    then show ?thesis
      using less.hyps [of r'] step by (subst download_loop.simps) (simp add: rd)
  next
    case (Some x)
    then have "mem_content r = []"
      using rd less.prems by (cases "(r, 1024::nat)" rule: mem_read.cases) (auto split: if_splits)
    then show ?thesis
      using step Some by (subst download_loop.simps) (simp add: rd)
  qed
qed

lemma local_Upload_writes:
  assumes "mem_clean r" and "local_Upload st key r = (e, st')"
  shows "(e = None \<longrightarrow> ls_Files st' = (ls_Files st)(key \<mapsto> mem_content r)) \<and>
    (k \<noteq> key \<longrightarrow> ls_Files st' k = ls_Files st k)"
proof (cases "ls_Room st")
  case None
  obtain s' where "io_copy mem_read 32768 r \<lparr>w_out = [], w_cap = None\<rparr> 0 =
      Some (0 + int (length (mem_content r)), None, s', \<lparr>w_out = mem_content r, w_cap = None\<rparr>)"
    using mem_src.copy_all [OF assms(1), of 32768 "\<lparr>w_out = [], w_cap = None\<rparr>" 0] by auto
  then show ?thesis
    using assms(2) None by (auto simp: local_Upload_def split: if_splits)
next
  case (Some c)
  obtain s' where "io_copy mem_read 32768 r \<lparr>w_out = [], w_cap = Some c\<rparr> 0 =
      Some (0 + int (min c (length (mem_content r))),
        if c < length (mem_content r) then Some (Err ''write'') else None, s',
        \<lparr>w_out = take c (mem_content r), w_cap = Some (c - length (mem_content r))\<rparr>)"
    using mem_src.copy_capped [OF assms(1), of 32768 "\<lparr>w_out = [], w_cap = Some c\<rparr>" c 0] by auto
  then show ?thesis
    using assms(2) Some by (auto simp: local_Upload_def split: if_splits)
qed

interpretation local_ps: permanent_storage local_storage ls_Files
proof
  fix st st' :: PermanentStorageLocalData and key k r e b x start stop y w
  show "mem_clean r \<Longrightarrow> ps_Upload local_storage st key r = (None, st') \<Longrightarrow>
      ls_Files st' = (ls_Files st)(key \<mapsto> mem_content r)"
    using local_Upload_writes by (auto simp: local_storage_def)
  show "mem_clean r \<Longrightarrow> ps_Upload local_storage st key r = (e, st') \<Longrightarrow> k \<noteq> key \<Longrightarrow> ls_Files st' k = ls_Files st k"
    using local_Upload_writes by (auto simp: local_storage_def)
  show "ps_Download local_storage st key True = ((b, None), st') \<Longrightarrow> ls_Files st key = Some b"
    by (auto simp: local_storage_def local_Download_def download_loop_all split: option.splits if_splits)
  show "ps_Download local_storage st key w = (x, st') \<Longrightarrow> ls_Files st' = ls_Files st"
    by (auto simp: local_storage_def local_Download_def split: option.splits)
  show "ps_GetStream local_storage st key start stop = (y, st') \<Longrightarrow> ls_Files st' = ls_Files st"
    by (auto simp: local_storage_def local_GetStream_def)
next
  fix st st' :: PermanentStorageLocalData and key start stop r
  assume "ps_GetStream local_storage st key start stop = (Inr (Some r), st')"
  then have "\<exists>c. ls_Files st key = Some c \<and> r = bytes_reader (drop (nat start) c)"
    by (auto simp: local_storage_def local_GetStream_def split: option.splits if_splits)
  then show "mem_clean r \<and> (\<exists>c rest. ls_Files st key = Some c \<and> drop (nat start) c = mem_content r @ rest \<and>
        (rest = [] \<or> start \<le> stop \<and> stop - start + 1 \<le> int (length (mem_content r))))"
    by auto
qed

subsection \<open>The cache\<close>

record 'st CiphertextCacheData =
  cc_ChunkSize :: int
  cc_files :: FileSystem
  cc_PermanentStorage :: "'st option"
  cc_CacheLocationString :: string
  cc_lowThresholdPercent :: rat
  cc_ageEligibleForEviction :: int
  cc_highThresholdPercent :: rat
  cc_fileLimit :: int
  cc_MasterKey :: string

text \<open>\<open>filepath.Join\<close> of two clean relative paths.\<close>

definition Resolve :: "'st CiphertextCacheData \<Rightarrow> string \<Rightarrow> string" where
  "Resolve d fName = (if cc_CacheLocationString d = [] then fName
     else if fName = [] then cc_CacheLocationString d
     else cc_CacheLocationString d @ ''/'' @ fName)"

abbreviation name_in :: "'st CiphertextCacheData \<Rightarrow> string \<Rightarrow> string \<Rightarrow> string" where
  "name_in d rName ext \<equiv> Resolve d (NewFileName rName ext)"

definition set_files :: "FileSystem \<Rightarrow> 'st CiphertextCacheData \<Rightarrow> 'st CiphertextCacheData" where
  "set_files fs d = d\<lparr>cc_files := fs\<rparr>"

definition UseLocalFile :: "'st CiphertextCacheData \<Rightarrow> string \<Rightarrow> int
    \<Rightarrow> (mem_reader option \<times> int \<times> fs_err option) \<times> 'st CiphertextCacheData" where
  "UseLocalFile d rName cipherStartAt =
     (let fs = cc_files d; up = name_in d rName FileStateUploaded; ca = name_in d rName FileStateCached;
          len_of = (\<lambda>n otherwise. case fs_Stat fs n of (Some f, None) \<Rightarrow> int (length (f_Data f)) - cipherStartAt
                                         | _ \<Rightarrow> otherwise);
          finish = (\<lambda>f len fs. if cipherStartAt < 0 then ((None, - 1, Some OtherErr), set_files fs d)
             else ((Some (bytes_reader (drop (nat cipherStartAt) (f_Data f))), len, None),
                   set_files (fs_Chtimes fs ca) d))
      in case fs_Open fs up of
           (Some f, None) \<Rightarrow> finish f (len_of up 0) (fs_Chtimes fs up)
         | _ \<Rightarrow> (case fs_Open fs ca of
               (Some f, None) \<Rightarrow> finish f (len_of ca (len_of up 0)) fs
             | (_, e) \<Rightarrow> ((None, - 1, if IsNotExist e then None else Some OtherErr), d)))"

subsection \<open>Peers\<close>

record PeerMapData =
  pm_Host :: string
  pm_Port :: int
  pm_CA :: string
  pm_Cert :: string
  pm_CertKey :: string

text \<open>The globals \<open>peerMap\<close> and \<open>connectionMap\<close>: which peers are known, and to which of them there is
  a connection.\<close>

record peer_maps =
  pe_Enabled :: bool
  pe_MyIP :: string
  pe_peerMap :: "(string \<times> PeerMapData option) list"
  pe_connectionMap :: "string \<Rightarrow> bool"

definition setPeers :: "(string \<times> PeerMapData option) list \<Rightarrow> (string \<times> PeerMapData option) list
    \<Rightarrow> peer_maps \<Rightarrow> peer_maps" where
  "setPeers newPeerMap oldPeerMap pe =
     (let deletedPeerKeys = filter (\<lambda>k. map_of newPeerMap k = None \<or> map_of newPeerMap k = Some None) (map fst oldPeerMap)
      in pe\<lparr>pe_peerMap := newPeerMap,
            pe_connectionMap := foldl (\<lambda>m k. m(k := False)) (pe_connectionMap pe) deletedPeerKeys\<rparr>)"

text \<open>\<open>dial\<close> says whether a connection to a peer can be set up, \<open>ask\<close> what a peer answers to a request
  for an address and a range: a status code and a body, or no answer.\<close>

record network =
  net_dial :: "PeerMapData \<Rightarrow> bool"
  net_ask :: "PeerMapData \<Rightarrow> string \<Rightarrow> string \<Rightarrow> (nat \<times> mem_reader) option"

definition peer_url :: "PeerMapData \<Rightarrow> string \<Rightarrow> string \<Rightarrow> string" where
  "peer_url peer zone rName = ''https://'' @ pm_Host peer @ '':'' @ fmt_int (pm_Port peer)
     @ ''/ciphertext/'' @ zone @ ''/'' @ rName"

fun p2p_loop :: "network \<Rightarrow> string \<Rightarrow> string \<Rightarrow> string \<Rightarrow> int \<Rightarrow> (string \<times> PeerMapData option) list
    \<Rightarrow> (string \<Rightarrow> bool) \<Rightarrow> mem_reader option \<times> (string \<Rightarrow> bool)" where
  "p2p_loop net myIP zone rName start [] conns = (None, conns)"
| "p2p_loop net myIP zone rName start ((peerKey, None) # ps) conns = p2p_loop net myIP zone rName start ps conns"
| "p2p_loop net myIP zone rName start ((peerKey, Some peer) # ps) conns =
     (if pm_Host peer = myIP then p2p_loop net myIP zone rName start ps conns
      else (let conns1 = (if conns peerKey then conns else conns(peerKey := net_dial net peer)) in
        if \<not> conns1 peerKey then p2p_loop net myIP zone rName start ps conns1
        else (case net_ask net peer (peer_url peer zone rName) (''bytes='' @ fmt_int start @ ''-'') of
            None \<Rightarrow> p2p_loop net myIP zone rName start ps (conns1(peerKey := False))
          | Some (sc, body) \<Rightarrow> if sc = 200 \<or> sc = 206 \<or> sc = 304 then (Some body, conns1)
                               else p2p_loop net myIP zone rName start ps conns1)))"

definition useP2PFile :: "network \<Rightarrow> string \<Rightarrow> string \<Rightarrow> int \<Rightarrow> peer_maps \<Rightarrow> mem_reader option \<times> peer_maps" where
  "useP2PFile net zone rName start pe =
     (if \<not> pe_Enabled pe then (None, pe)
      else (case p2p_loop net (pe_MyIP pe) zone rName start (pe_peerMap pe) (pe_connectionMap pe) of
        (r, conns) \<Rightarrow> (r, pe\<lparr>pe_connectionMap := conns\<rparr>)))"

text \<open>A peer is only believed when it answers with a good status, and this node never asks itself.\<close>

lemma p2p_loop_Some:
  "p2p_loop net myIP zone rName start ps conns = (Some body, conns') \<Longrightarrow>
     \<exists>k peer sc rng. (k, Some peer) \<in> set ps \<and> pm_Host peer \<noteq> myIP \<and> sc \<in> {200, 206, 304} \<and>
       net_ask net peer (peer_url peer zone rName) rng = Some (sc, body)"
proof (induction ps arbitrary: conns)
  case (Cons kp ps)
  obtain k p where kp: "kp = (k, p)" by (cases kp)
  show ?case
  proof (cases p)
    case None
    then show ?thesis using Cons by (fastforce simp: kp)
  next
    case (Some peer)
    show ?thesis
    proof (cases "\<exists>c. p2p_loop net myIP zone rName start ps c = (Some body, conns')")
      case True
      then show ?thesis using Cons.IH by (fastforce simp: kp)
    next
      case False
      then show ?thesis
        using Cons.prems Some by (fastforce simp: kp Let_def split: if_splits option.splits)
    qed
  qed
qed simp

subsection \<open>Writing back and fetching\<close>

definition Writeback :: "'st storage_ops \<Rightarrow> 'st CiphertextCacheData \<Rightarrow> string \<Rightarrow> int
    \<Rightarrow> string option \<times> 'st CiphertextCacheData" where
  "Writeback ps d rName sz =
     (let up = name_in d rName FileStateUploaded; ca = name_in d rName FileStateCached;
          key = name_in d rName '''';
          rename = (\<lambda>d. case fs_Rename (cc_files d) up ca of (err, fs) \<Rightarrow>
             (if err = None \<or> IsNotExist err then None else Some ''rename'', set_files fs d))
      in case fs_Open (cc_files d) up of
           (Some fIn, None) \<Rightarrow>
             (case cc_PermanentStorage d of
                Some st \<Rightarrow> if sz > 0
                  then (case ps_Upload ps st key (bytes_reader (f_Data fIn)) of
                      (Some e, st') \<Rightarrow> (Some e, d\<lparr>cc_PermanentStorage := Some st'\<rparr>)
                    | (None, st') \<Rightarrow> rename (d\<lparr>cc_PermanentStorage := Some st'\<rparr>))
                  else rename d
              | None \<Rightarrow> rename d)
         | (_, err) \<Rightarrow> (if IsNotExist err then None else Some ''open'', d))"

definition doDownloadFromPermanentStorage :: "'st storage_ops \<Rightarrow> 'st CiphertextCacheData \<Rightarrow> string \<Rightarrow> string
    \<Rightarrow> string option \<times> 'st CiphertextCacheData" where
  "doDownloadFromPermanentStorage ps d foutCaching key = (case cc_PermanentStorage d of
     None \<Rightarrow> (Some PermanentStorageNotSet, d)
   | Some st \<Rightarrow> (case fs_Create (cc_files d) foutCaching of
        (Some e, fs) \<Rightarrow> (Some ''create'', d)
      | (None, fs) \<Rightarrow> (case ps_Download ps st key (\<not> fs_Fault fs OpWrite foutCaching) of
          ((b, err), st') \<Rightarrow> (err, d\<lparr>cc_files := fs_Write fs foutCaching b, cc_PermanentStorage := Some st'\<rparr>))))"

fun retry_download :: "'st storage_ops \<Rightarrow> string \<Rightarrow> string \<Rightarrow> nat \<Rightarrow> string option \<Rightarrow> 'st CiphertextCacheData
    \<Rightarrow> string option \<times> 'st CiphertextCacheData" where
  "retry_download ps foutCaching key 0 err d = (err, d)"
| "retry_download ps foutCaching key (Suc tries) err d =
     (if err = None \<or> cc_PermanentStorage d = None then (err, d)
      else (case doDownloadFromPermanentStorage ps d foutCaching key of
        (err', d') \<Rightarrow> retry_download ps foutCaching key tries err' d'))"

text \<open>
  What happens when the download fails: the error with which \<open>Recache\<close> returns at once, or the error
  with which it goes on. \<open>useP2PFile\<close> never returns an error, so its assignment clears \<open>err\<close>.
\<close>

definition ask_peers :: "network \<Rightarrow> string \<Rightarrow> string \<Rightarrow> string \<Rightarrow> string \<Rightarrow> 'st CiphertextCacheData \<Rightarrow> peer_maps
    \<Rightarrow> (string option + string option) \<times> 'st CiphertextCacheData \<times> peer_maps" where
  "ask_peers net zone rName foutCaching err d pe =
     (if cc_PermanentStorage d \<noteq> None \<and> err = PermanentStorageNotFoundErrorString \<and> rName = ''canary''
      then (Inl (Some err), d, pe)
      else if pe_Enabled pe then
        (case useP2PFile net zone rName 0 pe of
           (Some filep2p, pe') \<Rightarrow> (case fs_Create (cc_files d) foutCaching of
               (Some e, fs) \<Rightarrow> (Inr (Some ''create''), d, pe')
             | (None, fs) \<Rightarrow>
                 (case io_copy mem_read 32768 filep2p
                     \<lparr>w_out = [], w_cap = if fs_Fault fs OpWrite foutCaching then Some 0 else None\<rparr> 0 of
                   None \<Rightarrow> (Inr (Some ''no return''), set_files fs d, pe')
                 | Some (_, e, _, w) \<Rightarrow>
                     (Inr (map_option (\<lambda>e. case e of EOF \<Rightarrow> ''EOF'' | Err s \<Rightarrow> s) e),
                      set_files (fs_Write fs foutCaching (w_out w)) d, pe')))
         | (None, pe') \<Rightarrow> if cc_PermanentStorage d = None then (Inl None, d, pe') else (Inr None, d, pe'))
      else (Inr (Some err), d, pe))"

definition recache_rename :: "string \<Rightarrow> string \<Rightarrow> 'st CiphertextCacheData \<Rightarrow> string option \<times> 'st CiphertextCacheData" where
  "recache_rename foutCaching foutCached d = (case fs_Rename (cc_files d) foutCaching foutCached of
     (err, fs) \<Rightarrow> (if err = None then None else Some ''rename'', set_files fs d))"

definition recache_body where
  "recache_body ps net zone rName foutCaching foutCached key d pe =
     (case doDownloadFromPermanentStorage ps d foutCaching key of
        (err, d1) \<Rightarrow>
          (case (case err of None \<Rightarrow> (Inr None, d1, pe) | Some e \<Rightarrow> ask_peers net zone rName foutCaching e d1 pe) of
             (Inl e, d2, pe') \<Rightarrow> (e, d2, pe')
           | (Inr e, d2, pe') \<Rightarrow>
              (case retry_download ps foutCaching key 4 e d2 of
                 (Some e', d3) \<Rightarrow> (Some e', d3, pe')
               | (None, d3) \<Rightarrow> (case recache_rename foutCaching foutCached d3 of (e', d4) \<Rightarrow> (e', d4, pe')))))"

definition Recache :: "'st storage_ops \<Rightarrow> network \<Rightarrow> string \<Rightarrow> string \<Rightarrow> 'st CiphertextCacheData \<Rightarrow> peer_maps
    \<Rightarrow> string option \<times> 'st CiphertextCacheData \<times> peer_maps" where
  "Recache ps net zone rName d pe =
     (let foutCached = name_in d rName FileStateCached; foutCaching = name_in d rName FileStateCaching in
      if IsExist (snd (fs_Stat (cc_files d) foutCached)) then (None, d, pe)
      else if IsExist (snd (fs_Stat (cc_files d) foutCaching)) then (Some ''exists'', d, pe)
      else (case recache_body ps net zone rName foutCaching foutCached (name_in d rName '''') d pe of
        (err, d', pe') \<Rightarrow> (err, set_files (snd (fs_Remove (cc_files d') foutCaching)) d', pe')))"

definition BackgroundRecache where
  "BackgroundRecache ps net zone rName d pe =
     (if IsNotExist (snd (fs_Stat (cc_files d) (name_in d rName FileStateCaching)))
      then (case Recache ps net zone rName d pe of (_, d', pe') \<Rightarrow> (d', pe')) else (d, pe))"

subsection \<open>The canary\<close>

definition haveCanary where
  "haveCanary ps net zone rName d pe = (case Recache ps net zone rName d pe of
     (Some e, d', pe') \<Rightarrow> ([], Some (if e = PermanentStorageNotFoundErrorString then e
        else ''ciphertextcache expected check fail''), d', pe')
   | (None, d', pe') \<Rightarrow>
      (let nameCached = name_in d' rName FileStateCached in
       if snd (fs_Stat (cc_files d') nameCached) \<noteq> None then ([], Some ''ciphertextcache stat error'', d', pe')
       else (case fs_Open (cc_files d') nameCached of
           (Some f, None) \<Rightarrow> (f_Data f, None, d', pe')
         | _ \<Rightarrow> ([], Some ''ciphertextcache expected open fail'', d', pe'))))"

definition expectCanary :: "'st storage_ops \<Rightarrow> string \<Rightarrow> bytes \<Rightarrow> 'st CiphertextCacheData
    \<Rightarrow> string option \<times> 'st CiphertextCacheData" where
  "expectCanary ps rName expected d =
     (let nameUploaded = name_in d rName FileStateUploaded in
      case (case fs_Create (cc_files d) nameUploaded of
          (Some e, fs) \<Rightarrow> (Some ''ciphertextcache expected write'', d)
        | (None, fs) \<Rightarrow>
            (case Writeback ps (set_files (if fs_Fault fs OpWrite nameUploaded then fs
                    else fs_Write fs nameUploaded expected) d) rName (int (length expected)) of
              (err, d') \<Rightarrow> (if err = None then None else Some ''ciphertextcache expected writeback fail'', d')))
      of (err, d') \<Rightarrow> (err, set_files (snd (fs_Remove (cc_files d') nameUploaded)) d'))"

definition masterKeyCheck where
  "masterKeyCheck sha ps net zone d pe =
     (let expected = str_bytes (hex_encode (Sum256 sha (str_bytes (cc_MasterKey d)))); rName = ''canary'' in
      case haveCanary ps net zone rName d pe of (have_, err, d', pe') \<Rightarrow>
        if have_ = [] then (case expectCanary ps rName expected d' of (e, d'') \<Rightarrow> (e, d'', pe'))
        else (case err of
            Some e \<Rightarrow> if e = PermanentStorageNotFoundErrorString
              then (case expectCanary ps rName expected d' of (e', d'') \<Rightarrow> (e', d'', pe'))
              else (Some e, d', pe')
          | None \<Rightarrow> if have_ \<noteq> expected
              then (Some ''ciphertextcache canary mismatch'',
                    set_files (snd (fs_Remove (cc_files d') (name_in d' rName FileStateCached))) d', pe')
              else (None, d', pe')))"

subsection \<open>Draining and counting\<close>

text \<open>The visit of one file of the directory by \<open>DrainUploadedFilesToSafetyRaw\<close>, and one walk.\<close>

definition drain_visit :: "'st storage_ops \<Rightarrow> string \<Rightarrow> 'st CiphertextCacheData
    \<Rightarrow> string option \<times> 'st CiphertextCacheData" where
  "drain_visit ps name d = (let ext = path_ext name; fqName = Resolve d name in
     if ext = FileStateUploaded then
       (case fs_Stat (cc_files d) fqName of
          (Some f, None) \<Rightarrow>
            if fs_Now (cc_files d) - f_Mtime f \<ge> cc_ageEligibleForEviction d
            then Writeback ps d (take (length name - length ext) name) (int (length (f_Data f)))
            else (None, d)
        | (_, err) \<Rightarrow> (if IsNotExist err then None else Some ''stat'', d))
     else (None, d))"

definition drain_iteration :: "'st storage_ops \<Rightarrow> string list \<Rightarrow> 'st CiphertextCacheData \<Rightarrow> 'st CiphertextCacheData" where
  "drain_iteration ps names d =
     (if cc_PermanentStorage d = None then d else fold (\<lambda>name d. snd (drain_visit ps name d)) names d)"

definition is_outstanding :: "'st CiphertextCacheData \<Rightarrow> string \<Rightarrow> bool" where
  "is_outstanding d name \<longleftrightarrow> has_suffix name FileStateUploaded \<and>
     (case fs_Stat (cc_files d) (Resolve d name) of (Some f, None) \<Rightarrow> length (f_Data f) > 0 | _ \<Rightarrow> False)"

definition CountUploaded :: "string list \<Rightarrow> 'st CiphertextCacheData \<Rightarrow> nat" where
  "CountUploaded names d = length (filter (is_outstanding d) names)"

definition CacheInventory :: "string list \<Rightarrow> bool \<Rightarrow> 'st CiphertextCacheData \<Rightarrow> string list" where
  "CacheInventory names verbose d =
     map (Resolve d) (filter (\<lambda>n. verbose \<or> has_suffix n FileStateUploaded) names)"

subsection \<open>What fetching and writing back do\<close>

lemma Resolve_inject [simp]: "Resolve d a = Resolve d b \<longleftrightarrow> a = b"
  by (auto simp: Resolve_def)

lemma Resolve_set_files [simp]: "Resolve (set_files fs d) = Resolve d"
  "Resolve (d\<lparr>cc_files := fs\<rparr>) = Resolve d" "Resolve (d\<lparr>cc_PermanentStorage := s\<rparr>) = Resolve d"
  by (auto simp: Resolve_def set_files_def fun_eq_iff)

lemma set_files_simps [simp]:
  "cc_files (set_files fs d) = fs" "cc_PermanentStorage (set_files fs d) = cc_PermanentStorage d"
  "cc_ageEligibleForEviction (set_files fs d) = cc_ageEligibleForEviction d"
  "cc_CacheLocationString (set_files fs d) = cc_CacheLocationString d"
  "cc_MasterKey (set_files fs d) = cc_MasterKey d"
  by (simp_all add: set_files_def)

lemma fs_Write_simps [simp]:
  "fs_Files (fs_Write fs n b) = (fs_Files fs)(n \<mapsto> \<lparr>f_Data = b, f_Mtime = fs_Now fs\<rparr>)"
  "fs_Fault (fs_Write fs n b) = fs_Fault fs" "fs_Now (fs_Write fs n b) = fs_Now fs"
  by (simp_all add: fs_Write_def)

text \<open>Two caches that differ in the files \<open>S\<close> and in permanent storage at most.\<close>

definition same_but :: "string set \<Rightarrow> 'st CiphertextCacheData \<Rightarrow> 'st CiphertextCacheData \<Rightarrow> bool" where
  "same_but S d d' \<longleftrightarrow> (\<forall>n. n \<notin> S \<longrightarrow> fs_Files (cc_files d') n = fs_Files (cc_files d) n) \<and>
     fs_Fault (cc_files d') = fs_Fault (cc_files d) \<and> fs_Now (cc_files d') = fs_Now (cc_files d) \<and>
     cc_CacheLocationString d' = cc_CacheLocationString d \<and> cc_MasterKey d' = cc_MasterKey d \<and>
     cc_ageEligibleForEviction d' = cc_ageEligibleForEviction d"

lemma same_but_refl [simp, intro]: "same_but S d d"
  by (simp add: same_but_def)

lemma same_but_trans [trans]: "same_but S d d' \<Longrightarrow> same_but S d' d'' \<Longrightarrow> same_but S d d''"
  by (simp add: same_but_def)

lemma same_but_mono: "same_but S d d' \<Longrightarrow> S \<subseteq> T \<Longrightarrow> same_but T d d'"
  by (auto simp: same_but_def)

lemma same_but_Resolve: "same_but S d d' \<Longrightarrow> Resolve d' = Resolve d"
  by (auto simp: same_but_def Resolve_def fun_eq_iff)

lemma same_but_file: "same_but S d d' \<Longrightarrow> n \<notin> S \<Longrightarrow> fs_Files (cc_files d') n = fs_Files (cc_files d) n"
  by (simp add: same_but_def)

lemma fs_Rename_cases:
  assumes "fs_Rename fs a b = (err, fs')" and "a \<noteq> b"
  shows "if err = None then fs_Files fs a \<noteq> None \<and> fs' = set_file a None (set_file b (fs_Files fs a) fs)
    else fs' = fs \<and> (err = Some NotExist \<longrightarrow> fs_Files fs a = None)"
  using assms by (auto simp: fs_Rename_def fs_err_of_def split: if_splits)

lemma fs_Create_cases:
  "fs_Create fs n = (err, fs') \<Longrightarrow> if err = None
     then fs' = set_file n (Some \<lparr>f_Data = [], f_Mtime = fs_Now fs\<rparr>) fs else fs' = fs"
  by (auto simp: fs_Create_def split: if_splits)

lemma fs_Remove_same: "same_but {n} d (set_files (snd (fs_Remove (cc_files d) n)) d)"
  by (simp add: same_but_def fs_Remove_def set_files_def)

context permanent_storage
begin

text \<open>What permanent storage holds, when there is one.\<close>

definition stored :: "'st CiphertextCacheData \<Rightarrow> string \<Rightarrow> bytes option" where
  "stored d key = (case cc_PermanentStorage d of None \<Rightarrow> None | Some st \<Rightarrow> view st key)"

lemma stored_set_files [simp]: "stored (set_files fs d) = stored d"
  by (auto simp: stored_def set_files_def fun_eq_iff)

lemma doDownload_spec:
  assumes "doDownloadFromPermanentStorage ps d caching key = (err, d')"
  shows "same_but {caching} d d' \<and> stored d' = stored d \<and>
    (cc_PermanentStorage d' = None \<longleftrightarrow> cc_PermanentStorage d = None) \<and>
    (err = None \<and> \<not> fs_Fault (cc_files d) OpWrite caching \<longrightarrow>
      (\<exists>b. map_option f_Data (fs_Files (cc_files d') caching) = Some b \<and> stored d key = Some b))"
proof (cases "cc_PermanentStorage d")
  case None
  then show ?thesis
    using assms by (auto simp: doDownloadFromPermanentStorage_def)
next
  case (Some st)
  obtain e fs where cr: "fs_Create (cc_files d) caching = (e, fs)"
    by (cases "fs_Create (cc_files d) caching")
  show ?thesis
  proof (cases e)
    case (Some x)
    then show ?thesis
      using assms \<open>cc_PermanentStorage d = Some st\<close> by (auto simp: doDownloadFromPermanentStorage_def cr)
  next
    case None
    have fs: "fs = set_file caching (Some \<lparr>f_Data = [], f_Mtime = fs_Now (cc_files d)\<rparr>) (cc_files d)"
      using fs_Create_cases [OF cr] None by simp
    obtain b er st' where dl: "ps_Download ps st key (\<not> fs_Fault fs OpWrite caching) = ((b, er), st')"
      by (metis surj_pair)
    then have d': "d' = d\<lparr>cc_files := fs_Write fs caching b, cc_PermanentStorage := Some st'\<rparr>" and "err = er"
      using assms Some None by (simp_all add: doDownloadFromPermanentStorage_def cr)
    moreover have "er = None \<and> \<not> fs_Fault (cc_files d) OpWrite caching \<longrightarrow> view st key = Some b"
      using dl download_ok [of st key b st'] by (auto simp: fs)
    ultimately show ?thesis
      using download_view [OF dl] Some by (auto simp: same_but_def fs stored_def fun_eq_iff)
  qed
qed

lemma retry_download_spec:
  assumes "retry_download ps caching key tries err d = (err', d')"
  shows "same_but {caching} d d' \<and> stored d' = stored d \<and>
    (err' = None \<and> err \<noteq> None \<and> \<not> fs_Fault (cc_files d) OpWrite caching \<longrightarrow>
      (\<exists>b. map_option f_Data (fs_Files (cc_files d') caching) = Some b \<and> stored d key = Some b)) \<and>
    (err = None \<longrightarrow> d' = d \<and> err' = None)"
  using assms
proof (induction tries arbitrary: err d)
  case (Suc tries)
  show ?case
  proof (cases "err = None \<or> cc_PermanentStorage d = None")
    case True
    then show ?thesis
      using Suc.prems by auto
  next
    case False
    obtain e1 d1 where dl: "doDownloadFromPermanentStorage ps d caching key = (e1, d1)"
      by (cases "doDownloadFromPermanentStorage ps d caching key")
    have rest: "retry_download ps caching key tries e1 d1 = (err', d')"
      using Suc.prems False by (simp add: dl)
    note A = doDownload_spec [OF dl] and B = Suc.IH [OF rest]
    have fault: "fs_Fault (cc_files d1) = fs_Fault (cc_files d)"
      using A by (simp add: same_but_def)
    have "same_but {caching} d d'"
      using A B same_but_trans by blast
    then show ?thesis
      using A B False fault by (cases e1) auto
  qed
qed auto

end

context permanent_storage
begin

text \<open>Whatever the peers answer, fetching touches the files of this ciphertext only.\<close>

lemma ask_peers_frame:
  assumes "ask_peers net zone rName cg e d pe = (r, d', pe')"
  shows "same_but {cg} d d' \<and> cc_PermanentStorage d' = cc_PermanentStorage d"
proof -
  obtain f pe1 where p2p: "useP2PFile net zone rName 0 pe = (f, pe1)"
    by (cases "useP2PFile net zone rName 0 pe")
  obtain er fs where cr: "fs_Create (cc_files d) cg = (er, fs)"
    by (cases "fs_Create (cc_files d) cg")
  have "d' = d \<or> d' = set_files fs d \<and> er = None \<or> er = None \<and> (\<exists>b. d' = set_files (fs_Write fs cg b) d)"
    using assms by (simp add: ask_peers_def p2p cr split: if_splits option.splits prod.splits) blast+
  then show ?thesis
    using fs_Create_cases [OF cr] by (auto simp: same_but_def)
qed

lemma recache_body_frame:
  assumes "recache_body ps net zone rName cg ca key d pe = (err, d3, pe')" and "cg \<noteq> ca"
  shows "same_but {ca, cg} d d3 \<and> stored d3 = stored d"
proof -
  obtain e1 d1 where dl: "doDownloadFromPermanentStorage ps d cg key = (e1, d1)"
    by (cases "doDownloadFromPermanentStorage ps d cg key")
  define q where "q = (case e1 of None \<Rightarrow> (Inr None, d1, pe) | Some e \<Rightarrow> ask_peers net zone rName cg e d1 pe)"
  obtain r d2 pe2 where q2: "q = (r, d2, pe2)"
    by (cases q)
  have "same_but {cg} d1 d2 \<and> stored d2 = stored d1"
  proof (cases e1)
    case None
    then show ?thesis
      using q2 by (simp add: q_def)
  next
    case (Some x)
    then have "ask_peers net zone rName cg x d1 pe = (r, d2, pe2)"
      using q2 by (simp add: q_def)
    from ask_peers_frame [OF this] show ?thesis
      by (simp add: stored_def fun_eq_iff)
  qed
  then have A: "same_but {cg} d d2 \<and> stored d2 = stored d"
    using doDownload_spec [OF dl] same_but_trans [of "{cg}" d d1 d2] by auto
  show ?thesis
  proof (cases r)
    case (Inl e)
    then have "d3 = d2"
      using assms(1) q2 by (simp add: recache_body_def dl q_def)
    then show ?thesis
      using A same_but_mono [of "{cg}" d d2 "{ca, cg}"] by auto
  next
    case (Inr e)
    obtain e4 d4 where rt: "retry_download ps cg key 4 e d2 = (e4, d4)"
      by (cases "retry_download ps cg key 4 e d2")
    note B = retry_download_spec [OF rt]
    have C: "same_but {cg} d d4" "stored d4 = stored d"
      using A B same_but_trans [of "{cg}" d d2 d4] by auto
    obtain er fs where rn: "fs_Rename (cc_files d4) cg ca = (er, fs)"
      by (cases "fs_Rename (cc_files d4) cg ca")
    have "d3 = (if e4 = None then set_files fs d4 else d4)"
      using assms(1) q2 Inr rt rn by (auto simp: recache_body_def dl q_def recache_rename_def split: option.splits)
    then show ?thesis
      using fs_Rename_cases [OF rn assms(2)] C same_but_mono [of "{cg}" d d4 "{ca, cg}"]
      by (auto simp: same_but_def split: if_splits)
  qed
qed

lemma Recache_frame:
  assumes "Recache ps net zone rName d pe = (err, d', pe')"
  shows "same_but {name_in d rName FileStateCached, name_in d rName FileStateCaching} d d' \<and> stored d' = stored d"
proof -
  let ?cg = "name_in d rName FileStateCaching" and ?ca = "name_in d rName FileStateCached"
  obtain d3 where body: "recache_body ps net zone rName ?cg ?ca (name_in d rName '''') d pe = (err, d3, pe')"
    and d': "d' = set_files (snd (fs_Remove (cc_files d3) ?cg)) d3"
    using assms by (auto simp: Recache_def Let_def fs_Stat_def split: prod.splits)
  show ?thesis
    using recache_body_frame [OF body] fs_Remove_same [of ?cg d3] same_but_mono [of "{?cg}" d3 d' "{?ca, ?cg}"]
      same_but_trans [of "{?ca, ?cg}" d d3 d'] by (auto simp: d')
qed

lemma Recache_storage:
  assumes "Recache ps net zone rName d pe = (err, d', pe')"
  shows "cc_PermanentStorage d' = None \<longleftrightarrow> cc_PermanentStorage d = None"
proof -
  have dl: "cc_PermanentStorage (snd (doDownloadFromPermanentStorage ps d cg key)) = None \<longleftrightarrow> cc_PermanentStorage d = None"
    for d cg key
    using doDownload_spec [of d cg key] by (cases "doDownloadFromPermanentStorage ps d cg key") auto
  have rt: "cc_PermanentStorage (snd (retry_download ps cg key n e d)) = None \<longleftrightarrow> cc_PermanentStorage d = None"
    for cg key n e d
  proof (induction n arbitrary: e d)
    case (Suc n)
    then show ?case
      using dl [of d cg key] by (cases "doDownloadFromPermanentStorage ps d cg key") simp
  qed simp
  let ?cg = "name_in d rName FileStateCaching" and ?ca = "name_in d rName FileStateCached" and ?key = "name_in d rName ''''"
  obtain d3 where body: "recache_body ps net zone rName ?cg ?ca ?key d pe = (err, d3, pe')"
    and d': "d' = set_files (snd (fs_Remove (cc_files d3) ?cg)) d3"
    using assms by (auto simp: Recache_def Let_def fs_Stat_def split: prod.splits)
  obtain e1 d1 where dl1: "doDownloadFromPermanentStorage ps d ?cg ?key = (e1, d1)"
    by (cases "doDownloadFromPermanentStorage ps d ?cg ?key")
  obtain r d2 pe2 where q: "(case e1 of None \<Rightarrow> (Inr None, d1, pe) | Some e \<Rightarrow> ask_peers net zone rName ?cg e d1 pe) = (r, d2, pe2)"
    by (metis prod_cases3)
  have "cc_PermanentStorage d2 = cc_PermanentStorage d1"
    using q ask_peers_frame [of net zone rName ?cg _ d1 pe r d2 pe2] by (cases e1) auto
  moreover have "cc_PermanentStorage d3 = None \<longleftrightarrow> cc_PermanentStorage d2 = None"
  proof (cases r)
    case (Inl e)
    then show ?thesis
      using body q by (simp add: recache_body_def dl1)
  next
    case (Inr e)
    obtain e4 d4 where rt4: "retry_download ps ?cg ?key 4 e d2 = (e4, d4)"
      by (cases "retry_download ps ?cg ?key 4 e d2")
    show ?thesis
      using body q Inr rt4 rt [of ?cg ?key 4 e d2]
      by (auto simp: recache_body_def dl1 recache_rename_def split: option.splits prod.splits)
  qed
  ultimately show ?thesis
    using dl [of d ?cg ?key] by (simp add: d' dl1)
qed

lemma recache_body_spec:
  assumes "recache_body ps net zone rName cg ca key d pe = (err, d3, pe')" and "\<not> pe_Enabled pe" and "cg \<noteq> ca"
  shows "same_but {ca, cg} d d3 \<and> stored d3 = stored d \<and> pe' = pe \<and>
    (if err = None then \<not> fs_Fault (cc_files d) OpWrite cg \<longrightarrow>
       (\<exists>b. map_option f_Data (fs_Files (cc_files d3) ca) = Some b \<and> stored d key = Some b)
     else fs_Files (cc_files d3) ca = fs_Files (cc_files d) ca)"
proof -
  obtain e1 d1 where dl: "doDownloadFromPermanentStorage ps d cg key = (e1, d1)"
    by (cases "doDownloadFromPermanentStorage ps d cg key")
  note A = doDownload_spec [OF dl]
  show ?thesis
  proof (cases "e1 = Some PermanentStorageNotFoundErrorString \<and> cc_PermanentStorage d1 \<noteq> None \<and> rName = ''canary''")
    case True
    then have "d3 = d1" "pe' = pe" "err = e1"
      using assms(1) by (auto simp: recache_body_def dl ask_peers_def)
    then show ?thesis
      using A True assms(3) same_but_mono [of "{cg}" d d1 "{ca, cg}"] by (auto simp: same_but_file)
  next
    case False
    obtain e2 d2 where rt: "retry_download ps cg key 4 e1 d1 = (e2, d2)"
      by (cases "retry_download ps cg key 4 e1 d1")
    note B = retry_download_spec [OF rt]
    have C: "same_but {cg} d d2" "stored d2 = stored d"
      "e2 = None \<and> \<not> fs_Fault (cc_files d) OpWrite cg \<longrightarrow>
      (\<exists>b. map_option f_Data (fs_Files (cc_files d2) cg) = Some b \<and> stored d key = Some b)"
      using A B by (cases e1; auto simp: same_but_def)+
    have rest: "(case e2 of Some e' \<Rightarrow> (Some e', d2, pe)
        | None \<Rightarrow> (case recache_rename cg ca d2 of (e', d4) \<Rightarrow> (e', d4, pe))) = (err, d3, pe')"
    proof (cases e1)
      case None
      then show ?thesis
        using assms(1) rt by (simp add: recache_body_def dl split: option.splits)
    next
      case (Some x)
      then have "ask_peers net zone rName cg x d1 pe = (Inr (Some x), d1, pe)"
        using False assms(2) by (auto simp: ask_peers_def)
      then show ?thesis
        using assms(1) rt Some by (simp add: recache_body_def dl split: option.splits)
    qed
    show ?thesis
    proof (cases e2)
      case (Some x)
      then show ?thesis
        using rest C assms(3) same_but_mono [of "{cg}" d d2 "{ca, cg}"] by (auto simp: same_but_file)
    next
      case None
      obtain er fs where rn: "fs_Rename (cc_files d2) cg ca = (er, fs)"
        by (cases "fs_Rename (cc_files d2) cg ca")
      have "d3 = set_files fs d2" "pe' = pe" "err = (if er = None then None else Some ''rename'')"
        using rest None by (auto simp: recache_rename_def rn)
      then show ?thesis
        using fs_Rename_cases [OF rn assms(3)] C None assms(3) by (auto simp: same_but_def split: if_splits)
    qed
  qed
qed

lemma Recache_spec:
  assumes "Recache ps net zone rName d pe = (err, d', pe')" and "\<not> pe_Enabled pe"
  shows "same_but {name_in d rName FileStateCached, name_in d rName FileStateCaching} d d' \<and>
    stored d' = stored d \<and> pe' = pe \<and>
    (if err = None then
       \<not> fs_Fault (cc_files d) OpWrite (name_in d rName FileStateCaching) \<longrightarrow>
       (\<exists>b. map_option f_Data (fs_Files (cc_files d') (name_in d rName FileStateCached)) = Some b \<and>
         stored d (name_in d rName '''') = Some b)
     else fs_Files (cc_files d') (name_in d rName FileStateCached)
        = fs_Files (cc_files d) (name_in d rName FileStateCached))"
proof -
  let ?cg = "name_in d rName FileStateCaching" and ?ca = "name_in d rName FileStateCached"
  have ne: "?cg \<noteq> ?ca" by simp
  obtain d3 where body: "recache_body ps net zone rName ?cg ?ca (name_in d rName '''') d pe = (err, d3, pe')"
    and d': "d' = set_files (snd (fs_Remove (cc_files d3) ?cg)) d3"
    using assms(1) by (auto simp: Recache_def Let_def fs_Stat_def split: prod.splits)
  have "same_but {?cg} d3 d'"
    using fs_Remove_same [of ?cg d3] by (simp add: d')
  then have "fs_Files (cc_files d') ?ca = fs_Files (cc_files d3) ?ca" "same_but {?ca, ?cg} d3 d'"
    "stored d' = stored d3"
    using ne same_but_file [of "{?cg}" d3 d' ?ca] same_but_mono [of "{?cg}" d3 d' "{?ca, ?cg}"]
    by (auto simp: d')
  then show ?thesis
    using recache_body_spec [OF body assms(2) ne] same_but_trans by auto
qed

lemma Writeback_spec:
  assumes "Writeback ps d rName sz = (err, d')"
    and "fs_Files (cc_files d) (name_in d rName FileStateUploaded) = Some f"
  shows "same_but {name_in d rName FileStateUploaded, name_in d rName FileStateCached} d d' \<and>
    (\<forall>k. k \<noteq> name_in d rName '''' \<longrightarrow> stored d' k = stored d k) \<and>
    (if err = None then
       fs_Files (cc_files d') (name_in d rName FileStateUploaded) = None \<and>
       fs_Files (cc_files d') (name_in d rName FileStateCached) = Some f \<and>
       (sz > 0 \<and> cc_PermanentStorage d \<noteq> None \<longrightarrow> stored d' (name_in d rName '''') = Some (f_Data f))
     else fs_Files (cc_files d') = fs_Files (cc_files d))"
proof -
  let ?up = "name_in d rName FileStateUploaded" and ?ca = "name_in d rName FileStateCached"
    and ?key = "name_in d rName ''''"
  have fin: "?thesis" if "Writeback ps d rName sz = (case fs_Rename (cc_files d1) ?up ?ca of (err, fs) \<Rightarrow>
       (if err = None \<or> IsNotExist err then None else Some ''rename'', set_files fs d1))"
    and same: "cc_files d1 = cc_files d" "same_but {} d d1"
    and st: "\<forall>k. k \<noteq> ?key \<longrightarrow> stored d1 k = stored d k"
      "sz > 0 \<and> cc_PermanentStorage d \<noteq> None \<longrightarrow> stored d1 ?key = Some (f_Data f)" for d1
  proof -
    obtain er fs where rn: "fs_Rename (cc_files d1) ?up ?ca = (er, fs)"
      by (cases "fs_Rename (cc_files d1) ?up ?ca")
    have d': "d' = set_files fs d1" "err = (if er = None \<or> IsNotExist er then None else Some ''rename'')"
      using that(1) assms(1) by (auto simp: rn)
    have "\<not> IsNotExist er"
      using fs_Rename_cases [OF rn] same(1) assms(2) by (auto simp: IsNotExist_def split: if_splits)
    moreover have "?up \<noteq> ?ca" by simp
    ultimately show ?thesis
      using fs_Rename_cases [OF rn] same st assms(2) d' by (auto simp: same_but_def split: if_splits)
  qed
  show ?thesis
  proof (cases "fs_Fault (cc_files d) OpOpen ?up")
    case True
    then have "d' = d" "err = Some ''open''"
      using assms by (auto simp: Writeback_def Let_def fs_Open_def fs_err_of_def IsNotExist_def)
    then show ?thesis by simp
  next
    case False
    then have opn: "fs_Open (cc_files d) ?up = (Some f, None)"
      using assms(2) by (simp add: fs_Open_def fs_err_of_def)
    show ?thesis
    proof (cases "sz > 0 \<and> cc_PermanentStorage d \<noteq> None")
      case no_upload: False
      show ?thesis
        by (rule fin [of d]) (use no_upload in \<open>auto simp: Writeback_def Let_def opn split: option.splits\<close>)
    next
      case upload: True
      then obtain st where st: "cc_PermanentStorage d = Some st" by auto
      obtain e st' where up: "ps_Upload ps st ?key (bytes_reader (f_Data f)) = (e, st')"
        by (cases "ps_Upload ps st ?key (bytes_reader (f_Data f))")
      note other = upload_other [OF mem_clean_bytes_reader up]
      show ?thesis
      proof (cases e)
        case (Some x)
        then have "d' = d\<lparr>cc_PermanentStorage := Some st'\<rparr>" "err = Some x"
          using assms(1) upload by (auto simp: Writeback_def Let_def opn st up)
        then show ?thesis
          using other by (auto simp: same_but_def stored_def st)
      next
        case None
        show ?thesis
          by (rule fin [of "d\<lparr>cc_PermanentStorage := Some st'\<rparr>"])
            (use upload_ok [OF mem_clean_bytes_reader, of st ?key "f_Data f" st'] other up None upload in
              \<open>auto simp: Writeback_def Let_def opn st same_but_def stored_def\<close>)
      qed
    qed
  qed
qed

end

lemma local_Upload_ok:
  "ls_Room st = None \<Longrightarrow> \<not> ls_Fault st OpCreate key \<Longrightarrow> mem_clean r \<Longrightarrow>
     local_Upload st key r = (None, st\<lparr>ls_Files := (ls_Files st)(key \<mapsto> mem_content r)\<rparr>)"
  using mem_src.copy_all [of r 32768 "\<lparr>w_out = [], w_cap = None\<rparr>" 0] by (auto simp: local_Upload_def)

subsection \<open>A sample cache\<close>

definition sample_fs :: "(string \<times> bytes) list \<Rightarrow> FileSystem" where
  "sample_fs fs = \<lparr>fs_Files = (\<lambda>n. map_option (\<lambda>b. \<lparr>f_Data = b, f_Mtime = 0\<rparr>) (map_of fs n)),
     fs_Fault = (\<lambda>opr n. False), fs_Now = 0\<rparr>"

definition sample_store :: "(string \<times> bytes) list \<Rightarrow> PermanentStorageLocalData" where
  "sample_store fs = \<lparr>ls_Files = map_of fs, ls_Fault = (\<lambda>opr n. False), ls_Room = None\<rparr>"

definition sample_cache :: "(string \<times> bytes) list \<Rightarrow> (string \<times> bytes) list
    \<Rightarrow> PermanentStorageLocalData CiphertextCacheData" where
  "sample_cache fs st = \<lparr>cc_ChunkSize = 16777216, cc_files = sample_fs fs,
     cc_PermanentStorage = Some (sample_store st), cc_CacheLocationString = ''p'',
     cc_lowThresholdPercent = 1 / 2, cc_ageEligibleForEviction = 300, cc_highThresholdPercent = 3 / 4,
     cc_fileLimit = 0, cc_MasterKey = ''k''\<rparr>"

definition sample_peers :: "bool \<Rightarrow> peer_maps" where
  "sample_peers enabled = \<lparr>pe_Enabled = enabled, pe_MyIP = ''me'', pe_peerMap = [], pe_connectionMap = (\<lambda>k. False)\<rparr>"

definition no_network :: network where
  "no_network = \<lparr>net_dial = (\<lambda>p. False), net_ask = (\<lambda>p u r. None)\<rparr>"

lemma sample_cache_simps [simp]:
  "cc_files (sample_cache fs st) = sample_fs fs" "cc_PermanentStorage (sample_cache fs st) = Some (sample_store st)"
  "cc_CacheLocationString (sample_cache fs st) = ''p''" "cc_MasterKey (sample_cache fs st) = ''k''"
  "fs_Fault (sample_fs fs) opr n = False" "fs_Now (sample_fs fs) = 0"
  "fs_Files (sample_fs fs) n = map_option (\<lambda>b. \<lparr>f_Data = b, f_Mtime = 0\<rparr>) (map_of fs n)"
  "ls_Files (sample_store st) = map_of st" "ls_Fault (sample_store st) opr n = False" "ls_Room (sample_store st) = None"
  by (simp_all add: sample_cache_def sample_fs_def sample_store_def)

lemma sample_Resolve [simp]: "Resolve (sample_cache fs st) n = (if n = [] then ''p'' else ''p/'' @ n)"
  by (simp add: Resolve_def)

subsection \<open>Properties\<close>



text \<open>With peers enabled, a ciphertext that neither permanent storage nor a peer has is nevertheless
  published as cached, empty: \<open>Recache\<close> reports success and leaves an empty \<open>.cached\<close> file, because
  the answer of the peers overwrites the error of the download.\<close>

theorem recache_publishes_empty:
  assumes "pe_Enabled pe" and "fst (useP2PFile net zone rName 0 pe) = None" and "rName \<noteq> ''canary''"
    and "cc_PermanentStorage d = Some st" and "ls_Files st (name_in d rName '''') = None"
    and "\<And>opr n. \<not> fs_Fault (cc_files d) opr n"
  shows "\<exists>d' pe'. Recache local_storage net zone rName d pe = (None, d', pe') \<and>
    map_option f_Data (fs_Files (cc_files d') (name_in d rName FileStateCached)) = Some []"
proof -
  let ?cg = "name_in d rName FileStateCaching" and ?ca = "name_in d rName FileStateCached"
  obtain pe' where peers: "useP2PFile net zone rName 0 pe = (None, pe')"
    using assms(2) by (cases "useP2PFile net zone rName 0 pe") auto
  define d1 where "d1 = d\<lparr>cc_files := fs_Write (set_file ?cg (Some \<lparr>f_Data = [], f_Mtime = fs_Now (cc_files d)\<rparr>) (cc_files d)) ?cg [],
    cc_PermanentStorage := Some st\<rparr>"
  have "doDownloadFromPermanentStorage local_storage d ?cg (name_in d rName '''')
      = (Some PermanentStorageNotFoundErrorString, d1)"
    using assms(4-6) by (simp add: doDownloadFromPermanentStorage_def fs_Create_def local_storage_def
        local_Download_def d1_def)
  moreover have "ask_peers net zone rName ?cg PermanentStorageNotFoundErrorString d1 pe = (Inr None, d1, pe')"
    using assms(1,3) by (simp add: ask_peers_def peers d1_def)
  moreover have "retry_download local_storage ?cg (name_in d rName '''') 4 None d1 = (None, d1)"
    by (simp add: numeral_eq_Suc)
  moreover have "recache_rename ?cg ?ca d1 = (None, set_files (set_file ?cg None
      (set_file ?ca (fs_Files (cc_files d1) ?cg) (cc_files d1))) d1)"
    using assms(6) by (simp add: recache_rename_def fs_Rename_def fs_err_of_def d1_def)
  ultimately show ?thesis
    using assms(6) by (simp add: Recache_def Let_def fs_Stat_def recache_body_def fs_Remove_def fs_err_of_def d1_def IsExist_def)
qed

lemma recache_publishes_empty_witness:
  "\<exists>d' pe'. Recache local_storage no_network ''z'' ''a'' (sample_cache [] []) (sample_peers True) = (None, d', pe') \<and>
    map_option f_Data (fs_Files (cc_files d') ''p/a.cached'') = Some []"
  using recache_publishes_empty [of "sample_peers True" no_network "''z''" "''a''" "sample_cache [] []" "sample_store []"]
  by (simp add: sample_peers_def useP2PFile_def NewFileName_def file_states)

text \<open>C24: the check of the master key of a node with permanent storage, no peers and a working cache
  directory, once \<open>Recache\<close> has fetched the canary without an error and the stored canary is not empty:
  the key is accepted exactly when its hash is the stored canary, permanent storage is not touched,
  and after a mismatch the cached copy is gone. The conditions are needed: a canary that could not be
  fetched, or an empty one, is taken for a missing one, so any key is accepted and its hash replaces what
  was stored (\<open>canary_overwritten\<close> below).\<close>

theorem master_key_check:
  assumes "permanent_storage ps view" and "\<not> pe_Enabled pe" and "cc_PermanentStorage d = Some st"
    and "\<And>opr n. \<not> fs_Fault (cc_files d) opr n"
    and "Recache ps net zone ''canary'' d pe = (None, d1, pe1)"
    and "view st (name_in d ''canary'' '''') \<noteq> Some []"
    and "masterKeyCheck sha ps net zone d pe = (err, d', pe')"
  shows "(err = None \<longleftrightarrow>
      view st (name_in d ''canary'' '''') = Some (str_bytes (hex_encode (Sum256 sha (str_bytes (cc_MasterKey d)))))) \<and>
    cc_PermanentStorage d' = cc_PermanentStorage d1 \<and>
    (err \<noteq> None \<longrightarrow> fs_Files (cc_files d') (name_in d ''canary'' FileStateCached) = None)"
proof -
  have "permanent_storage.stored view d (name_in d ''canary'' '''') = view st (name_in d ''canary'' '''')"
    by (simp add: permanent_storage.stored_def [OF assms(1)] assms(3))
  then obtain f where f: "fs_Files (cc_files d1) (name_in d ''canary'' FileStateCached) = Some f"
    "view st (name_in d ''canary'' '''') = Some (f_Data f)" and same: "same_but
      {name_in d ''canary'' FileStateCached, name_in d ''canary'' FileStateCaching} d d1"
    using permanent_storage.Recache_spec [OF assms(1,5,2)] assms(4) by auto
  have res: "Resolve d1 = Resolve d" and ft: "\<And>opr n. \<not> fs_Fault (cc_files d1) opr n"
    using same assms(4) same_but_Resolve [OF same] by (simp_all add: same_but_def)
  have have_: "haveCanary ps net zone ''canary'' d pe = (f_Data f, None, d1, pe1)"
    using f(1) ft by (simp add: haveCanary_def assms(5) Let_def res fs_Stat_def fs_Open_def fs_err_of_def)
  show ?thesis
    using assms(6,7) f ft
    by (auto simp: masterKeyCheck_def Let_def have_ res fs_Remove_def fs_err_of_def split: if_splits)
qed

lemma master_key_check_witness:
  "\<exists>d' pe'. masterKeyCheck (\<lambda>m. m) local_storage no_network ''z'' (sample_cache [] [(''p/canary'', [1])]) (sample_peers False)
     = (Some ''ciphertextcache canary mismatch'', d', pe') \<and> fs_Files (cc_files d') ''p/canary.cached'' = None"
proof -
  let ?d = "sample_cache [] [(''p/canary'', [1])]" and ?pe = "sample_peers False"
  obtain e d1 pe1 where r: "Recache local_storage no_network ''z'' ''canary'' ?d ?pe = (e, d1, pe1)"
    by (metis prod_cases3)
  have "fst (Recache local_storage no_network ''z'' ''canary'' ?d ?pe) = None"
    by code_simp
  then have e: "e = None" using r by simp
  obtain err d' pe' where c: "masterKeyCheck (\<lambda>m. m) local_storage no_network ''z'' ?d ?pe = (err, d', pe')"
    by (metis prod_cases3)
  have "fst (masterKeyCheck (\<lambda>m. m) local_storage no_network ''z'' ?d ?pe) = Some ''ciphertextcache canary mismatch''"
    by code_simp
  then have "err = Some ''ciphertextcache canary mismatch''" using c by simp
  then show ?thesis
    using master_key_check [OF local_ps.permanent_storage_axioms, of ?pe ?d "sample_store [(''p/canary'', [1])]", OF _ _ _ r [unfolded e] _ c]
      c by (simp add: sample_peers_def NewFileName_def file_states)
qed

text \<open>When the canary cannot be fetched for any reason, as when storage is unreachable for a moment,
  the check passes and the stored canary, whatever it was, is replaced by the hash of this node's key.\<close>

theorem canary_overwritten:
  assumes "Recache local_storage net zone ''canary'' d pe = (Some e, d1, pe1)"
    and "cc_PermanentStorage d1 = Some st1" and "ls_Room st1 = None"
    and "\<And>opr n. \<not> fs_Fault (cc_files d1) opr n" and "\<not> ls_Fault st1 OpCreate (name_in d1 ''canary'' '''')"
  shows "\<exists>d' st'. masterKeyCheck sha local_storage net zone d pe = (None, d', pe1) \<and>
    cc_PermanentStorage d' = Some st' \<and> ls_Files st' (name_in d1 ''canary'' '''')
      = Some (str_bytes (hex_encode (Sum256 sha (str_bytes (cc_MasterKey d)))))"
proof -
  have have_: "\<exists>m. haveCanary local_storage net zone ''canary'' d pe = ([], Some m, d1, pe1)"
    by (simp add: haveCanary_def assms(1))
  let ?ex = "str_bytes (hex_encode (Sum256 sha (str_bytes (cc_MasterKey d))))"
  have len: "0 < length ?ex"
    by (simp add: str_bytes_def)
  have up: "local_Upload st1 (name_in d1 ''canary'' []) (bytes_reader ?ex) =
    (None, st1\<lparr>ls_Files := (ls_Files st1)(name_in d1 ''canary'' [] \<mapsto> ?ex)\<rparr>)"
    using local_Upload_ok [OF assms(3,5), of "bytes_reader ?ex"] by simp
  have "\<exists>d'. expectCanary local_storage ''canary'' ?ex d1 = (None, d') \<and>
    cc_PermanentStorage d' = Some (st1\<lparr>ls_Files := (ls_Files st1)(name_in d1 ''canary'' [] \<mapsto> ?ex)\<rparr>)"
    using assms(2,4) len by (simp add: expectCanary_def Let_def fs_Create_def Writeback_def fs_Open_def fs_err_of_def
        local_storage_def up fs_Rename_def)
  then show ?thesis
    using have_ by (auto simp: masterKeyCheck_def Let_def)
qed

lemma canary_overwritten_witness:
  "\<exists>d' st' pe'. masterKeyCheck (\<lambda>m. m) local_storage no_network ''z'' (sample_cache [] []) (sample_peers False) = (None, d', pe') \<and>
    cc_PermanentStorage d' = Some st' \<and> ls_Files st' ''p/canary'' = Some (str_bytes (hex_encode (Sum256 (\<lambda>m. m) (str_bytes ''k''))))"
proof -
  let ?d = "sample_cache [] []" and ?pe = "sample_peers False" and ?e = "Some PermanentStorageNotFoundErrorString"
  let ?r = "Recache local_storage no_network ''z'' ''canary'' ?d ?pe"
  have r: "doDownloadFromPermanentStorage local_storage ?d ''p/canary.caching'' ''p/canary'' = (?e,
      ?d\<lparr>cc_files := fs_Write (set_file ''p/canary.caching'' (Some \<lparr>f_Data = [], f_Mtime = 0\<rparr>) (sample_fs [])) ''p/canary.caching'' [],
        cc_PermanentStorage := Some (sample_store [])\<rparr>)"
    by (simp add: doDownloadFromPermanentStorage_def fs_Create_def local_storage_def local_Download_def)
  obtain e d1 pe1 where q: "?r = (e, d1, pe1)"
    by (metis prod_cases3)
  have "e = ?e" "cc_PermanentStorage d1 = Some (sample_store [])" "\<And>opr n. \<not> fs_Fault (cc_files d1) opr n"
    using q by (auto simp: Recache_def Let_def fs_Stat_def recache_body_def NewFileName_def file_states r ask_peers_def
        fs_Remove_def fs_err_of_def IsExist_def)
  moreover have "Resolve d1 = Resolve ?d"
    using local_ps.Recache_spec [OF q] same_but_Resolve by (auto simp: sample_peers_def)
  ultimately show ?thesis
    using canary_overwritten [of no_network "''z''" ?d ?pe PermanentStorageNotFoundErrorString d1 pe1 "sample_store []" "\<lambda>m. m"] q
    by (auto simp: NewFileName_def)
qed

end
