(* ===== verification/Puller.thy ===== *)
theory Puller
  imports Ciphertext_Cache
begin

text \<open>
  \<open>ciphertext/puller.go\<close>: a reader that gets a ciphertext chunk by chunk from the local disk, a peer or
  permanent storage. Where a chunk comes from is the record \<open>pull_sources\<close> over a state \<open>'w\<close> of the
  world, so a file may move between two chunks; \<open>cache_sources\<close> are those of the cache's own state.
  The file positions are far below \<open>2^63\<close> and do not wrap. Reading from a nil file, which panics in
  Go, is delivered as an error here. Sleeping is counted in seconds.

  The locale \<open>ciphertext_sources\<close> says what the reader needs of its sources; under it the puller is
  again a \<open>byte_source\<close>, whose content is the rest of the ciphertext. \<open>S3_GetStream\<close> is the range request of s3.go
  over the SDK's call.
\<close>

datatype pull_from = pullFromUnknown | pullFromDisk | pullFromStorage | pullFromPeer

record ('w, 's) pull_sources =
  src_local :: "'w \<Rightarrow> int \<Rightarrow> 's option \<times> 'w"
  src_peer :: "'w \<Rightarrow> int \<Rightarrow> 's option \<times> 'w"
  src_has_store :: "'w \<Rightarrow> bool"
  src_store :: "'w \<Rightarrow> int \<Rightarrow> int \<Rightarrow> (string + 's option) \<times> 'w"

record ('w, 's) Puller =
  pu_World :: 'w
  pu_TotalLen :: int
  pu_CipherStart :: int
  pu_CipherStop :: int
  pu_File :: "'s option"
  pu_Remaining :: int
  pu_ChunkSize :: int
  pu_Index :: int
  pu_IsLocal :: bool
  pu_IsP2P :: bool
  pu_From :: pull_from

definition getFileHandle :: "('w, 's) pull_sources \<Rightarrow> ('w, 's) Puller \<Rightarrow> int \<Rightarrow> int \<Rightarrow> bool
    \<Rightarrow> ('s option \<times> go_err option) \<times> ('w, 's) Puller" where
  "getFileHandle src p start stop p2p = (case src_local src (pu_World p) start of
     (Some f, w) \<Rightarrow> ((Some f, None), p\<lparr>pu_World := w, pu_IsLocal := True, pu_From := pullFromDisk\<rparr>)
   | (None, w) \<Rightarrow>
      (case (if p2p \<or> pu_IsP2P p \<or> \<not> src_has_store src w then src_peer src w start else (None, w)) of
         (Some f, w') \<Rightarrow> ((Some f, None), p\<lparr>pu_World := w', pu_IsLocal := False, pu_IsP2P := True, pu_From := pullFromPeer\<rparr>)
       | (None, w') \<Rightarrow>
          (if \<not> src_has_store src w' then
             ((None, Some (Err ''puller did not use p2p and we have no PermanentStorage'')),
              p\<lparr>pu_World := w', pu_IsLocal := False\<rparr>)
           else (case src_store src w' start stop of
               (Inr (Some f), w'') \<Rightarrow> ((Some f, None), p\<lparr>pu_World := w'', pu_IsLocal := False, pu_From := pullFromStorage\<rparr>)
             | (Inr None, w'') \<Rightarrow> ((None, None), p\<lparr>pu_World := w'', pu_IsLocal := False, pu_From := pullFromUnknown\<rparr>)
             | (Inl e, w'') \<Rightarrow> ((None, Some (Err e)), p\<lparr>pu_World := w'', pu_IsLocal := False, pu_From := pullFromUnknown\<rparr>)))))"

definition chunk_len :: "('w, 's) Puller \<Rightarrow> int \<Rightarrow> int" where
  "chunk_len p c = (if pu_Index p + c < pu_TotalLen p then c else pu_TotalLen p - pu_Index p)"

definition chunk_end :: "('w, 's) Puller \<Rightarrow> int" where
  "chunk_end p = (if pu_Index p + pu_ChunkSize p < pu_TotalLen p then pu_Index p + pu_ChunkSize p - 1 else - 1)"

definition More :: "('w, 's) pull_sources \<Rightarrow> bool \<Rightarrow> ('w, 's) Puller \<Rightarrow> go_err option \<times> ('w, 's) Puller" where
  "More src useP2P p =
     (if pu_Index p = pu_TotalLen p then (Some EOF, p)
      else (case getFileHandle src p (pu_Index p) (chunk_end p) useP2P of
        ((f, err), p') \<Rightarrow>
          (let cLength = chunk_len p' (if pu_From p' \<noteq> pullFromStorage then 1073741824 else pu_ChunkSize p') in
           if err \<noteq> None then (err, p') else (None, p'\<lparr>pu_File := f, pu_Remaining := cLength\<rparr>))))"

definition puller_Read :: "'s read_fn \<Rightarrow> ('w, 's) pull_sources \<Rightarrow> ('w, 's) Puller read_fn" where
  "puller_Read rd src p k =
     (case (if pu_Remaining p > 0 then
              (case pu_File p of
                 None \<Rightarrow> ([], Some (Err ''nil pointer''), p)
               | Some f \<Rightarrow> (case rd f k of (b, e, f') \<Rightarrow>
                   (b, e, p\<lparr>pu_File := Some f', pu_Remaining := pu_Remaining p - int (length b),
                            pu_Index := pu_Index p + int (length b)\<rparr>)))
            else ([], None, p)) of
        (b, e, p1) \<Rightarrow> if pu_Remaining p1 = 0 then (case More src False p1 of (e', p2) \<Rightarrow> (b, e', p2)) else (b, e, p1))"

text \<open>The attempts left, the time last slept, the time slept in all.\<close>

fun pull_attempts :: "('w, 's) pull_sources \<Rightarrow> nat \<Rightarrow> nat \<Rightarrow> nat \<Rightarrow> go_err option \<Rightarrow> ('w, 's) Puller
    \<Rightarrow> go_err option \<times> ('w, 's) Puller \<times> nat" where
  "pull_attempts src 0 sleepTime slept err p = (err, p, slept)"
| "pull_attempts src (Suc attempts) sleepTime slept err p =
     (if err = None \<or> \<not> src_has_store src (pu_World p) then (err, p, slept)
      else (case More src False p of
          (None, p') \<Rightarrow> (None, p', slept)
        | (Some e, p') \<Rightarrow> if attempts = 0 then (Some e, p', slept)
            else pull_attempts src attempts (sleepTime + sleepTime) (slept + (sleepTime + sleepTime)) (Some e) p'))"

definition new_puller :: "'w \<Rightarrow> int \<Rightarrow> int \<Rightarrow> int \<Rightarrow> int \<Rightarrow> ('w, 's) Puller" where
  "new_puller w chunkSize totalLength cipherStartAt cipherStopAt =
     \<lparr>pu_World = w, pu_TotalLen = totalLength, pu_CipherStart = cipherStartAt, pu_CipherStop = cipherStopAt,
      pu_File = None, pu_Remaining = 0, pu_ChunkSize = chunkSize, pu_Index = cipherStartAt,
      pu_IsLocal = False, pu_IsP2P = False, pu_From = pullFromUnknown\<rparr>"

text \<open>The error, the puller (nil in the code when there is an error) and the seconds slept.\<close>

definition NewPuller :: "('w, 's) pull_sources \<Rightarrow> bool \<Rightarrow> 'w \<Rightarrow> int \<Rightarrow> int \<Rightarrow> int \<Rightarrow> int
    \<Rightarrow> go_err option \<times> ('w, 's) Puller \<times> nat" where
  "NewPuller src peer_enabled w chunkSize totalLength cipherStartAt cipherStopAt =
     (case More src False (new_puller w chunkSize totalLength cipherStartAt cipherStopAt) of
        (None, p) \<Rightarrow> pull_attempts src 20 1 0 None p
      | (Some e, p) \<Rightarrow>
          (case (if peer_enabled then More src True p else (Some e, p)) of
             (err, p') \<Rightarrow> pull_attempts src 20 1 0 err p'))"

subsection \<open>The sources of the cache\<close>

text \<open>The world is the cache and the peers known.\<close>

definition cache_sources :: "'st storage_ops \<Rightarrow> network \<Rightarrow> string \<Rightarrow> string
    \<Rightarrow> ('st CiphertextCacheData \<times> peer_maps, mem_reader) pull_sources" where
  "cache_sources ps net zone rName =
     \<lparr>src_local = (\<lambda>(d, pe) start. case UseLocalFile d rName start of ((f, _, _), d') \<Rightarrow> (f, (d', pe))),
      src_peer = (\<lambda>(d, pe) start. case useP2PFile net zone rName start pe of (f, pe') \<Rightarrow> (f, (d, pe'))),
      src_has_store = (\<lambda>(d, pe). cc_PermanentStorage d \<noteq> None),
      src_store = (\<lambda>(d, pe) start stop. case cc_PermanentStorage d of
          None \<Rightarrow> (Inr None, (d, pe))
        | Some st \<Rightarrow> (case ps_GetStream ps st (name_in d rName '''') start stop of
            (r, st') \<Rightarrow> (r, (d\<lparr>cc_PermanentStorage := Some st'\<rparr>, pe))))\<rparr>"

subsection \<open>A puller whose remainder is negative never ends\<close>

lemma puller_negative: "pu_Remaining p < 0 \<Longrightarrow> puller_Read rd src p k = ([], None, p)"
  by (simp add: puller_Read_def)

lemma io_copy_stuck:
  fixes rd :: "'s read_fn"
  assumes "rd s bs = ([], None, s)"
  shows "io_copy rd bs s w n = None"
proof (rule ccontr)
  assume "io_copy rd bs s w n \<noteq> None"
  then obtain r where r: "io_copy rd bs s w n = Some r" by auto
  have "rd s bs = ([], None, s) \<longrightarrow> False"
  proof (rule io_copy.raw_induct [OF _ r])
    fix rec :: "'s read_fn \<Rightarrow> nat \<Rightarrow> 's \<Rightarrow> writer \<Rightarrow> int \<Rightarrow> (int \<times> go_err option \<times> 's \<times> writer) option"
      and rd :: "'s read_fn" and bs s w n r
    assume IH: "\<And>rd bs s w n r. rec rd bs s w n = Some r \<Longrightarrow> rd s bs = ([], None, s) \<longrightarrow> False"
      and step: "(case rd s bs of (b, er, s') \<Rightarrow>
       (case (if b = [] then (0, None, w) else writer_write w b) of (nw, ew, w') \<Rightarrow>
        (if ew \<noteq> None then Some (n + int nw, ew, s', w')
         else (case er of
             None \<Rightarrow> rec rd bs s' w' (n + int nw)
           | Some e \<Rightarrow> Some (n + int nw, if e = EOF then None else Some e, s', w'))))) = Some r"
    show "rd s bs = ([], None, s) \<longrightarrow> False"
    proof
      assume stuck: "rd s bs = ([], None, s)"
      then have "rec rd bs s w n = Some r"
        using step by simp
      then show False
        using IH stuck by blast
    qed
  qed
  then show False using assms by blast
qed

lemma limited_stuck:
  "rd s k = ([], None, s) \<Longrightarrow> (\<And>j. 0 < j \<Longrightarrow> j \<le> k \<Longrightarrow> rd s j = ([], None, s)) \<Longrightarrow> 0 < N \<Longrightarrow>
     limited_read rd (s, N) k = ([], None, (s, N))"
  by (auto simp: limited_read_def)

lemma pull_attempts_stall:
  assumes "pu_Index p = pu_TotalLen p" and "src_has_store src (pu_World p)"
  shows "pull_attempts src (Suc n) t slept (Some e) p = (Some EOF, p, slept + t * (2 ^ Suc n - 2))"
proof (induction n arbitrary: t slept e)
  case 0
  then show ?case
    using assms by (simp add: More_def)
next
  case (Suc n)
  obtain m where "2 ^ Suc n = m + (2::nat)"
    using le_Suc_ex [of 2 "2 ^ Suc n"] by (auto simp: add.commute)
  then have "slept + (t + t) + (t + t) * (2 ^ Suc n - 2) = slept + t * (2 ^ Suc (Suc n) - 2)"
    by (simp add: algebra_simps)
  then show ?case
    using assms Suc [of "t + t" "slept + (t + t)" EOF] by (simp add: More_def)
qed

subsection \<open>What the puller needs of its sources\<close>

locale ciphertext_sources = byte_source rd ok data left
  for rd :: "'s read_fn" and ok :: "'s \<Rightarrow> bool" and data :: "'s \<Rightarrow> bytes" and left :: "'s \<Rightarrow> nat" +
  fixes src :: "('w, 's) pull_sources" and ct :: bytes and chunk :: int and okw :: "'w \<Rightarrow> bool" and bound :: nat
  assumes chunk_pos: "okw w \<Longrightarrow> 0 < chunk"
    and local_some: "okw w \<Longrightarrow> 0 \<le> i \<Longrightarrow> src_local src w i = (Some f, w') \<Longrightarrow>
      okw w' \<and> ok f \<and> data f = drop (nat i) ct \<and> length (data f) \<le> 1073741824 \<and> left f \<le> bound"
    and local_none: "okw w \<Longrightarrow> 0 \<le> i \<Longrightarrow> src_local src w i = (None, w') \<Longrightarrow> okw w'"
    and has_store: "okw w \<Longrightarrow> src_has_store src w"
    and store_some: "okw w \<Longrightarrow> 0 \<le> i \<Longrightarrow> i < int (length ct) \<Longrightarrow>
      \<exists>f w'. src_store src w i (if i + chunk < int (length ct) then i + chunk - 1 else - 1) = (Inr (Some f), w') \<and>
        okw w' \<and> ok f \<and> data f = take (nat chunk) (drop (nat i) ct) \<and> left f \<le> bound"
begin

definition pulling :: "('w, 's) Puller \<Rightarrow> bool" where
  "pulling p \<longleftrightarrow> okw (pu_World p) \<and> pu_TotalLen p = int (length ct) \<and> pu_ChunkSize p = chunk \<and> \<not> pu_IsP2P p \<and>
     0 \<le> pu_Index p \<and> pu_Index p \<le> int (length ct)"

definition pull_inv :: "('w, 's) Puller \<Rightarrow> bool" where
  "pull_inv p \<longleftrightarrow> pulling p \<and> 0 \<le> pu_Remaining p \<and>
     (if pu_Remaining p = 0 then pu_Index p = int (length ct)
      else \<exists>f. pu_File p = Some f \<and> ok f \<and> left f \<le> bound \<and>
        pu_Index p + pu_Remaining p \<le> int (length ct) \<and>
        data f = take (nat (pu_Remaining p)) (drop (nat (pu_Index p)) ct))"

definition pull_data :: "('w, 's) Puller \<Rightarrow> bytes" where
  "pull_data p = drop (nat (pu_Index p)) ct"

definition pull_left :: "('w, 's) Puller \<Rightarrow> nat" where
  "pull_left p = (if pu_Remaining p = 0 then 0
     else nat (int (length ct) - pu_Index p - pu_Remaining p) * (bound + 2) + (case pu_File p of None \<Rightarrow> 0 | Some f \<Rightarrow> left f) + 1)"

lemma More_ok:
  assumes "pulling p" and "pu_Index p < int (length ct)"
  shows "\<exists>p'. More src False p = (None, p') \<and> pull_inv p' \<and> pu_Index p' = pu_Index p \<and> 0 < pu_Remaining p'"
proof -
  have w: "okw (pu_World p)" "0 \<le> pu_Index p" "pu_ChunkSize p = chunk" "pu_TotalLen p = int (length ct)" "\<not> pu_IsP2P p"
    using assms(1) by (auto simp: pulling_def)
  note pos = chunk_pos [OF w(1)]
  show ?thesis
  proof (cases "src_local src (pu_World p) (pu_Index p)")
    case (Pair r w1)
    show ?thesis
    proof (cases r)
      case (Some f)
      note l = local_some [OF w(1,2) Pair [unfolded Some]]
      then have "length ct - nat (pu_Index p) \<le> 1073741824"
        by auto
      then have "int (length ct) - pu_Index p \<le> 1073741824"
        using w(2) by arith
      then show ?thesis
        using assms(2) w l Pair Some
        by (auto simp: More_def getFileHandle_def Let_def chunk_len_def pull_inv_def pulling_def)
    next
      case None
      note n = local_none [OF w(1,2) Pair [unfolded None]]
      have ce: "chunk_end p = (if pu_Index p + chunk < int (length ct) then pu_Index p + chunk - 1 else - 1)"
        using w by (simp add: chunk_end_def)
      obtain f w2 where s: "src_store src w1 (pu_Index p) (chunk_end p) = (Inr (Some f), w2)"
        and f: "okw w2" "ok f" "data f = take (nat chunk) (drop (nat (pu_Index p)) ct)" "left f \<le> bound"
        using store_some [OF n w(2) assms(2)] unfolding ce by blast
      define cl where "cl = (if pu_Index p + chunk < int (length ct) then chunk else int (length ct) - pu_Index p)"
      have "More src False p = (None, p\<lparr>pu_World := w2, pu_IsLocal := False, pu_From := pullFromStorage,
          pu_File := Some f, pu_Remaining := cl\<rparr>)"
        using assms(2) w None Pair s has_store [OF n]
        by (simp add: More_def getFileHandle_def Let_def chunk_len_def cl_def)
      moreover have "take (nat chunk) (drop (nat (pu_Index p)) ct) = take (nat cl) (drop (nat (pu_Index p)) ct)"
        using w(2) assms(2) by (auto simp: cl_def)
      ultimately show ?thesis
        using assms(2) w f pos by (auto simp: pull_inv_def pulling_def cl_def)
    qed
  qed
qed

lemma pull_step:
  assumes inv: "pull_inv p" and k: "0 < k" and r: "puller_Read rd src p k = (b, e, p')"
  shows "pull_inv p' \<and> length b \<le> k \<and> pull_data p = b @ pull_data p' \<and>
    (e = None \<and> pull_left p' < pull_left p \<or> e = Some EOF \<and> pull_data p' = [])"
proof (cases "pu_Remaining p = 0")
  case True
  then show ?thesis
    using inv r by (auto simp: puller_Read_def More_def pull_inv_def pulling_def pull_data_def)
next
  case False
  then obtain f where f: "pu_File p = Some f" "ok f" "left f \<le> bound" "0 < pu_Remaining p"
      "pu_Index p + pu_Remaining p \<le> int (length ct)"
      "data f = take (nat (pu_Remaining p)) (drop (nat (pu_Index p)) ct)" "0 \<le> pu_Index p" and pl: "pulling p"
    using inv by (auto simp: pull_inv_def pulling_def)
  obtain b1 e1 f1 where rdf: "rd f k = (b1, e1, f1)"
    by (metis prod_cases3)
  note step = rd_step [OF f(2) k rdf]
  have len: "length (data f) = nat (pu_Remaining p)"
    using f by auto
  have "length (data f) = length b1 + length (data f1)"
    using step by simp
  then have lb: "int (length b1) \<le> pu_Remaining p" "length (data f1) = nat (pu_Remaining p) - length b1"
    using len f(4) by arith+
  let ?p1 = "p\<lparr>pu_File := Some f1, pu_Remaining := pu_Remaining p - int (length b1), pu_Index := pu_Index p + int (length b1)\<rparr>"
  have pre: "take (nat (pu_Remaining p)) (drop (nat (pu_Index p)) ct) = b1 @ data f1"
    using step f(6) by simp
  have d1: "drop (nat (pu_Index p)) ct = b1 @ drop (nat (pu_Index p + int (length b1))) ct"
  proof -
    have "take (length b1) (drop (nat (pu_Index p)) ct) = b1"
    proof -
      have "length b1 \<le> nat (pu_Remaining p)" using lb(1) by arith
      then show ?thesis
        using arg_cong [OF pre, of "take (length b1)"] by (simp add: min_def)
    qed
    moreover have "drop (length b1) (drop (nat (pu_Index p)) ct) = drop (nat (pu_Index p + int (length b1))) ct"
      using f(7) by (simp add: nat_add_distrib add.commute)
    ultimately show ?thesis
      by (metis append_take_drop_id)
  qed
  have d2: "data f1 = take (nat (pu_Remaining p - int (length b1))) (drop (nat (pu_Index p + int (length b1))) ct)"
    using pre lb(1) f(4) unfolding d1 by (simp add: nat_diff_distrib)
  have pl1: "pulling ?p1"
    using pl lb(1) f(5) by (auto simp: pulling_def)
  show ?thesis
  proof (cases "pu_Remaining p = int (length b1)")
    case False
    have rest: "b = b1" "e = e1" "p' = ?p1"
      using r False f(1,4) rdf by (auto simp: puller_Read_def split: if_splits)
    have "data f1 \<noteq> []"
      using lb False by auto
    then have e1: "e1 = None" "left f1 < left f"
      using step by auto
    have "pull_inv ?p1"
      using pl1 f step lb False d2 e1 by (auto simp: pull_inv_def)
    moreover have "pull_left ?p1 < pull_left p"
      using False \<open>pu_Remaining p \<noteq> 0\<close> e1(2) f(1) by (simp add: pull_left_def algebra_simps)
    ultimately show ?thesis
      using rest step d1 e1 by (simp add: pull_data_def)
  next
    case True
    have more: "puller_Read rd src p k = (case More src False ?p1 of (e', p2) \<Rightarrow> (b1, e', p2))"
      using True f(1,4) rdf by (simp add: puller_Read_def)
    show ?thesis
    proof (cases "pu_Index ?p1 = int (length ct)")
      case end_: True
      then have "More src False ?p1 = (Some EOF, ?p1)"
        using pl by (simp add: More_def pulling_def)
      then have "b = b1" "e = Some EOF" "p' = ?p1"
        using r more by auto
      then show ?thesis
        using pl1 True end_ step d1 by (auto simp: pull_inv_def pull_data_def)
    next
      case not_end: False
      then have "pu_Index ?p1 < int (length ct)"
        using pl1 by (simp add: pulling_def)
      then obtain p2 where p2: "More src False ?p1 = (None, p2)" "pull_inv p2" "pu_Index p2 = pu_Index ?p1" "0 < pu_Remaining p2"
        using More_ok [OF pl1] by blast
      then have eq: "b = b1" "e = None" "p' = p2"
        using r more by auto
      obtain f2 where f2: "pu_File p2 = Some f2" "left f2 \<le> bound" "pu_Index p2 + pu_Remaining p2 \<le> int (length ct)"
        using p2(2,4) by (auto simp: pull_inv_def)
      have "nat (int (length ct) - pu_Index p2 - pu_Remaining p2) + 1 \<le> nat (int (length ct) - pu_Index p - pu_Remaining p)"
        using p2(3,4) True f2(3) by auto
      then have "(nat (int (length ct) - pu_Index p2 - pu_Remaining p2) + 1) * (bound + 2)
          \<le> nat (int (length ct) - pu_Index p - pu_Remaining p) * (bound + 2)"
        by (rule mult_le_mono1)
      then have "pull_left p2 < pull_left p"
        using f2 p2(4) \<open>pu_Remaining p \<noteq> 0\<close> by (simp add: pull_left_def)
      then show ?thesis
        using eq p2(2,3) step d1 by (simp add: pull_data_def)
    qed
  qed
qed

lemma pull_source: "byte_source (puller_Read rd src) pull_inv pull_data pull_left"
  by unfold_locales (use pull_step in blast)

lemma NewPuller_ok:
  assumes "okw w" and "0 \<le> start" and "start < int (length ct)"
  shows "\<exists>p. NewPuller src enabled w chunk (int (length ct)) start stop = (None, p, 0) \<and> pull_inv p \<and>
    pull_data p = drop (nat start) ct"
proof -
  let ?p = "new_puller w chunk (int (length ct)) start stop"
  have "pulling ?p" and s: "pu_Index ?p = start" and "pu_Index ?p < int (length ct)"
    using assms by (simp_all add: pulling_def new_puller_def)
  then obtain p where p: "More src False ?p = (None, p)" "pull_inv p" "pu_Index p = start"
    using More_ok [of ?p] unfolding s by blast
  then have "NewPuller src enabled w chunk (int (length ct)) start stop = (None, p, 0)"
    by (simp add: NewPuller_def numeral_eq_Suc)
  then show ?thesis
    using p by (simp add: pull_data_def)
qed

end

subsection \<open>S3\<close>

text \<open>\<open>GetStream\<close> of s3.go. The call of the AWS SDK is the parameter \<open>get_object\<close>: it is given the key and the
  value of the \<open>Range\<close> header, and gives an error, a nil answer or the body. What the code relies on is
  \<open>serves_ranges\<close>: the object asked for a range that begins inside it gives exactly that range of it, in
  pieces that are not empty.\<close>

definition S3_GetStream :: "('st \<Rightarrow> string \<Rightarrow> string \<Rightarrow> (string + mem_reader option) \<times> 'st)
    \<Rightarrow> 'st \<Rightarrow> string \<Rightarrow> int \<Rightarrow> int \<Rightarrow> (string + mem_reader option) \<times> 'st" where
  "S3_GetStream get_object st key begn stop =
     (let rangeReq = (if begn \<le> stop then ''bytes='' @ fmt_int begn @ ''-'' @ fmt_int stop
                      else ''bytes='' @ fmt_int begn @ ''-'') in
      case get_object st key rangeReq of
        (Inl e, st') \<Rightarrow> (Inl (if contains_str e ''NoSuchKey'' then PermanentStorageNotFoundErrorString else e), st')
      | (Inr out, st') \<Rightarrow> (Inr out, st'))"

definition gives_body :: "('st \<Rightarrow> bool) \<Rightarrow> bytes \<Rightarrow> (string + mem_reader option) \<times> 'st \<Rightarrow> bool" where
  "gives_body held b x \<longleftrightarrow> (\<exists>r st'. x = (Inr (Some r), st') \<and> held st' \<and> mem_clean r \<and> mem_content r = b \<and>
     (\<forall>p \<in> set r. fst p \<noteq> []))"

definition serves_ranges :: "('st \<Rightarrow> string \<Rightarrow> string \<Rightarrow> (string + mem_reader option) \<times> 'st) \<Rightarrow> ('st \<Rightarrow> bool)
    \<Rightarrow> string \<Rightarrow> bytes \<Rightarrow> bool" where
  "serves_ranges get_object held key ct \<longleftrightarrow> (\<forall>st a b. held st \<longrightarrow> a < length ct \<longrightarrow>
     gives_body held (drop a ct) (get_object st key (''bytes='' @ fmt_nat a @ ''-'')) \<and>
     (a \<le> b \<longrightarrow> gives_body held (take (b + 1 - a) (drop a ct)) (get_object st key (''bytes='' @ fmt_nat a @ ''-'' @ fmt_nat b))))"

subsection \<open>The cache is such a source\<close>

text \<open>What the puller asks of permanent storage in the states \<open>held\<close>: each chunk it asks for is given, no less and
  no more. S3 does so whatever the length (\<open>S3_serves\<close>); \<open>PermanentStorageLocalData\<close> ignores the end it is given,
  so it does for a ciphertext that one chunk takes whole (\<open>local_serves\<close>).\<close>

definition serves :: "'st storage_ops \<Rightarrow> ('st \<Rightarrow> bool) \<Rightarrow> string \<Rightarrow> bytes \<Rightarrow> int \<Rightarrow> bool" where
  "serves ps held key ct chunk \<longleftrightarrow> (\<forall>st i. held st \<longrightarrow> 0 \<le> i \<longrightarrow> i < int (length ct) \<longrightarrow>
     gives_body held (take (nat chunk) (drop (nat i) ct))
       (ps_GetStream ps st key i (if i + chunk < int (length ct) then i + chunk - 1 else - 1)))"

definition local_holds :: "string \<Rightarrow> bytes \<Rightarrow> PermanentStorageLocalData \<Rightarrow> bool" where
  "local_holds key ct st \<longleftrightarrow> ls_Files st key = Some ct \<and> \<not> ls_Fault st OpOpen key"

lemma local_serves:
  assumes "int (length ct) \<le> chunk"
  shows "serves local_storage (local_holds key ct) key ct chunk"
proof -
  have "length ct \<le> nat chunk"
    using assms by arith
  then show ?thesis
    by (auto simp: serves_def gives_body_def local_holds_def local_storage_def local_GetStream_def bytes_reader_def
        mem_content_def mem_clean_def)
qed

lemma S3_serves:
  assumes ps: "ps_GetStream ps = S3_GetStream get_object" and ranges: "serves_ranges get_object held key ct" and "0 < chunk"
  shows "serves ps held key ct chunk"
  unfolding serves_def
proof (intro allI impI)
  fix st i
  assume st: "held st" and i: "0 \<le> i" "i < int (length ct)"
  let ?stop = "if i + chunk < int (length ct) then i + chunk - 1 else - 1"
  let ?body = "take (nat chunk) (drop (nat i) ct)"
  have a: "nat i < length ct"
    using i by arith
  define a where "a = nat i"
  have ia: "i = int a" using i by (simp add: a_def)
  show "gives_body held ?body (ps_GetStream ps st key i ?stop)"
  proof (cases "i + chunk < int (length ct)")
    case True
    define b where "b = nat (i + chunk - 1)"
    have b: "i + chunk - 1 = int b" "a \<le> b" "b + 1 - a = nat chunk"
      using i assms(3) by (auto simp: b_def a_def)
    have "gives_body held ?body (get_object st key (''bytes='' @ fmt_nat a @ ''-'' @ fmt_nat b))"
      using ranges st a b(2) unfolding serves_ranges_def b(3) [symmetric] a_def [symmetric] by blast
    then show ?thesis
      using True b(1,2) ia by (auto simp: ps S3_GetStream_def Let_def fmt_int_def gives_body_def)
  next
    case False
    then have "length ct - a \<le> nat chunk"
      using ia assms(3) by arith
    then have "?body = drop a ct"
      by (simp add: a_def)
    moreover have "gives_body held (drop a ct) (get_object st key (''bytes='' @ fmt_nat a @ ''-''))"
      using ranges st a by (auto simp: serves_ranges_def a_def)
    ultimately show ?thesis
      using False i ia by (auto simp: ps S3_GetStream_def Let_def fmt_int_def gives_body_def)
  qed
qed

lemma pieces_length:
  "(\<forall>p \<in> set r. fst p \<noteq> []) \<Longrightarrow> length r \<le> length (mem_content r)"
  by (induction r) (auto simp: mem_content_def simp flip: length_greater_0_conv)

text \<open>What the cache must hold: no other content under the name in a local file, none longer than the gigabyte that
  a chunk of a local file has, and a permanent storage that serves the ciphertext.\<close>

definition only_holds :: "bytes \<Rightarrow> cfile option \<Rightarrow> bool" where
  "only_holds ct f \<longleftrightarrow> f = None \<or> map_option f_Data f = Some ct \<and> length ct \<le> 1073741824"

definition cache_ok :: "'st storage_ops \<Rightarrow> ('st \<Rightarrow> bool) \<Rightarrow> string \<Rightarrow> bytes \<Rightarrow> int
    \<Rightarrow> 'st CiphertextCacheData \<times> peer_maps \<Rightarrow> bool" where
  "cache_ok ps held rName ct chunk w \<longleftrightarrow> (case w of (d, pe) \<Rightarrow>
     0 < chunk \<and> serves ps held (name_in d rName '''') ct chunk \<and>
     only_holds ct (fs_Files (cc_files d) (name_in d rName FileStateUploaded)) \<and>
     only_holds ct (fs_Files (cc_files d) (name_in d rName FileStateCached)) \<and>
     (\<exists>st. cc_PermanentStorage d = Some st \<and> held st))"

lemma only_holds_Chtimes: "only_holds ct (fs_Files (fs_Chtimes fs n) m) = only_holds ct (fs_Files fs m)"
  by (auto simp: only_holds_def fs_Chtimes_def)

lemma fs_Open_cases:
  obtains f where "fs_Open fs n = (Some f, None)" "fs_Files fs n = Some f"
  | e where "fs_Open fs n = (None, Some e)"
  by (cases "fs_Fault fs OpOpen n"; cases "fs_Files fs n") (auto simp: fs_Open_def fs_err_of_def)

lemma UseLocalFile_ok:
  assumes "cache_ok ps held rName ct chunk (d, pe)" and "0 \<le> start" and "UseLocalFile d rName start = ((f, len, e), d')"
  shows "cache_ok ps held rName ct chunk (d', pe) \<and>
    (\<forall>g. f = Some g \<longrightarrow> g = bytes_reader (drop (nat start) ct) \<and> length ct \<le> 1073741824)"
proof -
  let ?up = "name_in d rName FileStateUploaded" and ?ca = "name_in d rName FileStateCached"
  have ch: "cache_ok ps held rName ct chunk (set_files fs d, pe)"
    if "\<And>m. only_holds ct (fs_Files fs m) = only_holds ct (fs_Files (cc_files d) m)" for fs
    using assms(1) that by (auto simp: cache_ok_def)
  have data: "f_Data h = ct \<and> length ct \<le> 1073741824" if "fs_Files (cc_files d) n = Some h" "n = ?up \<or> n = ?ca" for h n
    using assms(1) that by (auto simp: cache_ok_def only_holds_def)
  show ?thesis
  proof (cases rule: fs_Open_cases [of "cc_files d" ?up])
    case (1 h)
    then show ?thesis
      using assms(2,3) data [of ?up h] ch by (auto simp: UseLocalFile_def Let_def only_holds_Chtimes)
  next
    case (2 e1)
    show ?thesis
    proof (cases rule: fs_Open_cases [of "cc_files d" ?ca])
      case (1 h)
      then show ?thesis
        using assms(2,3) 2 data [of ?ca h] ch by (auto simp: UseLocalFile_def Let_def only_holds_Chtimes)
    next
      case (2 e2)
      then show ?thesis
        using assms \<open>fs_Open (cc_files d) ?up = (None, Some e1)\<close> by (auto simp: UseLocalFile_def Let_def)
    qed
  qed
qed

interpretation cache_src: ciphertext_sources mem_read mem_clean mem_content mem_size
  "cache_sources ps net zone rName" ct chunk "cache_ok ps held rName ct chunk" "2 * length ct + 1"
  for ps :: "'st storage_ops" and held net zone rName ct chunk
proof
  fix w w' :: "'st CiphertextCacheData \<times> peer_maps" and i :: int and f
  assume w: "cache_ok ps held rName ct chunk w"
  show "0 < chunk" and "src_has_store (cache_sources ps net zone rName) w"
    using w by (auto simp: cache_ok_def cache_sources_def split: prod.splits)
  assume i: "0 \<le> i"
  obtain d pe where dpe: "w = (d, pe)" by (cases w)
  obtain g len e d' where u: "UseLocalFile d rName i = ((g, len, e), d')"
    by (metis prod_cases3 surj_pair)
  have l: "src_local (cache_sources ps net zone rName) w i = (g, (d', pe))"
    by (simp add: cache_sources_def dpe u)
  note ok = UseLocalFile_ok [OF w [unfolded dpe] i u]
  show "src_local (cache_sources ps net zone rName) w i = (Some f, w') \<Longrightarrow>
      cache_ok ps held rName ct chunk w' \<and> mem_clean f \<and> mem_content f = drop (nat i) ct \<and>
      length (mem_content f) \<le> 1073741824 \<and> mem_size f \<le> 2 * length ct + 1"
    using ok by (auto simp: l mem_size_def bytes_reader_def)
  show "src_local (cache_sources ps net zone rName) w i = (None, w') \<Longrightarrow> cache_ok ps held rName ct chunk w'"
    using ok by (auto simp: l)
  assume ic: "i < int (length ct)"
  let ?stop = "if i + chunk < int (length ct) then i + chunk - 1 else - 1"
  obtain st where st: "cc_PermanentStorage d = Some st" "held st" and sv: "serves ps held (name_in d rName '''') ct chunk"
    using w by (auto simp: cache_ok_def dpe)
  obtain r st' where r: "ps_GetStream ps st (name_in d rName '''') i ?stop = (Inr (Some r), st')" "held st'" "mem_clean r"
    "mem_content r = take (nat chunk) (drop (nat i) ct)" "\<forall>p \<in> set r. fst p \<noteq> []"
    using sv st(2) i ic unfolding serves_def gives_body_def by blast
  have "length (mem_content r) \<le> length ct"
    by (simp add: r(4))
  then have "mem_size r \<le> 2 * length ct + 1"
    using pieces_length [OF r(5)] by (simp add: mem_size_def)
  moreover have "src_store (cache_sources ps net zone rName) w i ?stop
      = (Inr (Some r), (d\<lparr>cc_PermanentStorage := Some st'\<rparr>, pe))"
    using st r(1) by (simp add: cache_sources_def dpe)
  moreover have "cache_ok ps held rName ct chunk (d\<lparr>cc_PermanentStorage := Some st'\<rparr>, pe)"
    using w r(2) by (simp add: cache_ok_def dpe)
  ultimately show "\<exists>f w'. src_store (cache_sources ps net zone rName) w i ?stop = (Inr (Some f), w') \<and>
      cache_ok ps held rName ct chunk w' \<and> mem_clean f \<and> mem_content f = take (nat chunk) (drop (nat i) ct) \<and>
      mem_size f \<le> 2 * length ct + 1"
    using r by blast
qed

subsection \<open>Properties\<close>

text \<open>C10: a puller over the cache, asked to start inside the ciphertext, delivers exactly the ciphertext from
  there, chunk after chunk, wherever each chunk is found and whatever pieces it is read in, and without
  waiting. \<open>cache_ok\<close> is what it needs: a chunk size above zero, no other content under the name in the
  local files and no more than a gigabyte there, and a permanent storage that gives each chunk asked for,
  which is S3 for a ciphertext of any length (\<open>S3_serves\<close>) and local storage for a ciphertext of one
  chunk (\<open>local_serves\<close>); \<open>puller_overshoots\<close> below shows the copy not returning for a longer one.\<close>

theorem puller_delivers:
  assumes "cache_ok ps held rName ct chunk (d, pe)" and "0 \<le> start" and "start < int (length ct)" and "0 < bs"
  shows "\<exists>p s'. NewPuller (cache_sources ps net zone rName) enabled (d, pe) chunk (int (length ct)) start (- 1)
      = (None, p, 0) \<and>
    io_copy (puller_Read mem_read (cache_sources ps net zone rName)) bs p new_writer 0
      = Some (int (length ct) - start, None, s', new_writer\<lparr>w_out := drop (nat start) ct\<rparr>)"
proof -
  let ?src = "cache_sources ps net zone rName"
  obtain p where p: "NewPuller ?src enabled (d, pe) chunk (int (length ct)) start (- 1) = (None, p, 0)"
    "cache_src.pull_inv ct chunk ps held rName p" "cache_src.pull_data ct p = drop (nat start) ct"
    using cache_src.NewPuller_ok [OF assms(1-3)] by blast
  then show ?thesis
    using byte_source.copy_all [OF cache_src.pull_source, of ct chunk ps held rName p bs new_writer net zone 0] assms(2-4)
    by (auto simp: new_writer_def of_nat_diff)
qed

text \<open>An S3 that holds one object: the header is read as the numbers around the hyphen.\<close>

definition sample_get_object :: "bytes \<Rightarrow> unit \<Rightarrow> string \<Rightarrow> string \<Rightarrow> (string + mem_reader option) \<times> unit" where
  "sample_get_object ct st key rng = (let s = drop 6 rng; b = tl (dropWhile (\<lambda>c. c \<noteq> CHR ''-'') s) in
     (case parse_nat (takeWhile (\<lambda>c. c \<noteq> CHR ''-'') s) of
        None \<Rightarrow> Inl ''InvalidRange''
      | Some i \<Rightarrow> Inr (Some (bytes_reader (case parse_nat b of
            None \<Rightarrow> drop i ct | Some j \<Rightarrow> take (j + 1 - i) (drop i ct)))), st))"

definition sample_s3 :: "bytes \<Rightarrow> unit storage_ops" where
  "sample_s3 ct = \<lparr>ps_Upload = (\<lambda>st key r. (None, st)), ps_Download = (\<lambda>st key w. ((ct, None), st)),
     ps_GetStream = S3_GetStream (sample_get_object ct)\<rparr>"

definition sample_s3_cache :: "unit CiphertextCacheData" where
  "sample_s3_cache = \<lparr>cc_ChunkSize = 2, cc_files = sample_fs [], cc_PermanentStorage = Some (), cc_CacheLocationString = ''p'',
     cc_lowThresholdPercent = 1 / 2, cc_ageEligibleForEviction = 300, cc_highThresholdPercent = 3 / 4,
     cc_fileLimit = 0, cc_MasterKey = ''k''\<rparr>"

lemma fmt_nat_no_hyphen: "CHR ''-'' \<notin> set (fmt_nat n)"
proof
  assume "CHR ''-'' \<in> set (fmt_nat n)"
  then obtain s t where "fmt_nat n = s @ CHR ''-'' # t"
    by (meson split_list)
  then have "parse_digits 0 (s @ CHR ''-'' # t) = Some n"
    using parse_digits_fmt [of n] by simp
  then show False
    by (auto simp: parse_digits_append Let_def split: Option.bind_splits)
qed

lemma sample_serves_ranges: "serves_ranges (sample_get_object ct) (\<lambda>st. True) key ct"
proof -
  have "takeWhile (\<lambda>c. c \<noteq> CHR ''-'') (fmt_nat a @ CHR ''-'' # t) = fmt_nat a"
    "dropWhile (\<lambda>c. c \<noteq> CHR ''-'') (fmt_nat a @ CHR ''-'' # t) = CHR ''-'' # t" for a t
    using fmt_nat_no_hyphen [of a] by (auto simp: takeWhile_append dropWhile_append)
  then show ?thesis
    by (auto simp: serves_ranges_def gives_body_def sample_get_object_def Let_def bytes_reader_def mem_content_def
        mem_clean_def parse_nat_def [of "[]"])
qed

lemma sample_s3_ok: "0 < chunk \<Longrightarrow> cache_ok (sample_s3 ct) (\<lambda>st. True) rName ct chunk (sample_s3_cache, pe)"
  using S3_serves [OF _ sample_serves_ranges, of "sample_s3 ct" ct chunk]
  by (simp add: cache_ok_def sample_s3_cache_def sample_s3_def only_holds_def sample_fs_def)

text \<open>Five bytes in S3, pulled from the second in chunks of two; the same kept by the local disk.\<close>

lemma puller_delivers_witness:
  "(\<exists>p s'. NewPuller (cache_sources (sample_s3 [1, 2, 3, 4, 5]) no_network ''z'' ''a'') False (sample_s3_cache, sample_peers False)
        2 5 1 (- 1) = (None, p, 0) \<and>
      io_copy (puller_Read mem_read (cache_sources (sample_s3 [1, 2, 3, 4, 5]) no_network ''z'' ''a'')) 2 p new_writer 0
        = Some (4, None, s', new_writer\<lparr>w_out := [2, 3, 4, 5]\<rparr>)) \<and>
   (\<exists>p s'. io_copy (puller_Read mem_read (cache_sources local_storage no_network ''z'' ''a'')) 2 p new_writer 0
      = Some (2, None, s', new_writer\<lparr>w_out := [2, 3]\<rparr>))"
proof
  show "\<exists>p s'. NewPuller (cache_sources (sample_s3 [1, 2, 3, 4, 5]) no_network ''z'' ''a'') False (sample_s3_cache, sample_peers False)
        2 5 1 (- 1) = (None, p, 0) \<and>
      io_copy (puller_Read mem_read (cache_sources (sample_s3 [1, 2, 3, 4, 5]) no_network ''z'' ''a'')) 2 p new_writer 0
        = Some (4, None, s', new_writer\<lparr>w_out := [2, 3, 4, 5]\<rparr>)"
    using puller_delivers [OF sample_s3_ok, of 2 1 "[1, 2, 3, 4, 5]" 2 no_network "''z''" "''a''" False] by simp
  have "cache_ok local_storage (local_holds ''p/a'' [1, 2, 3]) ''a'' [1, 2, 3] 16
      (sample_cache [(''p/a.cached'', [1, 2, 3])] [(''p/a'', [1, 2, 3])], sample_peers False)"
    by (simp add: cache_ok_def only_holds_def NewFileName_def file_states local_serves local_holds_def)
  from puller_delivers [OF this, of 1 2 no_network "''z''" False]
  show "\<exists>p s'. io_copy (puller_Read mem_read (cache_sources local_storage no_network ''z'' ''a'')) 2 p new_writer 0
      = Some (2, None, s', new_writer\<lparr>w_out := [2, 3]\<rparr>)" by auto
qed

text \<open>Asked to start beyond the end of a file that is on the local disk, a puller is handed out without
  an error and then delivers neither data nor end of file, so the copy to the client never returns.\<close>

theorem puller_spins_beyond_end:
  assumes "src_local src w start = (Some f, w')" and "tot < start"
  shows "\<exists>p. NewPuller src enabled w chunk tot start stop = (None, p, 0) \<and>
    (\<forall>bs wr n. io_copy (puller_Read rd src) bs p wr n = None)"
proof -
  let ?q = "new_puller w chunk tot start stop"
  let ?p = "?q\<lparr>pu_World := w', pu_IsLocal := True, pu_From := pullFromDisk, pu_File := Some f, pu_Remaining := tot - start\<rparr>"
  have "More src False ?q = (None, ?p)"
    using assms by (simp add: More_def getFileHandle_def new_puller_def chunk_len_def Let_def)
  then have "NewPuller src enabled w chunk tot start stop = (None, ?p, 0)"
    by (simp add: NewPuller_def numeral_eq_Suc)
  moreover have "io_copy (puller_Read rd src) bs ?p wr n = None" for bs wr n
    using assms(2) by (intro io_copy_stuck puller_negative) simp
  ultimately show ?thesis by blast
qed

lemma puller_spins_beyond_end_witness:
  "\<exists>p. NewPuller (cache_sources local_storage no_network ''z'' ''a'') False
      (sample_cache [(''p/a.cached'', [1, 2, 3])] [], sample_peers False) 16 3 992 (- 1) = (None, p, 0) \<and>
    (\<forall>bs wr n. io_copy (puller_Read mem_read (cache_sources local_storage no_network ''z'' ''a'')) bs p wr n = None)"
proof -
  let ?d = "sample_cache [(''p/a.cached'', [1, 2, 3])] []"
  have "\<exists>f w'. src_local (cache_sources local_storage no_network ''z'' ''a'') (?d, sample_peers False) 992 = (Some f, w')"
    by (simp add: cache_sources_def UseLocalFile_def Let_def fs_Open_def fs_err_of_def NewFileName_def file_states
        split: prod.splits)
  then obtain f w' where "src_local (cache_sources local_storage no_network ''z'' ''a'') (?d, sample_peers False) 992 = (Some f, w')"
    by blast
  from puller_spins_beyond_end [OF this, of 3 False 16 "- 1" mem_read] show ?thesis
    by simp
qed

text \<open>When a chunk's file gives more bytes than the chunk has left, as local permanent storage does because
  it ignores the end it is given, the copy never returns.\<close>

theorem puller_overshoots:
  assumes "pu_File p = Some f" and "0 < pu_Remaining p" and "rd f bs = (b, None, f')"
    and "pu_Remaining p < int (length b)" and "w_cap w = None"
  shows "io_copy (puller_Read rd src) bs p w n = None"
proof -
  let ?p = "p\<lparr>pu_File := Some f', pu_Remaining := pu_Remaining p - int (length b), pu_Index := pu_Index p + int (length b)\<rparr>"
  have r: "puller_Read rd src p bs = (b, None, ?p)"
    using assms by (simp add: puller_Read_def)
  have "io_copy (puller_Read rd src) bs ?p wr m = None" for wr m
    using assms(4) by (intro io_copy_stuck puller_negative) simp
  moreover have "b \<noteq> []"
    using assms(2,4) by auto
  ultimately show ?thesis
    using assms(5) by (subst io_copy.simps) (simp add: r writer_write_def split: prod.splits)
qed

text \<open>A stored file of eight bytes, chunks of four, a buffer of five.\<close>

lemma puller_overshoots_witness:
  "\<exists>p. NewPuller (cache_sources local_storage no_network ''z'' ''a'') False
      (sample_cache [] [(''p/a'', replicate 8 1)], sample_peers False) 4 8 0 (- 1) = (None, p, 0) \<and>
    io_copy (puller_Read mem_read (cache_sources local_storage no_network ''z'' ''a'')) 5 p new_writer 0 = None"
proof -
  let ?src = "cache_sources local_storage no_network ''z'' ''a''"
  let ?w = "(sample_cache [] [(''p/a'', replicate 8 1)], sample_peers False)"
  let ?q = "new_puller ?w 4 8 0 (- 1)"
  have l: "src_local ?src ?w 0 = (None, ?w)"
    by (simp add: cache_sources_def UseLocalFile_def Let_def fs_Open_def fs_err_of_def NewFileName_def file_states IsNotExist_def)
  have s: "\<exists>w'. src_store ?src ?w 0 3 = (Inr (Some (bytes_reader (replicate 8 1))), w')"
    by (simp add: cache_sources_def local_storage_def local_GetStream_def NewFileName_def)
  have "src_has_store ?src ?w"
    by (simp add: cache_sources_def)
  then have "\<exists>p. More ?src False ?q = (None, p) \<and> pu_File p = Some (bytes_reader (replicate 8 1)) \<and> pu_Remaining p = 4"
    using l s by (auto simp: More_def getFileHandle_def new_puller_def chunk_len_def chunk_end_def Let_def)
  then obtain p where p: "More ?src False ?q = (None, p)" "pu_File p = Some (bytes_reader (replicate 8 1))" "pu_Remaining p = 4"
    by blast
  have "mem_read (bytes_reader (replicate 8 1)) 5 = (replicate 5 1, None, [(replicate 3 1, None)])"
    by (simp add: bytes_reader_def)
  then have "io_copy (puller_Read mem_read ?src) 5 p new_writer 0 = None"
    using puller_overshoots [OF p(2), of mem_read 5 "replicate 5 1" _ new_writer ?src 0] p(3) by (simp add: new_writer_def)
  then show ?thesis
    using p(1) by (simp add: NewPuller_def numeral_eq_Suc)
qed

text \<open>Asked to start exactly at the end, as for the range that begins at the length of the content, the
  constructor sleeps 1048574 seconds, twelve days, before it reports the end of file as an error.\<close>

theorem puller_stalls_at_end:
  assumes "src_has_store src w"
  shows "\<exists>p. NewPuller src enabled w chunk tot tot stop = (Some EOF, p, 1048574)"
proof -
  let ?q = "new_puller w chunk tot tot stop"
  have "More src b ?q = (Some EOF, ?q)" for b
    by (simp add: More_def new_puller_def)
  moreover have "pull_attempts src 20 1 0 (Some EOF) ?q = (Some EOF, ?q, 1048574)"
    using pull_attempts_stall [of ?q src 19 1 0 EOF] assms by (simp add: new_puller_def)
  ultimately show ?thesis
    by (simp add: NewPuller_def)
qed

lemma puller_stalls_at_end_witness:
  "\<exists>p. NewPuller (cache_sources local_storage no_network ''z'' ''a'') True (sample_cache [] [], sample_peers True) 16 32 32 (- 1)
     = (Some EOF, p, 1048574)"
  by (rule puller_stalls_at_end) (simp add: cache_sources_def)

end
