(* ===== verification/Server_Base.thy ===== *)
theory Server_Base
  imports Go_Strings
begin

text \<open>
  \<open>server/errors.go\<close> and \<open>server/sendErrorResponse.go\<close>: the error a handler gives back. The wrapped
  error is only logged, the place and the fields are diagnostics; the status code and the message
  reach the client. A code below 400 is not an error: \<open>nil\<close> stands for 200.
\<close>

record AppError =
  ae_Code :: nat
  ae_Msg :: string

definition NewAppError :: "nat \<Rightarrow> string \<Rightarrow> AppError" where
  "NewAppError code msg = \<lparr>ae_Code = code, ae_Msg = msg\<rparr>"

end
