(* ===== verification/Object_Upload.thy ===== *)
theory Object_Upload
  imports Models Server_Base Ciphertext_Cache
begin

text \<open>
  \<open>server/uploadDownload.go\<close> and \<open>removeOrphanedFile\<close> of \<open>server/createObject.go\<close>: receiving a stream.
  The ciphertext is written to \<open>.uploading\<close>, renamed to \<open>.uploaded\<close> when it is complete, and given to
  the write-back of the cache. \<open>doc\<close> is the cipher function configured
  (\<open>DoCipherByReaderWriter\<close> or \<open>DoNocipherByReaderWriter\<close>); the part of the request is a reader.
  \<open>None\<close> is a call that ends in a panic or not at all.
\<close>

type_synonym 's do_cipher = "'s read_fn \<Rightarrow> nat \<Rightarrow> 's \<Rightarrow> writer \<Rightarrow> bytes \<Rightarrow> bytes \<Rightarrow> ByteRange option
  \<Rightarrow> (bytes option \<times> int \<times> go_err option \<times> 's \<times> writer) option"

definition err_string :: "go_err \<Rightarrow> string" where
  "err_string e = (case e of EOF \<Rightarrow> ''EOF'' | Err s \<Rightarrow> s)"

text \<open>The object with its hash and length recorded, and the write-back to run later; or the error.\<close>

definition beginUploadTimed ::
  "(bytes \<Rightarrow> bytes) \<Rightarrow> 's do_cipher \<Rightarrow> 'st CiphertextCacheData \<Rightarrow> 's read_fn \<Rightarrow> nat \<Rightarrow> 's \<Rightarrow> nat option
     \<Rightarrow> ODObject \<Rightarrow> ODObjectPermission
     \<Rightarrow> ((AppError + ODObject \<times> string \<times> int) \<times> 'st CiphertextCacheData) option" where
  "beginUploadTimed sha doc d rd bs part room obj grant =
     (let masterKey = cc_MasterKey d; fileID = ns_String (o_ContentConnector obj);
          iv = slice_bytes (o_EncryptIV obj);
          uploading = name_in d fileID FileStateUploading; uploaded = name_in d fileID FileStateUploaded in
      case ApplyPassphrase sha masterKey (p_PermissionIV grant) (p_EncryptKey grant) of
        None \<Rightarrow> None
      | Some fileKey \<Rightarrow>
         (case fs_Create (cc_files d) uploading of
            (Some e, fs) \<Rightarrow> Some (Inl (NewAppError 500 (''Unable to open ciphertext uploading file '' @ uploading)), d)
          | (None, fs) \<Rightarrow>
             (case doc rd bs part \<lparr>w_out = [], w_cap = if fs_Fault fs OpWrite uploading then Some 0 else room\<rparr>
                     fileKey iv (Some NewByteRange) of
                None \<Rightarrow> None
              | Some (checksum, len, err, part', w) \<Rightarrow>
                 (let fs1 = fs_Write fs uploading (w_out w) in
                  case err of
                    Some e \<Rightarrow> Some (Inl (NewAppError
                        (if has_prefix (err_string e) ''multipart: Part Read: unexpected EOF'' then 400 else 500)
                        (''Unable to write ciphertext '' @ uploading)),
                      set_files (snd (fs_Remove fs1 uploading)) d)
                  | None \<Rightarrow> (case fs_Rename fs1 uploading uploaded of
                        (Some e, fs2) \<Rightarrow> Some (Inl (NewAppError 500 (''Unable to rename uploaded file '' @ uploading)),
                          set_files (snd (fs_Remove fs2 uploading)) d)
                      | (None, fs2) \<Rightarrow> Some (Inr (obj\<lparr>o_ContentHash := checksum,
                            o_ContentSize := (o_ContentSize obj)\<lparr>ni_Int64 := len\<rparr>\<rparr>, fileID, len),
                          set_files fs2 d))))))"

definition removeOrphanedFile :: "'st CiphertextCacheData \<Rightarrow> string \<Rightarrow> 'st CiphertextCacheData" where
  "removeOrphanedFile d contentConnector =
     (let uploadedName = name_in d contentConnector FileStateUploaded;
          orphanedName = name_in d contentConnector FileStateOrphaned in
      if IsNotExist (snd (fs_Stat (cc_files d) uploadedName)) then d
      else (case fs_Remove (cc_files d) uploadedName of
          (None, fs) \<Rightarrow> set_files fs d
        | (Some e, fs) \<Rightarrow> set_files (snd (fs_Rename fs uploadedName orphanedName)) d))"

definition abortUploadObject :: "'st CiphertextCacheData \<Rightarrow> ODObject \<Rightarrow> bool \<Rightarrow> 'st CiphertextCacheData" where
  "abortUploadObject d obj isMultipart =
     (if isMultipart then removeOrphanedFile d (ns_String (o_ContentConnector obj)) else d)"

subsection \<open>What an upload leaves in the cache\<close>

lemma beginUpload_same:
  assumes "beginUploadTimed sha doc d rd bs part room obj grant = Some (r, d')"
  shows "same_but {name_in d (ns_String (o_ContentConnector obj)) FileStateUploading,
      name_in d (ns_String (o_ContentConnector obj)) FileStateUploaded} d d' \<and>
    cc_PermanentStorage d' = cc_PermanentStorage d \<and>
    (\<forall>e. r = Inl e \<longrightarrow> fs_Files (cc_files d') (name_in d (ns_String (o_ContentConnector obj)) FileStateUploaded)
      = fs_Files (cc_files d) (name_in d (ns_String (o_ContentConnector obj)) FileStateUploaded)) \<and>
    (\<forall>obj' fid len. r = Inr (obj', fid, len) \<longrightarrow> fid = ns_String (o_ContentConnector obj) \<and>
      fs_Files (cc_files d') (name_in d (ns_String (o_ContentConnector obj)) FileStateUploading) = None)"
proof -
  let ?ug = "name_in d (ns_String (o_ContentConnector obj)) FileStateUploading"
    and ?up = "name_in d (ns_String (o_ContentConnector obj)) FileStateUploaded"
  have ne: "?ug \<noteq> ?up" by simp
  obtain key where key: "ApplyPassphrase sha (cc_MasterKey d) (p_PermissionIV grant)
      (p_EncryptKey grant) = Some key"
    using assms by (auto simp: beginUploadTimed_def Let_def split: option.splits)
  obtain e fs where cr: "fs_Create (cc_files d) ?ug = (e, fs)"
    by (cases "fs_Create (cc_files d) ?ug")
  show ?thesis
  proof (cases e)
    case (Some x)
    then show ?thesis
      using assms by (auto simp: beginUploadTimed_def Let_def key cr [unfolded Some])
  next
    case None
    have fs: "fs = set_file ?ug (Some \<lparr>f_Data = [], f_Mtime = fs_Now (cc_files d)\<rparr>) (cc_files d)"
      using fs_Create_cases [OF cr] None by simp
    obtain cs len err part' w where doc: "doc rd bs part
        \<lparr>w_out = [], w_cap = if fs_Fault fs OpWrite ?ug then Some 0 else room\<rparr> key
        (slice_bytes (o_EncryptIV obj)) (Some NewByteRange) = Some (cs, len, err, part', w)"
      using assms by (auto simp: beginUploadTimed_def Let_def key cr [unfolded None] split: option.splits)
    obtain e2 fs2 where rn: "fs_Rename (fs_Write fs ?ug (w_out w)) ?ug ?up = (e2, fs2)"
      by (cases "fs_Rename (fs_Write fs ?ug (w_out w)) ?ug ?up")
    note rnc = fs_Rename_cases [OF rn ne]
    show ?thesis
    proof (cases err)
      case (Some x)
      then show ?thesis
        using assms ne
        by (auto simp: beginUploadTimed_def Let_def key cr [unfolded None] doc [unfolded Some] fs [symmetric])
          (auto simp: fs same_but_def fs_Remove_def)
    next
      case noerr: None
      show ?thesis
      proof (cases e2)
        case (Some x)
        then show ?thesis
          using assms ne rnc
          by (auto simp: beginUploadTimed_def Let_def key cr [unfolded None] doc [unfolded noerr] rn [unfolded Some])
            (auto simp: fs same_but_def fs_Remove_def)
      next
        case renamed: None
        then show ?thesis
          using assms ne rnc
          by (auto simp: beginUploadTimed_def Let_def key cr [unfolded None] doc [unfolded noerr] rn [unfolded renamed])
            (auto simp: fs same_but_def)
      qed
    qed
  qed
qed

lemma removeOrphanedFile_same:
  "same_but {name_in d r FileStateUploaded, name_in d r FileStateOrphaned} d (removeOrphanedFile d r) \<and>
   cc_PermanentStorage (removeOrphanedFile d r) = cc_PermanentStorage d"
  by (auto simp: removeOrphanedFile_def Let_def same_but_def fs_Remove_def fs_Rename_def split: option.splits prod.splits)

lemma rangeCopy_whole: "rangeCopy rd bs w s (Some NewByteRange) = rangeCopy rd bs w s None"
  by (simp add: rangeCopy_def NewByteRange_def)

lemma DoCipher_whole: "DoCipherByReaderWriter sha aes rd bs s w key iv (Some NewByteRange)
    = DoCipherByReaderWriter sha aes rd bs s w key iv None"
  by (simp add: DoCipherByReaderWriter_def rangeCopy_whole)

lemma beginUpload_ok:
  assumes "ApplyPassphrase sha (cc_MasterKey d) (p_PermissionIV grant) (p_EncryptKey grant) = Some fileKey"
    and "length fileKey = 32" and "length (slice_bytes (o_EncryptIV obj)) = 16"
    and "mem_clean part" and "0 < bs" and "\<And>opr n. \<not> fs_Fault (cc_files d) opr n"
  shows "\<exists>d'. beginUploadTimed sha (DoCipherByReaderWriter sha aes) d mem_read bs part None obj grant =
      Some (Inr (obj\<lparr>o_ContentHash := Some (Sum256 sha (mem_content part)),
          o_ContentSize := (o_ContentSize obj)\<lparr>ni_Int64 := int (length (mem_content part))\<rparr>\<rparr>,
        ns_String (o_ContentConnector obj), int (length (mem_content part))), d') \<and>
    map_option f_Data (fs_Files (cc_files d') (name_in d (ns_String (o_ContentConnector obj)) FileStateUploaded))
      = Some (XORKeyStream (ctr_stream aes fileKey (slice_bytes (o_EncryptIV obj))) 0 (mem_content part))"
proof -
  let ?ug = "name_in d (ns_String (o_ContentConnector obj)) FileStateUploading"
  obtain s' where "DoCipherByReaderWriter sha aes mem_read bs part \<lparr>w_out = [], w_cap = None\<rparr>
      fileKey (slice_bytes (o_EncryptIV obj)) None = Some (Some (Sum256 sha (mem_content part)),
        int (length (mem_content part)), None, s',
        \<lparr>w_out = XORKeyStream (ctr_stream aes fileKey (slice_bytes (o_EncryptIV obj))) 0 (mem_content part), w_cap = None\<rparr>)"
    using mem_src.DoCipher_all [OF assms(4,5), of "\<lparr>w_out = [], w_cap = None\<rparr>" fileKey "slice_bytes (o_EncryptIV obj)" sha aes]
      assms(2,3) by auto
  then show ?thesis
    using assms(6) by (simp add: beginUploadTimed_def Let_def assms(1) fs_Create_def DoCipher_whole fs_Rename_def fs_err_of_def)
qed

subsection \<open>Properties\<close>

text \<open>C29: an upload that nothing disturbs ends with the \<open>.uploaded\<close> file holding the content ciphered from
  the start of the key stream, and the object recording the digest and the length of the plaintext.\<close>

theorem upload_ciphers:
  assumes "ApplyPassphrase sha (cc_MasterKey d) (p_PermissionIV grant) (p_EncryptKey grant) = Some fileKey"
    and "length fileKey = 32" and "length (slice_bytes (o_EncryptIV obj)) = 16"
    and "mem_clean part" and "0 < bs" and "\<And>opr n. \<not> fs_Fault (cc_files d) opr n"
  shows "\<exists>d'. beginUploadTimed sha (DoCipherByReaderWriter sha aes) d mem_read bs part None obj grant =
      Some (Inr (obj\<lparr>o_ContentHash := Some (Sum256 sha (mem_content part)),
          o_ContentSize := (o_ContentSize obj)\<lparr>ni_Int64 := int (length (mem_content part))\<rparr>\<rparr>,
        ns_String (o_ContentConnector obj), int (length (mem_content part))), d') \<and>
    map_option f_Data (fs_Files (cc_files d') (name_in d (ns_String (o_ContentConnector obj)) FileStateUploaded))
      = Some (XORKeyStream (ctr_stream aes fileKey (slice_bytes (o_EncryptIV obj))) 0 (mem_content part))"
  using beginUpload_ok [OF assms] .

lemma upload_ciphers_witness:
  "\<exists>obj d'. beginUploadTimed (\<lambda>m. m) (DoCipherByReaderWriter (\<lambda>m. m) (\<lambda>k b. replicate 16 7)) (sample_cache [] []) mem_read 4
      [([1, 2], None), ([3], None)] None (empty_object\<lparr>o_ContentConnector := ToNullString ''a'', o_EncryptIV := Some (replicate 16 0)\<rparr>)
      (empty_permission\<lparr>p_EncryptKey := replicate 32 5\<rparr>) = Some (Inr (obj, ''a'', 3), d') \<and>
    map_option f_Data (fs_Files (cc_files d') ''p/a.uploaded'')
      = Some (XORKeyStream (ctr_stream (\<lambda>k b. replicate 16 7)
          (xor_bytes (Sum256 (\<lambda>m. m) (str_bytes (''k'' @ '':'' @ hex_encode (p_PermissionIV empty_permission)))) (replicate 32 5))
          (replicate 16 0)) 0 [1, 2, 3])"
  using upload_ciphers [of "\<lambda>m. m" "sample_cache [] []" "empty_permission\<lparr>p_EncryptKey := replicate 32 5\<rparr>"
      "xor_bytes (Sum256 (\<lambda>m. m) (str_bytes (''k'' @ '':'' @ hex_encode (p_PermissionIV empty_permission)))) (replicate 32 5)"
      "empty_object\<lparr>o_ContentConnector := ToNullString ''a'', o_EncryptIV := Some (replicate 16 0)\<rparr>"
      "[([1, 2], None), ([3], None)]" 4 "\<lambda>k b. replicate 16 7"]
  by (force simp: ApplyPassphrase_32 slice_bytes_def NewFileName_def FileStateUploaded_def)

end
