(* ===== verification/Object_Stream.thy ===== *)
theory Object_Stream
  imports Puller Object_Upload Acm_Auth Access
begin

text \<open>
  \<open>server/getObjectStream.go\<close>, \<open>server/getObjectStreamForRevision.go\<close> and \<open>server/ciphertext.go\<close>:
  sending the content of an object, or a range of it, to the client. A request is its headers as the
  code reads them; a response is the status written, the headers and the body. The sources of the
  ciphertext are those of the puller; \<open>doc\<close> is the cipher function configured. The result is
  \<open>None\<close> when the handler never returns, \<open>Some Panic\<close> when it panics. The background fetch that a
  remote ciphertext starts is \<open>BackgroundRecache\<close> of the cache and is not repeated here.
\<close>

record http_request =
  rq_Range :: string
  rq_IfNoneMatch :: string
  rq_disposition :: string

record http_response =
  rs_Status :: "nat option"
  rs_Header :: "(string \<times> string) list"
  rs_Body :: bytes

subsection \<open>The range asked for\<close>

definition extractByteRange :: "string \<Rightarrow> ByteRange option res" where
  "extractByteRange byteRangeSpec =
     (if byteRangeSpec = '''' then Ok None
      else (let typeOfRange = split_char CHR ''='' byteRangeSpec in
        if typeOfRange ! 0 = ''bytes'' then
          (if length typeOfRange \<le> 1 then Panic
           else (let startStop = split_char CHR ''-'' (typeOfRange ! 1) in
             case ParseInt64 (startStop ! 0) of
               None \<Rightarrow> Fail ''invalid syntax''
             | Some start \<Rightarrow>
                (if length startStop \<le> 1 then Panic
                 else if startStop ! 1 = '''' then Ok (Some \<lparr>br_Start = start, br_Stop = - 1\<rparr>)
                 else (case ParseInt64 (startStop ! 1) of
                     None \<Rightarrow> Fail ''invalid syntax''
                   | Some stop \<Rightarrow> Ok (Some \<lparr>br_Start = start, br_Stop = stop\<rparr>)))))
        else Fail ''could not understand range type''))"

subsection \<open>Moving the counter to the range\<close>

text \<open>Adding the blocks skipped to the initialization vector, a byte at a time; the carry of a byte is
  added to the next one only.\<close>

function adjust_loop :: "nat \<Rightarrow> int \<Rightarrow> bytes \<Rightarrow> bytes" where
  "adjust_loop i blocksToSkip iv =
     (if blocksToSkip > 0 then
        (let v = of_int (blocksToSkip mod 256) :: byte;
             newV = unat v + unat (iv ! (15 - i));
             iv1 = iv[15 - i := of_nat newV];
             iv2 = iv1[14 - i := iv1 ! (14 - i) + of_nat (newV div 256)]
         in adjust_loop (i + 1) (blocksToSkip div 256) iv2)
      else iv)"
  by pat_completeness auto
termination
  by (relation "measure (\<lambda>(i, b, iv). nat b)") auto

declare adjust_loop.simps [simp del]

definition adjustIV :: "bytes \<Rightarrow> ByteRange option \<Rightarrow> (bytes \<times> ByteRange option) res" where
  "adjustIV originalIV byteRange = (case byteRange of
     None \<Rightarrow> Ok (originalIV, None)
   | Some br \<Rightarrow>
       (if length originalIV < 16 then Panic
        else (let blocksSkipped = go_div (br_Start br) 16 in
          Ok (adjust_loop 0 blocksSkipped (take 16 originalIV),
              Some \<lparr>br_Start = br_Start br - blocksSkipped * 16,
                    br_Stop = if br_Stop br \<noteq> - 1 then br_Stop br - blocksSkipped * 16 else - 1\<rparr>))))"

subsection \<open>Header values\<close>

definition acmExtractItem :: "unmarshal \<Rightarrow> string \<Rightarrow> string \<Rightarrow> string option" where
  "acmExtractItem unm item rawAcm = (case unm rawAcm of
     None \<Rightarrow> None
   | Some (JObj kvs) \<Rightarrow> (case map_of kvs item of Some (JStr val) \<Rightarrow> Some val | _ \<Rightarrow> Some '''')
   | Some _ \<Rightarrow> Some '''')"

definition sanitizeDisposition :: "string \<Rightarrow> string" where
  "sanitizeDisposition s = (if to_lower s = ''attachment'' then ''attachment'' else ''inline'')"

definition sanitizeAgainstCRLFInHeader :: "string \<Rightarrow> string" where
  "sanitizeAgainstCRLFInHeader s =
     (let o1 = replace_all [CHR 0x0D] '''' s; o2 = replace_all ''%0d'' '''' o1; o3 = replace_all ''%0D'' '''' o2;
          o4 = replace_all [CHR 0x0A] '''' o3; o5 = replace_all ''%0a'' '''' o4; o6 = replace_all ''%0A'' '''' o5;
          o7 = replace_all ''%00'' ''_'' o6
      in replace_all [CHR 0x00] ''_'' o7)"

text \<open>\<open>path.Base\<close>: the last element, after trailing slashes are removed.\<close>

definition path_base :: "string \<Rightarrow> string" where
  "path_base p = (if p = '''' then ''.''
     else (let r = dropWhile (\<lambda>c. c = CHR ''/'') (rev p) in
       if r = [] then ''/'' else rev (takeWhile (\<lambda>c. c \<noteq> CHR ''/'') r)))"

definition sanitizeFilename :: "string \<Rightarrow> string" where
  "sanitizeFilename s = trim_space (path_base (sanitizeAgainstCRLFInHeader (trim_space s)))"

subsection \<open>Sending the file\<close>

record stream_conf =
  sc_HeaderBannerEnabled :: bool
  sc_HeaderBannerName :: string
  sc_PeerEnabled :: bool
  sc_ChunkSize :: int

definition quoted :: "string \<Rightarrow> string" where
  "quoted s = CHR 0x22 # s @ [CHR 0x22]"

abbreviation add_header :: "string \<Rightarrow> string \<Rightarrow> (string \<times> string) list \<Rightarrow> (string \<times> string) list" where
  "add_header \<equiv> assoc_set"

definition banner_header :: "stream_conf \<Rightarrow> unmarshal \<Rightarrow> ODObject \<Rightarrow> (string \<times> string) list \<Rightarrow> (string \<times> string) list" where
  "banner_header conf unm obj h =
     (if sc_HeaderBannerEnabled conf \<and> ns_Valid (o_RawAcm obj)
      then (case acmExtractItem unm ''banner'' (ns_String (o_RawAcm obj)) of
          None \<Rightarrow> h | Some banner \<Rightarrow> add_header (sc_HeaderBannerName conf) (sanitizeAgainstCRLFInHeader banner) h)
      else h)"

definition range_start :: "ByteRange option \<Rightarrow> int" where
  "range_start byteRange = (case byteRange of None \<Rightarrow> 0 | Some br \<Rightarrow> br_Start br)"

definition range_stop :: "int \<Rightarrow> ByteRange option \<Rightarrow> int" where
  "range_stop fullLength byteRange = (case byteRange of
     None \<Rightarrow> fullLength - 1 | Some br \<Rightarrow> if br_Stop br \<noteq> - 1 then br_Stop br else fullLength - 1)"

text \<open>The headers of an object with a known size.\<close>

definition content_headers :: "ODObject \<Rightarrow> string \<Rightarrow> ByteRange option \<Rightarrow> (string \<times> string) list \<Rightarrow> (string \<times> string) list" where
  "content_headers obj disposition byteRange h0 =
     (let fullLength = ni_Int64 (o_ContentSize obj); start = range_start byteRange; stop = range_stop fullLength byteRange;
          reported = (if byteRange = None then fullLength else wrap64 (stop + 1 - start));
          h1 = add_header ''Accept-Ranges'' ''bytes'' h0;
          h2 = add_header ''Content-Length'' (fmt_int reported) h1;
          h3 = add_header ''Content-Disposition'' (sanitizeDisposition disposition @ ''; filename=''
                 @ quoted (sanitizeFilename (o_Name obj))) h2;
          h4 = (if ns_Valid (o_Description obj) \<and> ns_String (o_Description obj) \<noteq> ''''
                then add_header ''Content-Description'' (sanitizeAgainstCRLFInHeader (ns_String (o_Description obj))) h3 else h3);
          h5 = (if byteRange \<noteq> None then add_header ''Content-Range''
                  (''bytes '' @ fmt_int start @ ''-'' @ fmt_int stop @ ''/'' @ fmt_int fullLength) h4 else h4)
      in add_header ''ETag'' (quoted (hex_encode (slice_bytes (o_ContentHash obj)))) h5)"

definition getAndStreamFile ::
  "stream_conf \<Rightarrow> unmarshal \<Rightarrow> 's read_fn \<Rightarrow> (string \<Rightarrow> ('w, 's) pull_sources) \<Rightarrow> ('w, 's) Puller do_cipher \<Rightarrow> nat \<Rightarrow> nat option
     \<Rightarrow> 'w \<Rightarrow> ODObject \<Rightarrow> http_request \<Rightarrow> bytes \<Rightarrow> string
     \<Rightarrow> ((int \<times> AppError option) \<times> http_response) res option" where
  "getAndStreamFile conf unm rd srcs doc bs room world obj r encryptKey disposition =
     (case extractByteRange (rq_Range r) of
        Panic \<Rightarrow> Some Panic
      | Fail e \<Rightarrow> Some (Ok ((0, Some (NewAppError 400 ''Unable to parse byte range'')),
                          \<lparr>rs_Status = None, rs_Header = [], rs_Body = []\<rparr>))
      | Ok byteRange \<Rightarrow>
         (let cipherStartAt = (case byteRange of None \<Rightarrow> 0 | Some br \<Rightarrow> go_div (br_Start br) 16 * 16);
              h1 = add_header ''Content-Type'' (sanitizeAgainstCRLFInHeader (ns_String (o_ContentType obj)))
                     (banner_header conf unm obj []);
              sized = ni_Valid (o_ContentSize obj);
              h2 = (if sized then content_headers obj disposition byteRange h1 else h1) in
          if sized \<and> rq_IfNoneMatch r = quoted (hex_encode (slice_bytes (o_ContentHash obj)))
          then Some (Ok ((0, Some (NewAppError 304 ''Not Modified'')),
                 \<lparr>rs_Status = None, rs_Header = assoc_del ''Content-Length'' h2, rs_Body = []\<rparr>))
          else (let status = (if sized then Some (if byteRange = None then 200 else 206) else None);
                    finalStatus = (if sized \<and> byteRange \<noteq> None then Some (NewAppError 206 ''Partial Content'') else None);
                    src = srcs (ns_String (o_ContentConnector obj)) in
            case NewPuller src (sc_PeerEnabled conf) world (sc_ChunkSize conf) (ni_Int64 (o_ContentSize obj)) cipherStartAt (- 1) of
              (Some e, p, slept) \<Rightarrow> Some (Ok ((0, Some (NewAppError 500 (err_string e))),
                  \<lparr>rs_Status = status, rs_Header = h2, rs_Body = []\<rparr>))
            | (None, p, slept) \<Rightarrow>
                (case adjustIV (slice_bytes (o_EncryptIV obj)) byteRange of
                   Panic \<Rightarrow> Some Panic | Fail e \<Rightarrow> Some (Fail e)
                 | Ok (iv, br') \<Rightarrow>
                    (case doc (puller_Read rd src) bs p \<lparr>w_out = [], w_cap = room\<rparr> encryptKey iv br' of
                       None \<Rightarrow> None
                     | Some (cs, actualLength, err, p', w) \<Rightarrow>
                         Some (Ok ((actualLength, finalStatus),
                           \<lparr>rs_Status = status, rs_Header = h2, rs_Body = w_out w\<rparr>)))))))"

subsection \<open>The counter\<close>

lemma le_nat_update: "k < length l \<Longrightarrow> le_nat (l[k := x]) + unat (l ! k) * 256 ^ k = le_nat l + unat x * 256 ^ k"
proof (induction l arbitrary: k)
  case (Cons b l)
  show ?case
  proof (cases k)
    case (Suc j)
    then show ?thesis
      using Cons.IH [of j] Cons.prems by (simp add: algebra_simps)
  qed simp
qed simp

lemma be_nat_update:
  assumes "k < length l"
  shows "be_nat (l[k := x]) + unat (l ! k) * 256 ^ (length l - 1 - k) = be_nat l + unat x * 256 ^ (length l - 1 - k)"
  using le_nat_update [of "length l - 1 - k" "rev l" x] assms
  by (simp add: be_nat_def rev_update rev_nth)

text \<open>While the bytes to add to are zero no carry arises and the loop adds the number of blocks.\<close>

lemma adjust_loop_adds:
  assumes "length iv = 16" and "i \<le> 4" and "\<And>j. i \<le> j \<Longrightarrow> j < 4 \<Longrightarrow> iv ! (15 - j) = 0"
    and "0 \<le> b" and "b < 256 ^ (4 - i)"
  shows "length (adjust_loop i b iv) = 16 \<and> be_nat (adjust_loop i b iv) = be_nat iv + nat b * 256 ^ i"
  using assms
proof (induction "nat b" arbitrary: i b iv rule: less_induct)
  case (less b i iv)
  show ?case
  proof (cases "0 < b")
    case False
    then show ?thesis
      using less.prems by (subst (1 2) adjust_loop.simps) simp
  next
    case True
    have i: "i < 4"
      using less.prems(2,5) True by (cases "i = 4") auto
    define v where "v = (of_int (b mod 256) :: byte)"
    have uv: "unat v = nat (b mod 256)"
      unfolding v_def by (simp add: unat_eq_nat_uint uint_word_of_int_eq take_bit_eq_mod)
    have z: "iv ! (15 - i) = 0" using less.prems(3) i by simp
    define iv1 where "iv1 = iv[15 - i := v]"
    have l1: "length iv1 = 16" using less.prems(1) by (simp add: iv1_def)
    have step: "adjust_loop i b iv = adjust_loop (i + 1) (b div 256) iv1"
      using True z uv less.prems(1) by (subst adjust_loop.simps) (simp add: Let_def v_def [symmetric] iv1_def uv)
    have be1: "be_nat iv1 = be_nat iv + nat (b mod 256) * 256 ^ i"
      using be_nat_update [of "15 - i" iv v] less.prems(1) i z by (simp add: iv1_def uv)
    have "iv1 ! (15 - j) = 0" if "i + 1 \<le> j" "j < 4" for j
      using less.prems(3) [of j] that i by (simp add: iv1_def)
    moreover have "b div 256 < 256 ^ (4 - (i + 1))"
    proof -
      have "(256::int) ^ (4 - i) = 256 * 256 ^ (4 - (i + 1))"
        using i by (metis Suc_diff_Suc Suc_eq_plus1 power_Suc)
      then show ?thesis using less.prems(5) by (simp add: div_less_iff_less_mult mult.commute)
    qed
    ultimately have "length (adjust_loop (i + 1) (b div 256) iv1) = 16 \<and>
        be_nat (adjust_loop (i + 1) (b div 256) iv1) = be_nat iv1 + nat (b div 256) * 256 ^ (i + 1)"
      using less.hyps [of "b div 256" iv1 "i + 1"] True l1 i by (simp add: nat_div_distrib)
    moreover have "nat b = nat (b mod 256) + nat (b div 256) * 256"
      using True by (simp add: nat_mod_distrib nat_div_distrib)
    ultimately show ?thesis
      by (simp add: step be1 algebra_simps)
  qed
qed

lemma ctr_pow_adjust:
  assumes "length iv = 16" and "\<And>j. j < 4 \<Longrightarrow> iv ! (15 - j) = 0" and "b < 4294967296"
  shows "(ctr_incr ^^ n) (adjust_loop 0 (int b) iv) = (ctr_incr ^^ (b + n)) iv"
proof -
  have a: "length (adjust_loop 0 (int b) iv) = 16" "be_nat (adjust_loop 0 (int b) iv) = be_nat iv + b"
    using adjust_loop_adds [of iv 0 "int b"] assms by simp_all
  show ?thesis
    by (rule be_nat_inject) (simp_all add: a assms(1) be_nat_pow add.assoc)
qed

lemma ctr_stream_adjust:
  assumes "length iv = 16" and "\<And>j. j < 4 \<Longrightarrow> iv ! (15 - j) = 0" and "b < 4294967296"
  shows "ctr_stream aes key (adjust_loop 0 (int b) iv) = (\<lambda>i. ctr_stream aes key iv (16 * b + i))"
  using ctr_pow_adjust [OF assms] by (simp add: ctr_stream_def fun_eq_iff)

text \<open>What the range asks for.\<close>

definition range_bytes :: "ByteRange option \<Rightarrow> bytes \<Rightarrow> bytes" where
  "range_bytes byteRange b = (case byteRange of
     None \<Rightarrow> b
   | Some br \<Rightarrow> (let x = drop (nat (br_Start br)) b in
       if br_Stop br = - 1 then x else take (nat (br_Stop br - br_Start br + 1)) x))"

definition good_range :: "ByteRange option \<Rightarrow> nat \<Rightarrow> bool" where
  "good_range byteRange n \<longleftrightarrow> (case byteRange of
     None \<Rightarrow> 0 < n
   | Some br \<Rightarrow> 0 \<le> br_Start br \<and> br_Start br < int n \<and>
       (br_Stop br = - 1 \<or> br_Start br \<le> br_Stop br \<and> br_Stop br < 2 ^ 63 - 1))"

definition block_start :: "ByteRange option \<Rightarrow> int" where
  "block_start byteRange = (case byteRange of None \<Rightarrow> 0 | Some br \<Rightarrow> go_div (br_Start br) 16 * 16)"

text \<open>Deciphering from a block boundary with the adjusted counter gives the bytes of the range.\<close>

context byte_source
begin

lemma DoCipher_adjusted:
  assumes "ok s" and "data s = drop (nat (block_start byteRange)) (XORKeyStream (ctr_stream aes key iv) 0 pt)"
    and "0 < bs" and "length key \<in> {16, 24, 32}" and "length iv = 16" and "\<And>j. j < 4 \<Longrightarrow> iv ! (15 - j) = 0"
    and "good_range byteRange (length pt)" and "length pt < 68719476736"
  shows "\<exists>iv' br' cs n err s'. adjustIV iv byteRange = Ok (iv', br') \<and>
    DoCipherByReaderWriter sha aes rd bs s \<lparr>w_out = [], w_cap = None\<rparr> key iv' br' =
      Some (cs, n, err, s', \<lparr>w_out = range_bytes byteRange pt, w_cap = None\<rparr>)"
proof (cases byteRange)
  case None
  then show ?thesis
    using DoCipher_all [OF assms(1,3) _ assms(4,5), of "\<lparr>w_out = [], w_cap = None\<rparr>" sha aes] assms(2)
    by (auto simp: adjustIV_def range_bytes_def block_start_def XORKeyStream_twice)
next
  case (Some br)
  define b where "b = nat (br_Start br div 16)"
  have g: "0 \<le> br_Start br" "br_Start br < int (length pt)"
      "br_Stop br = - 1 \<or> br_Start br \<le> br_Stop br \<and> br_Stop br < 2 ^ 63 - 1"
    using assms(7) Some by (auto simp: good_range_def)
  have b: "br_Start br div 16 = int b" "b < 4294967296" "go_div (br_Start br) 16 = int b"
    using g(1,2) assms(8) by (auto simp: b_def)
  have m: "br_Start br = int b * 16 + br_Start br mod 16" "0 \<le> br_Start br mod 16" "br_Start br mod 16 < 16"
    using div_mult_mod_eq [of "br_Start br" 16] b(1) by simp_all
  let ?iv = "adjust_loop 0 (int b) iv"
  let ?br = "\<lparr>br_Start = br_Start br - int b * 16, br_Stop = if br_Stop br \<noteq> - 1 then br_Stop br - int b * 16 else - 1\<rparr>"
  have iv': "length ?iv = 16"
    using adjust_loop_adds [of iv 0 "int b"] assms(5,6) b(2) by simp
  have adj: "adjustIV iv byteRange = Ok (?iv, Some ?br)"
    using assms(5) b(3) by (simp add: adjustIV_def Some Let_def)
  have d: "data s = XORKeyStream (ctr_stream aes key iv) (16 * b) (drop (16 * b) pt)"
    using assms(2) Some b(3) by (simp add: block_start_def drop_XORKeyStream nat_mult_distrib mult.commute)
  have plain: "XORKeyStream (ctr_stream aes key ?iv) 0 (data s) = drop (16 * b) pt"
    by (simp add: ctr_stream_adjust [OF assms(5,6) b(2)] XORKeyStream_shift d XORKeyStream_twice)
  have len: "int (length (data s)) = int (length pt) - int b * 16"
    using m g(2) by (simp add: d of_nat_diff)
  have "\<exists>cs n s'. DoCipherByReaderWriter sha aes rd bs s \<lparr>w_out = [], w_cap = None\<rparr> key ?iv (Some ?br) =
    Some (cs, n, if br_Stop ?br \<ge> int (length (data s)) then Some EOF else None, s',
      \<lparr>w_out = [], w_cap = None\<rparr>\<lparr>w_out := w_out \<lparr>w_out = [], w_cap = None\<rparr> @
        (let x = drop (nat (br_Start ?br)) (XORKeyStream (ctr_stream aes key ?iv) 0 (data s)) in
         if br_Stop ?br = - 1 then x else take (nat (br_Stop ?br - br_Start ?br + 1)) x)\<rparr>)"
    by (rule DoCipher_range [OF assms(1,3) _ assms(4) iv']) (use m g len in auto)
  moreover have "drop (nat (br_Start ?br)) (drop (16 * b) pt) = drop (nat (br_Start br)) pt"
  proof -
    have "nat (br_Start ?br) + 16 * b = nat (br_Start br)"
      using m by simp
    then show ?thesis by simp
  qed
  moreover have "br_Stop ?br = - 1 \<longleftrightarrow> br_Stop br = - 1"
    using g(1,3) m by auto
  ultimately show ?thesis
    unfolding adj plain by (auto simp: Some range_bytes_def Let_def)
qed

end

subsection \<open>The handlers\<close>

text \<open>\<open>parseGetObjectRequest\<close>; the group captured is \<open>None\<close> when the route captured nothing.\<close>

definition parseGetObjectRequest :: "string option \<Rightarrow> string + ODObject" where
  "parseGetObjectRequest captured = (case captured of
     None \<Rightarrow> Inl ''could not get capture groups''
   | Some s \<Rightarrow> if s = '''' then Inl ''could not extract objectId from URI''
       else (case hex_decode s of None \<Rightarrow> Inl ''invalid objectid in URI''
         | Some b \<Rightarrow> Inr (empty_object\<lparr>o_ID := Some b\<rparr>)))"

text \<open>The error for a deleted object, if it is one.\<close>

definition deleted_err :: "string \<Rightarrow> string \<Rightarrow> string \<Rightarrow> ODObject \<Rightarrow> AppError option" where
  "deleted_err gone ancestor trash obj =
     (if \<not> o_IsDeleted obj then None
      else Some (if o_IsExpunged obj then NewAppError 410 gone
        else if o_IsAncestorDeleted obj then NewAppError 409 ancestor else NewAppError 409 trash))"

record stream_env =
  se_sha :: "bytes \<Rightarrow> bytes"
  se_masterKey :: string
  se_caller :: Caller
  se_groups :: "string list"
  se_service :: "AacService option"
  se_unm :: unmarshal

text \<open>The key of the file, from the permission that lets the caller read; \<open>None\<close> ends the program.\<close>

definition file_key :: "stream_env \<Rightarrow> ODObject \<Rightarrow> (AppError + bytes) option" where
  "file_key env obj =
     (case isUserAllowedToReadWithPermission (se_sha env) (se_masterKey env) (se_caller env) (se_groups env) obj of
        (False, _) \<Rightarrow> Some (Inl (NewAppError 403 ''Forbidden - User does not have permission to read/view this object''))
      | (True, up) \<Rightarrow> (case ApplyPassphrase (se_sha env) (se_masterKey env) (p_PermissionIV up) (p_EncryptKey up) of
          None \<Rightarrow> None
        | Some k \<Rightarrow> if k = [] then Some (Inl (NewAppError 500
              ''Internal Server Error - Unable to derive file key from user permission to read/view this object''))
            else Some (Inr k)))"

definition acm_err :: "stream_env \<Rightarrow> ODObject \<Rightarrow> AppError option" where
  "acm_err env obj = (case IsUserAuthorizedForACM (se_service env) (DistinguishedName (se_caller env)) (ns_String (o_RawAcm obj)) of
     (_, Some e) \<Rightarrow> Some (NewAppError (authHTTPErr e) e) | (_, None) \<Rightarrow> None)"

definition no_response :: http_response where
  "no_response = \<lparr>rs_Status = None, rs_Header = [], rs_Body = []\<rparr>"

definition no_content :: "ODObject \<Rightarrow> bool" where
  "no_content obj \<longleftrightarrow> \<not> ni_Valid (o_ContentSize obj) \<or> ni_Int64 (o_ContentSize obj) \<le> 0"

definition disposition_of :: "http_request \<Rightarrow> string" where
  "disposition_of r = (if rq_disposition r \<noteq> '''' then rq_disposition r else ''inline'')"

definition getObjectStreamWithObject ::
  "stream_env \<Rightarrow> (ODObject \<Rightarrow> http_request \<Rightarrow> bytes \<Rightarrow> string \<Rightarrow> ((int \<times> AppError option) \<times> http_response) res option)
     \<Rightarrow> ODObject \<Rightarrow> http_request \<Rightarrow> ((int \<times> AppError option) \<times> http_response) res option" where
  "getObjectStreamWithObject env stream obj r =
     (case deleted_err ''The object no longer exists'' ''The object cannot be retrieved because an ancestor is deleted.''
          ''The object is currently in the trash. Use removeObjectFromtrash to restore it before updating it.'' obj of
        Some herr \<Rightarrow> Some (Ok ((0, Some herr), no_response))
      | None \<Rightarrow>
         (case file_key env obj of
            None \<Rightarrow> Some Panic
          | Some (Inl herr) \<Rightarrow> Some (Ok ((0, Some herr), no_response))
          | Some (Inr fileKey) \<Rightarrow>
             (case acm_err env obj of
                Some herr \<Rightarrow> Some (Ok ((0, Some herr), no_response))
              | None \<Rightarrow> if no_content obj then Some (Ok ((0, Some (NewAppError 204 ''No content'')), no_response))
                        else stream obj r fileKey (disposition_of r))))"

definition getObjectStream where
  "getObjectStream env get stream captured r =
     (case parseGetObjectRequest captured of
        Inl e \<Rightarrow> Some (Ok (Some (NewAppError 400 ''Error parsing URI''), no_response))
      | Inr requestObject \<Rightarrow>
         (case get requestObject of
            Inl e \<Rightarrow> Some (Ok (Some (if e = ''sql: no rows in result set'' then NewAppError 404 ''Not found''
                else NewAppError 500 ''Error retrieving object''), no_response))
          | Inr dbObject \<Rightarrow>
             (if slice_len (o_ID dbObject) = 0
              then Some (Ok (Some (NewAppError 500 (''Object retrieved doesn'' @ [CHR 0x27] @ ''t have an id'')), no_response))
              else map_option (\<lambda>x. bind_res x (\<lambda>((transferred, herr), rsp). Ok (herr, rsp)))
                (getObjectStreamWithObject env stream dbObject r))))"

text \<open>A revision: the current version and the revision itself must both be readable.\<close>

definition getFileKeyAndCheckAuthAndObjectState :: "stream_env \<Rightarrow> ODObject \<Rightarrow> (AppError + bytes) option" where
  "getFileKeyAndCheckAuthAndObjectState env obj = (case file_key env obj of
     None \<Rightarrow> None | Some (Inl herr) \<Rightarrow> Some (Inl herr)
   | Some (Inr fileKey) \<Rightarrow>
      (case acm_err env obj of
         Some herr \<Rightarrow> Some (Inl herr)
       | None \<Rightarrow> (case deleted_err ''The object no longer exists.'' ''The object cannot be retreived because an ancestor is deleted.''
              ''The object is deleted'' obj of
            Some herr \<Rightarrow> Some (Inl herr) | None \<Rightarrow> Some (Inr fileKey))))"

definition getObjectStreamForRevision where
  "getObjectStreamForRevision env get getRevision stream objectId revisionId r =
     (if objectId = '''' then Some (Ok (Some (NewAppError 400 ''URI''), no_response))
      else (case hex_decode objectId of
          None \<Rightarrow> Some (Ok (Some (NewAppError 400 ''Invalid objectID in URI.''), no_response))
        | Some oid \<Rightarrow>
         (if revisionId = '''' then Some (Ok (Some (NewAppError 400 ''URI''), no_response))
          else (case ParseInt64 revisionId of
              None \<Rightarrow> Some (Ok (Some (NewAppError 400 ''Invalid revisionId in URI.''), no_response))
            | Some revn \<Rightarrow>
             (let requestObject = empty_object\<lparr>o_ID := Some oid, o_ChangeCount := revn\<rparr> in
              case get requestObject of
                Inl e \<Rightarrow> Some (Ok (Some (NewAppError 500 ''Error retrieving object''), no_response))
              | Inr current \<Rightarrow>
                 (case getFileKeyAndCheckAuthAndObjectState env current of
                    None \<Rightarrow> Some Panic | Some (Inl herr) \<Rightarrow> Some (Ok (Some herr, no_response))
                  | Some (Inr _) \<Rightarrow>
                     (case getRevision requestObject of
                        Inl e \<Rightarrow> Some (Ok (Some (NewAppError 500 ''Error retrieving object''), no_response))
                      | Inr revision \<Rightarrow>
                         (case getFileKeyAndCheckAuthAndObjectState env revision of
                            None \<Rightarrow> Some Panic | Some (Inl herr) \<Rightarrow> Some (Ok (Some herr, no_response))
                          | Some (Inr fileKey) \<Rightarrow>
                              if no_content revision then Some (Ok (Some (NewAppError 204 ''No content''), no_response))
                              else map_option (\<lambda>x. bind_res x (\<lambda>((transferred, herr), rsp). Ok (herr, rsp)))
                                (stream revision r fileKey (disposition_of r))))))))))"

text \<open>\<open>getCiphertext\<close>: what a peer is given of the cache of this node, from an offset.\<close>

definition getCiphertext where
  "getCiphertext peer_enabled signifier user_dn rName rng (d :: 'st CiphertextCacheData) =
     (if \<not> peer_enabled then Some (Ok ((Some (NewAppError 403 ''Requests for ciphertext from peers is not currently authorized''), []), d))
      else if user_dn \<noteq> signifier then Some (Ok ((Some (NewAppError 403 ''forbidden''), []), d))
      else (case extractByteRange rng of
          Panic \<Rightarrow> Some Panic
        | Fail e \<Rightarrow> Some (Ok ((Some (NewAppError 400 ''byte range parse fail''), []), d))
        | Ok byteRange \<Rightarrow>
           (case UseLocalFile d rName (range_start byteRange) of
              ((f, len, Some e), d') \<Rightarrow> Some (Ok ((Some (NewAppError 500 ''error looking in p2p cache''), []), d'))
            | ((None, len, None), d') \<Rightarrow> Some (Ok ((Some (NewAppError 204 ''not in this p2p cache''), []), d'))
            | ((Some f, len, None), d') \<Rightarrow>
                map_option (\<lambda>(n, e, s, w). Ok ((None, w_out w), d')) (io_copy mem_read 32768 f new_writer 0))))"

subsection \<open>Header values hold no line breaks\<close>

definition header_safe :: "string \<Rightarrow> bool" where
  "header_safe s \<longleftrightarrow> CHR 0x0D \<notin> set s \<and> CHR 0x0A \<notin> set s \<and> CHR 0x00 \<notin> set s"

lemma set_replace_n: "set (replace_n n old new s) \<subseteq> set s \<union> set new"
proof (induction n old new s rule: replace_n.induct)
  case (1 n old new s)
  show ?case
  proof (cases "old = [] \<or> s = [] \<or> n = Some 0")
    case True
    then show ?thesis by (subst replace_n.simps) auto
  next
    case False
    have "set (drop (length old) s) \<subseteq> set s" "set (tl s) \<subseteq> set s" "hd s \<in> set s"
      using False by (auto dest: in_set_dropD list.set_sel(2))
    then show ?thesis
      using 1 False by (subst replace_n.simps) (cases "prefix old s"; auto)
  qed
qed

lemma set_replace_all: "set (replace_all old new s) \<subseteq> set s \<union> set new"
  using set_replace_n by (simp add: replace_all_def)

lemma replace_all_removes: "c \<notin> set new \<Longrightarrow> c \<notin> set (replace_all [c] new s)"
  by (auto simp: replace_all_char)

lemma replace_all_keeps_out: "c \<notin> set s \<Longrightarrow> c \<notin> set new \<Longrightarrow> c \<notin> set (replace_all old new s)"
  using set_replace_all by blast

lemma sanitize_safe: "header_safe (sanitizeAgainstCRLFInHeader s)"
proof -
  have cr: "CHR 0x0D \<notin> set (replace_all [CHR 0x0D] [] s)"
    by (rule replace_all_removes) simp
  have lf: "CHR 0x0A \<notin> set (replace_all [CHR 0x0A] [] t)" for t
    by (rule replace_all_removes) simp
  have nul: "CHR 0x00 \<notin> set (replace_all [CHR 0x00] ''_'' t)" for t
    by (rule replace_all_removes) simp
  note out = replace_all_keeps_out
  show ?thesis
    unfolding header_safe_def sanitizeAgainstCRLFInHeader_def Let_def
    by (intro conjI; (rule nul | ((rule cr | rule lf | rule out)+; simp)))
qed

lemma header_safe_subset: "header_safe s \<Longrightarrow> set t \<subseteq> set s \<Longrightarrow> header_safe t"
  by (auto simp: header_safe_def)

lemma header_safe_append [simp]: "header_safe (a @ b) \<longleftrightarrow> header_safe a \<and> header_safe b"
  by (auto simp: header_safe_def)

lemma set_path_base: "set (path_base p) \<subseteq> set p \<union> {CHR ''.'', CHR ''/''}"
proof -
  have "set (rev (takeWhile q (dropWhile r (rev p)))) \<subseteq> set p" for q r
    by (metis set_rev set_takeWhileD set_dropWhileD subsetI)
  then show ?thesis
    by (auto simp: path_base_def Let_def)
qed

lemma header_safe_simps [simp]:
  "header_safe []"
  "header_safe (c # s) \<longleftrightarrow> c \<noteq> CHR 0x0D \<and> c \<noteq> CHR 0x0A \<and> c \<noteq> CHR 0x00 \<and> header_safe s"
  by (auto simp: header_safe_def)

lemma path_base_safe: "header_safe s \<Longrightarrow> header_safe (path_base s)"
  using set_path_base [of s] by (auto simp: header_safe_def)

lemma filename_safe: "header_safe (sanitizeFilename s)"
  unfolding sanitizeFilename_def
  by (rule header_safe_subset [OF path_base_safe [OF sanitize_safe] set_trim_space])

lemma hex_safe: "header_safe (hex_encode b)"
proof -
  have "of_char c \<noteq> (0::nat) \<and> of_char c \<noteq> (10::nat) \<and> of_char c \<noteq> (13::nat)" if "c \<in> set (hex_encode b)" for c
    using hex_encode_chars [OF that] by auto
  then show ?thesis
    by (force simp: header_safe_def)
qed

lemma fmt_nat_safe: "header_safe (fmt_nat n)"
proof (induction n rule: fmt_nat.induct)
  case (1 n)
  have "header_safe [char_of (48 + m)]" if "m < 10" for m :: nat
    using that by (auto simp: header_safe_def eq_char_of_iff char_of_eq_iff take_bit_eq_mod)
  then show ?case
    using 1 by (subst fmt_nat.simps) auto
qed

lemma fmt_int_safe [simp]: "header_safe (fmt_int i)"
  using fmt_nat_safe by (auto simp: fmt_int_def header_safe_def)

lemma quoted_safe [simp]: "header_safe (quoted s) \<longleftrightarrow> header_safe s"
  by (auto simp: quoted_def header_safe_def)

definition headers_safe :: "(string \<times> string) list \<Rightarrow> bool" where
  "headers_safe h \<longleftrightarrow> (\<forall>kv \<in> set h. header_safe (snd kv))"

lemma headers_safe_add: "headers_safe h \<Longrightarrow> header_safe v \<Longrightarrow> headers_safe (add_header k v h)"
  by (induction k v h rule: assoc_set.induct) (auto simp: headers_safe_def)

lemma headers_safe_del: "headers_safe h \<Longrightarrow> headers_safe (assoc_del k h)"
  by (induction k h rule: assoc_del.induct) (auto simp: headers_safe_def)

lemma content_headers_safe: "headers_safe h \<Longrightarrow> headers_safe (content_headers obj disposition br h)"
  unfolding content_headers_def Let_def
  by (auto intro!: headers_safe_add simp: sanitizeDisposition_def sanitize_safe filename_safe hex_safe)

subsection \<open>Properties\<close>

text \<open>C7: downloading undoes uploading. Let the object's recorded size be that of a plaintext, its vector one of
  \<open>CreateIV\<close>, the key of 16, 24 or 32 bytes, the plaintext below the 64 gigabytes that the 32 bits of block
  count in the vector address, and let the cache hold its ciphertext as \<open>cache_ok\<close> says: in S3 of any length,
  or in local storage within one chunk, and in the local files nothing else and no more than a gigabyte. Then, unless
  the caller has the content already, the body sent for any range that begins inside the content and does
  not stop before it begins is exactly that range of the plaintext, with status 206, and the whole
  plaintext with 200 when no range is asked for, in however many chunks it is pulled.\<close>

theorem download_range:
  assumes "length key \<in> {16, 24, 32}" and "slice_bytes (o_EncryptIV obj) = CreateIV rnd"
    and "o_ContentSize obj = \<lparr>ni_Int64 = int (length pt), ni_Valid = True\<rparr>" and "length pt < 68719476736"
    and "cache_ok ps held (ns_String (o_ContentConnector obj)) (XORKeyStream (ctr_stream aes key (CreateIV rnd)) 0 pt)
      (sc_ChunkSize conf) (d, pe)"
    and "extractByteRange (rq_Range r) = Ok byteRange" and "good_range byteRange (length pt)"
    and "rq_IfNoneMatch r \<noteq> quoted (hex_encode (slice_bytes (o_ContentHash obj)))" and "0 < bs"
  shows "\<exists>n rsp. getAndStreamFile conf unm mem_read (cache_sources ps net zone) (DoCipherByReaderWriter sha aes) bs None
        (d, pe) obj r key disposition
      = Some (Ok ((n, if byteRange = None then None else Some (NewAppError 206 ''Partial Content'')), rsp)) \<and>
    rs_Status rsp = Some (if byteRange = None then 200 else 206) \<and> rs_Body rsp = range_bytes byteRange pt"
proof -
  let ?ct = "XORKeyStream (ctr_stream aes key (CreateIV rnd)) 0 pt" and ?rName = "ns_String (o_ContentConnector obj)"
  let ?src = "cache_sources ps net zone ?rName"
  have start: "0 \<le> block_start byteRange" "block_start byteRange < int (length ?ct)"
    using assms(7) by (auto simp: block_start_def good_range_def split: option.splits)
  obtain p where p: "NewPuller ?src (sc_PeerEnabled conf) (d, pe) (sc_ChunkSize conf) (int (length ?ct)) (block_start byteRange) (- 1) = (None, p, 0)"
    "cache_src.pull_inv ?ct (sc_ChunkSize conf) ps held ?rName p" "cache_src.pull_data ?ct p = drop (nat (block_start byteRange)) ?ct"
    using cache_src.NewPuller_ok [OF assms(5) start] by blast
  have iv: "length (CreateIV rnd) = 16" "\<And>j. j < 4 \<Longrightarrow> CreateIV rnd ! (15 - j) = 0"
    by (simp_all add: CreateIV_low)
  obtain iv' br' cs n err s' where adj: "adjustIV (CreateIV rnd) byteRange = Ok (iv', br')"
    and doc: "DoCipherByReaderWriter sha aes (puller_Read mem_read ?src) bs p \<lparr>w_out = [], w_cap = None\<rparr> key iv' br' =
      Some (cs, n, err, s', \<lparr>w_out = range_bytes byteRange pt, w_cap = None\<rparr>)"
    using byte_source.DoCipher_adjusted [OF cache_src.pull_source p(2,3) assms(9,1) iv assms(7,4)] by blast
  have bs': "(case byteRange of None \<Rightarrow> 0 | Some br \<Rightarrow> go_div (br_Start br) 16 * 16) = block_start byteRange"
    by (simp add: block_start_def)
  show ?thesis
    using assms(2,3,6,8) p(1) adj doc by (simp add: getAndStreamFile_def Let_def bs')
qed

definition sample_pt :: bytes where
  "sample_pt = map of_nat [0..<20]"

definition sample_stored :: bytes where
  "sample_stored = XORKeyStream (ctr_stream (\<lambda>k b. replicate 16 7) (replicate 32 5) (CreateIV [])) 0 sample_pt"

definition sample_content :: ODObject where
  "sample_content = empty_object\<lparr>o_ContentConnector := ToNullString ''a'', o_EncryptIV := Some (CreateIV []),
     o_ContentSize := \<lparr>ni_Int64 = 20, ni_Valid = True\<rparr>\<rparr>"

lemma sample_range: "extractByteRange ''bytes=3-18'' = Ok (Some \<lparr>br_Start = 3, br_Stop = 18\<rparr>)"
  by code_simp

text \<open>Chunks of eight bytes, so that the range below is pulled in three.\<close>

definition sample_conf :: stream_conf where
  "sample_conf = \<lparr>sc_HeaderBannerEnabled = False, sc_HeaderBannerName = '''', sc_PeerEnabled = False, sc_ChunkSize = 8\<rparr>"

lemma download_range_witness:
  "\<exists>n rsp. getAndStreamFile sample_conf (\<lambda>s. None) mem_read (cache_sources (sample_s3 sample_stored) no_network ''z'')
      (DoCipherByReaderWriter (\<lambda>m. m) (\<lambda>k b. replicate 16 7)) 8 None (sample_s3_cache, sample_peers False) sample_content
      \<lparr>rq_Range = ''bytes=3-18'', rq_IfNoneMatch = '''', rq_disposition = ''''\<rparr> (replicate 32 5) ''inline''
      = Some (Ok ((n, Some (NewAppError 206 ''Partial Content'')), rsp)) \<and>
    rs_Body rsp = [3, 4, 5, 6, 7, 8, 9, 10, 11, 12, 13, 14, 15, 16, 17, 18]"
proof -
  let ?r = "\<lparr>rq_Range = ''bytes=3-18'', rq_IfNoneMatch = '''', rq_disposition = ''''\<rparr> :: http_request"
  have len: "length sample_pt = 20" by (simp add: sample_pt_def)
  have iv: "slice_bytes (o_EncryptIV sample_content) = CreateIV []"
    and sz: "o_ContentSize sample_content = \<lparr>ni_Int64 = int (length sample_pt), ni_Valid = True\<rparr>"
    by (simp_all add: sample_content_def slice_bytes_def len)
  have short: "length sample_pt < 68719476736" by (simp add: len)
  have cache: "cache_ok (sample_s3 sample_stored) (\<lambda>st. True) (ns_String (o_ContentConnector sample_content))
      (XORKeyStream (ctr_stream (\<lambda>k b. replicate 16 7) (replicate 32 5) (CreateIV [])) 0 sample_pt) (sc_ChunkSize sample_conf)
      (sample_s3_cache, sample_peers False)"
    unfolding sample_stored_def [symmetric] by (rule sample_s3_ok) (simp add: sample_conf_def)
  have range: "extractByteRange (rq_Range ?r) = Ok (Some \<lparr>br_Start = 3, br_Stop = 18\<rparr>)"
    using sample_range by simp
  have good: "good_range (Some \<lparr>br_Start = 3, br_Stop = 18\<rparr>) (length sample_pt)"
    by (simp add: good_range_def len)
  have etag: "rq_IfNoneMatch ?r \<noteq> quoted (hex_encode (slice_bytes (o_ContentHash sample_content)))"
    by (simp add: quoted_def)
  have "range_bytes (Some \<lparr>br_Start = 3, br_Stop = 18\<rparr>) sample_pt = [3, 4, 5, 6, 7, 8, 9, 10, 11, 12, 13, 14, 15, 16, 17, 18]"
    by code_simp
  then show ?thesis
    using download_range [OF _ iv sz short cache range good etag, of 8 "\<lambda>s. None" no_network "''z''" "\<lambda>m. m" "''inline''"] by auto
qed

text \<open>C11: content is sent only to a caller with a signed permission to read who passes the check of the access
  service, never of a deleted object, and it is deciphered with the key derived from that permission.\<close>

theorem stream_authorized:
  assumes "getObjectStreamWithObject env stream obj r = Some (Ok ((n, herr), rsp))" and "rs_Body rsp \<noteq> []"
  shows "isUserAllowedToRead (se_sha env) (se_masterKey env) (se_caller env) (se_groups env) obj \<and> \<not> o_IsDeleted obj \<and>
    snd (IsUserAuthorizedForACM (se_service env) (DistinguishedName (se_caller env)) (ns_String (o_RawAcm obj))) = None \<and>
    (\<exists>up fileKey. isUserAllowedToReadWithPermission (se_sha env) (se_masterKey env) (se_caller env) (se_groups env) obj = (True, up) \<and>
       ApplyPassphrase (se_sha env) (se_masterKey env) (p_PermissionIV up) (p_EncryptKey up) = Some fileKey \<and>
       stream obj r fileKey (disposition_of r) = Some (Ok ((n, herr), rsp)))"
proof -
  have del: "\<not> o_IsDeleted obj"
    using assms by (auto simp: getObjectStreamWithObject_def deleted_err_def no_response_def)
  obtain fileKey where key: "file_key env obj = Some (Inr fileKey)"
    using assms del by (auto simp: getObjectStreamWithObject_def deleted_err_def no_response_def split: option.splits sum.splits)
  have acm: "acm_err env obj = None"
    using assms del key by (auto simp: getObjectStreamWithObject_def deleted_err_def no_response_def split: option.splits)
  have "stream obj r fileKey (disposition_of r) = Some (Ok ((n, herr), rsp))"
    using assms del key acm by (auto simp: getObjectStreamWithObject_def deleted_err_def no_response_def split: if_splits)
  moreover have "snd (IsUserAuthorizedForACM (se_service env) (DistinguishedName (se_caller env)) (ns_String (o_RawAcm obj))) = None"
    using acm by (auto simp: acm_err_def split: prod.splits option.splits)
  moreover obtain up where "isUserAllowedToReadWithPermission (se_sha env) (se_masterKey env) (se_caller env) (se_groups env) obj = (True, up)"
      "ApplyPassphrase (se_sha env) (se_masterKey env) (p_PermissionIV up) (p_EncryptKey up) = Some fileKey"
    using key by (auto simp: file_key_def split: prod.splits bool.splits option.splits if_splits)
  ultimately show ?thesis
    using del by (auto simp: isUserAllowedToRead_def)
qed

text \<open>No header that is sent has a carriage return, a line feed or a null in its value, whatever the object's
  name, description, type and marking are.\<close>

theorem headers_clean:
  assumes "getAndStreamFile conf unm rd srcs doc bs room world obj r key disposition = Some (Ok (x, rsp))"
  shows "headers_safe (rs_Header rsp)"
proof -
  have "headers_safe []"
    by (simp add: headers_safe_def)
  then have h1: "headers_safe (add_header ''Content-Type'' (sanitizeAgainstCRLFInHeader (ns_String (o_ContentType obj)))
      (banner_header conf unm obj []))"
    by (auto simp: banner_header_def headers_safe_def sanitize_safe split: option.splits)
  then have "headers_safe (content_headers obj disposition br (add_header ''Content-Type''
      (sanitizeAgainstCRLFInHeader (ns_String (o_ContentType obj))) (banner_header conf unm obj [])))" for br
    by (rule content_headers_safe)
  then show ?thesis
    using assms h1 headers_safe_del \<open>headers_safe []\<close>
    by (auto simp del: assoc_set.simps simp: getAndStreamFile_def Let_def split: res.splits prod.splits option.splits if_splits)
qed

text \<open>A \<open>Range\<close> header with no \<open>=\<close> or with no \<open>-\<close> makes the handler panic.\<close>

theorem range_panics:
  "getAndStreamFile conf unm rd srcs doc bs room world obj \<lparr>rq_Range = ''bytes'', rq_IfNoneMatch = e, rq_disposition = q\<rparr> key disposition = Some Panic \<and>
   getAndStreamFile conf unm rd srcs doc bs room world obj \<lparr>rq_Range = ''bytes=5'', rq_IfNoneMatch = e, rq_disposition = q\<rparr> key disposition = Some Panic"
proof -
  have "extractByteRange ''bytes'' = Panic" "extractByteRange ''bytes=5'' = Panic"
    by code_simp+
  then show ?thesis
    by (simp add: getAndStreamFile_def)
qed

text \<open>The caller and the permission of the access checks, and a stream that sends one byte.\<close>

lemma stream_authorized_witness:
  "\<exists>rsp. getObjectStreamWithObject \<lparr>se_sha = sample_sha, se_masterKey = ''k'', se_caller = sample_caller, se_groups = [],
        se_service = Some sample_service, se_unm = (\<lambda>s. None)\<rparr>
      (\<lambda>obj r key disp. Some (Ok ((1, None), no_response\<lparr>rs_Body := take 1 key\<rparr>)))
      (empty_object\<lparr>o_Permissions := [sample_perm], o_RawAcm := ToNullString ''x'', o_ContentSize := \<lparr>ni_Int64 = 1, ni_Valid = True\<rparr>\<rparr>)
      \<lparr>rq_Range = [], rq_IfNoneMatch = [], rq_disposition = []\<rparr> = Some (Ok ((1, None), rsp)) \<and> rs_Body rsp \<noteq> [] \<and>
    isUserAllowedToRead sample_sha ''k'' sample_caller []
      (empty_object\<lparr>o_Permissions := [sample_perm], o_RawAcm := ToNullString ''x'', o_ContentSize := \<lparr>ni_Int64 = 1, ni_Valid = True\<rparr>\<rparr>)"
proof -
  let ?obj = "empty_object\<lparr>o_Permissions := [sample_perm], o_RawAcm := ToNullString ''x'', o_ContentSize := \<lparr>ni_Int64 = 1, ni_Valid = True\<rparr>\<rparr>"
  let ?env = "\<lparr>se_sha = sample_sha, se_masterKey = ''k'', se_caller = sample_caller, se_groups = [],
        se_service = Some sample_service, se_unm = (\<lambda>s. None)\<rparr>"
  let ?stream = "\<lambda>obj r key disp. Some (Ok ((1::int, None), no_response\<lparr>rs_Body := take 1 key\<rparr>))"
  let ?r = "\<lparr>rq_Range = [], rq_IfNoneMatch = [], rq_disposition = []\<rparr> :: http_request"
  obtain up where up: "isUserAllowedToReadWithPermission sample_sha ''k'' sample_caller [] ?obj = (True, up)"
    "p_EncryptKey up = replicate 32 5"
    using sample_read by blast
  then obtain key where key: "file_key ?env ?obj = Some (Inr key)" "key \<noteq> []"
    by (auto simp: file_key_def ApplyPassphrase_32 simp flip: length_greater_0_conv)
  have acm: "acm_err ?env ?obj = None"
    by (simp add: acm_err_def IsUserAuthorizedForACM_def GetFlattenedACM_def sample_service_def sample_caller_def)
  have run: "getObjectStreamWithObject ?env ?stream ?obj ?r = Some (Ok ((1, None), no_response\<lparr>rs_Body := take 1 key\<rparr>))"
    using key acm by (simp add: getObjectStreamWithObject_def deleted_err_def empty_object_def no_content_def)
  have body: "rs_Body (no_response\<lparr>rs_Body := take 1 key\<rparr>) \<noteq> []"
    using key(2) by simp
  have "isUserAllowedToRead sample_sha ''k'' sample_caller [] ?obj"
    using stream_authorized [OF run body] by simp
  then show ?thesis
    by (intro exI [of _ "no_response\<lparr>rs_Body := take 1 key\<rparr>"] conjI run body)
qed

lemma headers_clean_witness:
  "\<exists>x rsp. getAndStreamFile sample_conf (\<lambda>s. None) mem_read (cache_sources local_storage no_network ''z'')
      (DoCipherByReaderWriter (\<lambda>m. m) (\<lambda>k b. replicate 16 7)) 8 None (sample_cache [] [], sample_peers False)
      (sample_content\<lparr>o_Name := [CHR 0x0D, CHR ''a'']\<rparr>)
      \<lparr>rq_Range = ''x'', rq_IfNoneMatch = [], rq_disposition = []\<rparr> (replicate 32 5) ''inline'' = Some (Ok (x, rsp)) \<and>
    headers_safe (rs_Header rsp)"
proof -
  have "extractByteRange ''x'' = Fail ''could not understand range type''"
    by code_simp
  then obtain x rsp where run: "getAndStreamFile sample_conf (\<lambda>s. None) mem_read (cache_sources local_storage no_network ''z'')
      (DoCipherByReaderWriter (\<lambda>m. m) (\<lambda>k b. replicate 16 7)) 8 None (sample_cache [] [], sample_peers False)
      (sample_content\<lparr>o_Name := [CHR 0x0D, CHR ''a'']\<rparr>)
      \<lparr>rq_Range = ''x'', rq_IfNoneMatch = [], rq_disposition = []\<rparr> (replicate 32 5) ''inline'' = Some (Ok (x, rsp))"
    by (simp add: getAndStreamFile_def)
  then show ?thesis
    using headers_clean [OF run] by blast
qed

end
