(* ===== verification/Dao_Store.thy ===== *)
theory Dao_Store
  imports Dao_Query Server_Base Acm_Auth
begin

text \<open>
  The tables the data layer works on, with the triggers of the current schema
  (\<open>cmd/odrive-database/migrations/20170630_combined.sql\<close>), and the reads every operation starts
  from: an object with its permissions and properties (\<open>dao.GetObject.go\<close>,
  \<open>dao.GetPermissionsForObject.go\<close>, \<open>dao.GetPropertiesForObject.go\<close>, \<open>dao.AcmGrantee.go\<close>) and a page of
  its children (\<open>dao.GetChildObjects.go\<close>).

  A statement is a function on the tables; a transaction gives the tables back as they were when it
  fails, but not the cache of grantees, which is memory of the process. The clock, the digest of a
  change token, the normal form of an owner, the orders in which MySQL returns rows that a query
  orders, and the snippets the database holds for a user are arguments (\<open>db_env\<close>). A lost connection is not modelled; an error is one of the code or of a
  trigger. Also arguments are the identifier a new row gets (\<open>de_fresh\<close>), the JSON library, the number of
  retries after a deadlock (\<open>DeadlockRetryCounter\<close>), and the random name of a content.
\<close>

definition ErrMissingID :: string where "ErrMissingID = ''missing id field''"
definition ErrMissingChangeToken :: string where "ErrMissingChangeToken = ''missing changetoken''"
definition ErrMissingModifiedBy :: string where
  "ErrMissingModifiedBy = ''object modifiedby was not specified for object being updated''"
definition ErrNoRows :: string where "ErrNoRows = ''sql: no rows in result set''"
definition ErrMissingTypeID :: string where "ErrMissingTypeID = ''missing typeid field''"

subsection \<open>Tables\<close>

text \<open>A property row carries the object it belongs to; the properties and permissions of an object row are
  in their own tables. Types are identifier, name and whether deleted; users are their distinguished names;
  an ACM is its flattened text and its identifier, and its parts are pairs of a key and a value. Of the values,
  \<open>db_acmvalue2_own\<close> remembers those that a transaction of their own has added.\<close>

record Db =
  db_object :: "ODObject list"
  db_a_object :: "ODObject list"
  db_type :: "(bytes \<times> string \<times> bool) list"
  db_permission :: "ODObjectPermission list"
  db_property :: "(bytes \<times> ODObjectPropertyEx) list"
  db_grantee :: "(string \<times> ODAcmGrantee) list"
  db_user :: "string list"
  db_acm2 :: "(string \<times> int) list"
  db_acmkey2 :: "string list"
  db_acmvalue2 :: "string list"
  db_acmvalue2_own :: "string list"
  db_acmpart2 :: "(int \<times> string \<times> string) list"

record DataAccessLayer =
  da_db :: Db
  da_AcmGranteeCache :: "(string \<times> ODAcmGrantee) list"

record db_env =
  de_now :: int
  de_token :: "bytes \<Rightarrow> int \<Rightarrow> int \<Rightarrow> string"
  de_owner :: "string \<Rightarrow> string"
  de_recent :: "ODObject list \<Rightarrow> ODObject list"
  de_by_grantee :: "ODObjectPermission list \<Rightarrow> ODObjectPermission list"
  de_by_name :: "ODObjectPropertyEx list \<Rightarrow> ODObjectPropertyEx list"
  de_snippets :: "slice \<Rightarrow> string + RawSnippetFields list"
  de_fresh :: "bytes list \<Rightarrow> bytes"
  de_unmarshal :: unmarshal
  de_marshal :: marshal
  de_retries :: nat
  de_random_name :: "Db \<Rightarrow> string"

text \<open>What the orders of MySQL keep: the rows.\<close>

definition env_ok :: "db_env \<Rightarrow> bool" where
  "env_ok env \<longleftrightarrow> (\<forall>xs. mset (de_recent env xs) = mset xs) \<and>
     (\<forall>xs. mset (de_by_grantee env xs) = mset xs) \<and> (\<forall>xs. mset (de_by_name env xs) = mset xs)"

lemma env_ok_sets:
  assumes "env_ok env"
  shows "set (de_recent env xs) = set xs" "length (de_recent env xs) = length xs"
    "set (de_by_grantee env ps) = set ps" "set (de_by_name env ns) = set ns"
  using assms by (metis env_ok_def set_mset_mset size_mset)+

definition type_row :: "Db \<Rightarrow> slice \<Rightarrow> (string \<times> bool) option" where
  "type_row db t = (case t of None \<Rightarrow> None | Some b \<Rightarrow> map_of (db_type db) b)"

definition live_type :: "Db \<Rightarrow> slice \<Rightarrow> bool" where
  "live_type db t \<longleftrightarrow> (case type_row db t of Some (n, del) \<Rightarrow> \<not> del | None \<Rightarrow> False)"

definition object_row :: "Db \<Rightarrow> slice \<Rightarrow> ODObject option" where
  "object_row db oid = (case oid of None \<Rightarrow> None | Some b \<Rightarrow> find (\<lambda>x. o_ID x = Some b) (db_object db))"

subsection \<open>The triggers on objects\<close>

text \<open>\<open>tu_object\<close>, before an update: what it rejects, and the row it stores. The statements of the program
  set neither the identifier nor the dates and counts it guards.\<close>

definition tu_object_error :: "Db \<Rightarrow> ODObject \<Rightarrow> ODObject \<Rightarrow> string" where
  "tu_object_error db old new =
     (if o_ChangeToken new = '''' then ''Field changeToken required '' else '''') @
     (if \<not> live_type db (o_TypeID new) then ''Field typeId required '' else '''') @
     (if slice_len (o_ParentID new) \<noteq> 0 \<and>
         \<not> list_ex (\<lambda>x. (\<not> o_IsDeleted x \<or> o_IsDeleted new \<noteq> o_IsDeleted old) \<and> o_ID x = o_ParentID new) (db_object db)
      then ''Field parentId must be valid '' else '''')"

definition tu_object_row :: "db_env \<Rightarrow> ODObject \<Rightarrow> ODObject \<Rightarrow> ODObject" where
  "tu_object_row env old new0 =
     (let new1 = new0\<lparr>
            o_ContainsUSPersonsData := (if o_ContainsUSPersonsData new0 = '''' then o_ContainsUSPersonsData old
              else o_ContainsUSPersonsData new0),
            o_ExemptFromFOIA := (if o_ExemptFromFOIA new0 = '''' then o_ExemptFromFOIA old else o_ExemptFromFOIA new0),
            o_ParentID := (if slice_len (o_ParentID new0) = 0 then None else o_ParentID new0),
            o_ModifiedDate := de_now env\<rparr>;
          new2 = (if o_IsDeleted new1 \<noteq> o_IsDeleted old then
              (if o_IsDeleted new1
               then new1\<lparr>o_DeletedDate := Some (de_now env), o_DeletedBy := \<lparr>ns_String = o_ModifiedBy new1, ns_Valid = True\<rparr>\<rparr>
               else new1\<lparr>o_DeletedDate := None, o_DeletedBy := null_string\<rparr>)
            else new1);
          count' = o_ChangeCount old + 1;
          owner = (if ns_String (o_OwnedBy new2) = '''' then ''user/'' @ o_CreatedBy new2 else ns_String (o_OwnedBy new2))
      in new2\<lparr>o_ChangeCount := count',
              o_ChangeToken := de_token env (slice_bytes (o_ID old)) count' (de_now env),
              o_OwnedBy := \<lparr>ns_String = de_owner env owner, ns_Valid = True\<rparr>\<rparr>)"

text \<open>An update of the row with an identifier; when no row has it, none is affected.\<close>

definition update_object :: "db_env \<Rightarrow> slice \<Rightarrow> (ODObject \<Rightarrow> ODObject) \<Rightarrow> Db \<Rightarrow> string + Db" where
  "update_object env oid set_fields db =
     (case object_row db oid of
        None \<Rightarrow> Inr db
      | Some old \<Rightarrow>
         (let e = tu_object_error db old (set_fields old) in
          if e \<noteq> '''' then Inl (e @ ''when updating record'')
          else (let row = tu_object_row env old (set_fields old) in
            Inr (db\<lparr>db_object := map (\<lambda>x. if o_ID x = oid then row else x) (db_object db),
                    db_a_object := db_a_object db @ [row]\<rparr>))))"

subsection \<open>Reading\<close>

definition getAcmGranteeInTransaction :: "string \<Rightarrow> DataAccessLayer
    \<Rightarrow> (ODAcmGrantee \<times> string option) \<times> DataAccessLayer" where
  "getAcmGranteeInTransaction grantee dao =
     (case map_of (da_AcmGranteeCache dao) grantee of
        Some g \<Rightarrow> ((g, None), dao)
      | None \<Rightarrow> (case map_of (db_grantee (da_db dao)) grantee of
          None \<Rightarrow> ((empty_grantee, Some ErrNoRows), dao)
        | Some g \<Rightarrow> ((g, None), dao\<lparr>da_AcmGranteeCache := assoc_set grantee g (da_AcmGranteeCache dao)\<rparr>)))"

fun load_grantees :: "ODObjectPermission list \<Rightarrow> DataAccessLayer
    \<Rightarrow> (ODObjectPermission list \<times> string option) \<times> DataAccessLayer" where
  "load_grantees [] dao = (([], None), dao)"
| "load_grantees (p # ps) dao =
     (case getAcmGranteeInTransaction (p_Grantee p) dao of
        ((g, Some e), dao1) \<Rightarrow> ((p\<lparr>p_AcmGrantee := g\<rparr> # ps, Some e), dao1)
      | ((g, None), dao1) \<Rightarrow> (case load_grantees ps dao1 of
          ((rs, e), dao2) \<Rightarrow> ((p\<lparr>p_AcmGrantee := g\<rparr> # rs, e), dao2)))"

definition permission_rows :: "Db \<Rightarrow> slice \<Rightarrow> ODObjectPermission list" where
  "permission_rows db oid = filter (\<lambda>p. \<not> p_IsDeleted p \<and> oid \<noteq> None \<and> p_ObjectID p = oid) (db_permission db)"

definition getPermissionsForObjectInTransaction :: "db_env \<Rightarrow> slice \<Rightarrow> DataAccessLayer
    \<Rightarrow> (ODObjectPermission list \<times> string option) \<times> DataAccessLayer" where
  "getPermissionsForObjectInTransaction env oid dao =
     load_grantees (de_by_grantee env (permission_rows (da_db dao) oid)) dao"

definition getPropertiesForObjectInTransaction :: "db_env \<Rightarrow> slice \<Rightarrow> Db \<Rightarrow> ODObjectPropertyEx list" where
  "getPropertiesForObjectInTransaction env oid db =
     de_by_name env (map snd (filter (\<lambda>(k, p). \<not> pr_IsDeleted p \<and> oid = Some k) (db_property db)))"

text \<open>The object is joined with its type; on an error it is returned as far as it was read.\<close>

definition getObjectInTransaction :: "db_env \<Rightarrow> slice \<Rightarrow> bool \<Rightarrow> bool \<Rightarrow> DataAccessLayer
    \<Rightarrow> (ODObject \<times> string option) \<times> DataAccessLayer" where
  "getObjectInTransaction env oid loadPermissions loadProperties dao =
     (if slice_len oid = 0 then ((empty_object, Some ErrMissingID), dao)
      else (case object_row (da_db dao) oid of
         None \<Rightarrow> ((empty_object, Some ErrNoRows), dao)
       | Some row \<Rightarrow> (case type_row (da_db dao) (o_TypeID row) of
            None \<Rightarrow> ((empty_object, Some ErrNoRows), dao)
          | Some (typeName, _) \<Rightarrow>
             (let x = row\<lparr>o_TypeName := \<lparr>ns_String = typeName, ns_Valid = True\<rparr>, o_Permissions := [], o_Properties := []\<rparr> in
              case (if loadPermissions then getPermissionsForObjectInTransaction env oid dao else (([], None), dao)) of
                ((ps, Some e), dao1) \<Rightarrow> ((x\<lparr>o_Permissions := ps\<rparr>, Some e), dao1)
              | ((ps, None), dao1) \<Rightarrow>
                 ((x\<lparr>o_Permissions := ps,
                     o_Properties := (if loadProperties then getPropertiesForObjectInTransaction env oid (da_db dao1) else [])\<rparr>,
                   None), dao1)))))"

subsection \<open>A page of children\<close>

text \<open>The number of pages for a page size that was sanitized: the division is by one at least, and the loop
  ends (\<open>page_count_nonneg\<close>).\<close>

definition page_count :: "int \<Rightarrow> int \<Rightarrow> int" where
  "page_count totalRows pageSize = (case GetPageCount totalRows pageSize of Some (Ok n) \<Rightarrow> n | _ \<Rightarrow> 0)"

fun load_objects :: "db_env \<Rightarrow> bool \<Rightarrow> bool \<Rightarrow> ODObject list \<Rightarrow> DataAccessLayer
    \<Rightarrow> (ODObject list \<times> string option) \<times> DataAccessLayer" where
  "load_objects env loadPermissions loadProperties [] dao = (([], None), dao)"
| "load_objects env loadPermissions loadProperties (x # xs) dao =
     (case getObjectInTransaction env (o_ID x) loadPermissions loadProperties dao of
        ((y, Some e), dao1) \<Rightarrow> ((x # xs, Some e), dao1)
      | ((y, None), dao1) \<Rightarrow> (case load_objects env loadPermissions loadProperties xs dao1 of
          ((ys, e), dao2) \<Rightarrow> ((y # ys, e), dao2)))"

definition child_rows :: "Db \<Rightarrow> slice \<Rightarrow> ODObject list" where
  "child_rows db oid = filter (\<lambda>x. \<not> o_IsDeleted x \<and> oid \<noteq> None \<and> o_ParentID x = oid \<and> type_row db (o_TypeID x) \<noteq> None)
     (db_object db)"

text \<open>The page of a query for rows, for a request that has no filter and no sort order: most recent first. The
  query gives identifiers only, and each object is then read in full.\<close>

definition load_page :: "db_env \<Rightarrow> int \<Rightarrow> int \<Rightarrow> bool \<Rightarrow> bool \<Rightarrow> ODObject list \<Rightarrow> DataAccessLayer
    \<Rightarrow> (ODObjectResultset \<times> string option) \<times> DataAccessLayer" where
  "load_page env pageNumber pageSize loadPermissions loadProperties rows dao =
     (let stubs = map (\<lambda>x. empty_object\<lparr>o_ID := o_ID x\<rparr>) (page_rows pageNumber pageSize (de_recent env rows));
          totalRows = int (length rows)
      in case load_objects env loadPermissions loadProperties stubs dao of
        ((xs, e), dao1) \<Rightarrow>
          ((\<lparr>rs_TotalRows = totalRows, rs_PageCount = page_count totalRows (GetSanitizedPageSize pageSize),
             rs_PageNumber = GetSanitizedPageNumber pageNumber, rs_PageSize = GetSanitizedPageSize pageSize,
             rs_PageRows = int (length xs), rs_Objects = xs\<rparr>, e), dao1))"

definition getChildObjectsInTransaction :: "db_env \<Rightarrow> int \<Rightarrow> int \<Rightarrow> slice \<Rightarrow> bool \<Rightarrow> bool \<Rightarrow> DataAccessLayer
    \<Rightarrow> (ODObjectResultset \<times> string option) \<times> DataAccessLayer" where
  "getChildObjectsInTransaction env pageNumber pageSize oid loadPermissions loadProperties dao =
     load_page env pageNumber pageSize loadPermissions loadProperties (child_rows (da_db dao) oid) dao"

declare count_up.simps [code]

subsection \<open>Reading changes the cache only\<close>

lemma getAcmGrantee_db [simp]: "da_db (snd (getAcmGranteeInTransaction g dao)) = da_db dao"
  by (auto simp: getAcmGranteeInTransaction_def split: option.splits)

lemma getAcmGrantee_dbD: "getAcmGranteeInTransaction k dao = (r, dao') \<Longrightarrow> da_db dao' = da_db dao"
  by (metis getAcmGrantee_db snd_conv)

lemma load_grantees_db [simp]: "da_db (snd (load_grantees ps dao)) = da_db dao"
proof (induction ps arbitrary: dao)
  case (Cons p ps)
  obtain g e dao1 where r: "getAcmGranteeInTransaction (p_Grantee p) dao = ((g, e), dao1)"
    by (metis surj_pair)
  then have "da_db dao1 = da_db dao"
    by (metis getAcmGrantee_db snd_conv)
  then show ?case
    using Cons [of dao1] r by (auto split: option.splits prod.splits)
qed simp

lemma load_grantees_dbD: "load_grantees ps dao = (r, dao1) \<Longrightarrow> da_db dao1 = da_db dao"
  by (metis load_grantees_db snd_conv)

lemma getObject_db [simp]: "da_db (snd (getObjectInTransaction env i lp lr dao)) = da_db dao"
  by (auto simp: getObjectInTransaction_def getPermissionsForObjectInTransaction_def Let_def
      split: option.splits prod.splits dest: load_grantees_dbD)

lemma getObject_dbD: "getObjectInTransaction env i lp lr dao = (r, dao1) \<Longrightarrow> da_db dao1 = da_db dao"
  by (metis getObject_db snd_conv)

lemma load_objects_db: "load_objects env lp lr xs dao = (r, dao1) \<Longrightarrow> da_db dao1 = da_db dao"
proof (induction xs arbitrary: dao r dao1)
  case (Cons x xs)
  obtain y e dao2 where g: "getObjectInTransaction env (o_ID x) lp lr dao = ((y, e), dao2)"
    by (metis surj_pair)
  then show ?case
    using Cons getObject_dbD [OF g] by (auto split: option.splits prod.splits)
qed simp

lemma load_page_db: "load_page env n s lp lr rows dao = (r, dao1) \<Longrightarrow> da_db dao1 = da_db dao"
  by (auto simp: load_page_def Let_def split: prod.splits dest: load_objects_db)

lemma getChildObjects_db:
  "getChildObjectsInTransaction env n s i lp lr dao = (r, dao1) \<Longrightarrow> da_db dao1 = da_db dao"
  by (auto simp: getChildObjectsInTransaction_def dest: load_page_db)

text \<open>What a successful read says of the row.\<close>

lemma getObject_row:
  assumes "getObjectInTransaction env i lp lr dao = ((x, None), dao1)"
  obtains row n ps qs where "object_row (da_db dao) i = Some row" and "i \<noteq> None" and "o_ID x = i"
    and "o_ID row = i" and "x = row\<lparr>o_TypeName := n, o_Permissions := ps, o_Properties := qs\<rparr>"
  using assms
  by (auto simp: getObjectInTransaction_def object_row_def Let_def find_Some_iff split: option.splits prod.splits if_splits)

subsection \<open>A small drive\<close>

text \<open>A folder with two children, one of which the user may delete.\<close>

definition sample_env :: db_env where
  "sample_env = \<lparr>de_now = 7, de_token = (\<lambda>b c t. replicate (nat c + 1) CHR ''t''), de_owner = (\<lambda>x. x),
     de_recent = (\<lambda>xs. xs), de_by_grantee = (\<lambda>xs. xs), de_by_name = (\<lambda>xs. xs),
     de_snippets = (\<lambda>i. Inr [\<lparr>FieldName = ''f_share'', Treatment = ''ALLOWED'', FieldValues = [''cn_a'']\<rparr>]),
     de_fresh = (\<lambda>ids. replicate (fold max (map length ids) 0 + 1) 0),
     de_unmarshal = (\<lambda>s. Some (JObj [(''f_share'', JArr [JStr s])])), de_marshal = (\<lambda>j. Some ''n''), de_retries = 3,
     de_random_name = (\<lambda>db. ''rnd'')\<rparr>"

definition sample_row :: "8 word \<Rightarrow> slice \<Rightarrow> ODObject" where
  "sample_row k parent = empty_object\<lparr>o_ID := Some [k], o_ParentID := parent, o_TypeID := Some [9], o_ChangeToken := ''t''\<rparr>"

definition sample_grant :: "8 word \<Rightarrow> bool \<Rightarrow> ODObjectPermission" where
  "sample_grant k del = empty_permission\<lparr>p_ObjectID := Some [k], p_Grantee := ''cn_a'', p_AllowRead := True, p_AllowDelete := del\<rparr>"

definition sample_db :: Db where
  "sample_db = \<lparr>db_object = [sample_row 1 None, sample_row 2 (Some [1]), sample_row 3 (Some [1])], db_a_object = [],
     db_type = [([9], ''File'', False)], db_permission = [sample_grant 2 True, sample_grant 3 False], db_property = [],
     db_grantee = [(''cn_a'', empty_grantee\<lparr>g_Grantee := ''cn_a''\<rparr>)], db_user = [''cn=a''], db_acm2 = [], db_acmkey2 = [],
     db_acmvalue2 = [], db_acmvalue2_own = [], db_acmpart2 = []\<rparr>"

definition sample_dao :: DataAccessLayer where
  "sample_dao = \<lparr>da_db = sample_db, da_AcmGranteeCache = []\<rparr>"

lemma sample_env_ok: "env_ok sample_env"
  by (simp add: env_ok_def sample_env_def)

end
