(* ===== verification/Object_Acm.thy ===== *)
theory Object_Acm
  imports Dao_Store "HOL-Library.List_Lexorder" "HOL-Library.Char_ord"
begin

text \<open>
  The access control metadata (ACM) of an object as the data layer keeps it (\<open>dao.ObjectAcm.go\<close>): the flattened
  text that names an ACM, its row, and its parts. Two objects share a row, and so the answer of who may see
  them, when their flattened texts are equal; the theorems say when that is.
\<close>

subsection \<open>The flattened text\<close>

definition acm_field :: "string \<Rightarrow> bool" where
  "acm_field k \<longleftrightarrow> take 2 k = ''f_'' \<or> k = ''dissem_countries''"

text \<open>The kind of a null is asked for, which panics; what is not a string, or is empty, is left out.\<close>

fun array_strings :: "json list \<Rightarrow> string list res" where
  "array_strings [] = Ok []"
| "array_strings (JNull # xs) = Panic"
| "array_strings (JStr s # xs) = (if length s > 0 then bind_res (array_strings xs) (\<lambda>ss. Ok (s # ss)) else array_strings xs)"
| "array_strings (_ # xs) = array_strings xs"

text \<open>The slice of values has the length of the array: what was left out sorts first, as empty strings.\<close>

definition flat_value :: "json \<Rightarrow> string res" where
  "flat_value j = (case j of
     JArr xs \<Rightarrow> bind_res (array_strings xs)
       (\<lambda>ss. Ok (join_str '','' (sort_strings (ss @ replicate (length xs - length ss) ''''))))
   | _ \<Rightarrow> Panic)"

fun flat_fields :: "(string \<times> json) list \<Rightarrow> string list \<Rightarrow> nat \<Rightarrow> string \<Rightarrow> string res" where
  "flat_fields acmMap [] fieldOutputCounter flattenedACM = Ok flattenedACM"
| "flat_fields acmMap (k # ks) fieldOutputCounter flattenedACM =
     (if acm_field k then
        bind_res (case map_of acmMap k of Some v \<Rightarrow> flat_value v | None \<Rightarrow> Panic) (\<lambda>v.
          flat_fields acmMap ks (fieldOutputCounter + 1)
            (flattenedACM @ (if fieldOutputCounter > 0 then '';'' else '''') @ k @ ''='' @ v))
      else flat_fields acmMap ks fieldOutputCounter flattenedACM)"

definition getOverallFlattenedACM :: "(string \<times> json) list \<Rightarrow> string res" where
  "getOverallFlattenedACM acmMap = flat_fields acmMap (sort_strings (map fst acmMap)) 0 ''''"

subsection \<open>Rows\<close>

definition next_acm2 :: "Db \<Rightarrow> int" where
  "next_acm2 db = fold max (map snd (db_acm2 db)) 0 + 1"

text \<open>The row is added in the loop of retries, so with none it is not.\<close>

definition getAcm2ByNameInTransaction :: "db_env \<Rightarrow> string \<Rightarrow> bool \<Rightarrow> Db \<Rightarrow> ((int \<times> bool) \<times> string option) \<times> Db" where
  "getAcm2ByNameInTransaction env namedValue addIfMissing db =
     (case map_of (db_acm2 db) namedValue of
        Some i \<Rightarrow> (((i, False), None), db)
      | None \<Rightarrow>
          (if de_retries env > 0 \<and> addIfMissing
           then (((next_acm2 db, True), None), db\<lparr>db_acm2 := (namedValue, next_acm2 db) # db_acm2 db\<rparr>)
           else (((0, False), Some ErrNoRows), db)))"

text \<open>The names of keys and values are added in a transaction of their own.\<close>

definition getAcmKey2ByName :: "db_env \<Rightarrow> string \<Rightarrow> bool \<Rightarrow> Db \<Rightarrow> string option \<times> Db" where
  "getAcmKey2ByName env namedValue addIfMissing db =
     (if namedValue \<in> set (db_acmkey2 db) then (None, db)
      else if de_retries env > 0 \<and> addIfMissing then (None, db\<lparr>db_acmkey2 := namedValue # db_acmkey2 db\<rparr>)
      else (Some (''error creating acm key when missing: '' @ ErrNoRows), db))"

definition getAcmValue2ByName :: "db_env \<Rightarrow> string \<Rightarrow> bool \<Rightarrow> Db \<Rightarrow> string option \<times> Db" where
  "getAcmValue2ByName env namedValue addIfMissing db =
     (if namedValue \<in> set (db_acmvalue2 db) then (None, db)
      else if de_retries env > 0 \<and> addIfMissing then (None, 
        db\<lparr>db_acmvalue2 := namedValue # db_acmvalue2 db, db_acmvalue2_own := namedValue # db_acmvalue2_own db\<rparr>)
      else (Some (''error creating acm value when missing value '' @ namedValue @ '': '' @ ErrNoRows), db))"

definition createAcmPart2ForACMInTransaction :: "int \<Rightarrow> string \<Rightarrow> string \<Rightarrow> Db \<Rightarrow> Db" where
  "createAcmPart2ForACMInTransaction acm key nm db = db\<lparr>db_acmpart2 := (acm, key, nm) # db_acmpart2 db\<rparr>"

text \<open>The strings of an array, each once and none blank.\<close>

fun acm_values :: "json list \<Rightarrow> string list \<Rightarrow> string list res" where
  "acm_values [] acmValues = Ok acmValues"
| "acm_values (JNull # xs) acmValues = Panic"
| "acm_values (JStr s # xs) acmValues =
     (if length (trim_space s) = 0 \<or> s \<in> set acmValues then acm_values xs acmValues else acm_values xs (acmValues @ [s]))"
| "acm_values (_ # xs) acmValues = acm_values xs acmValues"

fun add_values :: "db_env \<Rightarrow> int \<Rightarrow> string \<Rightarrow> string list \<Rightarrow> Db \<Rightarrow> string option \<times> Db" where
  "add_values env acm key [] db = (None, db)"
| "add_values env acm key (v # vs) db =
     (if length (trim_space v) = 0 then add_values env acm key vs db
      else (case getAcmValue2ByName env v True db of
          (Some e, db1) \<Rightarrow> (Some e, db1)
        | (None, db1) \<Rightarrow> add_values env acm key vs (createAcmPart2ForACMInTransaction acm key v db1)))"

fun add_parts :: "db_env \<Rightarrow> int \<Rightarrow> (string \<times> json) list \<Rightarrow> Db \<Rightarrow> (string option \<times> Db) res" where
  "add_parts env acm [] db = Ok (None, db)"
| "add_parts env acm ((k, j) # m) db =
     (if acm_field k then
        (case getAcmKey2ByName env k True db of
           (Some e, db1) \<Rightarrow> Ok (Some e, db1)
         | (None, db1) \<Rightarrow>
             bind_res (case j of JNull \<Rightarrow> Ok [] | JArr xs \<Rightarrow> acm_values xs [] | _ \<Rightarrow> Panic) (\<lambda>vs.
               case add_values env acm k vs db1 of
                 (Some e, db2) \<Rightarrow> Ok (Some e, db2)
               | (None, db2) \<Rightarrow> add_parts env acm m db2))
      else add_parts env acm m db)"

text \<open>The keys of the map are visited in the order of the list, which stands for the order Go picks.\<close>

definition setObjectACM2ForObjectInTransaction :: "db_env \<Rightarrow> ODObject \<Rightarrow> Db \<Rightarrow> ((ODObject \<times> bool \<times> string option) \<times> Db) res" where
  "setObjectACM2ForObjectInTransaction env obj db =
     (case de_unmarshal env (ns_String (o_RawAcm obj)) of
        None \<Rightarrow> Ok ((obj, False, Some ''unmarshal''), db)
      | Some (JObj acmMap) \<Rightarrow>
          bind_res (getOverallFlattenedACM acmMap) (\<lambda>overallFlattenedACM.
            case getAcm2ByNameInTransaction env overallFlattenedACM True db of
              ((_, Some e), db1) \<Rightarrow> Ok ((obj, False, Some e), db1)
            | (((acm, acmCreated), None), db1) \<Rightarrow>
                (let obj1 = obj\<lparr>o_ACMID := acm\<rparr> in
                 if acmCreated then
                   bind_res (add_parts env acm acmMap db1) (\<lambda>r. case r of
                       (Some e, db2) \<Rightarrow> Ok ((obj1, False, Some e), db2)
                     | (None, db2) \<Rightarrow> Ok ((obj1, True, None), db2))
                 else Ok ((obj1, False, None), db1)))
      | Some _ \<Rightarrow> Ok ((obj, False, Some ''Unable to convert ACM to map''), db))"

subsection \<open>Sorting strings is sorting\<close>

lemma str_le_le: "str_le s t \<longleftrightarrow> s \<le> t"
  by (induction s t rule: str_le.induct) (auto simp: less_char_def Let_def)

lemma insert_str_insort: "insert_str x ys = insort x ys"
  by (induction ys) (auto simp: str_le_le)

lemma sort_strings_sort: "sort_strings xs = sort xs"
  unfolding sort_strings_def sort_key_def by (induction xs) (auto simp: insert_str_insort)

subsection \<open>When two ACMs are one\<close>

fun res_map :: "('a \<Rightarrow> 'b res) \<Rightarrow> 'a list \<Rightarrow> 'b list res" where
  "res_map f [] = Ok []"
| "res_map f (x # xs) = bind_res (f x) (\<lambda>y. bind_res (res_map f xs) (\<lambda>ys. Ok (y # ys)))"

lemma res_map_Ok: "res_map f xs = Ok ys \<longleftrightarrow> list_all2 (\<lambda>x y. f x = Ok y) xs ys"
  by (induction xs arbitrary: ys) (auto simp: bind_res_Ok_iff list_all2_Cons1)

lemma res_map_cong: "(\<And>x. x \<in> set xs \<Longrightarrow> f x = g x) \<Longrightarrow> res_map f xs = res_map g xs"
  by (induction xs) auto

lemma bind_res_assoc: "bind_res (bind_res r f) g = bind_res r (\<lambda>x. bind_res (f x) g)"
  by (cases r) auto

definition flat_entry :: "(string \<times> json) list \<Rightarrow> string \<Rightarrow> string res" where
  "flat_entry m k = bind_res (case map_of m k of Some v \<Rightarrow> flat_value v | None \<Rightarrow> Panic) (\<lambda>v. Ok (k @ ''='' @ v))"

definition acm_keys :: "(string \<times> json) list \<Rightarrow> string list" where
  "acm_keys m = sort (filter acm_field (map fst m))"

lemma join_str_Cons: "join_str sep (x # xs) = x @ (if xs = [] then '''' else sep @ join_str sep xs)"
  by (cases xs) auto

text \<open>The flattened text is the entries of the fields, in the order of their names, with semicolons between.\<close>

lemma flat_fields_join:
  "flat_fields m ks n acc = bind_res (res_map (flat_entry m) (filter acm_field ks))
     (\<lambda>es. Ok (acc @ (if es = [] then '''' else (if n > 0 then '';'' else '''') @ join_str '';'' es)))"
proof (induction ks arbitrary: n acc)
  case (Cons k ks)
  show ?case
  proof (cases "acm_field k")
    case True
    show ?thesis
    proof (cases "flat_entry m k")
      case (Ok e)
      then obtain v where "(case map_of m k of Some v \<Rightarrow> flat_value v | None \<Rightarrow> Panic) = Ok v" "e = k @ ''='' @ v"
        by (auto simp: flat_entry_def bind_res_Ok_iff)
      then show ?thesis
        using True Ok Cons by (cases "res_map (flat_entry m) (filter acm_field ks)") (auto simp: join_str_Cons)
    next
      case (Fail x)
      then show ?thesis
        using True by (cases "case map_of m k of Some v \<Rightarrow> flat_value v | None \<Rightarrow> Panic") (auto simp: flat_entry_def)
    next
      case Panic
      then show ?thesis
        using True by (cases "case map_of m k of Some v \<Rightarrow> flat_value v | None \<Rightarrow> Panic") (auto simp: flat_entry_def)
    qed
  qed (simp add: Cons)
qed simp

lemma flattened_join: "getOverallFlattenedACM m =
    bind_res (res_map (flat_entry m) (acm_keys m)) (\<lambda>es. Ok (join_str '';'' es))"
proof -
  have "filter acm_field (sort (map fst m)) = acm_keys m"
    by (simp add: acm_keys_def filter_sort)
  then show ?thesis
    by (cases "res_map (flat_entry m) (acm_keys m)")
      (auto simp: getOverallFlattenedACM_def flat_fields_join sort_strings_sort)
qed

text \<open>Two maps with the same fields, each with the same values in some order.\<close>

definition same_acm :: "(string \<times> json) list \<Rightarrow> (string \<times> json) list \<Rightarrow> bool" where
  "same_acm m m' \<longleftrightarrow> acm_keys m = acm_keys m' \<and>
     (\<forall>k \<in> set (acm_keys m). \<exists>xs ys. map_of m k = Some (JArr xs) \<and> map_of m' k = Some (JArr ys) \<and> mset xs = mset ys)"

definition kept_strings :: "json list \<Rightarrow> string list" where
  "kept_strings xs = concat (map (\<lambda>j. case j of JStr s \<Rightarrow> if s = '''' then [] else [s] | _ \<Rightarrow> []) xs)"

lemma array_strings_eq: "array_strings xs = (if JNull \<in> set xs then Panic else Ok (kept_strings xs))"
  by (induction xs rule: array_strings.induct) (auto simp: kept_strings_def)

lemma mset_concat_map: "mset (concat (map f xs)) = (\<Sum>x \<in># mset xs. mset (f x))"
  by (induction xs) simp_all

lemma sort_mset_eq: "mset xs = mset ys \<Longrightarrow> sort xs = sort (ys :: 'a :: linorder list)"
  by (rule properties_for_sort) simp_all

lemma flat_value_perm:
  assumes "mset xs = mset ys"
  shows "flat_value (JArr xs) = flat_value (JArr ys)"
proof -
  have k: "mset (kept_strings xs) = mset (kept_strings ys)"
    unfolding kept_strings_def mset_concat_map by (simp add: assms)
  then have len: "length (kept_strings xs) = length (kept_strings ys)" "length xs = length ys"
    using assms mset_eq_length by blast+
  have "set xs = set ys"
    using assms mset_eq_setD by blast
  then show ?thesis
    using sort_mset_eq [of "kept_strings xs @ replicate (length xs - length (kept_strings xs)) ''''"
        "kept_strings ys @ replicate (length ys - length (kept_strings ys)) ''''"] k len
    by (simp add: flat_value_def array_strings_eq sort_strings_sort)
qed

text \<open>The flattened text of an ACM, and so its row, does not depend on the order of the fields, which Go
  picks at random, nor on the order of the values of a field; nor does it on what is not a field.\<close>

theorem flattened_order:
  assumes "same_acm m m'"
  shows "getOverallFlattenedACM m = getOverallFlattenedACM m'"
proof -
  have "flat_entry m k = flat_entry m' k" if k: "k \<in> set (acm_keys m)" for k
  proof -
    have "\<exists>xs ys. map_of m k = Some (JArr xs) \<and> map_of m' k = Some (JArr ys) \<and> mset xs = mset ys"
      using assms k unfolding same_acm_def by blast
    then obtain xs ys where "map_of m k = Some (JArr xs)" "map_of m' k = Some (JArr ys)" "mset xs = mset ys"
      by blast
    then show ?thesis
      using flat_value_perm [OF \<open>mset xs = mset ys\<close>] by (simp add: flat_entry_def)
  qed
  then have "res_map (flat_entry m) (acm_keys m) = res_map (flat_entry m') (acm_keys m')"
    using assms res_map_cong unfolding same_acm_def by metis
  then show ?thesis
    by (simp add: flattened_join)
qed

lemma flattened_order_witness:
  "getOverallFlattenedACM [(''f_macs'', JArr []), (''f_share'', JArr [JStr ''a'', JStr ''b'']), (''version'', JStr ''2'')]
   = getOverallFlattenedACM [(''f_share'', JArr [JStr ''b'', JStr ''a'']), (''f_macs'', JArr [])]"
  by (rule flattened_order) (auto simp: same_acm_def acm_keys_def acm_field_def)

text \<open>What the access control service sends: fields named and valued without separators, no value empty.\<close>

definition plain_field :: "string \<times> json \<Rightarrow> bool" where
  "plain_field f = (case f of (k, j) \<Rightarrow> acm_field k \<longrightarrow> CHR '';'' \<notin> set k \<and> CHR ''='' \<notin> set k \<and>
     (case j of JArr xs \<Rightarrow> list_all (\<lambda>x. case x of JStr s \<Rightarrow> s \<noteq> '''' \<and> CHR '';'' \<notin> set s \<and> CHR '','' \<notin> set s | _ \<Rightarrow> False) xs
      | _ \<Rightarrow> False))"

definition plain_acm :: "(string \<times> json) list \<Rightarrow> bool" where
  "plain_acm m \<longleftrightarrow> distinct (map fst m) \<and> list_all plain_field m"

lemma plain_array:
  assumes "list_all (\<lambda>x. case x of JStr s \<Rightarrow> s \<noteq> '''' \<and> CHR '';'' \<notin> set s \<and> CHR '','' \<notin> set s | _ \<Rightarrow> False) xs"
  obtains ss where "xs = map JStr ss" and "\<forall>s \<in> set ss. s \<noteq> '''' \<and> CHR '';'' \<notin> set s \<and> CHR '','' \<notin> set s"
proof -
  have "\<exists>ss. xs = map JStr ss \<and> (\<forall>s \<in> set ss. s \<noteq> '''' \<and> CHR '';'' \<notin> set s \<and> CHR '','' \<notin> set s)"
    using assms
  proof (induction xs)
    case (Cons x xs)
    then obtain s ss where "x = JStr s" "xs = map JStr ss" "s \<noteq> '''' \<and> CHR '';'' \<notin> set s \<and> CHR '','' \<notin> set s"
        "\<forall>s \<in> set ss. s \<noteq> '''' \<and> CHR '';'' \<notin> set s \<and> CHR '','' \<notin> set s"
      by (cases x) auto
    then show ?case
      by (intro exI [of _ "s # ss"]) simp
  qed simp
  then show ?thesis
    using that by blast
qed

lemma kept_map_JStr: "\<forall>s \<in> set ss. s \<noteq> '''' \<Longrightarrow> kept_strings (map JStr ss) = ss"
  by (induction ss) (auto simp: kept_strings_def)

text \<open>The entry of a field of such an ACM.\<close>

lemma plain_entry:
  assumes "plain_acm m" and "k \<in> set (acm_keys m)"
  obtains ss where "map_of m k = Some (JArr (map JStr ss))" and "\<forall>s \<in> set ss. s \<noteq> '''' \<and> CHR '';'' \<notin> set s \<and> CHR '','' \<notin> set s"
    and "flat_entry m k = Ok (k @ ''='' @ join_str '','' (sort ss))" and "CHR '';'' \<notin> set k" and "CHR ''='' \<notin> set k"
proof -
  obtain j where j: "(k, j) \<in> set m" "acm_field k"
    using assms(2) by (auto simp: acm_keys_def)
  then have "map_of m k = Some j" and p: "plain_field (k, j)"
    using assms(1) by (auto simp: plain_acm_def list_all_iff)
  moreover obtain xs where "j = JArr xs" and xs: "list_all (\<lambda>x. case x of JStr s \<Rightarrow> s \<noteq> '''' \<and> CHR '';'' \<notin> set s \<and> CHR '','' \<notin> set s | _ \<Rightarrow> False) xs"
    using p j(2) by (auto simp: plain_field_def split: json.splits)
  moreover obtain ss where ss: "xs = map JStr ss" "\<forall>s \<in> set ss. s \<noteq> '''' \<and> CHR '';'' \<notin> set s \<and> CHR '','' \<notin> set s"
    by (rule plain_array [OF xs])
  moreover have "kept_strings xs = ss"
    using ss kept_map_JStr by blast
  moreover have "JNull \<notin> set xs"
    using ss(1) by auto
  ultimately show ?thesis
    using that [of ss] p j(2) by (auto simp: flat_entry_def flat_value_def array_strings_eq sort_strings_sort plain_field_def)
qed

lemma join_comma_inj:
  assumes "join_str '','' xs = join_str '','' ys" and "\<forall>s \<in> set xs. s \<noteq> '''' \<and> CHR '','' \<notin> set s"
    and "\<forall>s \<in> set ys. s \<noteq> '''' \<and> CHR '','' \<notin> set s"
  shows "xs = ys"
proof -
  have nonempty: "join_str '','' zs \<noteq> ''''" if "zs \<noteq> []" "\<forall>s \<in> set zs. s \<noteq> '''' \<and> CHR '','' \<notin> set s" for zs
    using that by (cases zs) (auto simp: join_str_Cons)
  show ?thesis
  proof (cases "xs = [] \<or> ys = []")
    case True
    then show ?thesis
      using nonempty [of xs] nonempty [of ys] assms by fastforce
  next
    case False
    then show ?thesis
      using split_join_char [of xs "CHR '',''"] split_join_char [of ys "CHR '',''"] assms by metis
  qed
qed

lemma flat_entries:
  assumes "plain_acm m"
  obtains es where "res_map (flat_entry m) (acm_keys m) = Ok es" and "getOverallFlattenedACM m = Ok (join_str '';'' es)"
    and "map (takeWhile (\<lambda>c. c \<noteq> CHR ''='')) es = acm_keys m" and "\<forall>e \<in> set es. e \<noteq> '''' \<and> CHR '';'' \<notin> set e"
proof -
  have "\<exists>es. list_all2 (\<lambda>k e. flat_entry m k = Ok e \<and> takeWhile (\<lambda>c. c \<noteq> CHR ''='') e = k \<and> e \<noteq> '''' \<and> CHR '';'' \<notin> set e) ks es"
    if "set ks \<subseteq> set (acm_keys m)" for ks
    using that
  proof (induction ks)
    case (Cons k ks)
    obtain ss where ss: "\<forall>s \<in> set ss. s \<noteq> '''' \<and> CHR '';'' \<notin> set s \<and> CHR '','' \<notin> set s"
        "flat_entry m k = Ok (k @ ''='' @ join_str '','' (sort ss))" "CHR '';'' \<notin> set k" "CHR ''='' \<notin> set k"
      by (rule plain_entry [OF assms, of k]) (use Cons.prems in auto)
    have "takeWhile (\<lambda>c. c \<noteq> CHR ''='') (k @ ''='' @ t) = k" for t
      using ss(4) by (subst takeWhile_append2) auto
    moreover have "CHR '';'' \<notin> set (join_str '','' (sort ss))"
      using set_join_str [of "'',''" "sort ss"] ss(1) by fastforce
    ultimately show ?case
      using Cons ss by (auto simp: list_all2_Cons1)
  qed (simp add: exI [of _ "[]"])
  then obtain es where es: "list_all2 (\<lambda>k e. flat_entry m k = Ok e \<and> takeWhile (\<lambda>c. c \<noteq> CHR ''='') e = k \<and> e \<noteq> '''' \<and>
      CHR '';'' \<notin> set e) (acm_keys m) es"
    by blast
  then have r: "res_map (flat_entry m) (acm_keys m) = Ok es"
    unfolding res_map_Ok by (rule list_all2_mono) simp
  moreover have "map (takeWhile (\<lambda>c. c \<noteq> CHR ''='')) es = acm_keys m"
    using es by (auto simp: list_all2_conv_all_nth intro!: nth_equalityI)
  moreover have "\<forall>e \<in> set es. e \<noteq> '''' \<and> CHR '';'' \<notin> set e"
    using es by (auto simp: list_all2_conv_all_nth in_set_conv_nth)
  ultimately show ?thesis
    using that by (simp add: flattened_join)
qed

text \<open>One direction: the text determines the fields and their values.\<close>

lemma flattened_determines:
  assumes "plain_acm m" and "plain_acm m'" and "getOverallFlattenedACM m = getOverallFlattenedACM m'"
  shows "same_acm m m'"
proof -
  obtain es where es: "res_map (flat_entry m) (acm_keys m) = Ok es" "getOverallFlattenedACM m = Ok (join_str '';'' es)"
      "map (takeWhile (\<lambda>c. c \<noteq> CHR ''='')) es = acm_keys m" "\<forall>e \<in> set es. e \<noteq> '''' \<and> CHR '';'' \<notin> set e"
    by (rule flat_entries [OF assms(1)])
  obtain es' where es': "res_map (flat_entry m') (acm_keys m') = Ok es'" "getOverallFlattenedACM m' = Ok (join_str '';'' es')"
      "map (takeWhile (\<lambda>c. c \<noteq> CHR ''='')) es' = acm_keys m'" "\<forall>e \<in> set es'. e \<noteq> '''' \<and> CHR '';'' \<notin> set e"
    by (rule flat_entries [OF assms(2)])
  have j: "join_str '';'' es = join_str '';'' es'"
    using assms(3) es(2) es'(2) by simp
  have nonempty: "join_str '';'' zs \<noteq> ''''" if "zs \<noteq> []" "\<forall>s \<in> set zs. s \<noteq> '''' \<and> CHR '';'' \<notin> set s" for zs
    using that by (cases zs) (auto simp: join_str_Cons)
  have "es = es'"
  proof (cases "es = [] \<or> es' = []")
    case True
    then show ?thesis
      using nonempty [of es] nonempty [of es'] es(4) es'(4) j by fastforce
  next
    case False
    then show ?thesis
      using split_join_char [of es "CHR '';''"] split_join_char [of es' "CHR '';''"] es(4) es'(4) j by metis
  qed
  then have keys: "acm_keys m = acm_keys m'"
    using es(3) es'(3) by simp
  have "\<exists>xs ys. map_of m k = Some (JArr xs) \<and> map_of m' k = Some (JArr ys) \<and> mset xs = mset ys" if k: "k \<in> set (acm_keys m)" for k
  proof -
    obtain ss where ss: "map_of m k = Some (JArr (map JStr ss))" "\<forall>s \<in> set ss. s \<noteq> '''' \<and> CHR '';'' \<notin> set s \<and> CHR '','' \<notin> set s"
        "flat_entry m k = Ok (k @ ''='' @ join_str '','' (sort ss))"
      by (rule plain_entry [OF assms(1) k])
    obtain ts where ts: "map_of m' k = Some (JArr (map JStr ts))" "\<forall>s \<in> set ts. s \<noteq> '''' \<and> CHR '';'' \<notin> set s \<and> CHR '','' \<notin> set s"
        "flat_entry m' k = Ok (k @ ''='' @ join_str '','' (sort ts))"
      by (rule plain_entry [OF assms(2) k [unfolded keys]])
    have "flat_entry m k = flat_entry m' k"
      using es(1) es'(1) k unfolding \<open>es = es'\<close> keys res_map_Ok
      by (auto simp: list_all2_conv_all_nth in_set_conv_nth)
    then have "join_str '','' (sort ss) = join_str '','' (sort ts)"
      using ss(3) ts(3) by simp
    then have "sort ss = sort ts"
      by (rule join_comma_inj) (use ss(2) ts(2) in auto)
    then have "mset ss = mset ts"
      by (metis mset_sort)
    then show ?thesis
      using ss(1) ts(1) by simp
  qed
  then show ?thesis
    using keys by (simp add: same_acm_def)
qed

text \<open>C37: two ACMs as the access control service sends them, with fields named and valued without separators and no
  value empty, have the same flattened text, and so share their row and the answer of who may see the object, exactly
  when they have the same fields with the same values: the order of the fields and of the values, and what is not a
  field, do not matter.\<close>

theorem flattened_faithful:
  assumes "plain_acm m" and "plain_acm m'"
  shows "getOverallFlattenedACM m = getOverallFlattenedACM m' \<longleftrightarrow> same_acm m m'"
  using flattened_determines [OF assms] flattened_order by blast

lemma flattened_faithful_witness:
  "getOverallFlattenedACM [(''f_macs'', JArr []), (''f_share'', JArr [JStr ''a'', JStr ''b''])]
     = getOverallFlattenedACM [(''f_share'', JArr [JStr ''b'', JStr ''a'']), (''f_macs'', JArr [])] \<and>
   getOverallFlattenedACM [(''f_share'', JArr [JStr ''a'', JStr ''b''])] \<noteq> getOverallFlattenedACM [(''f_share'', JArr [JStr ''a''])]"
proof -
  have p: "plain_acm [(''f_macs'', JArr []), (''f_share'', JArr [JStr ''a'', JStr ''b''])]"
    "plain_acm [(''f_share'', JArr [JStr ''b'', JStr ''a'']), (''f_macs'', JArr [])]"
    "plain_acm [(''f_share'', JArr [JStr ''a'', JStr ''b''])]" "plain_acm [(''f_share'', JArr [JStr ''a''])]"
    by code_simp+
  have "same_acm [(''f_macs'', JArr []), (''f_share'', JArr [JStr ''a'', JStr ''b''])]
      [(''f_share'', JArr [JStr ''b'', JStr ''a'']), (''f_macs'', JArr [])]"
    by (auto simp: same_acm_def acm_keys_def acm_field_def)
  moreover have "\<not> same_acm [(''f_share'', JArr [JStr ''a'', JStr ''b''])] [(''f_share'', JArr [JStr ''a''])]"
    by (auto simp: same_acm_def acm_keys_def acm_field_def)
  ultimately show ?thesis
    using flattened_faithful [OF p(1,2)] flattened_faithful [OF p(3,4)] by blast
qed

text \<open>With a comma in a value, an ACM takes the row of another; a null for a field panics.\<close>

lemma flattened_collides:
  "getOverallFlattenedACM [(''f_share'', JArr [JStr ''a,b''])] = getOverallFlattenedACM [(''f_share'', JArr [JStr ''a'', JStr ''b''])]"
  "getOverallFlattenedACM [(''f_share'', JNull)] = Panic"
  by code_simp+

text \<open>A new row is one that no other text names.\<close>

lemma next_acm2_new: "(t, i) \<in> set (db_acm2 db) \<Longrightarrow> i < next_acm2 db"
proof -
  assume "(t, i) \<in> set (db_acm2 db)"
  then have "i \<in> set (map snd (db_acm2 db))"
    by force
  moreover have "i \<le> fold max (map snd (db_acm2 db)) 0"
    using calculation by (subst Max.set_eq_fold [symmetric]) simp
  ultimately show ?thesis
    by (simp add: next_acm2_def)
qed

end
