(* ===== verification/Dao_Tree.thy ===== *)
theory Dao_Tree
  imports Dao_Store
begin

text \<open>
  What deleting (\<open>dao.DeleteObject.go\<close>) and expunging (\<open>dao.ExpungeObject.go\<close>) share: the two recursions over
  the tree of objects are the same code but for the mark they leave on a row. \<open>tree_op\<close> is that recursion with
  the mark as an argument, and the locale \<open>marking\<close> states what is asked of a mark; its lemmas give, for any
  mark, what a run changes and that it ends. \<open>Dao_Delete\<close> holds the two operations as the code has them and
  interprets the locale on each.

  The recursion over children runs on fuel, and \<open>marking.returns\<close> shows how much is enough.
\<close>

record ODUser =
  u_ID :: slice
  u_DistinguishedName :: string
  u_Snippets :: "RawSnippetFields list option"

text \<open>A transaction: the tables are as before when it fails.\<close>

definition rollback :: "string option \<Rightarrow> DataAccessLayer \<Rightarrow> DataAccessLayer \<Rightarrow> DataAccessLayer" where
  "rollback err before after = (if err = None then after else after\<lparr>da_db := da_db before\<rparr>)"

definition getUserSnippets :: "db_env \<Rightarrow> ODUser \<Rightarrow> string + RawSnippetFields list" where
  "getUserSnippets env user = (case u_Snippets user of Some s \<Rightarrow> Inr s | None \<Rightarrow> de_snippets env (u_ID user))"

subsection \<open>The loop over the pages of children\<close>

text \<open>\<open>del\<close> is the recursive call. The flag tells whether the last child looked at was deleted.\<close>

definition authorizedToDelete :: "ODUser \<Rightarrow> ODObject \<Rightarrow> bool" where
  "authorizedToDelete user x = list_ex (\<lambda>p. p_AllowDelete p \<and> isUserMemberOf (u_Snippets user) (p_Grantee p)) (o_Permissions x)"

fun children_loop :: "(ODObject \<Rightarrow> DataAccessLayer \<Rightarrow> (string option \<times> DataAccessLayer) option)
    \<Rightarrow> ODUser \<Rightarrow> string \<Rightarrow> ODObject list \<Rightarrow> bool \<Rightarrow> DataAccessLayer
    \<Rightarrow> ((string option \<times> bool) \<times> DataAccessLayer) option" where
  "children_loop del user who [] deletedAtLeastOne dao = Some ((None, deletedAtLeastOne), dao)"
| "children_loop del user who (x # xs) deletedAtLeastOne dao =
     (if \<not> o_IsAncestorDeleted x \<and> authorizedToDelete user x then
        (case del (x\<lparr>o_ModifiedBy := who\<rparr>) dao of
           None \<Rightarrow> None
         | Some (Some e, dao1) \<Rightarrow> Some ((Some e, False), dao1)
         | Some (None, dao1) \<Rightarrow> children_loop del user who xs True dao1)
      else children_loop del user who xs False dao)"

text \<open>The error of reading a page is never looked at.\<close>

fun pages_loop :: "nat \<Rightarrow> (ODObject \<Rightarrow> DataAccessLayer \<Rightarrow> (string option \<times> DataAccessLayer) option)
    \<Rightarrow> db_env \<Rightarrow> ODUser \<Rightarrow> string \<Rightarrow> slice \<Rightarrow> int \<Rightarrow> bool \<Rightarrow> DataAccessLayer
    \<Rightarrow> (string option \<times> DataAccessLayer) option" where
  "pages_loop 0 del env user who oid pageNumber deletedAtLeastOne dao = None"
| "pages_loop (Suc n) del env user who oid pageNumber deletedAtLeastOne dao =
     (case getChildObjectsInTransaction env pageNumber 100 oid True False dao of
        ((rs, err), dao1) \<Rightarrow>
          (let hasUndeletedChildren = (rs_PageCount rs > pageNumber \<and> deletedAtLeastOne) in
           case children_loop del user who (rs_Objects rs) deletedAtLeastOne dao1 of
             None \<Rightarrow> None
           | Some ((Some e, _), dao2) \<Rightarrow> Some (Some e, dao2)
           | Some ((None, deleted'), dao2) \<Rightarrow>
               (let pageNumber' = (if \<not> deleted' then pageNumber + 1 else pageNumber) in
                if hasUndeletedChildren then pages_loop n del env user who oid pageNumber' deleted' dao2
                else Some (None, dao2))))"

subsection \<open>The recursion, with the mark as an argument\<close>

fun tree_op :: "string \<Rightarrow> (ODObject \<Rightarrow> bool) \<Rightarrow> (db_env \<Rightarrow> string \<Rightarrow> bool \<Rightarrow> ODObject \<Rightarrow> ODObject)
    \<Rightarrow> nat \<Rightarrow> db_env \<Rightarrow> ODUser \<Rightarrow> ODObject \<Rightarrow> bool \<Rightarrow> DataAccessLayer \<Rightarrow> (string option \<times> DataAccessLayer) option" where
  "tree_op verb already mark 0 env user obj explicit dao = None"
| "tree_op verb already mark (Suc n) env user obj explicit dao =
     (if o_ID obj = None then Some (Some (''Object ID was not specified for object being '' @ verb), dao)
      else if o_ChangeToken obj = '''' then Some (Some (''Object ChangeToken was not specified for object being '' @ verb), dao)
      else (case getObjectInTransaction env (o_ID obj) False False dao of
          ((_, Some e), dao1) \<Rightarrow> Some (Some e, dao1)
        | ((dbObject, None), dao1) \<Rightarrow>
            (if o_ChangeToken obj \<noteq> o_ChangeToken dbObject
             then Some (Some (''Object ChangeToken does not match expected value '' @ o_ChangeToken dbObject), dao1)
             else if already dbObject then Some (None, dao1)
             else (case (if explicit then map_sum (\<lambda>e. e) Some (getUserSnippets env user) else Inr (u_Snippets user)) of
                 Inl e \<Rightarrow> Some (Some e, dao1)
               | Inr snippets \<Rightarrow>
                   (let user1 = user\<lparr>u_Snippets := snippets\<rparr> in
                    case update_object env (o_ID dbObject) (mark env (o_ModifiedBy obj) explicit) (da_db dao1) of
                      Inl e \<Rightarrow> Some (Some e, dao1)
                    | Inr db1 \<Rightarrow> pages_loop n (\<lambda>x. tree_op verb already mark n env user1 x False) env user1
                        (o_ModifiedBy obj) (o_ID dbObject) 1 True (dao1\<lparr>da_db := db1\<rparr>))))))"

subsection \<open>What a run changes\<close>

text \<open>The parent of every row that has one; a row and one that lies above it.\<close>

definition parent_rel :: "Db \<Rightarrow> (slice \<times> slice) set" where
  "parent_rel db = {(o_ID x, o_ParentID x) | x. x \<in> set (db_object db) \<and> slice_len (o_ParentID x) \<noteq> 0}"

text \<open>Some live permission row of the object lets the user delete it.\<close>

definition may_delete :: "Db \<Rightarrow> RawSnippetFields list option \<Rightarrow> slice \<Rightarrow> bool" where
  "may_delete db snippets oid \<longleftrightarrow> (\<exists>p \<in> set (db_permission db). \<not> p_IsDeleted p \<and> p_ObjectID p = oid \<and>
     p_AllowDelete p \<and> isUserMemberOf snippets (p_Grantee p))"

text \<open>What no mark changes of a row, up to an empty parent becoming none.\<close>

definition same_content :: "ODObject \<Rightarrow> ODObject \<Rightarrow> bool" where
  "same_content x y \<longleftrightarrow> o_ID y = o_ID x \<and> o_Name y = o_Name x \<and> o_TypeID y = o_TypeID x \<and> o_RawAcm y = o_RawAcm x \<and>
     o_ContentConnector y = o_ContentConnector x \<and> o_EncryptIV y = o_EncryptIV x \<and>
     (slice_len (o_ParentID x) \<noteq> 0 \<longrightarrow> o_ParentID y = o_ParentID x) \<and>
     (slice_len (o_ParentID x) = 0 \<longrightarrow> slice_len (o_ParentID y) = 0) \<and> (o_ParentID x = None \<longrightarrow> o_ParentID y = None)"

text \<open>A row and what became of it, when only rows with a property were marked.\<close>

definition marked_row :: "(ODObject \<Rightarrow> bool) \<Rightarrow> (ODObject \<Rightarrow> ODObject \<Rightarrow> bool) \<Rightarrow> (ODObject \<Rightarrow> ODObject \<Rightarrow> bool)
    \<Rightarrow> ODObject \<Rightarrow> ODObject \<Rightarrow> bool" where
  "marked_row already effect P x y \<longleftrightarrow> x = y \<or>
     \<not> already x \<and> already y \<and> o_IsDeleted y \<and> same_content x y \<and> effect x y \<and> P x y"

definition only_marks :: "(ODObject \<Rightarrow> bool) \<Rightarrow> (ODObject \<Rightarrow> ODObject \<Rightarrow> bool) \<Rightarrow> (ODObject \<Rightarrow> ODObject \<Rightarrow> bool)
    \<Rightarrow> Db \<Rightarrow> Db \<Rightarrow> bool" where
  "only_marks already effect P db db' \<longleftrightarrow> list_all2 (marked_row already effect P) (db_object db) (db_object db') \<and>
     db_permission db' = db_permission db \<and> db_type db' = db_type db \<and>
     db_property db' = db_property db \<and> db_grantee db' = db_grantee db"

definition unique_ids :: "Db \<Rightarrow> bool" where
  "unique_ids db \<longleftrightarrow> distinct (map o_ID (db_object db))"

text \<open>The rows below an object that the user may delete, and the rows an operation may mark.\<close>

definition below :: "Db \<Rightarrow> RawSnippetFields list option \<Rightarrow> slice \<Rightarrow> ODObject \<Rightarrow> ODObject \<Rightarrow> bool" where
  "below db snippets t x y \<longleftrightarrow> (o_ID x, t) \<in> (parent_rel db)\<^sup>+ \<and> may_delete db snippets (o_ID x) \<and> o_IsAncestorDeleted y"

definition scope_row :: "Db \<Rightarrow> RawSnippetFields list option \<Rightarrow> bool \<Rightarrow> slice \<Rightarrow> ODObject \<Rightarrow> ODObject \<Rightarrow> bool" where
  "scope_row db snippets explicit t x y \<longleftrightarrow>
     o_ID x = t \<and> o_IsAncestorDeleted y = (\<not> explicit) \<or> below db snippets t x y"

definition snippets_used :: "db_env \<Rightarrow> ODUser \<Rightarrow> bool \<Rightarrow> RawSnippetFields list option" where
  "snippets_used env user explicit =
     (if explicit then (case getUserSnippets env user of Inr s \<Rightarrow> Some s | Inl e \<Rightarrow> None) else u_Snippets user)"

text \<open>Identifiers are unique, and a marked row is a deleted one; the rows that are not marked.\<close>

definition good :: "(ODObject \<Rightarrow> bool) \<Rightarrow> Db \<Rightarrow> bool" where
  "good already db \<longleftrightarrow> unique_ids db \<and> list_all (\<lambda>x. already x \<longrightarrow> o_IsDeleted x) (db_object db)"

definition unmarked :: "(ODObject \<Rightarrow> bool) \<Rightarrow> Db \<Rightarrow> nat" where
  "unmarked already db = length (filter (\<lambda>x. \<not> already x) (db_object db))"

lemma child_parent_rel:
  assumes "r \<in> set (child_rows db oid)" and "slice_len oid \<noteq> 0"
  shows "(o_ID r, oid) \<in> parent_rel db"
  using assms by (auto simp: child_rows_def parent_rel_def)

lemma object_row_mem: "object_row db i = Some x \<Longrightarrow> x \<in> set (db_object db) \<and> o_ID x = i"
  by (auto simp: object_row_def find_Some_iff split: option.splits)

lemma unique_row:
  assumes "unique_ids db" and "x \<in> set (db_object db)" and "o_ID x = i" and "object_row db i = Some y"
  shows "x = y"
  using assms object_row_mem [OF assms(4)] by (auto simp: unique_ids_def distinct_map inj_on_def)

lemma row_exists:
  assumes "x \<in> set (db_object db)" and "o_ID x = Some b"
  obtains y where "object_row db (Some b) = Some y"
  using assms by (cases "object_row db (Some b)") (auto simp: object_row_def find_None_iff)

lemma good_unique: "good already db \<Longrightarrow> unique_ids db"
  by (simp add: good_def)

subsection \<open>The children that are authorized\<close>

lemma load_grantees_rows:
  "load_grantees ps dao = ((rs, None), dao1) \<Longrightarrow> list_all2 (\<lambda>p r. r = p\<lparr>p_AcmGrantee := p_AcmGrantee r\<rparr>) ps rs"
proof (induction ps arbitrary: dao rs dao1)
  case (Cons p ps)
  then show ?case
    by (auto split: option.splits prod.splits)
qed simp

lemma authorized_may_delete:
  assumes "getObjectInTransaction env i True False dao = ((x, None), dao1)" and "env_ok env"
    and "authorizedToDelete user x"
  shows "may_delete (da_db dao) (u_Snippets user) i"
proof -
  obtain ps d where l: "load_grantees (de_by_grantee env (permission_rows (da_db dao) i)) dao = ((ps, None), d)"
    and "o_Permissions x = ps"
    using assms(1) by (auto simp: getObjectInTransaction_def getPermissionsForObjectInTransaction_def Let_def
        split: option.splits prod.splits if_splits)
  then obtain r where r: "r \<in> set ps" "p_AllowDelete r" "isUserMemberOf (u_Snippets user) (p_Grantee r)"
    using assms(3) by (auto simp: authorizedToDelete_def list_ex_iff)
  obtain p where "p \<in> set (de_by_grantee env (permission_rows (da_db dao) i))" "r = p\<lparr>p_AcmGrantee := p_AcmGrantee r\<rparr>"
    using list_all2_mem2 [OF load_grantees_rows [OF l] r(1)] by blast
  then have "p \<in> set (permission_rows (da_db dao) i)" "p_AllowDelete r = p_AllowDelete p" "p_Grantee r = p_Grantee p"
    using env_ok_sets(3) [OF assms(2)]
    by (auto dest: arg_cong [of _ _ p_AllowDelete] arg_cong [of _ _ p_Grantee])
  then show ?thesis
    using r by (auto simp: may_delete_def permission_rows_def)
qed

lemma load_objects_mem:
  assumes "load_objects env lp lr xs dao = ((ys, e), dao1)" and "y \<in> set ys"
  shows "y \<in> set xs \<or> (\<exists>x d d'. x \<in> set xs \<and> da_db d = da_db dao \<and>
    getObjectInTransaction env (o_ID x) lp lr d = ((y, None), d'))"
  using assms
proof (induction xs arbitrary: dao ys dao1)
  case (Cons x xs)
  obtain z e2 dao2 where g: "getObjectInTransaction env (o_ID x) lp lr dao = ((z, e2), dao2)"
    by (metis surj_pair)
  show ?case
  proof (cases e2)
    case None
    obtain zs e3 dao3 where l: "load_objects env lp lr xs dao2 = ((zs, e3), dao3)"
      by (metis surj_pair)
    then have ys: "ys = z # zs" and "e3 = e"
      using Cons.prems(1) g None by simp_all
    moreover have "da_db dao2 = da_db dao"
      using getObject_dbD [OF g] .
    ultimately consider "y = z" | "y \<in> set xs" | x' d d' where "x' \<in> set xs" "da_db d = da_db dao"
        "getObjectInTransaction env (o_ID x') lp lr d = ((y, None), d')"
      using Cons.IH [of dao2 zs dao3] Cons.prems(2) l by auto
    then show ?thesis
      using g None by cases auto
  qed (use Cons.prems g in auto)
qed simp

lemma child_of_page:
  assumes "getChildObjectsInTransaction env n s oid True False dao = ((rs, e), dao1)" and "env_ok env"
    and "x \<in> set (rs_Objects rs)" and "authorizedToDelete user x"
  obtains row where "object_row (da_db dao) (o_ID x) = Some row" and "o_ChangeToken x = o_ChangeToken row"
    and "o_ID x \<noteq> None" and "may_delete (da_db dao) (u_Snippets user) (o_ID x)"
    and "\<exists>r \<in> set (child_rows (da_db dao) oid). o_ID r = o_ID x"
proof -
  let ?stubs = "map (\<lambda>x. empty_object\<lparr>o_ID := o_ID x\<rparr>) (page_rows n s (de_recent env (child_rows (da_db dao) oid)))"
  obtain e' where l: "load_objects env True False ?stubs dao = ((rs_Objects rs, e'), dao1)"
    using assms(1) by (auto simp: getChildObjectsInTransaction_def load_page_def Let_def split: prod.splits)
  have "x \<notin> set ?stubs"
    using assms(4) by (auto simp: authorizedToDelete_def empty_object_def)
  then obtain z d d' where g: "z \<in> set ?stubs" "da_db d = da_db dao" "getObjectInTransaction env (o_ID z) True False d = ((x, None), d')"
    using load_objects_mem [OF l assms(3)] by blast
  obtain row n ps qs where row: "object_row (da_db d) (o_ID z) = Some row" "o_ID z \<noteq> None" "o_ID x = o_ID z"
      "x = row\<lparr>o_TypeName := n, o_Permissions := ps, o_Properties := qs\<rparr>"
    using getObject_row [OF g(3)] by metis
  then have "o_ChangeToken x = o_ChangeToken row"
    by simp
  moreover have "may_delete (da_db d) (u_Snippets user) (o_ID z)"
    by (rule authorized_may_delete [OF g(3) assms(2,4)])
  moreover have "\<exists>r \<in> set (child_rows (da_db dao) oid). o_ID r = o_ID z"
    using g(1) env_ok_sets(1) [OF assms(2)]
    by (auto simp: page_rows_def dest!: in_set_takeD in_set_dropD)
  ultimately show ?thesis
    using that [OF _ \<open>o_ChangeToken x = o_ChangeToken row\<close>] row g(2) by simp
qed

lemma load_objects_length: "load_objects env lp lr xs dao = ((ys, e), dao1) \<Longrightarrow> length ys = length xs"
  by (induction xs arbitrary: dao ys dao1) (auto split: option.splits prod.splits)

lemma page_nonempty:
  assumes "getChildObjectsInTransaction env 1 100 oid lp lr dao = ((rs, e), dao1)" and "env_ok env"
    and "rs_PageCount rs > 1"
  shows "rs_Objects rs \<noteq> []"
proof
  assume none: "rs_Objects rs = []"
  let ?rows = "child_rows (da_db dao) oid"
  let ?stubs = "map (\<lambda>x. empty_object\<lparr>o_ID := o_ID x\<rparr>) (page_rows 1 100 (de_recent env ?rows))"
  obtain e' where l: "load_objects env lp lr ?stubs dao = ((rs_Objects rs, e'), dao1)"
      and count: "rs_PageCount rs = page_count (int (length ?rows)) (GetSanitizedPageSize 100)"
    using assms(1) by (auto simp: getChildObjectsInTransaction_def load_page_def Let_def split: prod.splits)
  have "page_rows 1 100 (de_recent env ?rows) = []"
    using load_objects_length [OF l] none by simp
  then have "length (de_recent env ?rows) = 0"
    by (auto simp: page_rows_def GetOffset_def GetLimit_def GetSanitizedPageNumber_def GetSanitizedPageSize_def
        absoluteMaxPageSize_def wrap64_def)
  then have "?rows = []"
    using env_ok_sets(2) [OF assms(2), of ?rows] by simp
  then have "rs_PageCount rs = 0"
    by (simp add: count page_count_def GetSanitizedPageSize_def absoluteMaxPageSize_def page_count_nonneg)
  then show False
    using assms(3) by simp
qed

lemma pages_loop_last: "pages_loop (Suc m) del env user who oid pn False dao =
   (case getChildObjectsInTransaction env pn 100 oid True False dao of
      ((rs, err), dao1) \<Rightarrow> (case children_loop del user who (rs_Objects rs) False dao1 of
          None \<Rightarrow> None
        | Some ((e, _), dao2) \<Rightarrow> Some (e, dao2)))"
  by (simp add: Let_def split: prod.splits option.splits)

subsection \<open>What is asked of a mark\<close>

locale marking =
  fixes verb :: string
    and already :: "ODObject \<Rightarrow> bool"
    and mark :: "db_env \<Rightarrow> string \<Rightarrow> bool \<Rightarrow> ODObject \<Rightarrow> ODObject"
    and effect :: "ODObject \<Rightarrow> ODObject \<Rightarrow> bool"
  assumes marks: "\<not> already x \<Longrightarrow> already (tu_object_row env x (mark env w ex x))"
    and mark_row: "\<not> already x \<Longrightarrow> marked_row already effect (\<lambda>x y. o_IsAncestorDeleted y = (\<not> ex)) x
      (tu_object_row env x (mark env w ex x))"
    and reads_row: "already (x\<lparr>o_TypeName := n, o_Permissions := ps, o_Properties := qs\<rparr>) = already x"
begin

abbreviation mrow :: "(ODObject \<Rightarrow> ODObject \<Rightarrow> bool) \<Rightarrow> ODObject \<Rightarrow> ODObject \<Rightarrow> bool" where
  "mrow \<equiv> marked_row already effect"

abbreviation only :: "(ODObject \<Rightarrow> ODObject \<Rightarrow> bool) \<Rightarrow> Db \<Rightarrow> Db \<Rightarrow> bool" where
  "only \<equiv> only_marks already effect"

abbreviation cnt :: "Db \<Rightarrow> nat" where
  "cnt \<equiv> unmarked already"

abbreviation ok :: "Db \<Rightarrow> bool" where
  "ok \<equiv> good already"

lemma mrow_refl [simp]: "mrow P x x"
  by (simp add: marked_row_def same_content_def)

lemma only_refl [simp]: "only P db db"
  by (simp add: only_marks_def list.rel_refl)

lemma mrow_trans: "mrow P x y \<Longrightarrow> mrow P y z \<Longrightarrow> mrow P x z"
  by (auto simp: marked_row_def same_content_def)

lemma only_trans: "only P a b \<Longrightarrow> only P b c \<Longrightarrow> only P a c"
  unfolding only_marks_def by (auto intro: list_all2_trans [OF mrow_trans])

lemma only_mono:
  assumes "only P a b" and "\<And>x y. x \<in> set (db_object a) \<Longrightarrow> P x y \<Longrightarrow> Q x y"
  shows "only Q a b"
  using assms unfolding only_marks_def marked_row_def same_content_def
  by (auto elim!: list.rel_mono_strong)

lemma only_parents: "only P a b \<Longrightarrow> parent_rel b = parent_rel a"
proof -
  assume "only P a b"
  then have rows: "list_all2 (mrow P) (db_object a) (db_object b)"
    by (simp add: only_marks_def)
  have "parent_rel b \<subseteq> parent_rel a"
  proof
    fix e assume "e \<in> parent_rel b"
    then obtain y where y: "e = (o_ID y, o_ParentID y)" "y \<in> set (db_object b)" "slice_len (o_ParentID y) \<noteq> 0"
      by (auto simp: parent_rel_def)
    then obtain x where "x \<in> set (db_object a)" "mrow P x y"
      using list_all2_mem2 [OF rows] by blast
    then show "e \<in> parent_rel a"
      using y by (auto simp: parent_rel_def marked_row_def same_content_def intro!: exI [of _ x])
  qed
  moreover have "parent_rel a \<subseteq> parent_rel b"
  proof
    fix e assume "e \<in> parent_rel a"
    then obtain x where x: "e = (o_ID x, o_ParentID x)" "x \<in> set (db_object a)" "slice_len (o_ParentID x) \<noteq> 0"
      by (auto simp: parent_rel_def)
    then obtain y where "y \<in> set (db_object b)" "mrow P x y"
      using list_all2_mem1 [OF rows] by blast
    then show "e \<in> parent_rel b"
      using x by (auto simp: parent_rel_def marked_row_def same_content_def intro!: exI [of _ y])
  qed
  ultimately show ?thesis by blast
qed

lemma only_may: "only P a b \<Longrightarrow> may_delete b s i = may_delete a s i"
  by (simp add: only_marks_def may_delete_def)

lemma only_ids: "only P a b \<Longrightarrow> map o_ID (db_object b) = map o_ID (db_object a)"
  unfolding only_marks_def
  by (auto simp: list_all2_conv_all_nth marked_row_def same_content_def intro!: nth_equalityI)

lemma only_ok: "only P a b \<Longrightarrow> ok a \<Longrightarrow> ok b"
proof -
  assume rel: "only P a b" and ok: "ok a"
  then have rows: "list_all2 (mrow P) (db_object a) (db_object b)"
    by (simp add: only_marks_def)
  have "already y \<longrightarrow> o_IsDeleted y" if "y \<in> set (db_object b)" for y
  proof -
    obtain x where "x \<in> set (db_object a)" "mrow P x y"
      using list_all2_mem2 [OF rows \<open>y \<in> set (db_object b)\<close>] by blast
    then show ?thesis
      using ok by (auto simp: marked_row_def good_def list_all_iff)
  qed
  then show "ok b"
    using ok only_ids [OF rel] by (simp add: good_def unique_ids_def list_all_iff)
qed



lemma update_only:
  assumes "update_object env i (mark env w ex) db = Inr db'" and "object_row db i = Some row"
    and "\<not> already row" and "ok db"
  shows "only (\<lambda>x y. o_ID x = i \<and> o_IsAncestorDeleted y = (\<not> ex)) db db'"
proof -
  let ?R = "mrow (\<lambda>x y. o_ID x = i \<and> o_IsAncestorDeleted y = (\<not> ex))"
  let ?f = "\<lambda>x. if o_ID x = i then tu_object_row env row (mark env w ex row) else x"
  have "?R x (?f x)" if "x \<in> set (db_object db)" for x
    using mark_row [OF assms(3), of ex env w] unique_row [OF good_unique [OF assms(4)] that _ assms(2)]
      object_row_mem [OF assms(2)]
    by (auto simp: marked_row_def same_content_def)
  then have "list_all2 ?R (db_object db) (map ?f (db_object db))"
    by (simp add: list_all2_conv_all_nth)
  then show ?thesis
    using assms(1,2) by (auto simp: update_object_def only_marks_def Let_def split: if_splits)
qed

lemma update_marks:
  assumes "update_object env i (mark env w ex) db = Inr db'" and "object_row db i = Some row" and "\<not> already row"
  shows "\<exists>y \<in> set (db_object db'). o_ID y = i \<and> already y"
proof -
  let ?new = "tu_object_row env row (mark env w ex row)"
  have "db_object db' = map (\<lambda>x. if o_ID x = i then ?new else x) (db_object db)"
    using assms by (auto simp: update_object_def Let_def split: if_splits)
  moreover have "row \<in> set (db_object db)" "o_ID row = i"
    using object_row_mem [OF assms(2)] by auto
  moreover have "o_ID ?new = o_ID row" "already ?new"
    using marks [OF assms(3)] mark_row [OF assms(3), of ex env w] by (auto simp: marked_row_def same_content_def)
  ultimately show ?thesis
    by (intro bexI [of _ ?new]) (auto intro: rev_image_eqI)
qed

lemma children_loop_rel:
  assumes "children_loop del user who xs flag dao = Some ((r, flag'), dao')"
    and "only P db0 (da_db dao)"
    and "\<And>x d e d'. x \<in> set xs \<Longrightarrow> authorizedToDelete user x \<Longrightarrow> only P db0 (da_db d) \<Longrightarrow>
      del (x\<lparr>o_ModifiedBy := who\<rparr>) d = Some (e, d') \<Longrightarrow> only P db0 (da_db d')"
  shows "only P db0 (da_db dao')"
  using assms
proof (induction xs arbitrary: flag dao)
  case (Cons x xs)
  show ?case
  proof (cases "\<not> o_IsAncestorDeleted x \<and> authorizedToDelete user x")
    case True
    then obtain e d where d: "del (x\<lparr>o_ModifiedBy := who\<rparr>) dao = Some (e, d)"
      using Cons.prems(1) by (auto split: option.splits)
    then have "only P db0 (da_db d)"
      using Cons.prems(2,3) True by auto
    then show ?thesis
      using Cons.prems(1,3) Cons.IH [of True d] True d by (auto split: option.splits)
  next
    case False
    then have "children_loop del user who xs False dao = Some ((r, flag'), dao')"
      using Cons.prems(1) by auto
    then show ?thesis
      using Cons.IH [of False dao] Cons.prems(2,3) by auto
  qed
qed auto

lemma pages_loop_rel:
  assumes "pages_loop n del env user who oid pn flag dao = Some (r, dao')" and "env_ok env"
    and "only (below db0 (u_Snippets user) oid) db0 (da_db dao)" and "slice_len oid \<noteq> 0"
    and "\<And>x d e d'. (o_ID x, oid) \<in> parent_rel db0 \<Longrightarrow> may_delete db0 (u_Snippets user) (o_ID x) \<Longrightarrow>
      only (below db0 (u_Snippets user) oid) db0 (da_db d) \<Longrightarrow> del x d = Some (e, d') \<Longrightarrow>
      only (below db0 (u_Snippets user) oid) db0 (da_db d')"
  shows "only (below db0 (u_Snippets user) oid) db0 (da_db dao')"
  using assms(1,3)
proof (induction n arbitrary: pn flag dao)
  case (Suc n)
  let ?P = "below db0 (u_Snippets user) oid"
  obtain rs err d1 where g: "getChildObjectsInTransaction env pn 100 oid True False dao = ((rs, err), d1)"
    by (metis surj_pair)
  then have d1: "da_db d1 = da_db dao"
    by (rule getChildObjects_db)
  obtain e flag' d2 where l: "children_loop del user who (rs_Objects rs) flag d1 = Some ((e, flag'), d2)"
    using Suc.prems(1) g by (auto simp: Let_def split: option.splits)
  have "only ?P db0 (da_db d2)"
  proof (rule children_loop_rel [OF l])
    fix x d e' d'
    assume x: "x \<in> set (rs_Objects rs)" "authorizedToDelete user x" and d: "only ?P db0 (da_db d)"
      and del: "del (x\<lparr>o_ModifiedBy := who\<rparr>) d = Some (e', d')"
    have "\<exists>r \<in> set (child_rows (da_db dao) oid). o_ID r = o_ID x" "may_delete (da_db dao) (u_Snippets user) (o_ID x)"
      using child_of_page [OF g assms(2) x] by metis+
    then have "(o_ID x, oid) \<in> parent_rel (da_db dao)"
      using child_parent_rel assms(4) by metis
    then have "(o_ID x, oid) \<in> parent_rel db0" "may_delete db0 (u_Snippets user) (o_ID x)"
      using only_parents [OF Suc.prems(2)] only_may [OF Suc.prems(2)]
        \<open>may_delete (da_db dao) (u_Snippets user) (o_ID x)\<close> by simp_all
    then show "only ?P db0 (da_db d')"
      using assms(5) [of "x\<lparr>o_ModifiedBy := who\<rparr>" d e' d'] d del by simp
  qed (simp add: d1 Suc.prems(2))
  then show ?case
    using Suc.prems(1) g l Suc.IH by (auto simp: Let_def split: option.splits if_splits)
qed simp

lemma scope:
  assumes "tree_op verb already mark n env user obj explicit dao = Some (r, dao')" and "env_ok env"
    and "ok (da_db dao)"
  shows "only (scope_row (da_db dao) (snippets_used env user explicit) explicit (o_ID obj))
      (da_db dao) (da_db dao') \<and>
    (r = None \<longrightarrow> (\<exists>x \<in> set (db_object (da_db dao')). o_ID x = o_ID obj \<and> already x))"
  using assms(1,3)
proof (induction n arbitrary: user obj explicit dao r dao')
  case (Suc n)
  obtain dbo e d1 where g: "getObjectInTransaction env (o_ID obj) False False dao = ((dbo, e), d1)"
    by (metis surj_pair)
  have d1: "da_db d1 = da_db dao"
    by (rule getObject_dbD [OF g])
  show ?case
  proof (cases "da_db dao' = da_db dao \<and> (r = None \<longrightarrow> e = None \<and> already dbo)")
    case True
    have "\<exists>x \<in> set (db_object (da_db dao)). o_ID x = o_ID obj \<and> already x"
      if none: "e = None" and gone: "already dbo"
    proof -
      obtain row nm ps qs where "object_row (da_db dao) (o_ID obj) = Some row"
          "dbo = row\<lparr>o_TypeName := nm, o_Permissions := ps, o_Properties := qs\<rparr>"
        using getObject_row [OF g [unfolded none]] by metis
      then show ?thesis
        using object_row_mem [of "da_db dao" "o_ID obj" row] gone by (auto simp: reads_row)
    qed
    then show ?thesis
      using True by auto
  next
    case False
    let ?s = "snippets_used env user explicit"
    let ?u = "user\<lparr>u_Snippets := ?s\<rparr>"
    obtain db1 where e: "e = None" and live: "\<not> already dbo"
      and up: "update_object env (o_ID dbo) (mark env (o_ModifiedBy obj) explicit) (da_db dao) = Inr db1"
      and run: "pages_loop n (\<lambda>x. tree_op verb already mark n env ?u x False) env ?u (o_ModifiedBy obj) (o_ID dbo)
        1 True (d1\<lparr>da_db := db1\<rparr>) = Some (r, dao')"
      using Suc.prems(1) False g d1
      by (cases "getUserSnippets env user")
        (auto simp: Let_def snippets_used_def split: if_splits option.splits sum.splits)
    obtain row nm ps qs where row: "object_row (da_db dao) (o_ID obj) = Some row" "o_ID dbo = o_ID obj"
        "dbo = row\<lparr>o_TypeName := nm, o_Permissions := ps, o_Properties := qs\<rparr>"
      using getObject_row [OF g [unfolded e]] by metis
    have len: "slice_len (o_ID obj) \<noteq> 0"
      using g e by (auto simp: getObjectInTransaction_def split: if_splits)
    have del1: "only (\<lambda>x y. o_ID x = o_ID obj \<and> o_IsAncestorDeleted y = (\<not> explicit)) (da_db dao) db1"
      using update_only [OF up _ _ Suc.prems(2), of row] row live by (simp add: reads_row)
    let ?B = "below db1 ?s (o_ID obj)"
    have pages: "only ?B db1 (da_db dao')"
    proof (rule pages_loop_rel [OF run [unfolded row(2)] assms(2), of db1, simplified])
      fix x d e' d'
      assume x: "(o_ID x, o_ID obj) \<in> parent_rel db1" "may_delete db1 ?s (o_ID x)"
        and d: "only ?B db1 (da_db d)"
        and del: "tree_op verb already mark n env ?u x False d = Some (e', d')"
      have "only (scope_row (da_db d) ?s False (o_ID x)) (da_db d) (da_db d')"
        using Suc.IH [OF del] only_ok [OF d] only_ok [OF del1 Suc.prems(2)]
        by (simp add: snippets_used_def)
      then have "only ?B (da_db d) (da_db d')"
      proof (rule only_mono)
        fix z y assume z: "scope_row (da_db d) ?s False (o_ID x) z y"
        then have "o_ID z = o_ID x \<and> o_IsAncestorDeleted y \<or> (o_ID z, o_ID x) \<in> (parent_rel db1)\<^sup>+ \<and>
            may_delete db1 ?s (o_ID z) \<and> o_IsAncestorDeleted y"
          using only_parents [OF d] only_may [OF d] by (auto simp: scope_row_def below_def)
        then show "?B z y"
          using x by (auto simp: below_def intro: trancl_into_trancl trancl.r_into_trancl)
      qed
      then show "only ?B db1 (da_db d')"
        by (rule only_trans [OF d])
    qed (use len in simp)
    have "only (scope_row (da_db dao) ?s explicit (o_ID obj)) db1 (da_db dao')"
      by (rule only_mono [OF pages])
        (auto simp: scope_row_def below_def only_parents [OF del1] only_may [OF del1])
    moreover have "only (scope_row (da_db dao) ?s explicit (o_ID obj)) (da_db dao) db1"
      by (rule only_mono [OF del1]) (simp add: scope_row_def)
    moreover have "\<exists>x \<in> set (db_object (da_db dao')). o_ID x = o_ID obj \<and> already x"
    proof -
      obtain y where "y \<in> set (db_object db1)" "o_ID y = o_ID obj" "already y"
        using update_marks [OF up [unfolded row(2)] row(1)] live row(3) by (auto simp: reads_row)
      moreover have rows: "list_all2 (mrow ?B) (db_object db1) (db_object (da_db dao'))"
        using pages by (simp add: only_marks_def)
      ultimately obtain z where "z \<in> set (db_object (da_db dao'))" "mrow ?B y z"
        using list_all2_mem1 [OF rows] by blast
      then show ?thesis
        using \<open>o_ID y = o_ID obj\<close> \<open>already y\<close> by (intro bexI [of _ z]) (auto simp: marked_row_def same_content_def)
    qed
    ultimately show ?thesis
      using only_trans by blast
  qed
qed simp

lemma marked_rows_count:
  assumes "list_all2 (mrow P) xs ys"
  shows "length (filter (\<lambda>x. \<not> already x) ys) \<le> length (filter (\<lambda>x. \<not> already x) xs) \<and>
    (xs \<noteq> ys \<longrightarrow> length (filter (\<lambda>x. \<not> already x) ys) < length (filter (\<lambda>x. \<not> already x) xs))"
  using assms by (induction rule: list_all2_induct) (auto simp: marked_row_def same_content_def)

lemma cnt_le: "only P a b \<Longrightarrow> cnt b \<le> cnt a"
  using marked_rows_count by (auto simp: only_marks_def unmarked_def)

lemma cnt_less:
  assumes "only P a b" and "x \<in> set (db_object a)" and "\<not> already x" and "ok a"
    and "y \<in> set (db_object b)" and "o_ID y = o_ID x" and "already y"
  shows "cnt b < cnt a"
proof -
  have "db_object a \<noteq> db_object b"
  proof
    assume "db_object a = db_object b"
    then have "y = x"
      using assms by (auto simp: good_def unique_ids_def distinct_map inj_on_def)
    then show False
      using assms by simp
  qed
  then show ?thesis
    using marked_rows_count assms(1) by (auto simp: only_marks_def unmarked_def)
qed

lemma delete_decreases:
  assumes "tree_op verb already mark n env user obj explicit dao = Some (None, dao')" and "env_ok env"
    and "ok (da_db dao)" and "object_row (da_db dao) (o_ID obj) = Some row" and "\<not> already row"
  shows "cnt (da_db dao') < cnt (da_db dao)"
  using scope [OF assms(1-3)] object_row_mem [OF assms(4)] assms(3,5) cnt_less
  by metis

lemma children_loop_returns:
  assumes "\<And>x d. cnt (da_db d) \<le> k \<Longrightarrow> ok (da_db d) \<Longrightarrow>
      \<exists>e d'. del x d = Some (e, d') \<and> cnt (da_db d') \<le> cnt (da_db d) \<and> ok (da_db d')"
    and "cnt (da_db dao) \<le> k" and "ok (da_db dao)"
  shows "\<exists>r dao'. children_loop del user who xs flag dao = Some (r, dao') \<and>
    cnt (da_db dao') \<le> cnt (da_db dao) \<and> ok (da_db dao')"
  using assms(2,3)
proof (induction xs arbitrary: flag dao)
  case (Cons x xs)
  show ?case
  proof (cases "\<not> o_IsAncestorDeleted x \<and> authorizedToDelete user x")
    case True
    obtain e d where d: "del (x\<lparr>o_ModifiedBy := who\<rparr>) dao = Some (e, d)" "cnt (da_db d) \<le> cnt (da_db dao)"
        "ok (da_db d)"
      using assms(1) Cons.prems by blast
    then show ?thesis
      using True Cons.IH [of d True] Cons.prems(1) by (cases e) (auto intro: order_trans)
  next
    case False
    then show ?thesis
      using Cons.IH [of dao False] Cons.prems by auto
  qed
qed simp

lemma children_loop_decreases:
  assumes "children_loop del user who xs flag dao = Some ((None, True), dao')" and "xs \<noteq> []"
    and "\<And>x d d'. x \<in> set xs \<Longrightarrow> authorizedToDelete user x \<Longrightarrow> da_db d = da_db dao \<Longrightarrow>
      del (x\<lparr>o_ModifiedBy := who\<rparr>) d = Some (None, d') \<Longrightarrow> cnt (da_db d') < cnt (da_db dao)"
    and "\<And>x d e d'. cnt (da_db d) \<le> cnt (da_db dao) \<Longrightarrow> ok (da_db d) \<Longrightarrow>
      del x d = Some (e, d') \<Longrightarrow> cnt (da_db d') \<le> cnt (da_db d) \<and> ok (da_db d')"
    and "ok (da_db dao)"
  shows "cnt (da_db dao') < cnt (da_db dao)"
proof -
  have later: "cnt (da_db d') \<le> cnt (da_db d)"
    if "children_loop del user who ys f d = Some ((None, g), d')" "cnt (da_db d) \<le> cnt (da_db dao)"
      "ok (da_db d)" for ys f d g d'
    using that
  proof (induction ys arbitrary: f d)
    case (Cons y ys)
    show ?case
    proof (cases "\<not> o_IsAncestorDeleted y \<and> authorizedToDelete user y")
      case True
      then obtain d1 where d1: "del (y\<lparr>o_ModifiedBy := who\<rparr>) d = Some (None, d1)"
          "children_loop del user who ys True d1 = Some ((None, g), d')"
        using Cons.prems(1) by (auto split: option.splits)
      then show ?thesis
        using assms(4) [OF Cons.prems(2,3) d1(1)] Cons.IH [OF d1(2)] Cons.prems(2) by (meson order_trans)
    next
      case False
      then have "children_loop del user who ys False d = Some ((None, g), d')"
        using Cons.prems(1) by auto
      then show ?thesis
        using Cons.IH Cons.prems(2,3) by blast
    qed
  qed simp
  show ?thesis
    using assms(1-3)
  proof (induction xs arbitrary: flag)
    case (Cons x xs)
    show ?case
    proof (cases "\<not> o_IsAncestorDeleted x \<and> authorizedToDelete user x")
      case True
      then obtain d1 where d1: "del (x\<lparr>o_ModifiedBy := who\<rparr>) dao = Some (None, d1)"
          "children_loop del user who xs True d1 = Some ((None, True), dao')"
        using Cons.prems(1) by (auto split: option.splits)
      have "cnt (da_db d1) < cnt (da_db dao)"
        using Cons.prems(3) [OF _ _ refl d1(1)] True by simp
      then show ?thesis
        using later [OF d1(2)] assms(4) [OF _ assms(5) d1(1)] by simp
    next
      case False
      then have l: "children_loop del user who xs False dao = Some ((None, True), dao')"
        using Cons.prems(1) by auto
      then have "xs \<noteq> []"
        by auto
      then show ?thesis
        using Cons.IH [OF l] Cons.prems(3) by auto
    qed
  qed simp
qed

lemma pages_loop_returns:
  assumes ok: "env_ok env" and "cnt (da_db dao) \<le> k" and "ok (da_db dao)"
    and runs: "\<And>x d. cnt (da_db d) \<le> k \<Longrightarrow> ok (da_db d) \<Longrightarrow>
      \<exists>e d'. del x d = Some (e, d') \<and> cnt (da_db d') \<le> cnt (da_db d) \<and> ok (da_db d')"
    and shrinks: "\<And>x d d' row. del x d = Some (None, d') \<Longrightarrow> ok (da_db d) \<Longrightarrow>
      object_row (da_db d) (o_ID x) = Some row \<Longrightarrow> \<not> already row \<Longrightarrow> cnt (da_db d') < cnt (da_db d)"
    and "cnt (da_db dao) + 2 \<le> m"
  shows "\<exists>r dao'. pages_loop m del env user who oid 1 True dao = Some (r, dao') \<and>
    cnt (da_db dao') \<le> cnt (da_db dao) \<and> ok (da_db dao')"
  using assms(2,3,6)
proof (induction m arbitrary: dao)
  case (Suc m)
  obtain rs err d1 where g: "getChildObjectsInTransaction env 1 100 oid True False dao = ((rs, err), d1)"
    by (metis surj_pair)
  have d1: "da_db d1 = da_db dao"
    by (rule getChildObjects_db [OF g])
  obtain e f d2 where l: "children_loop del user who (rs_Objects rs) True d1 = Some ((e, f), d2)"
      and d2: "cnt (da_db d2) \<le> cnt (da_db dao)" "ok (da_db d2)"
    using children_loop_returns [where del = del and k = k and dao = d1, OF runs] Suc.prems(1,2) d1
    by (metis surj_pair)
  show ?case
  proof (cases "e = None \<and> 1 < rs_PageCount rs")
    case False
    then show ?thesis
      using g l d2 by (cases e) (auto simp: Let_def)
  next
    case True
    then have nonempty: "rs_Objects rs \<noteq> []"
      using page_nonempty [OF g ok] by simp
    show ?thesis
    proof (cases f)
      case True
      have "cnt (da_db d2) < cnt (da_db d1)"
      proof (rule children_loop_decreases [OF _ nonempty])
        show "children_loop del user who (rs_Objects rs) True d1 = Some ((None, True), d2)"
          using l True \<open>e = None \<and> _\<close> by simp
        show "cnt (da_db d') < cnt (da_db d1)"
          if x: "x \<in> set (rs_Objects rs)" "authorizedToDelete user x" and d: "da_db d = da_db d1"
            and del: "del (x\<lparr>o_ModifiedBy := who\<rparr>) d = Some (None, d')" for x d d'
        proof -
          obtain row where row: "object_row (da_db dao) (o_ID x) = Some row"
              and "\<exists>r \<in> set (child_rows (da_db dao) oid). o_ID r = o_ID x"
            by (rule child_of_page [OF g ok x])
          then obtain r where "r \<in> set (db_object (da_db dao))" "o_ID r = o_ID x" "\<not> o_IsDeleted r"
            by (auto simp: child_rows_def)
          then have "\<not> already row"
            using unique_row [OF good_unique [OF Suc.prems(2)] _ _ row] Suc.prems(2) by (auto simp: good_def list_all_iff)
          then show ?thesis
            using shrinks [OF del, of row] row d d1 Suc.prems(2) by simp
        qed
        show "cnt (da_db d') \<le> cnt (da_db d) \<and> ok (da_db d')"
          if "cnt (da_db d) \<le> cnt (da_db d1)" "ok (da_db d)" "del x d = Some (e, d')" for x d e d'
          using runs [of d x] that d1 Suc.prems(1) by auto
      qed (simp add: d1 Suc.prems(2))
      then show ?thesis
        using Suc.IH [of d2] Suc.prems d2 g l \<open>e = None \<and> _\<close> True d1 by (auto simp: Let_def)
    next
      case False
      obtain m' where m': "m = Suc m'"
        using Suc.prems(3) by (cases m) auto
      obtain rs' err' d3 where g': "getChildObjectsInTransaction env 2 100 oid True False d2 = ((rs', err'), d3)"
        by (metis surj_pair)
      have d3: "da_db d3 = da_db d2"
        by (rule getChildObjects_db [OF g'])
      obtain e' f' d4 where "children_loop del user who (rs_Objects rs') False d3 = Some ((e', f'), d4)"
          and "cnt (da_db d4) \<le> cnt (da_db d2)" "ok (da_db d4)"
        using children_loop_returns [where del = del and k = k and dao = d3, OF runs] Suc.prems(1) d2 d3
        by (metis le_trans surj_pair)
      then show ?thesis
        using g l \<open>e = None \<and> _\<close> False g' d2 by (auto simp: Let_def m' pages_loop_last simp del: pages_loop.simps(2) intro!: exI
            simp: pages_loop.simps(2) [of "Suc m'"])
    qed
  qed
qed simp

lemma update_live:
  assumes "update_object env i (mark env w ex) db = Inr db'" and "object_row db i = Some row"
    and "\<not> already row" and "ok db"
  shows "cnt db' < cnt db \<and> ok db'"
proof -
  have rel: "only (\<lambda>x y. o_ID x = i \<and> o_IsAncestorDeleted y = (\<not> ex)) db db'"
    by (rule update_only [OF assms])
  obtain y where "y \<in> set (db_object db')" "o_ID y = i" "already y"
    using update_marks [OF assms(1-3)] by blast
  then show ?thesis
    using cnt_less [OF rel, of row y] object_row_mem [OF assms(2)] assms(3,4) only_ok [OF rel] by simp
qed

lemma returns:
  assumes "env_ok env" and "ok (da_db dao)" and "cnt (da_db dao) + 3 \<le> n"
  shows "\<exists>e dao'. tree_op verb already mark n env user obj explicit dao = Some (e, dao') \<and>
    cnt (da_db dao') \<le> cnt (da_db dao) \<and> ok (da_db dao')"
  using assms(2,3)
proof (induction n arbitrary: user obj explicit dao)
  case (Suc n)
  obtain dbo e d1 where g: "getObjectInTransaction env (o_ID obj) False False dao = ((dbo, e), d1)"
    by (metis surj_pair)
  have d1: "da_db d1 = da_db dao"
    by (rule getObject_dbD [OF g])
  show ?case
  proof (cases "o_ID obj = None \<or> o_ChangeToken obj = '''' \<or> e \<noteq> None \<or> o_ChangeToken obj \<noteq> o_ChangeToken dbo \<or> already dbo")
    case True
    then show ?thesis
      using g d1 Suc.prems(1) by (cases e) auto
  next
    case False
    then have none: "e = None"
      by simp
    show ?thesis
    proof (cases "if explicit then map_sum (\<lambda>e. e) Some (getUserSnippets env user) else Inr (u_Snippets user)")
      case (Inl m)
      then show ?thesis
        using g d1 Suc.prems(1) False by auto
    next
      case (Inr s)
      let ?u = "user\<lparr>u_Snippets := s\<rparr>"
      show ?thesis
      proof (cases "update_object env (o_ID dbo) (mark env (o_ModifiedBy obj) explicit) (da_db dao)")
        case (Inl m)
        then show ?thesis
          using g d1 Suc.prems(1) False \<open>_ = Inr s\<close> by auto
      next
        case up: (Inr db1)
        obtain row nm ps qs where row: "object_row (da_db dao) (o_ID obj) = Some row" "o_ID dbo = o_ID obj"
            "dbo = row\<lparr>o_TypeName := nm, o_Permissions := ps, o_Properties := qs\<rparr>"
          using getObject_row [OF g [unfolded none]] by metis
        have db1: "cnt db1 < cnt (da_db dao)" "ok db1"
          using update_live [OF up [unfolded row(2)] row(1)] False row(3) Suc.prems(1) by (auto simp: reads_row)
        let ?del = "\<lambda>x. tree_op verb already mark n env ?u x False"
        have "\<exists>r dao'. pages_loop n ?del env ?u (o_ModifiedBy obj) (o_ID dbo) 1 True (d1\<lparr>da_db := db1\<rparr>) = Some (r, dao') \<and>
            cnt (da_db dao') \<le> cnt (da_db (d1\<lparr>da_db := db1\<rparr>)) \<and> ok (da_db dao')"
        proof (rule pages_loop_returns [OF assms(1), where k = "cnt db1"])
          show "\<exists>e d'. ?del x d = Some (e, d') \<and> cnt (da_db d') \<le> cnt (da_db d) \<and> ok (da_db d')"
            if "cnt (da_db d) \<le> cnt db1" "ok (da_db d)" for x d
            using Suc.IH [of d] that Suc.prems(2) db1(1) by simp
          show "cnt (da_db d') < cnt (da_db d)"
            if "?del x d = Some (None, d')" "ok (da_db d)" "object_row (da_db d) (o_ID x) = Some row" "\<not> already row"
            for x d d' row
            by (rule delete_decreases [OF that(1) assms(1) that(2-4)])
        qed (use db1 Suc.prems(2) in simp_all)
        then obtain r dao' where "pages_loop n ?del env ?u (o_ModifiedBy obj) (o_ID dbo) 1 True (d1\<lparr>da_db := db1\<rparr>) = Some (r, dao')"
            "cnt (da_db dao') \<le> cnt db1" "ok (da_db dao')"
          by auto
        then show ?thesis
          using g d1 False up \<open>_ = Inr s\<close> db1(1) by (auto simp: Let_def)
      qed
    qed
  qed
qed simp

end

end
