(* ===== verification/Dao_Write.thy ===== *)
theory Dao_Write
  imports Object_Acm Dao_Tree
begin

text \<open>
  Writing through the data layer: users (\<open>dao.CreateUser.go\<close>), grantees (\<open>dao.AcmGrantee.go\<close>), permissions
  (\<open>dao.AddPermissionToObject.go\<close>, \<open>dao.DeleteObjectPermission.go\<close>, \<open>dao.UpdatePermission.go\<close>), properties
  (\<open>dao.AddPropertyToObject.go\<close>, \<open>dao.DeleteObjectProperty.go\<close>) and objects (\<open>dao.UpdateObject.go\<close>,
  \<open>dao.CreateObject.go\<close>), with the triggers of the tables they write.

  A new row is put at the end of its table, and of several rows a query orders by date the last one is the
  most recent. Of the foreign keys, that of a permission to its grantee is modelled. Error texts leave out
  the values they quote. Not modelled are the wait for an object that was just modified and what runs in the background after a commit (the
  association of users with a new ACM).
\<close>

subsection \<open>Users\<close>

definition getUserByDistinguishedNameInTransaction :: "string \<Rightarrow> Db \<Rightarrow> string option" where
  "getUserByDistinguishedNameInTransaction dn db = (if dn \<in> set (db_user db) then None else Some ErrNoRows)"

text \<open>The distinguished name of the user that was created or found, and the error.\<close>

definition createUserInTransaction :: "string \<Rightarrow> Db \<Rightarrow> (string \<times> string option) \<times> Db" where
  "createUserInTransaction dn db =
     (if dn = '''' \<or> dn \<in> set (db_user db)
      then (case getUserByDistinguishedNameInTransaction dn db of None \<Rightarrow> ((dn, None), db) | Some e \<Rightarrow> (('''', Some e), db))
      else ((dn, None), db\<lparr>db_user := db_user db @ [dn]\<rparr>))"

subsection \<open>Grantees\<close>

definition lower_null :: "NullString \<Rightarrow> NullString" where
  "lower_null n = (if ns_Valid n then n\<lparr>ns_String := to_lower (ns_String n)\<rparr> else n)"

text \<open>The trigger \<open>ti_acmgrantee\<close> stores everything in lower case and adds the grantee to the values of ACMs.\<close>

definition insert_acmgrantee :: "ODAcmGrantee \<Rightarrow> Db \<Rightarrow> string + Db" where
  "insert_acmgrantee g db =
     (let row = \<lparr>g_Grantee = to_lower (g_Grantee g), g_ResourceString = lower_null (g_ResourceString g),
            g_ProjectName = lower_null (g_ProjectName g), g_ProjectDisplayName = lower_null (g_ProjectDisplayName g),
            g_GroupName = lower_null (g_GroupName g), g_UserDistinguishedName = lower_null (g_UserDistinguishedName g),
            g_DisplayName = lower_null (g_DisplayName g)\<rparr>;
          err = (if g_Grantee row \<in> fst ` set (db_grantee db) then ''Field grantee must be unique '' else '''') @
            (if \<not> ns_Valid (g_ResourceString row) then ''Field resourceString must be set ''
             else if list_ex (\<lambda>(k, r). g_ResourceString r = g_ResourceString row) (db_grantee db)
             then ''Field resourceString must be unique '' else '''')
      in if err \<noteq> '''' then Inl (err @ ''when inserting record'')
         else Inr (db\<lparr>db_grantee := (g_Grantee row, row) # db_grantee db,
                db_acmvalue2 := (if g_Grantee row \<in> set (db_acmvalue2 db) then db_acmvalue2 db
                  else g_Grantee row # db_acmvalue2 db)\<rparr>))"

text \<open>A resource string without a slash panics (\<open>removeDisplayNameFromResourceString\<close>).\<close>

definition complete_grantee :: "ODAcmGrantee \<Rightarrow> Db \<Rightarrow> (ODAcmGrantee \<times> Db) res" where
  "complete_grantee g db =
     (let userDN = ns_String (g_UserDistinguishedName g);
          unnamed = (\<not> ns_Valid (g_DisplayName g) \<or> ns_String (g_DisplayName g) = '''');
          (g1, db1) =
            (if ns_Valid (g_UserDistinguishedName g) \<and> length userDN > 0 then
               ((if unnamed then g\<lparr>g_DisplayName := ToNullString (GetCommonName userDN)\<rparr> else g),
                (if getUserByDistinguishedNameInTransaction userDN db = Some ErrNoRows
                 then snd (createUserInTransaction userDN db) else db))
             else if ns_Valid (g_GroupName g) then
               ((if unnamed then g\<lparr>g_DisplayName := ToNullString (trim_space
                   (ns_String (g_ProjectDisplayName g) @ '' '' @ ns_String (g_GroupName g)))\<rparr> else g), db)
             else (g, db));
          g2 = (if \<not> ns_Valid (g_ResourceString g1) \<or> ns_String (g_ResourceString g1) = ''''
                then g1\<lparr>g_ResourceString := ToNullString (ResourceName g1)\<rparr> else g1)
      in bind_res (removeDisplayNameFromResourceString (ns_String (g_ResourceString g2))) (\<lambda>resourceString.
           Ok (g2\<lparr>g_ResourceString := ToNullString resourceString, g_Grantee := AACFlatten (g_Grantee g2)\<rparr>, db1)))"

definition createAcmGranteeInTransaction :: "ODAcmGrantee \<Rightarrow> DataAccessLayer
    \<Rightarrow> ((ODAcmGrantee \<times> string option) \<times> DataAccessLayer) res" where
  "createAcmGranteeInTransaction g dao =
     bind_res (complete_grantee g (da_db dao)) (\<lambda>(g1, db1). Ok
       (case getAcmGranteeInTransaction (g_Grantee g1) (dao\<lparr>da_db := db1\<rparr>) of ((r, e), dao1) \<Rightarrow>
          (if e \<noteq> None \<or> g_Grantee r \<noteq> g_Grantee g1 then
             (case insert_acmgrantee g1 (da_db dao1) of
                Inl _ \<Rightarrow> getAcmGranteeInTransaction (g_Grantee g1) dao1
              | Inr db2 \<Rightarrow> getAcmGranteeInTransaction (g_Grantee g1) (dao1\<lparr>da_db := db2\<rparr>))
           else getAcmGranteeInTransaction (g_Grantee g1) dao1)))"

subsection \<open>Permissions\<close>

definition permission_ids :: "Db \<Rightarrow> bytes list" where
  "permission_ids db = map (slice_bytes \<circ> p_ID) (db_permission db)"

text \<open>The trigger \<open>ti_object_permission\<close>, and the foreign key of the grantee.\<close>

definition insert_permission :: "db_env \<Rightarrow> ODObjectPermission \<Rightarrow> Db \<Rightarrow> string + Db" where
  "insert_permission env p db =
     (let err = (if object_row db (p_ObjectID p) = None then ''Field objectId required '' else '''') @
            (if p_Grantee p = '''' then ''Field grantee required '' else '''') @
            (if p_AcmShare p = '''' then ''Field acmShare required '' else '''');
          i = de_fresh env (permission_ids db)
      in if err \<noteq> '''' then Inl (err @ ''when inserting record into object_permission'')
         else if p_Grantee p \<notin> fst ` set (db_grantee db)
         then Inl ''Cannot add or update a child row: a foreign key constraint fails''
         else Inr (db\<lparr>db_permission := db_permission db @ [p\<lparr>p_ID := Some i, p_CreatedDate := de_now env,
             p_ModifiedDate := de_now env, p_ModifiedBy := p_CreatedBy p, p_IsDeleted := False, p_DeletedDate := None,
             p_DeletedBy := null_string, p_ChangeCount := 0, p_ChangeToken := de_token env i 0 (de_now env),
             p_AcmGrantee := empty_grantee\<rparr>]\<rparr>))"

definition find_last :: "('a \<Rightarrow> bool) \<Rightarrow> 'a list \<Rightarrow> 'a option" where
  "find_last P xs = find P (rev xs)"

text \<open>An error of reading the grantee other than that there is none is not looked at. The row is found again by
  its fields and read back.\<close>

definition addPermissionToObjectInTransaction :: "db_env \<Rightarrow> slice \<Rightarrow> ODObjectPermission \<Rightarrow> DataAccessLayer
    \<Rightarrow> ((ODObjectPermission \<times> string option) \<times> DataAccessLayer) res" where
  "addPermissionToObjectInTransaction env oid permission dao =
     (let p = permission\<lparr>p_Grantee := AACFlatten (p_Grantee permission)\<rparr> in
      bind_res (case getAcmGranteeInTransaction (p_Grantee p) dao of
          ((g, None), dao1) \<Rightarrow> Ok ((g, None), dao1)
        | ((_, Some _), dao1) \<Rightarrow> createAcmGranteeInTransaction (p_AcmGrantee p) dao1) (\<lambda>r. case r of
          ((_, Some e), dao1) \<Rightarrow> Ok ((empty_permission, Some e), dao1)
        | ((g, None), dao1) \<Rightarrow> Ok
            (case insert_permission env (p\<lparr>p_ObjectID := oid, p_Grantee := g_Grantee g\<rparr>) (da_db dao1) of
               Inl e \<Rightarrow> ((empty_permission, Some e), dao1)
             | Inr db2 \<Rightarrow>
                (case find_last (\<lambda>r. p_CreatedBy r = p_CreatedBy p \<and> p_ObjectID r = oid \<and> p_Grantee r = p_Grantee p \<and>
                     p_AcmShare r = p_AcmShare p \<and> \<not> p_IsDeleted r \<and> p_AllowCreate r = p_AllowCreate p \<and>
                     p_AllowRead r = p_AllowRead p \<and> p_AllowUpdate r = p_AllowUpdate p \<and>
                     p_AllowDelete r = p_AllowDelete p \<and> p_AllowShare r = p_AllowShare p) (db_permission db2) of
                   None \<Rightarrow> ((empty_permission, Some ErrNoRows), dao1\<lparr>da_db := db2\<rparr>)
                 | Some row \<Rightarrow> ((row, None), dao1\<lparr>da_db := db2\<rparr>)))))"

definition permission_row :: "Db \<Rightarrow> slice \<Rightarrow> ODObjectPermission option" where
  "permission_row db i = (case i of None \<Rightarrow> None | Some b \<Rightarrow> find (\<lambda>p. p_ID p = Some b) (db_permission db))"

text \<open>The trigger \<open>tu_object_permission\<close> lets a row be deleted, or its keys be changed.\<close>

definition tu_permission_error :: "ODObjectPermission \<Rightarrow> ODObjectPermission \<Rightarrow> string" where
  "tu_permission_error old new =
     (if p_ChangeToken new = '''' then ''Field changeToken required '' else '''') @
     (if p_IsDeleted new \<and> \<not> p_IsDeleted old then ''''
      else (if p_IsDeleted new \<noteq> p_IsDeleted old then ''Undelete is disallowed '' else '''') @
        (if p_EncryptKey new = p_EncryptKey old \<and> p_PermissionIV new = p_PermissionIV old \<and>
            p_PermissionMAC new = p_PermissionMAC old then ''We should be updating keys '' else ''''))"

definition tu_permission_row :: "db_env \<Rightarrow> ODObjectPermission \<Rightarrow> ODObjectPermission \<Rightarrow> ODObjectPermission" where
  "tu_permission_row env old new =
     (let new1 = new\<lparr>p_ModifiedDate := de_now env,
            p_ModifiedBy := (if p_ModifiedBy new = '''' then ns_String (p_DeletedBy new) else p_ModifiedBy new)\<rparr>;
          new2 = (if p_IsDeleted new1 \<and> \<not> p_IsDeleted old
            then new1\<lparr>p_DeletedDate := Some (de_now env), p_DeletedBy := (if ns_String (p_DeletedBy new1) = ''''
                then \<lparr>ns_String = p_ModifiedBy new1, ns_Valid = True\<rparr> else p_DeletedBy new1)\<rparr>
            else new1);
          count' = p_ChangeCount old + 1
      in new2\<lparr>p_ChangeCount := count', p_ChangeToken := de_token env (slice_bytes (p_ID old)) count' (de_now env)\<rparr>)"

definition update_permission :: "db_env \<Rightarrow> slice \<Rightarrow> (ODObjectPermission \<Rightarrow> bool) \<Rightarrow> (ODObjectPermission \<Rightarrow> ODObjectPermission)
    \<Rightarrow> Db \<Rightarrow> string + Db" where
  "update_permission env i cond set_fields db =
     (case permission_row db i of
        None \<Rightarrow> Inr db
      | Some old \<Rightarrow>
          (if \<not> cond old then Inr db
           else (let e = tu_permission_error old (set_fields old) in
             if e \<noteq> '''' then Inl (e @ ''when updating record'')
             else (let row = tu_permission_row env old (set_fields old) in
               Inr (db\<lparr>db_permission := map (\<lambda>p. if p_ID p = i then row else p) (db_permission db)\<rparr>)))))"

text \<open>The row read back has no ACM share: the query leaves it out.\<close>

definition getObjectPermissionInTransaction :: "slice \<Rightarrow> Db \<Rightarrow> ODObjectPermission \<times> string option" where
  "getObjectPermissionInTransaction i db =
     (case permission_row db i of None \<Rightarrow> (empty_permission, Some ErrNoRows) | Some p \<Rightarrow> (p\<lparr>p_AcmShare := ''''\<rparr>, None))"

definition deleteObjectPermissionInTransaction :: "db_env \<Rightarrow> ODObjectPermission \<Rightarrow> Db
    \<Rightarrow> (ODObjectPermission \<times> string option) \<times> Db" where
  "deleteObjectPermissionInTransaction env p db =
     (if p_ID p = None then ((empty_permission, Some ErrMissingID), db)
      else if p_ChangeToken p = '''' then ((empty_permission, Some ErrMissingChangeToken), db)
      else (case getObjectPermissionInTransaction (p_ID p) db of
          (r, Some e) \<Rightarrow> ((r, Some e), db)
        | (r, None) \<Rightarrow>
            (if p_IsDeleted r then ((r, None), db)
             else if p_ChangeToken p \<noteq> p_ChangeToken r
             then ((r, Some (''ChangeToken does not match expected value '' @ p_ChangeToken r)), db)
             else (let by = \<lparr>ns_String = p_ModifiedBy p, ns_Valid = True\<rparr>;
                       r1 = r\<lparr>p_IsDeleted := True, p_ModifiedBy := p_ModifiedBy p, p_DeletedBy := by\<rparr> in
               case update_permission env (p_ID r) (\<lambda>x. True)
                   (\<lambda>x. x\<lparr>p_ModifiedBy := p_ModifiedBy p, p_IsDeleted := True, p_DeletedBy := by\<rparr>) db of
                 Inl e \<Rightarrow> ((r1, Some e), db)
               | Inr db1 \<Rightarrow> (getObjectPermissionInTransaction (p_ID p) db1, db1)))))"

definition updatePermissionInTransaction :: "db_env \<Rightarrow> ODObjectPermission \<Rightarrow> Db \<Rightarrow> string + Db" where
  "updatePermissionInTransaction env p db =
     map_sum (\<lambda>e. ''updatePermission error executing update statement, '' @ e) (\<lambda>d. d)
       (update_permission env (p_ID p) (\<lambda>x. p_ChangeToken x = p_ChangeToken p)
         (\<lambda>x. x\<lparr>p_ModifiedBy := p_ModifiedBy p, p_EncryptKey := p_EncryptKey p, p_PermissionIV := p_PermissionIV p,
                p_PermissionMAC := p_PermissionMAC p\<rparr>) db)"

subsection \<open>Properties\<close>

definition property_ids :: "Db \<Rightarrow> bytes list" where
  "property_ids db = map (slice_bytes \<circ> pr_ID \<circ> snd) (db_property db)"

text \<open>The property and its relation to the object are one row here; the row found again is the one just added.\<close>

definition addPropertyToObjectInTransaction :: "db_env \<Rightarrow> slice \<Rightarrow> ODObjectPropertyEx \<Rightarrow> Db
    \<Rightarrow> (ODObjectPropertyEx \<times> string option) \<times> Db" where
  "addPropertyToObjectInTransaction env oid p db =
     (if pr_Name p = '''' then ((p, Some ''Field name required where inserting record into property''), db)
      else (let i = de_fresh env (property_ids db);
                row = p\<lparr>pr_ID := Some i, pr_CreatedDate := de_now env, pr_ModifiedDate := de_now env,
                  pr_ModifiedBy := pr_CreatedBy p, pr_IsDeleted := False, pr_DeletedDate := None, pr_DeletedBy := null_string,
                  pr_ChangeCount := 0, pr_ChangeToken := de_token env i 0 (de_now env),
                  pr_Value := \<lparr>ns_String = ns_String (pr_Value p), ns_Valid = True\<rparr>,
                  pr_ClassificationPM := \<lparr>ns_String = ns_String (pr_ClassificationPM p), ns_Valid = True\<rparr>\<rparr>
            in ((row, None), db\<lparr>db_property := db_property db @ [(slice_bytes oid, row)]\<rparr>)))"

definition deleteObjectPropertyInTransaction :: "db_env \<Rightarrow> ODObjectPropertyEx \<Rightarrow> Db \<Rightarrow> string option \<times> Db" where
  "deleteObjectPropertyInTransaction env p db =
     (if pr_ID p = None then (Some ErrMissingID, db)
      else if pr_ChangeToken p = '''' then (Some ErrMissingChangeToken, db)
      else (case find (\<lambda>(k, r). pr_ID r = pr_ID p) (db_property db) of
          None \<Rightarrow> (Some ErrNoRows, db)
        | Some (k, old) \<Rightarrow>
            (if pr_IsDeleted old then (None, db)
             else if pr_ChangeToken old = '''' then (Some ''Field changeToken required when updating record'', db)
             else (let row = old\<lparr>pr_ModifiedBy := pr_ModifiedBy p, pr_IsDeleted := True, pr_ModifiedDate := de_now env,
                     pr_DeletedDate := Some (de_now env), pr_DeletedBy := \<lparr>ns_String = pr_ModifiedBy p, ns_Valid = True\<rparr>,
                     pr_ChangeCount := pr_ChangeCount old + 1,
                     pr_ChangeToken := de_token env (slice_bytes (pr_ID old)) (pr_ChangeCount old + 1) (de_now env)\<rparr>
               in (None, db\<lparr>db_property := map (\<lambda>(k, r). if pr_ID r = pr_ID p then (k, row) else (k, r)) (db_property db)\<rparr>)))))"

subsection \<open>Updating an object\<close>

definition normalizedACM :: "db_env \<Rightarrow> string \<Rightarrow> string option" where
  "normalizedACM env i = (case de_unmarshal env i of None \<Rightarrow> None | Some j \<Rightarrow> de_marshal env j)"

text \<open>The user an object is given to is added when not known; the owner is then named after the row.\<close>

definition add_owner :: "ODObject \<Rightarrow> Db \<Rightarrow> ODObject \<times> Db" where
  "add_owner obj db =
     (let ownedBy = ns_String (o_OwnedBy obj);
          dn = g_UserDistinguishedName (NewODAcmGranteeFromResourceName ownedBy) in
      if length ownedBy > 0 \<and> ns_Valid dn \<and> length (ns_String dn) > 0 \<and>
         getUserByDistinguishedNameInTransaction (ns_String dn) db = Some ErrNoRows
      then (case createUserInTransaction (ns_String dn) db of ((created, _), db1) \<Rightarrow>
        (obj\<lparr>o_OwnedBy := ToNullString (''user/'' @ created)\<rparr>, db1))
      else (obj, db))"

definition some_string :: "NullString \<Rightarrow> NullString" where
  "some_string n = \<lparr>ns_String = ns_String n, ns_Valid = True\<rparr>"

definition set_object_fields :: "ODObject \<Rightarrow> ODObject \<Rightarrow> ODObject" where
  "set_object_fields obj x = x\<lparr>o_ModifiedBy := o_ModifiedBy obj, o_OwnedBy := some_string (o_OwnedBy obj),
     o_TypeID := o_TypeID obj, o_Name := o_Name obj, o_Description := some_string (o_Description obj),
     o_ParentID := o_ParentID obj, o_ContentConnector := some_string (o_ContentConnector obj),
     o_RawAcm := some_string (o_RawAcm obj), o_ContentType := some_string (o_ContentType obj),
     o_ContentSize := o_ContentSize obj, o_ContentHash := o_ContentHash obj, o_EncryptIV := o_EncryptIV obj,
     o_ContainsUSPersonsData := o_ContainsUSPersonsData obj, o_ExemptFromFOIA := o_ExemptFromFOIA obj,
     o_ACMID := o_ACMID obj\<rparr>"

text \<open>A property of the request against those of the row: an empty value deletes, another value replaces.\<close>

fun scan_properties_of :: "db_env \<Rightarrow> string \<Rightarrow> ODObjectPropertyEx \<Rightarrow> ODObjectPropertyEx list \<Rightarrow> bool \<Rightarrow> Db
    \<Rightarrow> (string option \<times> bool) \<times> Db" where
  "scan_properties_of env who q [] addProperty db = ((None, addProperty), db)"
| "scan_properties_of env who q (d # ds) addProperty db =
     (if pr_Name q = pr_Name d then
        (if length (ns_String (pr_Value q)) = 0 \<or> ns_String (pr_Value q) \<noteq> ns_String (pr_Value d) \<or>
            ns_String (pr_ClassificationPM q) \<noteq> ns_String (pr_ClassificationPM d)
         then (case deleteObjectPropertyInTransaction env (d\<lparr>pr_ModifiedBy := who\<rparr>) db of
             (Some e, db1) \<Rightarrow> ((Some (''error deleting property during update: '' @ e), addProperty), db1)
           | (None, db1) \<Rightarrow> scan_properties_of env who q ds
               (if length (ns_String (pr_Value q)) = 0 then False else addProperty) db1)
         else scan_properties_of env who q ds False db)
      else scan_properties_of env who q ds addProperty db)"

fun update_properties :: "db_env \<Rightarrow> string \<Rightarrow> slice \<Rightarrow> ODObjectPropertyEx list \<Rightarrow> ODObjectPropertyEx list \<Rightarrow> Db
    \<Rightarrow> string option \<times> Db" where
  "update_properties env who oid dbProperties [] db = (None, db)"
| "update_properties env who oid dbProperties (q # qs) db =
     (case scan_properties_of env who q dbProperties True db of
        ((Some e, _), db1) \<Rightarrow> (Some e, db1)
      | ((None, False), db1) \<Rightarrow> update_properties env who oid dbProperties qs db1
      | ((None, True), db1) \<Rightarrow>
          (case addPropertyToObjectInTransaction env oid (q\<lparr>pr_CreatedBy := who\<rparr>) db1 of
             ((_, Some e), db2) \<Rightarrow> (Some (''error saving property for object: '' @ e), db2)
           | ((_, None), db2) \<Rightarrow> update_properties env who oid dbProperties qs db2))"

fun update_permissions :: "db_env \<Rightarrow> string \<Rightarrow> slice \<Rightarrow> ODObjectPermission list \<Rightarrow> DataAccessLayer
    \<Rightarrow> (string option \<times> DataAccessLayer) res" where
  "update_permissions env who oid [] dao = Ok (None, dao)"
| "update_permissions env who oid (p # ps) dao =
     (if p_IsDeleted p \<and> \<not> perm_IsCreating p then
        (case deleteObjectPermissionInTransaction env (p\<lparr>p_ModifiedBy := who\<rparr>) (da_db dao) of
           ((_, Some e), db1) \<Rightarrow> Ok (Some (''error deleting removed permission: '' @ e), dao\<lparr>da_db := db1\<rparr>)
         | ((r, None), db1) \<Rightarrow>
             (if ns_String (p_DeletedBy r) \<noteq> p_ModifiedBy r
              then Ok (Some ''when deleting permission, it did not get deletedby set to modifiedby'', dao\<lparr>da_db := db1\<rparr>)
              else update_permissions env who oid ps (dao\<lparr>da_db := db1\<rparr>)))
      else if perm_IsCreating p \<and> \<not> p_IsDeleted p then
        bind_res (addPermissionToObjectInTransaction env oid (p\<lparr>p_CreatedBy := who\<rparr>) dao) (\<lambda>r. case r of
           ((_, Some e), dao1) \<Rightarrow> Ok (Some (''error saving permission when updating object: '' @ e), dao1)
         | ((r, None), dao1) \<Rightarrow>
             (if p_ModifiedBy r \<noteq> p_CreatedBy r
              then Ok (Some ''when creating permission, it did not get modifiedby set to createdby'', dao1)
              else update_permissions env who oid ps dao1))
      else update_permissions env who oid ps dao)"

text \<open>The part up to the statement: the object with its defaults, or the error.\<close>

definition check_update :: "db_env \<Rightarrow> ODObject \<Rightarrow> DataAccessLayer \<Rightarrow> ((string + ODObject) \<times> ODObject) \<times> DataAccessLayer" where
  "check_update env obj dao = (
     if o_ID obj = None then ((Inl ErrMissingID, obj), dao)
     else if o_ChangeToken obj = '''' then ((Inl ErrMissingChangeToken, obj), dao)
     else if o_ModifiedBy obj = '''' then ((Inl ErrMissingModifiedBy, obj), dao)
     else (let obj1 = obj\<lparr>o_ParentID := (if slice_len (o_ParentID obj) = 0 then None else o_ParentID obj),
                           o_TypeID := (if slice_len (o_TypeID obj) = 0 then None else o_TypeID obj)\<rparr> in
       if o_TypeID obj1 = None then ((Inl ErrMissingTypeID, obj1), dao)
       else (case getObjectInTransaction env (o_ID obj1) True True dao of
           ((_, Some e), dao1) \<Rightarrow> ((Inl (''updateobject error retrieving object, '' @ e), obj1), dao1)
         | ((dbObject, None), dao1) \<Rightarrow>
             (if o_ChangeToken obj1 \<noteq> o_ChangeToken dbObject
              then ((Inl ''changetoken does not match expected value'', obj1), dao1)
              else if o_IsDeleted dbObject
              then ((Inl ''unable to modify object if deleted. Call UndeleteObject first'', obj1), dao1)
              else ((Inr dbObject,
                (if length (o_Name obj1) = 0 then obj1\<lparr>o_Name := ''Unnamed '' @ ns_String (o_TypeName obj1)\<rparr> else obj1)), dao1)))))"

text \<open>The object the caller holds is changed on the way, also when the update fails; the result is that object,
  whether an ACM was created, and the error.\<close>

definition updateObjectInTransaction :: "db_env \<Rightarrow> ODObject \<Rightarrow> DataAccessLayer
    \<Rightarrow> ((ODObject \<times> bool \<times> string option) \<times> DataAccessLayer) res" where
  "updateObjectInTransaction env obj0 dao =
     (case check_update env obj0 dao of
        ((Inl e, obj), dao1) \<Rightarrow> Ok ((obj, False, Some e), dao1)
      | ((Inr dbObject, obj), dao1) \<Rightarrow>
        (case add_owner obj (da_db dao1) of (obj1, db2) \<Rightarrow>
          (case normalizedACM env (ns_String (o_RawAcm obj1)) of
             None \<Rightarrow> Ok ((obj1, False, Some ''error normalizing acm on modified object''), dao1\<lparr>da_db := db2\<rparr>)
           | Some acm \<Rightarrow>
             bind_res (setObjectACM2ForObjectInTransaction env (obj1\<lparr>o_RawAcm := (o_RawAcm obj1)\<lparr>ns_String := acm\<rparr>\<rparr>) db2)
               (\<lambda>r. case r of
                 ((obj2, created, Some e), db3) \<Rightarrow>
                    Ok ((obj2, created, Some (''error assigning acm id for object: '' @ e)), dao1\<lparr>da_db := db3\<rparr>)
               | ((obj2, created, None), db3) \<Rightarrow>
                 (case update_object env (o_ID obj2) (set_object_fields obj2) db3 of
                    Inl e \<Rightarrow> Ok ((obj2, created, Some (''updateobject error executing update object statement, '' @ e)), dao1\<lparr>da_db := db3\<rparr>)
                  | Inr db4 \<Rightarrow>
                    (case update_properties env (o_ModifiedBy obj2) (o_ID obj2) (o_Properties dbObject) (o_Properties obj2) db4 of
                       (Some e, db5) \<Rightarrow> Ok ((obj2, created, Some e), dao1\<lparr>da_db := db5\<rparr>)
                     | (None, db5) \<Rightarrow>
                       bind_res (update_permissions env (o_ModifiedBy obj2) (o_ID obj2) (o_Permissions obj2) (dao1\<lparr>da_db := db5\<rparr>))
                         (\<lambda>q. case q of
                           (Some e, dao6) \<Rightarrow> Ok ((obj2, created, Some e), dao6)
                         | (None, dao6) \<Rightarrow>
                           (case getObjectInTransaction env (o_ID obj2) True True dao6 of
                              ((_, Some e), dao7) \<Rightarrow> Ok ((obj2, created, Some (''updateobject error retrieving object '' @ e)), dao7)
                            | ((dbObject', None), dao7) \<Rightarrow> Ok ((dbObject', created, None), dao7)))))))))"

text \<open>When the transaction is taken back, the names of ACM keys and values that it had others add stay, and so does
  the cache of grantees.\<close>

definition rollback_tx :: "DataAccessLayer \<Rightarrow> DataAccessLayer \<Rightarrow> DataAccessLayer" where
  "rollback_tx before after = (let db = da_db before; own = db_acmvalue2_own (da_db after) in
     after\<lparr>da_db := db\<lparr>db_acmkey2 := db_acmkey2 (da_db after),
       db_acmvalue2 := filter (\<lambda>v. v \<notin> set (db_acmvalue2 db)) own @ db_acmvalue2 db, db_acmvalue2_own := own\<rparr>\<rparr>)"

definition update_retry_errors :: "string list" where
  "update_retry_errors = [''Throttled'', ''Duplicate entry'', ''Deadlock'', ''Lock wait timeout exceeded'', ErrNoRows]"

fun update_attempts :: "nat \<Rightarrow> db_env \<Rightarrow> ODObject \<Rightarrow> DataAccessLayer
    \<Rightarrow> ((ODObject \<times> bool \<times> string option) \<times> DataAccessLayer) res" where
  "update_attempts retryCounter env obj dao =
     bind_res (updateObjectInTransaction env obj dao) (\<lambda>r. case r of
         ((obj', created, None), dao1) \<Rightarrow> Ok ((obj', created, None), dao1)
       | ((obj', created, Some e), dao1) \<Rightarrow>
           (case retryCounter of
              Suc n \<Rightarrow> (if ContainsAny e update_retry_errors then update_attempts n env obj' (rollback_tx dao dao1)
                else Ok ((obj', created, Some e), rollback_tx dao dao1))
            | 0 \<Rightarrow> Ok ((obj', created, Some e), rollback_tx dao dao1)))"

definition UpdateObject :: "db_env \<Rightarrow> ODObject \<Rightarrow> DataAccessLayer \<Rightarrow> ((ODObject \<times> string option) \<times> DataAccessLayer) res" where
  "UpdateObject env obj dao = bind_res (update_attempts (de_retries env) env obj dao)
     (\<lambda>((obj', created, e), dao1). Ok ((obj', e), dao1))"

subsection \<open>Creating an object\<close>

text \<open>The trigger \<open>ti_object\<close>.\<close>

definition insert_object :: "db_env \<Rightarrow> ODObject \<Rightarrow> Db \<Rightarrow> string + Db" where
  "insert_object env obj db =
     (let parent = (if slice_len (o_ParentID obj) = 0 then None else o_ParentID obj);
          err = (if \<not> live_type db (o_TypeID obj) then ''Field typeId required '' else '''') @
            (if parent \<noteq> None \<and> \<not> list_ex (\<lambda>x. \<not> o_IsDeleted x \<and> o_ID x = parent) (db_object db)
             then ''Field parentId must be valid '' else '''');
          i = de_fresh env (map (slice_bytes \<circ> o_ID) (db_object db));
          owner = (if ns_String (o_OwnedBy obj) = '''' then ''user/'' @ o_CreatedBy obj else ns_String (o_OwnedBy obj));
          row = empty_object\<lparr>o_ID := Some i, o_CreatedDate := de_now env, o_CreatedBy := o_CreatedBy obj,
            o_ModifiedDate := de_now env, o_ModifiedBy := o_CreatedBy obj, o_ChangeCount := 0,
            o_ChangeToken := de_token env i 0 (de_now env), o_OwnedBy := \<lparr>ns_String = de_owner env owner, ns_Valid = True\<rparr>,
            o_TypeID := o_TypeID obj, o_Name := o_Name obj, o_Description := some_string (o_Description obj),
            o_ParentID := parent, o_ContentConnector := some_string (o_ContentConnector obj),
            o_RawAcm := some_string (o_RawAcm obj), o_ContentType := some_string (o_ContentType obj),
            o_ContentSize := \<lparr>ni_Int64 = ni_Int64 (o_ContentSize obj), ni_Valid = True\<rparr>,
            o_ContentHash := o_ContentHash obj, o_EncryptIV := o_EncryptIV obj,
            o_ContainsUSPersonsData := (if o_ContainsUSPersonsData obj = '''' then ''Unknown'' else o_ContainsUSPersonsData obj),
            o_ExemptFromFOIA := (if o_ExemptFromFOIA obj = '''' then ''Unknown'' else o_ExemptFromFOIA obj), o_ACMID := o_ACMID obj\<rparr>
      in if err \<noteq> '''' then Inl (err @ ''when inserting record into object'')
         else Inr (db\<lparr>db_object := db_object db @ [row], db_a_object := db_a_object db @ [row]\<rparr>))"

definition add_creator :: "ODObject \<Rightarrow> Db \<Rightarrow> ODObject \<times> Db" where
  "add_creator obj db =
     (if getUserByDistinguishedNameInTransaction (o_CreatedBy obj) db = Some ErrNoRows
      then (case createUserInTransaction (o_CreatedBy obj) db of ((created, _), db1) \<Rightarrow> (obj\<lparr>o_CreatedBy := created\<rparr>, db1))
      else (obj, db))"

fun create_properties :: "db_env \<Rightarrow> string \<Rightarrow> slice \<Rightarrow> ODObjectPropertyEx list \<Rightarrow> Db \<Rightarrow> string option \<times> Db" where
  "create_properties env who oid [] db = (None, db)"
| "create_properties env who oid (q # qs) db =
     (if pr_Name q = '''' then create_properties env who oid qs db
      else (case addPropertyToObjectInTransaction env oid (q\<lparr>pr_CreatedBy := who\<rparr>) db of
          ((_, Some e), db1) \<Rightarrow> (Some ''Error saving property when creating object'', db1)
        | ((_, None), db1) \<Rightarrow> create_properties env who oid qs db1))"

text \<open>The permissions of the object given are replaced by the rows; the error names the first that fails.\<close>

fun create_permissions :: "db_env \<Rightarrow> string \<Rightarrow> slice \<Rightarrow> ODObjectPermission list \<Rightarrow> DataAccessLayer
    \<Rightarrow> ((ODObjectPermission list \<times> string option) \<times> DataAccessLayer) res" where
  "create_permissions env who oid [] dao = Ok (([], None), dao)"
| "create_permissions env who oid (p # ps) dao =
     (if \<not> p_IsDeleted p \<and> p_Grantee p \<noteq> '''' then
        bind_res (addPermissionToObjectInTransaction env oid (p\<lparr>p_CreatedBy := who\<rparr>) dao) (\<lambda>r. case r of
           ((_, Some e), dao1) \<Rightarrow> Ok ((p # ps, Some (''Error saving permission when creating object: '' @ e)), dao1)
         | ((row, None), dao1) \<Rightarrow>
             (if p_ModifiedBy row \<noteq> who
              then Ok ((p # ps, Some ''When creating object, permission did not get modifiedby set to createdby''), dao1)
              else bind_res (create_permissions env who oid ps dao1) (\<lambda>((rows, e), dao2). Ok ((row # rows, e), dao2))))
      else bind_res (create_permissions env who oid ps dao) (\<lambda>((rows, e), dao2). Ok ((p # rows, e), dao2)))"

definition complete_object :: "db_env \<Rightarrow> ODObject \<Rightarrow> Db \<Rightarrow> (string + ODObject) \<times> ODObject \<times> Db" where
  "complete_object env obj db =
     (let obj1 = obj\<lparr>o_ParentID := (if slice_len (o_ParentID obj) = 0 then None else o_ParentID obj),
                     o_TypeID := (if slice_len (o_TypeID obj) = 0 then None else o_TypeID obj)\<rparr> in
      if o_CreatedBy obj1 = '''' then (Inl ''cannot create object, createdby field is missing'', obj1, db)
      else if o_TypeID obj1 = None then (Inl ''cannot create object, typeid field is missing'', obj1, db)
      else (let (obj2, db1) = add_creator obj1 db;
                obj3 = (if length (o_Name obj2) = 0 then obj2\<lparr>o_Name := ''New '' @ ns_String (o_TypeName obj2)\<rparr> else obj2);
                obj4 = (if length (ns_String (o_ContentConnector obj3)) = 0
                  then obj3\<lparr>o_ContentConnector := ToNullString (de_random_name env db1)\<rparr> else obj3)
            in (Inr obj4, obj4, db1)))"

definition createObjectInTransaction :: "db_env \<Rightarrow> ODObject \<Rightarrow> DataAccessLayer
    \<Rightarrow> ((ODObject \<times> ODObject \<times> bool \<times> string option) \<times> DataAccessLayer) res" where
  "createObjectInTransaction env obj0 dao =
     (case complete_object env obj0 (da_db dao) of
        (Inl e, obj, db1) \<Rightarrow> Ok ((empty_object, obj, False, Some e), dao\<lparr>da_db := db1\<rparr>)
      | (Inr obj, _, db1) \<Rightarrow>
        (case normalizedACM env (ns_String (o_RawAcm obj)) of
           None \<Rightarrow> Ok ((empty_object, obj, False, Some ''Error normalizing ACM on new object''), dao\<lparr>da_db := db1\<rparr>)
         | Some acm \<Rightarrow>
           bind_res (setObjectACM2ForObjectInTransaction env (obj\<lparr>o_RawAcm := (o_RawAcm obj)\<lparr>ns_String := acm\<rparr>\<rparr>) db1) (\<lambda>r. case r of
               ((obj1, created, Some e), db2) \<Rightarrow>
                  Ok ((empty_object, obj1, created, Some (''Error assigning ACM ID for object: '' @ e)), dao\<lparr>da_db := db2\<rparr>)
             | ((obj1, created, None), db2) \<Rightarrow>
               (case insert_object env obj1 db2 of
                  Inl e \<Rightarrow> Ok ((empty_object, obj1, created,
                    Some (''createobject error executing add object statement, '' @ e)), dao\<lparr>da_db := db2\<rparr>)
                | Inr db3 \<Rightarrow>
                  (case find_last (\<lambda>x. o_CreatedBy x = o_CreatedBy obj1 \<and> o_TypeID x = o_TypeID obj1 \<and> o_Name x = o_Name obj1 \<and>
                      ns_String (o_ContentConnector x) = ns_String (o_ContentConnector obj1) \<and> \<not> o_IsDeleted x) (db_object db3) of
                     None \<Rightarrow> Ok ((empty_object, obj1, created, Some (''CreateObject Error retrieving object, '' @ ErrNoRows)), dao\<lparr>da_db := db3\<rparr>)
                   | Some dbObject \<Rightarrow>
                     (case create_properties env (o_CreatedBy dbObject) (o_ID dbObject) (o_Properties obj1) db3 of
                        (Some e, db4) \<Rightarrow> Ok ((dbObject, obj1, created, Some e), dao\<lparr>da_db := db4\<rparr>)
                      | (None, db4) \<Rightarrow>
                        bind_res (create_permissions env (o_CreatedBy dbObject) (o_ID dbObject) (o_Permissions obj1) (dao\<lparr>da_db := db4\<rparr>))
                          (\<lambda>((rows, e), dao5). Ok ((dbObject, obj1\<lparr>o_Permissions := rows\<rparr>, created, e), dao5))))))))"

definition create_retry_errors :: "string list" where
  "create_retry_errors = [''Duplicate entry'', ''Deadlock'', ''Lock wait timeout exceeded'', ''Field name must be unique'']"

fun create_attempts :: "nat \<Rightarrow> db_env \<Rightarrow> ODObject \<Rightarrow> DataAccessLayer
    \<Rightarrow> ((ODObject \<times> ODObject \<times> string option) \<times> DataAccessLayer) res" where
  "create_attempts retryCounter env obj dao =
     bind_res (createObjectInTransaction env obj dao) (\<lambda>r. case r of
         ((dbObject, obj', _, None), dao1) \<Rightarrow> Ok ((dbObject, obj', None), dao1)
       | ((dbObject, obj', _, Some e), dao1) \<Rightarrow>
           (case retryCounter of
              Suc n \<Rightarrow> (if ContainsAny e create_retry_errors then create_attempts n env obj' (rollback_tx dao dao1)
                else Ok ((dbObject, obj', Some e), rollback_tx dao dao1))
            | 0 \<Rightarrow> Ok ((dbObject, obj', Some e), rollback_tx dao dao1)))"

text \<open>The object is read again after the commit; an error of that read is returned, and the object stays.\<close>

definition CreateObject :: "db_env \<Rightarrow> ODObject \<Rightarrow> DataAccessLayer \<Rightarrow> ((ODObject \<times> string option) \<times> DataAccessLayer) res" where
  "CreateObject env obj dao = bind_res (create_attempts (de_retries env) env obj dao) (\<lambda>r. case r of
       ((_, _, Some e), dao1) \<Rightarrow> Ok ((empty_object, Some e), dao1)
     | ((dbObject, _, None), dao1) \<Rightarrow>
         (case getObjectInTransaction env (o_ID dbObject) True True dao1 of
            ((_, Some e), dao2) \<Rightarrow> Ok ((empty_object, Some e), dao2)
          | ((x, None), dao2) \<Rightarrow> Ok ((x, None), dao2)))"

subsection \<open>What leaves the objects alone\<close>

named_theorems same_objects

definition objs :: "Db \<Rightarrow> ODObject list \<times> (bytes \<times> string \<times> bool) list" where
  "objs db = (db_object db, db_type db)"

definition rows :: "Db \<Rightarrow> (ODObject list \<times> (bytes \<times> string \<times> bool) list) \<times> ODObjectPermission list
    \<times> (string \<times> ODAcmGrantee) list" where
  "rows db = (objs db, db_permission db, db_grantee db)"

lemma objs_simps [simp]:
  "objs (db\<lparr>db_user := x1\<rparr>) = objs db"
  "objs (db\<lparr>db_property := x2\<rparr>) = objs db"
  "objs (db\<lparr>db_acm2 := x3\<rparr>) = objs db"
  "objs (db\<lparr>db_acmkey2 := x4\<rparr>) = objs db"
  "objs (db\<lparr>db_acmvalue2 := x5\<rparr>) = objs db"
  "objs (db\<lparr>db_acmpart2 := x6\<rparr>) = objs db"
  "objs (db\<lparr>db_acmvalue2_own := x7\<rparr>) = objs db"
  "objs (db\<lparr>db_permission := x8\<rparr>) = objs db"
  "objs (db\<lparr>db_grantee := x9\<rparr>) = objs db"
  by (simp_all add: objs_def)

lemma objsD: "objs db' = objs db \<Longrightarrow> db_object db' = db_object db" "objs db' = objs db \<Longrightarrow> db_type db' = db_type db"
  by (simp_all add: objs_def)

lemma rows_simps [simp]:
  "rows (db\<lparr>db_user := x1\<rparr>) = rows db"
  "rows (db\<lparr>db_property := x2\<rparr>) = rows db"
  "rows (db\<lparr>db_acm2 := x3\<rparr>) = rows db"
  "rows (db\<lparr>db_acmkey2 := x4\<rparr>) = rows db"
  "rows (db\<lparr>db_acmvalue2 := x5\<rparr>) = rows db"
  "rows (db\<lparr>db_acmvalue2_own := x7\<rparr>) = rows db"
  "rows (db\<lparr>db_acmpart2 := x6\<rparr>) = rows db"
  by (simp_all add: rows_def)

lemma object_row_cong: "db_object db' = db_object db \<Longrightarrow> object_row db' = object_row db"
  by (rule ext) (simp only: object_row_def)

lemma live_type_cong: "db_type db' = db_type db \<Longrightarrow> live_type db' = live_type db"
  by (rule ext) (simp only: live_type_def type_row_def)

lemma rowsD: "rows db' = rows db \<Longrightarrow> db_object db' = db_object db"
    "rows db' = rows db \<Longrightarrow> db_permission db' = db_permission db"
    "rows db' = rows db \<Longrightarrow> db_grantee db' = db_grantee db"
    "rows db' = rows db \<Longrightarrow> db_type db' = db_type db"
    "rows db' = rows db \<Longrightarrow> objs db' = objs db"
  by (simp_all add: rows_def objs_def)

lemma createUser_objects [same_objects]: "createUserInTransaction dn db = (r, db') \<Longrightarrow> rows db' = rows db"
  by (auto simp: createUserInTransaction_def split: if_splits option.splits)

lemma complete_grantee_objects [same_objects]: "complete_grantee g db = Ok (g', db') \<Longrightarrow> rows db' = rows db"
  by (auto simp: complete_grantee_def createUserInTransaction_def Let_def bind_res_Ok_iff split: if_splits option.splits)

lemma insert_acmgrantee_objects [same_objects]: "insert_acmgrantee g db = Inr db' \<Longrightarrow> objs db' = objs db"
  by (auto simp: insert_acmgrantee_def Let_def split: if_splits)

lemma createAcmGrantee_objects [same_objects]:
  "createAcmGranteeInTransaction g dao = Ok (r, dao') \<Longrightarrow> objs (da_db dao') = objs (da_db dao)"
proof -
  assume a: "createAcmGranteeInTransaction g dao = Ok (r, dao')"
  then obtain g1 db1 where c: "complete_grantee g (da_db dao) = Ok (g1, db1)"
    by (auto simp: createAcmGranteeInTransaction_def bind_res_Ok_iff)
  obtain x e dao1 where get: "getAcmGranteeInTransaction (g_Grantee g1) (dao\<lparr>da_db := db1\<rparr>) = ((x, e), dao1)"
    by (metis surj_pair)
  have "da_db dao1 = db1"
    using getAcmGrantee_dbD [OF get] by simp
  moreover consider "getAcmGranteeInTransaction (g_Grantee g1) dao1 = (r, dao')"
    | db2 where "insert_acmgrantee g1 (da_db dao1) = Inr db2" "getAcmGranteeInTransaction (g_Grantee g1) (dao1\<lparr>da_db := db2\<rparr>) = (r, dao')"
    using a c get by (cases "insert_acmgrantee g1 (da_db dao1)")
      (auto simp: createAcmGranteeInTransaction_def split: if_splits)
  then have "objs (da_db dao') = objs (da_db dao1)"
    by cases (auto dest!: getAcmGrantee_dbD insert_acmgrantee_objects)
  ultimately show ?thesis
    using rowsD(5) [OF complete_grantee_objects [OF c]] by simp
qed

lemma insert_permission_objects [same_objects]: "insert_permission env p db = Inr db' \<Longrightarrow> objs db' = objs db"
  by (auto simp: insert_permission_def Let_def split: if_splits)

lemma addPermission_objects [same_objects]:
  "addPermissionToObjectInTransaction env i p dao = Ok (r, dao') \<Longrightarrow> objs (da_db dao') = objs (da_db dao)"
  by (auto simp: addPermissionToObjectInTransaction_def bind_res_Ok_iff Let_def
      split: prod.splits option.splits sum.splits
      dest!: getAcmGrantee_dbD createAcmGrantee_objects insert_permission_objects)

lemma update_permission_objects [same_objects]: "update_permission env i c f db = Inr db' \<Longrightarrow> objs db' = objs db"
  by (auto simp: update_permission_def Let_def split: if_splits option.splits)

lemma deletePermission_objects [same_objects]:
  "deleteObjectPermissionInTransaction env p db = (r, db') \<Longrightarrow> objs db' = objs db"
  by (auto simp: deleteObjectPermissionInTransaction_def Let_def
      split: if_splits prod.splits option.splits sum.splits dest: update_permission_objects)

lemma addProperty_objects [same_objects]:
  "addPropertyToObjectInTransaction env i p db = (r, db') \<Longrightarrow> rows db' = rows db"
  by (auto simp: addPropertyToObjectInTransaction_def Let_def split: if_splits)

lemma deleteProperty_objects [same_objects]:
  "deleteObjectPropertyInTransaction env p db = (r, db') \<Longrightarrow> rows db' = rows db"
  by (auto simp: deleteObjectPropertyInTransaction_def Let_def split: if_splits option.splits prod.splits)

lemma scan_properties_objects [same_objects]:
  "scan_properties_of env who q ds b db = (r, db') \<Longrightarrow> rows db' = rows db"
proof (induction ds arbitrary: b db)
  case (Cons d ds)
  obtain e db1 where d: "deleteObjectPropertyInTransaction env (d\<lparr>pr_ModifiedBy := who\<rparr>) db = (e, db1)"
    by (metis surj_pair)
  then show ?case
    using Cons deleteProperty_objects [OF d] by (auto split: if_splits option.splits)
qed simp

lemma update_properties_objects [same_objects]:
  "update_properties env who i ds qs db = (r, db') \<Longrightarrow> rows db' = rows db"
proof (induction qs arbitrary: db)
  case (Cons q qs)
  obtain e b db1 where s: "scan_properties_of env who q ds True db = ((e, b), db1)"
    by (metis surj_pair)
  obtain x e2 db2 where a: "addPropertyToObjectInTransaction env i (q\<lparr>pr_CreatedBy := who\<rparr>) db1 = ((x, e2), db2)"
    by (metis surj_pair)
  consider "db' = db1" | "db' = db2" | "update_properties env who i ds qs db1 = (r, db')" | "update_properties env who i ds qs db2 = (r, db')"
    using Cons.prems s a by (cases e; cases b; cases e2) auto
  then show ?case
    using Cons.IH scan_properties_objects [OF s] addProperty_objects [OF a] by cases metis+
qed simp

lemma update_permissions_objects [same_objects]:
  "update_permissions env who i ps dao = Ok (r, dao') \<Longrightarrow> objs (da_db dao') = objs (da_db dao)"
proof (induction ps arbitrary: dao)
  case (Cons p ps)
  obtain x e db1 where d: "deleteObjectPermissionInTransaction env (p\<lparr>p_ModifiedBy := who\<rparr>) (da_db dao) = ((x, e), db1)"
    by (metis surj_pair)
  note d' = deletePermission_objects [OF d]
  show ?case
  proof (cases "p_IsDeleted p \<and> \<not> perm_IsCreating p")
    case True
    then show ?thesis
      using Cons.prems Cons.IH [of "dao\<lparr>da_db := db1\<rparr>"] d d' by (cases e) (auto split: if_splits)
  next
    case False
    show ?thesis
    proof (cases "perm_IsCreating p \<and> \<not> p_IsDeleted p")
      case True
      then obtain y e2 dao1 where a: "addPermissionToObjectInTransaction env i (p\<lparr>p_CreatedBy := who\<rparr>) dao = Ok ((y, e2), dao1)"
        using Cons.prems by (auto simp: bind_res_Ok_iff)
      consider "dao' = dao1" | "update_permissions env who i ps dao1 = Ok (r, dao')"
        using Cons.prems True a by (cases e2) (auto split: if_splits)
      then show ?thesis
        using Cons.IH addPermission_objects [OF a] by cases metis+
    next
      case False
      then show ?thesis
        using \<open>\<not> (p_IsDeleted p \<and> \<not> perm_IsCreating p)\<close> Cons.prems Cons.IH by auto
    qed
  qed
qed simp

lemma getAcmKey_objects [same_objects]: "getAcmKey2ByName env k b db = (r, db') \<Longrightarrow> rows db' = rows db"
  by (auto simp: getAcmKey2ByName_def split: if_splits)

lemma getAcmValue_objects [same_objects]: "getAcmValue2ByName env k b db = (r, db') \<Longrightarrow> rows db' = rows db"
  by (auto simp: getAcmValue2ByName_def split: if_splits)

lemma add_values_objects [same_objects]: "add_values env acm k vs db = (r, db') \<Longrightarrow> rows db' = rows db"
proof (induction vs arbitrary: db)
  case (Cons v vs)
  obtain e db1 where a: "getAcmValue2ByName env v True db = (e, db1)"
    by (metis surj_pair)
  consider "db' = db1" | "add_values env acm k vs db = (r, db')"
    | "add_values env acm k vs (createAcmPart2ForACMInTransaction acm k v db1) = (r, db')"
    using Cons.prems a by (cases e) (auto split: if_splits)
  then show ?case
    using Cons.IH getAcmValue_objects [OF a]
    by cases (auto simp: createAcmPart2ForACMInTransaction_def)
qed simp

lemma add_parts_objects [same_objects]: "add_parts env acm m db = Ok (r, db') \<Longrightarrow> rows db' = rows db"
proof (induction m arbitrary: db)
  case (Cons f m)
  obtain k j where f: "f = (k, j)"
    by (metis surj_pair)
  obtain e db1 where a: "getAcmKey2ByName env k True db = (e, db1)"
    by (metis surj_pair)
  show ?case
  proof (cases "acm_field k \<and> e = None")
    case False
    then have "db' = db1 \<or> add_parts env acm m db = Ok (r, db')"
      using Cons.prems f a by (cases e) (auto split: if_splits)
    then show ?thesis
      using Cons.IH getAcmKey_objects [OF a] by metis
  next
    case True
    then obtain vs where vs: "(case j of JNull \<Rightarrow> Ok [] | JArr xs \<Rightarrow> acm_values xs [] | _ \<Rightarrow> Panic) = Ok vs"
      using Cons.prems f a by (auto simp: bind_res_Ok_iff)
    obtain e2 db2 where v: "add_values env acm k vs db1 = (e2, db2)"
      by (metis surj_pair)
    have "db' = db2 \<or> add_parts env acm m db2 = Ok (r, db')"
      using Cons.prems f a True vs v by (cases e2) auto
    then show ?thesis
      using Cons.IH getAcmKey_objects [OF a] add_values_objects [OF v] by metis
  qed
qed simp

lemma setObjectACM2_keeps [same_objects]:
  assumes "setObjectACM2ForObjectInTransaction env obj db = Ok ((obj', c, e), db')"
  shows "rows db' = rows db \<and> (\<exists>i. obj' = obj\<lparr>o_ACMID := i\<rparr>)"
proof -
  have self: "\<exists>i. obj = obj\<lparr>o_ACMID := i\<rparr>"
    by (intro exI [of _ "o_ACMID obj"]) simp
  show ?thesis
  proof (cases "\<exists>m. de_unmarshal env (ns_String (o_RawAcm obj)) = Some (JObj m)")
    case False
    then have "obj' = obj \<and> db' = db"
      using assms by (auto simp: setObjectACM2ForObjectInTransaction_def split: option.splits json.splits)
    then show ?thesis
      using self by simp
  next
    case True
    then obtain m t where t: "de_unmarshal env (ns_String (o_RawAcm obj)) = Some (JObj m)" "getOverallFlattenedACM m = Ok t"
      using assms by (auto simp: setObjectACM2ForObjectInTransaction_def bind_res_Ok_iff)
    obtain i b e1 db1 where g: "getAcm2ByNameInTransaction env t True db = (((i, b), e1), db1)"
      by (metis surj_pair)
    then have db1: "rows db1 = rows db"
      by (auto simp: getAcm2ByNameInTransaction_def split: option.splits if_splits)
    show ?thesis
    proof (cases "e1 = None \<and> b")
      case True
      then obtain e2 db2 where p: "add_parts env i m db1 = Ok (e2, db2)"
        using assms t g by (auto simp: setObjectACM2ForObjectInTransaction_def bind_res_Ok_iff Let_def)
      then have "obj' = obj\<lparr>o_ACMID := i\<rparr> \<and> db' = db2"
        using assms t g True by (cases e2) (simp_all add: setObjectACM2ForObjectInTransaction_def Let_def)
      then show ?thesis
        using db1 add_parts_objects [OF p] by auto
    next
      case False
      define o1 where "o1 = obj\<lparr>o_ACMID := i\<rparr>"
      have "setObjectACM2ForObjectInTransaction env obj db = (case e1 of Some m \<Rightarrow> Ok ((obj, False, Some m), db1)
          | None \<Rightarrow> Ok ((o1, False, None), db1))"
        using False unfolding setObjectACM2ForObjectInTransaction_def Let_def o1_def [symmetric] t
        by (cases e1) (simp_all add: t g o1_def)
      then have "(obj' = obj \<or> obj' = o1) \<and> db' = db1"
        using assms by (auto split: option.splits)
      then show ?thesis
        using db1 self unfolding o1_def by blast
    qed
  qed
qed

text \<open>The owner a row is written for: the one of the request, or the user it names when that user was added.\<close>

definition owner_dn :: "string \<Rightarrow> string" where
  "owner_dn a = ns_String (g_UserDistinguishedName (NewODAcmGranteeFromResourceName a))"

definition owner_named :: "string \<Rightarrow> string \<Rightarrow> bool" where
  "owner_named a b \<longleftrightarrow> b = a \<or> (owner_dn a \<noteq> '''' \<and> b = ''user/'' @ owner_dn a)"

lemma user_prefix: "replace_n (Some 1) ''user/'' '''' (''user/'' @ s) = s"
  using replace_first_prefix [of "''user/''" "''''" s] by (simp only: append_Nil) simp

lemma owner_dn_user: "owner_dn (''user/'' @ s) = hd (split_char (CHR ''/'') s)"
proof -
  have "has_prefix (''user/'' @ s) ''user/''"
    by simp
  then show ?thesis
    unfolding owner_dn_def NewODAcmGranteeFromResourceName_def newODAcmGranteeFromUserResource_def Let_def user_prefix
    by (simp add: ToNullString_def hd_conv_nth)
qed

lemma owner_dn_prefix: "owner_dn a \<noteq> '''' \<Longrightarrow> \<exists>s. a = ''user/'' @ s"
  unfolding owner_dn_def NewODAcmGranteeFromResourceName_def newODAcmGranteeFromGroupResource_def Let_def
  by (auto simp: empty_grantee_def null_string_def prefix_def split: if_splits)

lemma owner_dn_idem:
  assumes "owner_dn a \<noteq> ''''"
  shows "owner_dn (''user/'' @ owner_dn a) = owner_dn a"
proof -
  obtain s where a: "a = ''user/'' @ s"
    using owner_dn_prefix [OF assms] by blast
  have "CHR ''/'' \<notin> set (owner_dn a)"
    unfolding a owner_dn_user by (rule split_char_parts [of _ _ s]) simp
  then show ?thesis
    unfolding owner_dn_user by (simp add: split_char_no_sep)
qed

lemma owner_named_refl [simp]: "owner_named a a"
  by (simp add: owner_named_def)

lemma owner_named_trans: "owner_named a b \<Longrightarrow> owner_named b c \<Longrightarrow> owner_named a c"
  unfolding owner_named_def using owner_dn_idem [of a] by (elim disjE conjE) (simp_all del: append.simps)

lemma add_owner_keeps:
  assumes "add_owner obj db = (obj', db')"
  shows "rows db' = rows db \<and> (\<exists>n. obj' = obj\<lparr>o_OwnedBy := n\<rparr> \<and> owner_named (ns_String (o_OwnedBy obj)) (ns_String n))"
proof -
  have self: "\<exists>n. obj = obj\<lparr>o_OwnedBy := n\<rparr> \<and> owner_named (ns_String (o_OwnedBy obj)) (ns_String n)"
    by (intro exI [of _ "o_OwnedBy obj"]) simp
  define dn where "dn = g_UserDistinguishedName (NewODAcmGranteeFromResourceName (ns_String (o_OwnedBy obj)))"
  obtain c e db1 where u: "createUserInTransaction (ns_String dn) db = ((c, e), db1)"
    by (metis surj_pair)
  show ?thesis
  proof (cases "length (ns_String (o_OwnedBy obj)) > 0 \<and> ns_Valid dn \<and> length (ns_String dn) > 0 \<and>
      getUserByDistinguishedNameInTransaction (ns_String dn) db = Some ErrNoRows")
    case False
    then have "obj' = obj \<and> db' = db"
      using assms unfolding add_owner_def Let_def dn_def [symmetric] by (simp only: if_False prod.inject simp_thms)
    then show ?thesis
      using self by simp
  next
    case True
    then have "obj' = obj\<lparr>o_OwnedBy := ToNullString (''user/'' @ c)\<rparr> \<and> db' = db1"
      using assms unfolding add_owner_def Let_def dn_def [symmetric] by (simp add: u)
    moreover have "c = ns_String dn"
      using True u by (auto simp: createUserInTransaction_def getUserByDistinguishedNameInTransaction_def split: if_splits)
    ultimately show ?thesis
      using True createUser_objects [OF u]
      by (intro conjI exI [of _ "ToNullString (''user/'' @ c)"]) (simp_all add: owner_named_def owner_dn_def dn_def ToNullString_def)
  qed
qed

subsection \<open>What an update does to the objects\<close>

definition norm_id :: "slice \<Rightarrow> slice" where
  "norm_id i = (if slice_len i = 0 then None else i)"

lemma norm_id_idem: "norm_id (norm_id i) = norm_id i"
  by (simp add: norm_id_def)

text \<open>The text of an ACM as it is stored: written again by \<open>NormalizedACM\<close>, once for each attempt.\<close>

inductive acm_stored :: "db_env \<Rightarrow> string \<Rightarrow> string \<Rightarrow> bool" for env where
  once: "normalizedACM env a = Some b \<Longrightarrow> acm_stored env a b"
| again: "acm_stored env a b \<Longrightarrow> normalizedACM env b = Some c \<Longrightarrow> acm_stored env a c"

lemma acm_stored_trans: "acm_stored env b c \<Longrightarrow> acm_stored env a b \<Longrightarrow> acm_stored env a c"
  by (induction rule: acm_stored.induct) (auto intro: acm_stored.intros)

text \<open>The row one statement stores for an object, and the one an update stores for a request.\<close>

definition stored_row :: "ODObject \<Rightarrow> ODObject \<Rightarrow> ODObject \<Rightarrow> bool" where
  "stored_row obj old new \<longleftrightarrow> o_ID new = o_ID old \<and> o_ParentID new = norm_id (o_ParentID obj) \<and>
     o_TypeID new = o_TypeID obj \<and> o_ModifiedBy new = o_ModifiedBy obj \<and> (o_Name obj \<noteq> '''' \<longrightarrow> o_Name new = o_Name obj) \<and>
     ns_String (o_Description new) = ns_String (o_Description obj) \<and>
     ns_String (o_ContentConnector new) = ns_String (o_ContentConnector obj) \<and>
     ns_String (o_ContentType new) = ns_String (o_ContentType obj) \<and> o_ContentSize new = o_ContentSize obj \<and>
     o_ContentHash new = o_ContentHash obj \<and> o_EncryptIV new = o_EncryptIV obj \<and>
     o_ContainsUSPersonsData new = (if o_ContainsUSPersonsData obj = '''' then o_ContainsUSPersonsData old else o_ContainsUSPersonsData obj) \<and>
     o_ExemptFromFOIA new = (if o_ExemptFromFOIA obj = '''' then o_ExemptFromFOIA old else o_ExemptFromFOIA obj) \<and>
     o_CreatedBy new = o_CreatedBy old \<and> o_CreatedDate new = o_CreatedDate old \<and> \<not> o_IsDeleted new \<and>
     o_IsExpunged new = o_IsExpunged old \<and> o_IsAncestorDeleted new = o_IsAncestorDeleted old \<and>
     o_ChangeCount new = o_ChangeCount old + 1"

definition owner_stored :: "db_env \<Rightarrow> string \<Rightarrow> ODObject \<Rightarrow> bool" where
  "owner_stored env owner new \<longleftrightarrow>
     o_OwnedBy new = \<lparr>ns_String = de_owner env (if owner = '''' then ''user/'' @ o_CreatedBy new else owner), ns_Valid = True\<rparr>"

definition updated_row :: "db_env \<Rightarrow> ODObject \<Rightarrow> ODObject \<Rightarrow> ODObject \<Rightarrow> bool" where
  "updated_row env obj old new \<longleftrightarrow> stored_row obj old new \<and> acm_stored env (ns_String (o_RawAcm obj)) (ns_String (o_RawAcm new)) \<and>
     (\<exists>owner. owner_named (ns_String (o_OwnedBy obj)) owner \<and> owner_stored env owner new)"

text \<open>The parts of a request that no step of an update changes, with the ACM and the owner as it writes them.\<close>

definition same_request :: "db_env \<Rightarrow> ODObject \<Rightarrow> ODObject \<Rightarrow> bool" where
  "same_request env x y \<longleftrightarrow> o_ID y = o_ID x \<and> o_ChangeToken y = o_ChangeToken x \<and> norm_id (o_ParentID y) = norm_id (o_ParentID x) \<and>
     norm_id (o_TypeID y) = norm_id (o_TypeID x) \<and> o_ModifiedBy y = o_ModifiedBy x \<and> (o_Name x \<noteq> '''' \<longrightarrow> o_Name y = o_Name x) \<and>
     o_Description y = o_Description x \<and> o_ContentConnector y = o_ContentConnector x \<and> o_ContentType y = o_ContentType x \<and>
     o_ContentSize y = o_ContentSize x \<and> o_ContentHash y = o_ContentHash x \<and> o_EncryptIV y = o_EncryptIV x \<and>
     o_ContainsUSPersonsData y = o_ContainsUSPersonsData x \<and> o_ExemptFromFOIA y = o_ExemptFromFOIA x \<and>
     (ns_String (o_RawAcm y) = ns_String (o_RawAcm x) \<or> acm_stored env (ns_String (o_RawAcm x)) (ns_String (o_RawAcm y))) \<and>
     owner_named (ns_String (o_OwnedBy x)) (ns_String (o_OwnedBy y))"

lemma same_request_refl [simp]: "same_request env x x"
  by (simp add: same_request_def)

lemma same_request_trans: "same_request env x y \<Longrightarrow> same_request env y z \<Longrightarrow> same_request env x z"
  unfolding same_request_def using acm_stored_trans owner_named_trans by (elim conjE, intro conjI; metis)

lemma check_update_spec:
  assumes "check_update env obj0 dao = ((r, obj), dao1)"
  shows "same_request env obj0 obj \<and> da_db dao1 = da_db dao \<and>
    (\<forall>x. r = Inr x \<longrightarrow> o_ParentID obj = norm_id (o_ParentID obj0) \<and> o_TypeID obj = norm_id (o_TypeID obj0) \<and>
      (\<exists>row. object_row (da_db dao) (o_ID obj0) = Some row \<and> \<not> o_IsDeleted row \<and> o_ChangeToken row = o_ChangeToken obj0))"
proof -
  define obj1 where "obj1 = obj0\<lparr>o_ParentID := (if slice_len (o_ParentID obj0) = 0 then None else o_ParentID obj0),
                    o_TypeID := (if slice_len (o_TypeID obj0) = 0 then None else o_TypeID obj0)\<rparr>"
  define obj2 where "obj2 = obj1\<lparr>o_Name := ''Unnamed '' @ ns_String (o_TypeName obj1)\<rparr>"
  have p: "o_ParentID obj1 = norm_id (o_ParentID obj0)" "o_TypeID obj1 = norm_id (o_TypeID obj0)"
      "o_ParentID obj2 = norm_id (o_ParentID obj0)" "o_TypeID obj2 = norm_id (o_TypeID obj0)"
      "o_ID obj1 = o_ID obj0" "o_ChangeToken obj1 = o_ChangeToken obj0"
    by (simp_all add: obj1_def obj2_def norm_id_def)
  have s: "same_request env obj0 obj1" "o_Name obj0 = '''' \<Longrightarrow> same_request env obj0 obj2"
    by (simp_all add: obj1_def obj2_def same_request_def norm_id_def)
  obtain x e d where g: "getObjectInTransaction env (o_ID obj0) True True dao = ((x, e), d)"
    by (metis surj_pair)
  have d: "da_db d = da_db dao"
    by (rule getObject_dbD [OF g])
  have c: "check_update env obj0 dao =
     (if o_ID obj0 = None then ((Inl ErrMissingID, obj0), dao)
      else if o_ChangeToken obj0 = '''' then ((Inl ErrMissingChangeToken, obj0), dao)
      else if o_ModifiedBy obj0 = '''' then ((Inl ErrMissingModifiedBy, obj0), dao)
      else if o_TypeID obj1 = None then ((Inl ErrMissingTypeID, obj1), dao)
      else (case e of Some m \<Rightarrow> ((Inl (''updateobject error retrieving object, '' @ m), obj1), d)
        | None \<Rightarrow> (if o_ChangeToken obj0 \<noteq> o_ChangeToken x then ((Inl ''changetoken does not match expected value'', obj1), d)
            else if o_IsDeleted x then ((Inl ''unable to modify object if deleted. Call UndeleteObject first'', obj1), d)
            else ((Inr x, if length (o_Name obj1) = 0 then obj2 else obj1), d))))"
    unfolding check_update_def Let_def obj1_def [symmetric] p(5,6) g obj2_def by (simp split: option.splits)
  show ?thesis
  proof (cases "r = Inr x \<and> e = None \<and> o_ChangeToken obj0 = o_ChangeToken x \<and> \<not> o_IsDeleted x \<and> dao1 = d \<and> (obj = obj1 \<or> o_Name obj0 = '''' \<and> obj = obj2)")
    case False
    then have "(\<exists>m. r = Inl m) \<and> (obj = obj0 \<or> obj = obj1) \<and> (dao1 = dao \<or> dao1 = d)"
      using assms unfolding c by (auto simp: obj1_def split: if_splits option.splits)
    then show ?thesis
      using s d by auto
  next
    case True
    then obtain row nm ps qs where row: "object_row (da_db dao) (o_ID obj0) = Some row"
        "x = row\<lparr>o_TypeName := nm, o_Permissions := ps, o_Properties := qs\<rparr>"
      using getObject_row [OF g [unfolded conjunct1 [OF conjunct2 [OF True]]]] by metis
    then have "\<not> o_IsDeleted row" "o_ChangeToken row = o_ChangeToken obj0"
      using True by simp_all
    moreover have "o_ParentID obj = norm_id (o_ParentID obj0)" "o_TypeID obj = norm_id (o_TypeID obj0)" "same_request env obj0 obj"
      using True p s by auto
    ultimately show ?thesis
      using row(1) d True by blast
  qed
qed

lemma check_update_raw: "check_update env obj0 dao = ((r, obj), dao1) \<Longrightarrow> ns_String (o_RawAcm obj) = ns_String (o_RawAcm obj0)"
  unfolding check_update_def Let_def by (auto split: if_splits prod.splits option.splits)

definition only_updates :: "db_env \<Rightarrow> ODObject \<Rightarrow> Db \<Rightarrow> Db \<Rightarrow> bool" where
  "only_updates env obj db db' \<longleftrightarrow> (\<exists>row new. object_row db (o_ID obj) = Some row \<and> \<not> o_IsDeleted row \<and>
     o_ChangeToken row = o_ChangeToken obj \<and> updated_row env (obj\<lparr>o_TypeID := norm_id (o_TypeID obj)\<rparr>) row new \<and>
     live_type db (o_TypeID new) \<and> db_type db' = db_type db \<and>
     (o_ParentID new \<noteq> None \<longrightarrow> (\<exists>p \<in> set (db_object db). o_ID p = o_ParentID new \<and> \<not> o_IsDeleted p)) \<and>
     db_object db' = map (\<lambda>x. if o_ID x = o_ID obj then new else x) (db_object db))"

lemma update_statement:
  assumes "update_object env (o_ID obj) (set_object_fields obj) db = Inr db'" and "object_row db (o_ID obj) = Some row"
    and "\<not> o_IsDeleted row" and "o_ParentID obj = norm_id (o_ParentID obj)"
  shows "\<exists>new. stored_row obj row new \<and> ns_String (o_RawAcm new) = ns_String (o_RawAcm obj) \<and>
    owner_stored env (ns_String (o_OwnedBy obj)) new \<and> live_type db (o_TypeID new) \<and> db_type db' = db_type db \<and>
    (o_ParentID new \<noteq> None \<longrightarrow> (\<exists>p \<in> set (db_object db). o_ID p = o_ParentID new \<and> \<not> o_IsDeleted p)) \<and>
    db_object db' = map (\<lambda>x. if o_ID x = o_ID obj then new else x) (db_object db)"
proof -
  let ?new = "tu_object_row env row (set_object_fields obj row)"
  have e: "tu_object_error db row (set_object_fields obj row) = ''''"
    and rows: "db_object db' = map (\<lambda>x. if o_ID x = o_ID obj then ?new else x) (db_object db)" "db_type db' = db_type db"
    using assms(1,2) by (auto simp: update_object_def Let_def split: if_splits)
  have len: "slice_len (o_ParentID obj) \<noteq> 0 \<longleftrightarrow> o_ParentID obj \<noteq> None"
    using assms(4) by (cases "o_ParentID obj") (auto simp: norm_id_def split: if_splits)
  have parent: "o_ParentID ?new = o_ParentID obj"
    using len by (cases "o_ParentID obj") (auto simp: tu_object_row_def set_object_fields_def Let_def)
  have "stored_row obj row ?new"
    using assms(3,4) parent
    by (simp add: stored_row_def tu_object_row_def set_object_fields_def some_string_def Let_def)
  moreover have "ns_String (o_RawAcm ?new) = ns_String (o_RawAcm obj)"
    using assms(3) by (simp add: tu_object_row_def set_object_fields_def some_string_def Let_def)
  moreover have "owner_stored env (ns_String (o_OwnedBy obj)) ?new"
    using assms(3) by (simp add: owner_stored_def tu_object_row_def set_object_fields_def some_string_def Let_def)
  moreover have "live_type db (o_TypeID ?new)"
    using e by (auto simp: tu_object_error_def tu_object_row_def set_object_fields_def Let_def split: if_splits)
  moreover have "\<exists>p \<in> set (db_object db). o_ID p = o_ParentID obj \<and> \<not> o_IsDeleted p" if "o_ParentID obj \<noteq> None"
    using e that len assms(3) by (auto simp: tu_object_error_def set_object_fields_def list_ex_iff split: if_splits)
  ultimately show ?thesis
    using rows parent by (intro exI [of _ ?new]) simp
qed

lemma updated_row_same:
  assumes "stored_row obj2 row new" and "same_request env obj obj2" and "o_TypeID obj2 = norm_id (o_TypeID obj)"
    and "acm_stored env (ns_String (o_RawAcm obj)) (ns_String (o_RawAcm new))" and "owner_stored env (ns_String (o_OwnedBy obj2)) new"
  shows "updated_row env (obj\<lparr>o_TypeID := norm_id (o_TypeID obj)\<rparr>) row new"
proof -
  have "stored_row (obj\<lparr>o_TypeID := norm_id (o_TypeID obj)\<rparr>) row new"
    using assms(1-3) by (simp add: stored_row_def same_request_def)
  moreover have "owner_named (ns_String (o_OwnedBy obj)) (ns_String (o_OwnedBy obj2))"
    using assms(2) by (simp add: same_request_def)
  ultimately show ?thesis
    using assms(4,5) by (auto simp: updated_row_def)
qed

lemma update_tx:
  assumes "updateObjectInTransaction env obj dao = Ok ((obj', c, e), dao')"
  shows "if e = None then only_updates env obj (da_db dao) (da_db dao') else same_request env obj obj'"
proof -
  obtain r obj0 dao1 where chk: "check_update env obj dao = ((r, obj0), dao1)"
    by (metis surj_pair)
  note spec = check_update_spec [OF chk]
  show ?thesis
  proof (cases r)
    case (Inl m)
    then show ?thesis
      using assms chk spec by (auto simp: updateObjectInTransaction_def)
  next
    case (Inr x)
    then obtain row where row: "object_row (da_db dao) (o_ID obj) = Some row" "\<not> o_IsDeleted row" "o_ChangeToken row = o_ChangeToken obj"
        and norm: "o_ParentID obj0 = norm_id (o_ParentID obj)" "o_TypeID obj0 = norm_id (o_TypeID obj)"
      using spec by blast
    obtain obj1 db2 where own: "add_owner obj0 (da_db dao1) = (obj1, db2)"
      by (metis surj_pair)
    obtain n where n: "rows db2 = rows (da_db dao)" "obj1 = obj0\<lparr>o_OwnedBy := n\<rparr>" "owner_named (ns_String (o_OwnedBy obj0)) (ns_String n)"
      using add_owner_keeps [OF own] spec by auto
    have "same_request env obj0 obj1"
      using n(2,3) by (simp add: same_request_def)
    then have s1: "same_request env obj obj1"
      using spec same_request_trans by blast
    have raw: "ns_String (o_RawAcm obj1) = ns_String (o_RawAcm obj)"
      using check_update_raw [OF chk] n(2) by simp
    show ?thesis
    proof (cases "normalizedACM env (ns_String (o_RawAcm obj1))")
      case None
      then show ?thesis
        using assms chk Inr own s1 by (auto simp: updateObjectInTransaction_def)
    next
      case (Some acm)
      let ?arg = "obj1\<lparr>o_RawAcm := (o_RawAcm obj1)\<lparr>ns_String := acm\<rparr>\<rparr>"
      obtain obj2 created e3 db3 where set_: "setObjectACM2ForObjectInTransaction env ?arg db2 = Ok ((obj2, created, e3), db3)"
        using assms chk Inr own Some by (auto simp: updateObjectInTransaction_def bind_res_Ok_iff)
      obtain i where i: "rows db3 = rows db2" "obj2 = ?arg\<lparr>o_ACMID := i\<rparr>"
        using setObjectACM2_keeps [OF set_] by blast
      have stored: "acm_stored env (ns_String (o_RawAcm obj)) acm" "ns_String (o_RawAcm obj2) = acm"
        using Some raw by (simp_all add: i(2) acm_stored.once)
      have s2: "same_request env obj obj2" "o_ParentID obj2 = norm_id (o_ParentID obj)" "o_TypeID obj2 = norm_id (o_TypeID obj)"
        using s1 norm n(2) stored(1) by (simp_all add: i(2) same_request_def)
      have row3: "object_row db3 (o_ID obj2) = Some row"
        using row(1) s2(1) object_row_cong [of db3 "da_db dao"] rowsD(1) [OF i(1)] rowsD(1) [OF n(1)] by (simp add: same_request_def)
      show ?thesis
      proof (cases "update_object env (o_ID obj2) (set_object_fields obj2) db3")
        case (Inl m)
        then have "e \<noteq> None \<and> obj' = obj2"
          using assms chk Inr own Some set_ by (cases e3) (auto simp: updateObjectInTransaction_def)
        then show ?thesis
          using s2(1) by auto
      next
        case up: (Inr db4)
        obtain e5 db5 where props: "update_properties env (o_ModifiedBy obj2) (o_ID obj2) (o_Properties x) (o_Properties obj2) db4 = (e5, db5)"
          by (metis surj_pair)
        show ?thesis
        proof (cases "e3 = None \<and> e5 = None")
          case False
          then have "e \<noteq> None \<and> obj' = obj2"
            using assms chk Inr own Some set_ up props
            by (cases e3; cases e5) (auto simp: updateObjectInTransaction_def)
          then show ?thesis
            using s2(1) by auto
        next
          case True
          then obtain e6 dao6 where perms: "update_permissions env (o_ModifiedBy obj2) (o_ID obj2) (o_Permissions obj2) (dao1\<lparr>da_db := db5\<rparr>)
              = Ok (e6, dao6)"
            using assms chk Inr own Some set_ up props by (auto simp: updateObjectInTransaction_def bind_res_Ok_iff)
          obtain y e7 dao7 where get: "getObjectInTransaction env (o_ID obj2) True True dao6 = ((y, e7), dao7)"
            by (metis surj_pair)
          show ?thesis
          proof (cases "e6 = None \<and> e7 = None")
            case False
            then have "e \<noteq> None \<and> obj' = obj2"
              using assms chk Inr own Some set_ up props True perms get
              by (cases e6; cases e7) (auto simp: updateObjectInTransaction_def)
            then show ?thesis
              using s2(1) by auto
          next
            case fin: True
            then have e: "e = None" "dao' = dao7"
              using assms chk Inr own Some set_ up props True perms get
              by (auto simp: updateObjectInTransaction_def)
            have "objs (da_db dao') = objs db4"
              using getObject_dbD [OF get] update_permissions_objects [OF perms] rowsD(5) [OF update_properties_objects [OF props]] e(2) by simp
            then have final: "db_object (da_db dao') = db_object db4" "db_type (da_db dao') = db_type db4"
              by (simp_all add: objs_def)
            have "o_ParentID obj2 = norm_id (o_ParentID obj2)"
              by (simp add: s2(2) norm_id_idem)
            from update_statement [OF up row3 row(2) this] obtain new where new: "stored_row obj2 row new" "live_type db3 (o_TypeID new)"
                "db_type db4 = db_type db3" "o_ParentID new \<noteq> None \<longrightarrow> (\<exists>p \<in> set (db_object db3). o_ID p = o_ParentID new \<and> \<not> o_IsDeleted p)"
                "db_object db4 = map (\<lambda>x. if o_ID x = o_ID obj2 then new else x) (db_object db3)"
                "ns_String (o_RawAcm new) = ns_String (o_RawAcm obj2)" "owner_stored env (ns_String (o_OwnedBy obj2)) new"
              by blast
            have "acm_stored env (ns_String (o_RawAcm obj)) (ns_String (o_RawAcm new))"
              using stored new(6) by simp
            note upd = updated_row_same [OF new(1) s2(1,3) this new(7)]
            have same: "o_ID obj2 = o_ID obj" "db_object db3 = db_object (da_db dao)" "db_type db3 = db_type (da_db dao)"
              using s2(1) rowsD(1,4) [OF i(1)] rowsD(1,4) [OF n(1)] by (simp_all add: same_request_def)
            have "live_type (da_db dao) (o_TypeID new)"
              using new(2) live_type_cong [OF same(3)] by simp
            moreover have "db_type (da_db dao') = db_type (da_db dao)"
              using final(2) new(3) same(3) by simp
            moreover have "db_object (da_db dao') = map (\<lambda>x. if o_ID x = o_ID obj then new else x) (db_object (da_db dao))"
              using final(1) new(5) same by simp
            ultimately have "only_updates env obj (da_db dao) (da_db dao')"
              unfolding only_updates_def
              using row upd new(4) [unfolded same(2)]
              by (intro exI [of _ row] exI [of _ new]) (intro conjI; assumption)
            then show ?thesis
              using e(1) by simp
          qed
        qed
      qed
    qed
  qed
qed

lemma stored_row_same: "same_request env x y \<Longrightarrow> stored_row (y\<lparr>o_TypeID := norm_id (o_TypeID y)\<rparr>) row new \<Longrightarrow>
    stored_row (x\<lparr>o_TypeID := norm_id (o_TypeID x)\<rparr>) row new"
  by (simp add: stored_row_def same_request_def)

lemma updated_row_request:
  assumes "same_request env x y" and "updated_row env (y\<lparr>o_TypeID := norm_id (o_TypeID y)\<rparr>) row new"
  shows "updated_row env (x\<lparr>o_TypeID := norm_id (o_TypeID x)\<rparr>) row new"
proof -
  have "acm_stored env (ns_String (o_RawAcm x)) (ns_String (o_RawAcm new))"
    using assms by (auto simp: same_request_def updated_row_def intro: acm_stored_trans)
  moreover have "\<exists>owner. owner_named (ns_String (o_OwnedBy x)) owner \<and> owner_stored env owner new"
    using assms by (auto simp: same_request_def updated_row_def intro: owner_named_trans)
  ultimately show ?thesis
    using assms stored_row_same by (simp add: updated_row_def)
qed

lemma only_updates_same: "same_request env x y \<Longrightarrow> only_updates env y db db' \<Longrightarrow> only_updates env x db db'"
proof -
  assume s: "same_request env x y" and o: "only_updates env y db db'"
  have i: "o_ID y = o_ID x" "o_ChangeToken y = o_ChangeToken x"
    using s by (simp_all add: same_request_def)
  show ?thesis
    using o updated_row_request [OF s] unfolding only_updates_def i by blast
qed

text \<open>Nothing but names of ACM keys and values is new.\<close>

definition only_names :: "Db \<Rightarrow> Db \<Rightarrow> bool" where
  "only_names db db' \<longleftrightarrow> (\<exists>ks vs own. db' = db\<lparr>db_acmkey2 := ks, db_acmvalue2 := vs, db_acmvalue2_own := own\<rparr>)"

lemma rollback_names: "only_names (da_db dao) (da_db (rollback_tx dao dao1))"
  by (auto simp: only_names_def rollback_tx_def Let_def)

lemma only_names_trans: "only_names x y \<Longrightarrow> only_names y z \<Longrightarrow> only_names x z"
  unfolding only_names_def by (elim exE) (simp, blast)

lemma only_names_rows: "only_names db db' \<Longrightarrow> rows db' = rows db"
  by (auto simp: only_names_def rows_def)

lemma only_updates_rows: "rows y = rows x \<Longrightarrow> only_updates env obj y z \<Longrightarrow> only_updates env obj x z"
proof -
  assume r: "rows y = rows x" and "only_updates env obj y z"
  then show ?thesis
    unfolding only_updates_def by (simp only: object_row_cong [OF rowsD(1) [OF r]] live_type_cong [OF rowsD(4) [OF r]] rowsD(1,4) [OF r])
qed

lemma update_attempts_spec:
  "update_attempts n env obj dao = Ok ((obj', c, e), dao') \<Longrightarrow>
    if e = None then only_updates env obj (da_db dao) (da_db dao') else only_names (da_db dao) (da_db dao')"
proof (induction n arbitrary: obj dao)
  case 0
  then obtain o1 c1 e1 dao1 where u: "updateObjectInTransaction env obj dao = Ok ((o1, c1, e1), dao1)"
    by (auto simp: bind_res_Ok_iff)
  show ?case
    using 0 u update_tx [OF u] rollback_names [of dao dao1] by (cases e1) auto
next
  case (Suc n)
  then obtain o1 c1 e1 dao1 where u: "updateObjectInTransaction env obj dao = Ok ((o1, c1, e1), dao1)"
    by (auto simp: bind_res_Ok_iff)
  note tx = update_tx [OF u]
  note r = rollback_names [of dao dao1]
  consider "e1 = None" "e = None" "dao' = dao1" | "e1 \<noteq> None" "e = e1" "dao' = rollback_tx dao dao1"
    | "e1 \<noteq> None" "update_attempts n env o1 (rollback_tx dao dao1) = Ok ((obj', c, e), dao')"
    using Suc.prems u by (cases e1) (auto split: if_splits)
  then show ?case
  proof cases
    case 1
    then show ?thesis
      using tx by simp
  next
    case 2
    then show ?thesis
      using r by (cases e1) simp_all
  next
    case 3
    then have "same_request env obj o1"
      using tx by simp
    then show ?thesis
      using Suc.IH [OF 3(2)] only_updates_rows [OF only_names_rows [OF r]] only_names_trans [OF r] only_updates_same
      by (cases e) auto
  qed
qed

text \<open>C5: \<open>UpdateObject\<close>, with all its retries, changes a row only when the request holds the row's current
  change token, the row is not deleted and the parent the request names is an object that is not deleted; then it
  replaces exactly that row by one with the requested parent, type, modifier, name, description, connector, content
  type, size, hash and IV, with the requested ACM as \<open>NormalizedACM\<close> writes it and the requested owner (by its user
  when that user was added, the creator when none was named) and with the next change count; it keeps the creator
  and the marks of the old row, and leaves every other row. After an error every table is what it was, but for names
  of ACM keys and values: those are added in transactions of their own and stay.\<close>

theorem update_guard:
  assumes "UpdateObject env obj dao = Ok ((obj', e), dao')"
  shows "if e = None then only_updates env obj (da_db dao) (da_db dao') else only_names (da_db dao) (da_db dao')"
  using assms update_attempts_spec by (fastforce simp: UpdateObject_def bind_res_Ok_iff)

definition sample_request :: ODObject where
  "sample_request = (sample_row 3 (Some [2]))\<lparr>o_ModifiedBy := ''cn=a'', o_Name := ''moved'',
     o_RawAcm := ToNullString ''x''\<rparr>"

lemma sample_update:
  "case UpdateObject sample_env sample_request sample_dao of Ok ((x, e), d) \<Rightarrow> e = None | _ \<Rightarrow> False"
  by code_simp

theorem update_guard_witness:
  "\<exists>x d. UpdateObject sample_env sample_request sample_dao = Ok ((x, None), d) \<and> only_updates sample_env sample_request sample_db (da_db d)"
proof -
  obtain x d where u: "UpdateObject sample_env sample_request sample_dao = Ok ((x, None), d)"
    using sample_update by (auto split: res.splits)
  then show ?thesis
    using update_guard [OF u] by (auto simp: sample_dao_def)
qed

subsection \<open>What a created object is given\<close>

text \<open>Grantees are kept under their own name, in the table and in the cache, and the grantee of every permission
  is a row of the table.\<close>

definition keyed :: "(string \<times> ODAcmGrantee) list \<Rightarrow> bool" where
  "keyed m \<longleftrightarrow> (\<forall>(k, g) \<in> set m. g_Grantee g = k)"

definition grants_ok :: "DataAccessLayer \<Rightarrow> bool" where
  "grants_ok dao \<longleftrightarrow> keyed (da_AcmGranteeCache dao) \<and> keyed (db_grantee (da_db dao)) \<and>
     p_Grantee ` set (db_permission (da_db dao)) \<subseteq> fst ` set (db_grantee (da_db dao))"

text \<open>The row of a permission that was asked for.\<close>

definition same_grant :: "ODObjectPermission \<Rightarrow> ODObjectPermission \<Rightarrow> bool" where
  "same_grant p q \<longleftrightarrow> p_IsDeleted q = p_IsDeleted p \<and> (p_Grantee q = '''' \<longleftrightarrow> p_Grantee p = '''') \<and>
     AACFlatten (p_Grantee q) = AACFlatten (p_Grantee p) \<and> p_AcmShare q = p_AcmShare p \<and>
     p_AllowCreate q = p_AllowCreate p \<and> p_AllowRead q = p_AllowRead p \<and> p_AllowUpdate q = p_AllowUpdate p \<and>
     p_AllowDelete q = p_AllowDelete p \<and> p_AllowShare q = p_AllowShare p \<and> p_ExplicitShare q = p_ExplicitShare p \<and>
     p_EncryptKey q = p_EncryptKey p \<and> p_PermissionIV q = p_PermissionIV p \<and> p_PermissionMAC q = p_PermissionMAC p"

definition granted :: "string \<Rightarrow> slice \<Rightarrow> ODObjectPermission \<Rightarrow> ODObjectPermission \<Rightarrow> bool" where
  "granted who oid p q \<longleftrightarrow> same_grant p q \<and> p_Grantee q = AACFlatten (p_Grantee p) \<and> p_ObjectID q = oid \<and>
     p_CreatedBy q = who \<and> p_ModifiedBy q = who"

lemma same_grant_refl [simp]: "same_grant p p"
  by (simp add: same_grant_def)

lemma same_grant_trans: "same_grant p q \<Longrightarrow> same_grant q r \<Longrightarrow> same_grant p r"
  by (simp add: same_grant_def)

lemma granted_same: "same_grant p q \<Longrightarrow> granted who oid q r \<Longrightarrow> granted who oid p r"
  unfolding granted_def same_grant_def by (elim conjE) (simp only: simp_thms)

lemma grants_ok_rows: "rows db' = rows (da_db dao) \<Longrightarrow> grants_ok dao \<Longrightarrow> grants_ok (dao\<lparr>da_db := db'\<rparr>)"
  by (simp add: grants_ok_def rows_def)

lemma assoc_set_mem: "x \<in> set (assoc_set k v m) \<Longrightarrow> x = (k, v) \<or> x \<in> set m"
  by (induction k v m rule: assoc_set.induct) (auto split: if_splits)

lemma keyed_assoc_set: "keyed m \<Longrightarrow> g_Grantee g = k \<Longrightarrow> keyed (assoc_set k g m)"
  by (auto simp: keyed_def dest: assoc_set_mem)

lemma getAcmGrantee_spec:
  assumes "getAcmGranteeInTransaction k dao = ((g, e), dao')" and "grants_ok dao"
  shows "grants_ok dao'" and "e = None \<Longrightarrow> g_Grantee g = k" and "e \<noteq> None \<Longrightarrow> k \<notin> fst ` set (db_grantee (da_db dao))"
proof -
  have db: "da_db dao' = da_db dao"
    by (rule getAcmGrantee_dbD [OF assms(1)])
  have k: "map_of (da_AcmGranteeCache dao) k = Some x \<or> map_of (db_grantee (da_db dao)) k = Some x \<Longrightarrow> g_Grantee x = k" for x
    using assms(2) by (auto simp: grants_ok_def keyed_def dest!: map_of_SomeD)
  show "grants_ok dao'"
  proof (cases "dao' = dao")
    case False
    then obtain x where "map_of (db_grantee (da_db dao)) k = Some x"
        "dao' = dao\<lparr>da_AcmGranteeCache := assoc_set k x (da_AcmGranteeCache dao)\<rparr>"
      using assms(1) by (auto simp: getAcmGranteeInTransaction_def split: option.splits)
    then show ?thesis
      using assms(2) k keyed_assoc_set by (simp add: grants_ok_def)
  qed (use assms(2) in simp)
  show "e = None \<Longrightarrow> g_Grantee g = k"
    using assms(1) k by (auto simp: getAcmGranteeInTransaction_def split: option.splits)
  show "e \<noteq> None \<Longrightarrow> k \<notin> fst ` set (db_grantee (da_db dao))"
    using assms(1) by (auto simp: getAcmGranteeInTransaction_def map_of_eq_None_iff split: option.splits)
qed

lemma insert_acmgrantee_spec:
  assumes "insert_acmgrantee g (da_db dao) = Inr db'" and "grants_ok dao"
  shows "grants_ok (dao\<lparr>da_db := db'\<rparr>) \<and> db_permission db' = db_permission (da_db dao)"
proof -
  obtain k row where "db_grantee db' = (k, row) # db_grantee (da_db dao)" "g_Grantee row = k" "db_permission db' = db_permission (da_db dao)"
    using assms(1) by (auto simp: insert_acmgrantee_def Let_def split: if_splits)
  then show ?thesis
    using assms(2) by (auto simp: grants_ok_def keyed_def)
qed

lemma createAcmGrantee_spec:
  assumes "createAcmGranteeInTransaction g dao = Ok (r, dao')" and ok: "grants_ok dao"
  shows "grants_ok dao' \<and> db_permission (da_db dao') = db_permission (da_db dao)"
proof -
  obtain g1 db1 where c: "complete_grantee g (da_db dao) = Ok (g1, db1)"
    using assms(1) by (auto simp: createAcmGranteeInTransaction_def bind_res_Ok_iff)
  note same = complete_grantee_objects [OF c]
  obtain x e dao1 where get: "getAcmGranteeInTransaction (g_Grantee g1) (dao\<lparr>da_db := db1\<rparr>) = ((x, e), dao1)"
    by (metis surj_pair)
  have ok1: "grants_ok dao1"
    using getAcmGrantee_spec(1) [OF get] grants_ok_rows [OF same ok] by simp
  have p1: "db_permission (da_db dao1) = db_permission (da_db dao)"
    using getAcmGrantee_dbD [OF get] rowsD(2) [OF same] by simp
  consider "getAcmGranteeInTransaction (g_Grantee g1) dao1 = (r, dao')"
    | db2 where "insert_acmgrantee g1 (da_db dao1) = Inr db2" "getAcmGranteeInTransaction (g_Grantee g1) (dao1\<lparr>da_db := db2\<rparr>) = (r, dao')"
    using assms(1) c get by (cases "insert_acmgrantee g1 (da_db dao1)")
      (auto simp: createAcmGranteeInTransaction_def split: if_splits)
  then show ?thesis
  proof cases
    case 1
    then show ?thesis
      using getAcmGrantee_spec(1) [of _ dao1 "fst r" "snd r" dao'] getAcmGrantee_dbD [OF 1] ok1 p1 by simp
  next
    case (2 db2)
    then show ?thesis
      using getAcmGrantee_spec(1) [of _ "dao1\<lparr>da_db := db2\<rparr>" "fst r" "snd r" dao'] getAcmGrantee_dbD [OF 2(2)]
        insert_acmgrantee_spec [OF 2(1) ok1] p1 by simp
  qed
qed

lemma find_last_append: "find_last P (xs @ [x]) = (if P x then Some x else find_last P xs)"
  by (simp add: find_last_def)

lemma find_last_Some: "find_last P xs = Some x \<Longrightarrow> x \<in> set xs \<and> P x"
  unfolding find_last_def by (metis find_Some_iff nth_mem set_rev)

lemma insert_permission_spec:
  assumes "insert_permission env p db = Inr db'"
  shows "\<exists>new. db_permission db' = db_permission db @ [new] \<and> same_grant (p\<lparr>p_IsDeleted := False\<rparr>) new \<and>
    p_Grantee new = p_Grantee p \<and> p_ObjectID new = p_ObjectID p \<and> p_CreatedBy new = p_CreatedBy p \<and> p_ModifiedBy new = p_CreatedBy p \<and>
    p_Grantee p \<in> fst ` set (db_grantee db) \<and> p_Grantee p \<noteq> '''' \<and> db_grantee db' = db_grantee db"
proof -
  define new where "new = p\<lparr>p_ID := Some (de_fresh env (permission_ids db)), p_CreatedDate := de_now env,
             p_ModifiedDate := de_now env, p_ModifiedBy := p_CreatedBy p, p_IsDeleted := False, p_DeletedDate := None,
             p_DeletedBy := null_string, p_ChangeCount := 0, p_ChangeToken := de_token env (de_fresh env (permission_ids db)) 0 (de_now env),
             p_AcmGrantee := empty_grantee\<rparr>"
  have "db' = db\<lparr>db_permission := db_permission db @ [new]\<rparr>" "p_Grantee p \<in> fst ` set (db_grantee db)" "p_Grantee p \<noteq> ''''"
    using assms by (simp_all add: insert_permission_def new_def Let_def split: if_splits)
  moreover have "same_grant (p\<lparr>p_IsDeleted := False\<rparr>) new \<and> p_Grantee new = p_Grantee p \<and> p_ObjectID new = p_ObjectID p \<and>
      p_CreatedBy new = p_CreatedBy p \<and> p_ModifiedBy new = p_CreatedBy p"
    by (simp add: new_def same_grant_def)
  ultimately show ?thesis
    by (intro exI [of _ new]) simp
qed

lemma addPermission_spec:
  assumes "addPermissionToObjectInTransaction env oid p dao = Ok ((r, e), dao')" and ok: "grants_ok dao"
  shows "grants_ok dao'" and "e = None \<Longrightarrow> db_permission (da_db dao') = db_permission (da_db dao) @ [r] \<and>
    granted (p_CreatedBy p) oid (p\<lparr>p_IsDeleted := False\<rparr>) r"
proof -
  define q where "q = p\<lparr>p_Grantee := AACFlatten (p_Grantee p)\<rparr>"
  obtain x0 e0 dao0 where get: "getAcmGranteeInTransaction (p_Grantee q) dao = ((x0, e0), dao0)"
    by (metis surj_pair)
  note spec0 = getAcmGrantee_spec [OF get ok]
  have db0: "da_db dao0 = da_db dao"
    by (rule getAcmGrantee_dbD [OF get])
  obtain g e1 dao1 where one: "(case e0 of None \<Rightarrow> Ok ((x0, None), dao0)
      | Some _ \<Rightarrow> createAcmGranteeInTransaction (p_AcmGrantee q) dao0) = Ok ((g, e1), dao1)"
    using assms(1) get unfolding addPermissionToObjectInTransaction_def Let_def q_def [symmetric]
    by (cases e0) (auto simp: bind_res_Ok_iff)
  have ok1: "grants_ok dao1" and p1: "db_permission (da_db dao1) = db_permission (da_db dao)"
    using one spec0(1) db0 createAcmGrantee_spec [of "p_AcmGrantee q" dao0 "(g, e1)" dao1] by (cases e0; simp)+
  have known: "g_Grantee g = p_Grantee q \<or> (\<forall>r \<in> set (db_permission (da_db dao1)). p_Grantee r \<noteq> p_Grantee q)"
  proof (cases e0)
    case None
    then show ?thesis
      using one spec0(2) by simp
  next
    case (Some m)
    have "p_Grantee ` set (db_permission (da_db dao1)) \<subseteq> fst ` set (db_grantee (da_db dao))"
      using ok p1 by (simp add: grants_ok_def)
    moreover have "p_Grantee q \<notin> fst ` set (db_grantee (da_db dao))"
      using spec0(3) Some by blast
    ultimately show ?thesis
      by (metis imageI subsetD)
  qed
  have run: "addPermissionToObjectInTransaction env oid p dao = (case e1 of Some m \<Rightarrow> Ok ((empty_permission, Some m), dao1)
      | None \<Rightarrow> Ok (case insert_permission env (q\<lparr>p_ObjectID := oid, p_Grantee := g_Grantee g\<rparr>) (da_db dao1) of
               Inl e \<Rightarrow> ((empty_permission, Some e), dao1)
             | Inr db2 \<Rightarrow>
                (case find_last (\<lambda>r. p_CreatedBy r = p_CreatedBy q \<and> p_ObjectID r = oid \<and> p_Grantee r = p_Grantee q \<and>
                     p_AcmShare r = p_AcmShare q \<and> \<not> p_IsDeleted r \<and> p_AllowCreate r = p_AllowCreate q \<and>
                     p_AllowRead r = p_AllowRead q \<and> p_AllowUpdate r = p_AllowUpdate q \<and>
                     p_AllowDelete r = p_AllowDelete q \<and> p_AllowShare r = p_AllowShare q) (db_permission db2) of
                   None \<Rightarrow> ((empty_permission, Some ErrNoRows), dao1\<lparr>da_db := db2\<rparr>)
                 | Some row \<Rightarrow> ((row, None), dao1\<lparr>da_db := db2\<rparr>))))"
    using get one unfolding addPermissionToObjectInTransaction_def Let_def q_def [symmetric]
    by (cases e0; cases e1) auto
  show "grants_ok dao'" and "e = None \<Longrightarrow> db_permission (da_db dao') = db_permission (da_db dao) @ [r] \<and>
    granted (p_CreatedBy p) oid (p\<lparr>p_IsDeleted := False\<rparr>) r"
  proof -
    show "grants_ok dao'"
    proof (cases "e1 = None \<and> (\<exists>db2. insert_permission env (q\<lparr>p_ObjectID := oid, p_Grantee := g_Grantee g\<rparr>) (da_db dao1) = Inr db2)")
      case False
      then have "dao' = dao1"
        using assms(1) unfolding run by (auto split: option.splits sum.splits)
      then show ?thesis
        using ok1 by simp
    next
      case True
      then obtain db2 where ins: "insert_permission env (q\<lparr>p_ObjectID := oid, p_Grantee := g_Grantee g\<rparr>) (da_db dao1) = Inr db2"
        by blast
      have "dao' = dao1\<lparr>da_db := db2\<rparr>"
        using assms(1) True ins unfolding run by (auto split: option.splits)
      then show ?thesis
        using ok1 insert_permission_spec [OF ins] by (elim exE conjE) (simp add: grants_ok_def)
    qed
    assume e: "e = None"
    then have "e1 = None"
      using assms(1) unfolding run by (cases e1) auto
    then obtain db2 where ins: "insert_permission env (q\<lparr>p_ObjectID := oid, p_Grantee := g_Grantee g\<rparr>) (da_db dao1) = Inr db2"
      using assms(1) e unfolding run by (auto split: sum.splits)
    obtain new where new: "db_permission db2 = db_permission (da_db dao1) @ [new]"
        "same_grant (q\<lparr>p_ObjectID := oid, p_Grantee := g_Grantee g, p_IsDeleted := False\<rparr>) new" "p_Grantee new = g_Grantee g"
        "p_ObjectID new = oid" "p_CreatedBy new = p_CreatedBy q" "p_ModifiedBy new = p_CreatedBy q" "g_Grantee g \<noteq> ''''"
      using insert_permission_spec [OF ins] by auto
    have found: "find_last (\<lambda>r. p_CreatedBy r = p_CreatedBy q \<and> p_ObjectID r = oid \<and> p_Grantee r = p_Grantee q \<and>
                     p_AcmShare r = p_AcmShare q \<and> \<not> p_IsDeleted r \<and> p_AllowCreate r = p_AllowCreate q \<and>
                     p_AllowRead r = p_AllowRead q \<and> p_AllowUpdate r = p_AllowUpdate q \<and>
                     p_AllowDelete r = p_AllowDelete q \<and> p_AllowShare r = p_AllowShare q) (db_permission db2) = Some r"
        and dao': "dao' = dao1\<lparr>da_db := db2\<rparr>"
      using assms(1) e \<open>e1 = None\<close> ins unfolding run by (auto split: option.splits)
    have g: "g_Grantee g = p_Grantee q"
      using known find_last_Some [OF found] new(1,3) by auto
    have "r = new"
      using found new g unfolding new(1) find_last_append by (simp add: same_grant_def split: if_splits)
    have q: "p_Grantee q = AACFlatten (p_Grantee p)" "p_CreatedBy q = p_CreatedBy p" "p_Grantee p \<noteq> ''''"
      using new(7) g by (auto simp: q_def AACFlatten_def flatten_removed_def)
    have "same_grant (p\<lparr>p_IsDeleted := False\<rparr>) (q\<lparr>p_ObjectID := oid, p_Grantee := g_Grantee g, p_IsDeleted := False\<rparr>)"
      using g new(7) q(3) by (simp add: same_grant_def q_def AACFlatten_idem)
    then show "db_permission (da_db dao') = db_permission (da_db dao) @ [r] \<and> granted (p_CreatedBy p) oid (p\<lparr>p_IsDeleted := False\<rparr>) r"
      using same_grant_trans [OF _ new(2)] new g dao' p1 q \<open>r = new\<close> by (simp add: granted_def)
  qed
qed

definition asked :: "ODObjectPermission \<Rightarrow> bool" where
  "asked p \<longleftrightarrow> \<not> p_IsDeleted p \<and> p_Grantee p \<noteq> ''''"

lemma asked_same: "same_grant p q \<Longrightarrow> asked q \<longleftrightarrow> asked p"
  by (auto simp: same_grant_def asked_def)

lemma granted_self: "\<not> p_IsDeleted p \<Longrightarrow> granted who oid (p\<lparr>p_CreatedBy := w, p_IsDeleted := False\<rparr>) r \<Longrightarrow> granted who oid p r"
  by (rule granted_same [of _ "p\<lparr>p_CreatedBy := w, p_IsDeleted := False\<rparr>"]) (simp_all add: same_grant_def)

lemma create_permissions_spec:
  assumes "create_permissions env who oid ps dao = Ok ((rows', e), dao')" and "grants_ok dao"
  shows "grants_ok dao' \<and> list_all2 same_grant ps rows' \<and> objs (da_db dao') = objs (da_db dao) \<and>
    (e = None \<longrightarrow> (\<exists>gs. db_permission (da_db dao') = db_permission (da_db dao) @ gs \<and>
        list_all2 (granted who oid) (filter asked ps) gs))"
  using assms
proof (induction ps arbitrary: dao rows' e)
  case (Cons p ps)
  have same: "list_all2 same_grant ps ps"
    by (simp add: list_all2_same)
  show ?case
  proof (cases "asked p")
    case False
    then obtain rows1 where "create_permissions env who oid ps dao = Ok ((rows1, e), dao')" "rows' = p # rows1"
      using Cons.prems(1) by (auto simp: asked_def bind_res_Ok_iff)
    then show ?thesis
      using Cons.IH [of dao rows1 e] Cons.prems(2) False by simp
  next
    case True
    then obtain r e1 dao1 where add: "addPermissionToObjectInTransaction env oid (p\<lparr>p_CreatedBy := who\<rparr>) dao = Ok ((r, e1), dao1)"
      using Cons.prems(1) by (auto simp: asked_def bind_res_Ok_iff)
    note a = addPermission_spec [OF add Cons.prems(2)]
    note obj = addPermission_objects [OF add]
    show ?thesis
    proof (cases "e1 = None \<and> p_ModifiedBy r = who")
      case False
      then have "rows' = p # ps \<and> e \<noteq> None \<and> dao' = dao1"
        using Cons.prems(1) True add by (cases e1) (auto simp: asked_def)
      then show ?thesis
        using a(1) obj same by auto
    next
      case e1: True
      then obtain rows1 where rest: "create_permissions env who oid ps dao1 = Ok ((rows1, e), dao')" "rows' = r # rows1"
        using Cons.prems(1) True add by (auto simp: asked_def bind_res_Ok_iff)
      have r: "db_permission (da_db dao1) = db_permission (da_db dao) @ [r]" "granted who oid p r"
        using a(2) e1 granted_self [of p who oid who r] True by (simp_all add: asked_def)
      note ih = Cons.IH [OF rest(1) a(1)]
      have "same_grant p r"
        using r(2) by (simp add: granted_def)
      moreover have "\<exists>gs. db_permission (da_db dao') = db_permission (da_db dao) @ gs \<and>
          list_all2 (granted who oid) (filter asked (p # ps)) gs" if none: "e = None"
      proof -
        obtain gs where "db_permission (da_db dao') = db_permission (da_db dao1) @ gs" "list_all2 (granted who oid) (filter asked ps) gs"
          using ih none by auto
        then show ?thesis
          using r True by (intro exI [of _ "r # gs"]) simp
      qed
      ultimately show ?thesis
        using ih rest(2) obj by simp
    qed
  qed
qed simp

definition same_creation :: "ODObject \<Rightarrow> ODObject \<Rightarrow> bool" where
  "same_creation x y \<longleftrightarrow> norm_id (o_ParentID y) = norm_id (o_ParentID x) \<and> norm_id (o_TypeID y) = norm_id (o_TypeID x) \<and>
     o_CreatedBy y = o_CreatedBy x \<and> (o_Name x \<noteq> '''' \<longrightarrow> o_Name y = o_Name x) \<and> ni_Int64 (o_ContentSize y) = ni_Int64 (o_ContentSize x) \<and>
     o_ContentHash y = o_ContentHash x \<and> o_EncryptIV y = o_EncryptIV x \<and> list_all2 same_grant (o_Permissions x) (o_Permissions y)"

text \<open>The row stored for a request.\<close>

definition created_row :: "ODObject \<Rightarrow> ODObject \<Rightarrow> bool" where
  "created_row obj row \<longleftrightarrow> o_ParentID row = norm_id (o_ParentID obj) \<and> o_TypeID row = norm_id (o_TypeID obj) \<and>
     o_CreatedBy row = o_CreatedBy obj \<and> o_ModifiedBy row = o_CreatedBy obj \<and> (o_Name obj \<noteq> '''' \<longrightarrow> o_Name row = o_Name obj) \<and>
     ni_Int64 (o_ContentSize row) = ni_Int64 (o_ContentSize obj) \<and> o_ContentHash row = o_ContentHash obj \<and>
     o_EncryptIV row = o_EncryptIV obj \<and> \<not> o_IsDeleted row \<and> \<not> o_IsExpunged row \<and> o_ChangeCount row = 0"

definition only_creates :: "db_env \<Rightarrow> ODObject \<Rightarrow> Db \<Rightarrow> Db \<Rightarrow> bool" where
  "only_creates env obj db db' \<longleftrightarrow> (\<exists>row gs. db_object db' = db_object db @ [row] \<and> created_row obj row \<and>
     o_ID row = Some (de_fresh env (map (slice_bytes \<circ> o_ID) (db_object db))) \<and>
     live_type db (o_TypeID row) \<and> db_type db' = db_type db \<and>
     (o_ParentID row \<noteq> None \<longrightarrow> (\<exists>p \<in> set (db_object db). o_ID p = o_ParentID row \<and> \<not> o_IsDeleted p)) \<and>
     db_permission db' = db_permission db @ gs \<and>
     list_all2 (granted (o_CreatedBy obj) (o_ID row)) (filter asked (o_Permissions obj)) gs)"

lemma same_creation_refl [simp]: "same_creation x x"
  by (simp add: same_creation_def list_all2_same)

lemma same_creation_trans: "same_creation x y \<Longrightarrow> same_creation y z \<Longrightarrow> same_creation x z"
  unfolding same_creation_def
  using list_all2_trans [of same_grant same_grant same_grant "o_Permissions x" "o_Permissions y" "o_Permissions z", OF same_grant_trans]
  by (elim conjE, intro conjI) metis+

lemma granted_filter:
  assumes "list_all2 same_grant ps qs" and "list_all2 (granted who i) (filter asked qs) gs"
  shows "list_all2 (granted who i) (filter asked ps) gs"
  using assms
proof (induction arbitrary: gs rule: list_all2_induct)
  case (Cons p ps q qs)
  then show ?case
    using asked_same [OF Cons.hyps(1)] granted_same [OF Cons.hyps(1)] by (cases "asked p") (auto simp: list_all2_Cons1)
qed simp

lemma only_creates_same: "same_creation x y \<Longrightarrow> only_creates env y db db' \<Longrightarrow> only_creates env x db db'"
proof -
  assume s: "same_creation x y" and "only_creates env y db db'"
  then obtain row gs where c: "db_object db' = db_object db @ [row]" "created_row y row"
      "o_ID row = Some (de_fresh env (map (slice_bytes \<circ> o_ID) (db_object db)))"
      "live_type db (o_TypeID row)" "db_type db' = db_type db" "o_ParentID row \<noteq> None \<longrightarrow> (\<exists>p \<in> set (db_object db). o_ID p = o_ParentID row \<and> \<not> o_IsDeleted p)"
      "db_permission db' = db_permission db @ gs"
      "list_all2 (granted (o_CreatedBy y) (o_ID row)) (filter asked (o_Permissions y)) gs"
    unfolding only_creates_def by blast
  have "created_row x row"
    using s c(2) unfolding same_creation_def created_row_def by (elim conjE, intro conjI) metis+
  moreover have "list_all2 (granted (o_CreatedBy x) (o_ID row)) (filter asked (o_Permissions x)) gs"
    using granted_filter [of "o_Permissions x" "o_Permissions y"] c(8) s by (simp add: same_creation_def)
  ultimately show ?thesis
    unfolding only_creates_def using c by blast
qed

lemma complete_object_spec:
  assumes "complete_object env obj db = (r, obj1, db1)"
  shows "rows db1 = rows db \<and> same_creation obj obj1 \<and>
    (\<forall>x. r = Inr x \<longrightarrow> x = obj1 \<and> o_ParentID x = norm_id (o_ParentID obj) \<and> o_TypeID x = norm_id (o_TypeID obj))"
proof -
  define o1 where "o1 = obj\<lparr>o_ParentID := (if slice_len (o_ParentID obj) = 0 then None else o_ParentID obj),
                     o_TypeID := (if slice_len (o_TypeID obj) = 0 then None else o_TypeID obj)\<rparr>"
  have o1: "same_creation obj o1" "o_ParentID o1 = norm_id (o_ParentID obj)" "o_TypeID o1 = norm_id (o_TypeID obj)"
    by (simp_all add: o1_def same_creation_def norm_id_def list_all2_same)
  obtain o2 db2 where add: "add_creator o1 db = (o2, db2)"
    by (metis surj_pair)
  have o2: "o2 = o1" "rows db2 = rows db"
    using add createUser_objects [of "o_CreatedBy o1" db "fst (createUserInTransaction (o_CreatedBy o1) db)"]
    by (auto simp: add_creator_def createUserInTransaction_def getUserByDistinguishedNameInTransaction_def split: if_splits)
  define o3 where "o3 = (if length (o_Name o2) = 0 then o2\<lparr>o_Name := ''New '' @ ns_String (o_TypeName o2)\<rparr> else o2)"
  define o4 where "o4 = (if length (ns_String (o_ContentConnector o3)) = 0
                  then o3\<lparr>o_ContentConnector := ToNullString (de_random_name env db2)\<rparr> else o3)"
  have "complete_object env obj db = (if o_CreatedBy o1 = '''' then (Inl ''cannot create object, createdby field is missing'', o1, db)
      else if o_TypeID o1 = None then (Inl ''cannot create object, typeid field is missing'', o1, db) else (Inr o4, o4, db2))"
    unfolding complete_object_def Let_def o1_def [symmetric] by (simp add: add o4_def o3_def)
  moreover have "same_creation o1 o4" "o_ParentID o4 = o_ParentID o1" "o_TypeID o4 = o_TypeID o1"
    by (auto simp: o4_def o3_def o2 same_creation_def list_all2_same)
  ultimately show ?thesis
    using assms o1 o2(2) same_creation_trans [OF o1(1)] by (auto split: if_splits)
qed

lemma insert_object_spec:
  assumes "insert_object env obj db = Inr db'" and "o_ParentID obj = norm_id (o_ParentID obj)" and "o_TypeID obj = norm_id (o_TypeID obj)"
  shows "\<exists>row. db_object db' = db_object db @ [row] \<and> created_row obj row \<and>
     o_ID row = Some (de_fresh env (map (slice_bytes \<circ> o_ID) (db_object db))) \<and>
     (o_ParentID row \<noteq> None \<longrightarrow> (\<exists>p \<in> set (db_object db). o_ID p = o_ParentID row \<and> \<not> o_IsDeleted p)) \<and>
     db_permission db' = db_permission db \<and> db_grantee db' = db_grantee db \<and> o_CreatedBy row = o_CreatedBy obj \<and>
     o_TypeID row = o_TypeID obj \<and> o_Name row = o_Name obj \<and>
     ns_String (o_ContentConnector row) = ns_String (o_ContentConnector obj) \<and> \<not> o_IsDeleted row \<and>
     live_type db (o_TypeID row) \<and> db_type db' = db_type db"
proof -
  let ?parent = "if slice_len (o_ParentID obj) = 0 then None else o_ParentID obj"
  have parent: "?parent = o_ParentID obj"
    using assms(2) by (simp add: norm_id_def)
  define row where "row = empty_object\<lparr>o_ID := Some (de_fresh env (map (slice_bytes \<circ> o_ID) (db_object db))),
            o_CreatedDate := de_now env, o_CreatedBy := o_CreatedBy obj,
            o_ModifiedDate := de_now env, o_ModifiedBy := o_CreatedBy obj, o_ChangeCount := 0,
            o_ChangeToken := de_token env (de_fresh env (map (slice_bytes \<circ> o_ID) (db_object db))) 0 (de_now env),
            o_OwnedBy := \<lparr>ns_String = de_owner env (if ns_String (o_OwnedBy obj) = '''' then ''user/'' @ o_CreatedBy obj
              else ns_String (o_OwnedBy obj)), ns_Valid = True\<rparr>,
            o_TypeID := o_TypeID obj, o_Name := o_Name obj, o_Description := some_string (o_Description obj),
            o_ParentID := ?parent, o_ContentConnector := some_string (o_ContentConnector obj),
            o_RawAcm := some_string (o_RawAcm obj), o_ContentType := some_string (o_ContentType obj),
            o_ContentSize := \<lparr>ni_Int64 = ni_Int64 (o_ContentSize obj), ni_Valid = True\<rparr>,
            o_ContentHash := o_ContentHash obj, o_EncryptIV := o_EncryptIV obj,
            o_ContainsUSPersonsData := (if o_ContainsUSPersonsData obj = '''' then ''Unknown'' else o_ContainsUSPersonsData obj),
            o_ExemptFromFOIA := (if o_ExemptFromFOIA obj = '''' then ''Unknown'' else o_ExemptFromFOIA obj), o_ACMID := o_ACMID obj\<rparr>"
  have ins: "insert_object env obj db = (let err = (if \<not> live_type db (o_TypeID obj) then ''Field typeId required '' else '''') @
            (if ?parent \<noteq> None \<and> \<not> list_ex (\<lambda>x. \<not> o_IsDeleted x \<and> o_ID x = ?parent) (db_object db)
             then ''Field parentId must be valid '' else '''')
      in if err \<noteq> '''' then Inl (err @ ''when inserting record into object'')
         else Inr (db\<lparr>db_object := db_object db @ [row], db_a_object := db_a_object db @ [row]\<rparr>))"
    unfolding insert_object_def Let_def row_def ..
  then have db': "db' = db\<lparr>db_object := db_object db @ [row], db_a_object := db_a_object db @ [row]\<rparr>"
    using assms(1) by (simp add: Let_def split: if_splits)
  have live: "o_ParentID obj \<noteq> None \<Longrightarrow> \<exists>p \<in> set (db_object db). o_ID p = o_ParentID obj \<and> \<not> o_IsDeleted p"
    using assms(1) unfolding ins parent by (auto simp: Let_def list_ex_iff split: if_splits)
  have "live_type db (o_TypeID obj)"
    using assms(1) unfolding ins by (auto simp: Let_def split: if_splits)
  moreover have "created_row obj row" "o_ParentID row = o_ParentID obj" "o_CreatedBy row = o_CreatedBy obj" "o_TypeID row = o_TypeID obj"
      "o_Name row = o_Name obj" "ns_String (o_ContentConnector row) = ns_String (o_ContentConnector obj)" "\<not> o_IsDeleted row"
      "o_ID row = Some (de_fresh env (map (slice_bytes \<circ> o_ID) (db_object db)))"
    using assms(2,3) parent by (simp_all add: row_def created_row_def empty_object_def some_string_def)
  ultimately show ?thesis
    using live unfolding db' by (intro exI [of _ row]) simp
qed

lemma create_properties_rows: "create_properties env who i qs db = (r, db') \<Longrightarrow> rows db' = rows db"
proof (induction qs arbitrary: db)
  case (Cons q qs)
  obtain x e db1 where a: "addPropertyToObjectInTransaction env i (q\<lparr>pr_CreatedBy := who\<rparr>) db = ((x, e), db1)"
    by (metis surj_pair)
  consider "db' = db1" | "create_properties env who i qs db1 = (r, db')" | "create_properties env who i qs db = (r, db')"
    using Cons.prems a by (cases e) (auto split: if_splits)
  then show ?case
    using Cons.IH addProperty_objects [OF a] by cases metis+
qed simp

lemma create_tx:
  assumes "createObjectInTransaction env obj dao = Ok ((x, obj', c, e), dao')" and ok: "grants_ok dao"
  shows "grants_ok dao' \<and> (if e = None then only_creates env obj (da_db dao) (da_db dao') \<and> x \<in> set (db_object (da_db dao'))
    else same_creation obj obj')"
proof -
  obtain r obj0 db1 where chk: "complete_object env obj (da_db dao) = (r, obj0, db1)"
    by (metis surj_pair)
  note spec = complete_object_spec [OF chk]
  have ok1: "grants_ok (dao\<lparr>da_db := db1\<rparr>)"
    using grants_ok_rows ok spec by blast
  show ?thesis
  proof (cases "\<exists>acm y. r = Inr y \<and> normalizedACM env (ns_String (o_RawAcm y)) = Some acm")
    case False
    then have "obj' = obj0 \<and> dao' = dao\<lparr>da_db := db1\<rparr> \<and> e \<noteq> None"
      using assms(1) chk spec by (cases r) (auto simp: createObjectInTransaction_def split: option.splits)
    then show ?thesis
      using ok1 spec by auto
  next
    case True
    then obtain acm where acm: "r = Inr obj0" "normalizedACM env (ns_String (o_RawAcm obj0)) = Some acm"
      using spec by blast
    let ?arg = "obj0\<lparr>o_RawAcm := (o_RawAcm obj0)\<lparr>ns_String := acm\<rparr>\<rparr>"
    obtain obj1 created e2 db2 where set_: "setObjectACM2ForObjectInTransaction env ?arg db1 = Ok ((obj1, created, e2), db2)"
      using assms(1) chk acm by (auto simp: createObjectInTransaction_def bind_res_Ok_iff)
    obtain i where i: "rows db2 = rows db1" "obj1 = ?arg\<lparr>o_ACMID := i\<rparr>"
      using setObjectACM2_keeps [OF set_] by blast
    have "same_creation obj0 obj1"
      by (simp add: i(2) same_creation_def list_all2_same)
    then have s1: "same_creation obj obj1"
      using spec same_creation_trans by blast
    have n1: "o_ParentID obj1 = norm_id (o_ParentID obj1)" "o_TypeID obj1 = norm_id (o_TypeID obj1)"
      using spec acm(1) by (simp_all add: i(2) norm_id_idem)
    have r2: "rows db2 = rows (da_db dao)" "grants_ok (dao\<lparr>da_db := db2\<rparr>)"
      using i(1) spec grants_ok_rows ok by metis+
    show ?thesis
    proof (cases "e2 = None \<and> (\<exists>db3. insert_object env obj1 db2 = Inr db3)")
      case False
      then have "obj' = obj1 \<and> dao' = dao\<lparr>da_db := db2\<rparr> \<and> e \<noteq> None"
        using assms(1) chk acm set_ by (cases e2; cases "insert_object env obj1 db2") (auto simp: createObjectInTransaction_def)
      then show ?thesis
        using r2 s1 by auto
    next
      case True
      then obtain db3 where ins: "insert_object env obj1 db2 = Inr db3"
        by blast
      obtain row where row: "db_object db3 = db_object db2 @ [row]" "created_row obj1 row"
          "o_ID row = Some (de_fresh env (map (slice_bytes \<circ> o_ID) (db_object db2)))"
          "o_ParentID row \<noteq> None \<longrightarrow> (\<exists>p \<in> set (db_object db2). o_ID p = o_ParentID row \<and> \<not> o_IsDeleted p)"
          "db_permission db3 = db_permission db2" "db_grantee db3 = db_grantee db2" "o_CreatedBy row = o_CreatedBy obj1"
          "o_TypeID row = o_TypeID obj1" "o_Name row = o_Name obj1"
          "ns_String (o_ContentConnector row) = ns_String (o_ContentConnector obj1)" "\<not> o_IsDeleted row"
          "live_type db2 (o_TypeID row)" "db_type db3 = db_type db2"
        using insert_object_spec [OF ins n1] by blast
      have found: "find_last (\<lambda>x. o_CreatedBy x = o_CreatedBy obj1 \<and> o_TypeID x = o_TypeID obj1 \<and> o_Name x = o_Name obj1 \<and>
                      ns_String (o_ContentConnector x) = ns_String (o_ContentConnector obj1) \<and> \<not> o_IsDeleted x) (db_object db3) = Some row"
        using row unfolding row(1) find_last_append by simp
      obtain e4 db4 where props: "create_properties env (o_CreatedBy row) (o_ID row) (o_Properties obj1) db3 = (e4, db4)"
        by (metis surj_pair)
      note rows4 = create_properties_rows [OF props]
      have ok4: "grants_ok (dao\<lparr>da_db := db4\<rparr>)"
        using r2(2) rows4 row(5,6) by (simp add: grants_ok_def rows_def)
      show ?thesis
      proof (cases e4)
        case (Some m)
        then have "obj' = obj1 \<and> dao' = dao\<lparr>da_db := db4\<rparr> \<and> e \<noteq> None"
          using assms(1) chk acm set_ True ins found props by (auto simp: createObjectInTransaction_def)
        then show ?thesis
          using ok4 s1 by auto
      next
        case None
        then obtain rs dao5 where perms: "create_permissions env (o_CreatedBy row) (o_ID row) (o_Permissions obj1)
              (dao\<lparr>da_db := db4\<rparr>) = Ok ((rs, e), dao5)" and "x = row" "obj' = obj1\<lparr>o_Permissions := rs\<rparr>" "dao' = dao5"
          using assms(1) chk acm set_ True ins found props by (auto simp: createObjectInTransaction_def bind_res_Ok_iff)
        note p = create_permissions_spec [OF perms ok4]
        have "same_creation obj1 obj'"
          using p by (simp add: \<open>obj' = _\<close> same_creation_def)
        moreover have "only_creates env obj1 (da_db dao) (da_db dao')" if none: "e = None"
        proof -
          have "db_object (da_db dao') = db_object (da_db dao) @ [row]" "db_type (da_db dao') = db_type (da_db dao)"
            using p \<open>dao' = dao5\<close> rowsD(1,4) [OF rows4] row(1,13) rowsD(1,4) [OF r2(1)] by (simp_all add: objs_def)
          moreover have "live_type (da_db dao) (o_TypeID row)"
            using row(12) rowsD(4) [OF r2(1)] live_type_cong by metis
          moreover obtain gs where "db_permission (da_db dao') = db_permission (da_db dao) @ gs"
              "list_all2 (granted (o_CreatedBy row) (o_ID row)) (filter asked (o_Permissions obj1)) gs"
            using p none \<open>dao' = dao5\<close> rowsD(2) [OF rows4] row(5) rowsD(2) [OF r2(1)] by auto
          ultimately show ?thesis
            unfolding only_creates_def using row(2-4,7) rowsD(1,4) [OF r2(1)] by (intro exI [of _ row] exI [of _ gs]) simp
        qed
        moreover have "row \<in> set (db_object (da_db dao'))"
          using p \<open>dao' = dao5\<close> rowsD(1) [OF rows4] row(1) by (simp add: objs_def)
        ultimately show ?thesis
          using p s1 same_creation_trans only_creates_same \<open>dao' = dao5\<close> \<open>x = row\<close> by (auto split: if_splits)
      qed
    qed
  qed
qed

lemma rollback_grants: "grants_ok dao \<Longrightarrow> grants_ok dao1 \<Longrightarrow> grants_ok (rollback_tx dao dao1)"
  by (simp add: rollback_tx_def grants_ok_def Let_def)

lemma only_creates_rows: "rows y = rows x \<Longrightarrow> only_creates env obj y z \<Longrightarrow> only_creates env obj x z"
proof -
  assume r: "rows y = rows x" and "only_creates env obj y z"
  then show ?thesis
    unfolding only_creates_def by (simp only: live_type_cong [OF rowsD(4) [OF r]] rowsD [OF r])
qed

lemma create_attempts_spec:
  "create_attempts n env obj dao = Ok ((x, obj', e), dao') \<Longrightarrow> grants_ok dao \<Longrightarrow>
    grants_ok dao' \<and> (if e = None then only_creates env obj (da_db dao) (da_db dao') else only_names (da_db dao) (da_db dao'))"
proof (induction n arbitrary: obj dao)
  case 0
  then obtain x1 o1 c1 e1 dao1 where u: "createObjectInTransaction env obj dao = Ok ((x1, o1, c1, e1), dao1)"
    by (auto simp: bind_res_Ok_iff)
  show ?case
    using 0 u create_tx [OF u] rollback_grants [of dao dao1] rollback_names [of dao dao1] by (cases e1) auto
next
  case (Suc n)
  then obtain x1 o1 c1 e1 dao1 where u: "createObjectInTransaction env obj dao = Ok ((x1, o1, c1, e1), dao1)"
    by (auto simp: bind_res_Ok_iff)
  note tx = create_tx [OF u Suc.prems(2)]
  note r = rollback_names [of dao dao1]
  have ok: "grants_ok (rollback_tx dao dao1)"
    using rollback_grants tx Suc.prems(2) by blast
  consider "e1 = None" "e = None" "dao' = dao1" | "e1 \<noteq> None" "e = e1" "dao' = rollback_tx dao dao1"
    | "e1 \<noteq> None" "create_attempts n env o1 (rollback_tx dao dao1) = Ok ((x, obj', e), dao')"
    using Suc.prems(1) u by (cases e1) (auto split: if_splits)
  then show ?case
  proof cases
    case 1
    then show ?thesis
      using tx by simp
  next
    case 2
    then show ?thesis
      using r ok by (cases e1) simp_all
  next
    case 3
    then have "same_creation obj o1"
      using tx by simp
    then show ?thesis
      using Suc.IH [OF 3(2) ok] only_creates_rows [OF only_names_rows [OF r]] only_names_trans [OF r] only_creates_same
      by (cases e) auto
  qed
qed

lemma load_permissions_grants:
  "load_grantees ps dao = (r, dao') \<Longrightarrow> grants_ok dao \<Longrightarrow> grants_ok dao'"
proof (induction ps arbitrary: dao r)
  case (Cons p ps)
  obtain g e dao1 where get: "getAcmGranteeInTransaction (p_Grantee p) dao = ((g, e), dao1)"
    by (metis surj_pair)
  show ?case
    using Cons get getAcmGrantee_spec(1) [OF get] by (cases e) (auto split: prod.splits)
qed simp

lemma getObject_grants:
  "getObjectInTransaction env i b c dao = (r, dao') \<Longrightarrow> grants_ok dao \<Longrightarrow> grants_ok dao'"
  using load_permissions_grants
  by (fastforce simp: getObjectInTransaction_def getPermissionsForObjectInTransaction_def Let_def
      split: option.splits prod.splits if_splits)

text \<open>C13: \<open>CreateObject\<close>, with all its retries and when it reports success, adds exactly one row to the objects,
  with the fresh identifier, the requested parent (an object that is not deleted), type, hash, size and IV, made by the
  creator, and adds as permissions exactly those of the request that are not marked deleted and name a grantee, in
  order, each with the grantee's flattened name and the capabilities, file key, IV and MAC it was asked with. After
  an error the database is what it was, up to names of ACM keys and values, unless only the read after the commit failed. The grantees stay keyed by their
  names and every permission keeps its grantee.\<close>

theorem create_exact:
  assumes "CreateObject env obj dao = Ok ((x, e), dao')" and "grants_ok dao"
  shows "grants_ok dao' \<and> (only_creates env obj (da_db dao) (da_db dao') \<or> e \<noteq> None \<and> only_names (da_db dao) (da_db dao'))"
proof -
  obtain x1 o1 e1 dao1 where run: "create_attempts (de_retries env) env obj dao = Ok ((x1, o1, e1), dao1)"
    using assms(1) by (auto simp: CreateObject_def bind_res_Ok_iff)
  note spec = create_attempts_spec [OF run assms(2)]
  show ?thesis
  proof (cases e1)
    case (Some m)
    then have "dao' = dao1 \<and> e \<noteq> None"
      using assms(1) run by (auto simp: CreateObject_def)
    then show ?thesis
      using spec Some by simp
  next
    case None
    obtain y e2 dao2 where get: "getObjectInTransaction env (o_ID x1) True True dao1 = ((y, e2), dao2)"
      by (metis surj_pair)
    then have "dao' = dao2"
      using assms(1) run None by (cases e2) (auto simp: CreateObject_def)
    then show ?thesis
      using getObject_grants [OF get] getObject_dbD [OF get] spec None by simp
  qed
qed

definition sample_creation :: ODObject where
  "sample_creation = empty_object\<lparr>o_CreatedBy := ''cn=a'', o_TypeID := Some [9], o_ParentID := Some [1], o_Name := ''new'',
     o_RawAcm := ToNullString ''x'', o_Permissions := [empty_permission\<lparr>p_Grantee := ''cn=a'', p_AcmShare := ''s'',
       p_AllowRead := True, p_EncryptKey := [1, 2]\<rparr>]\<rparr>"

definition create_dao :: DataAccessLayer where
  "create_dao = sample_dao\<lparr>da_db := sample_db\<lparr>db_grantee := [(''cna'', empty_grantee\<lparr>g_Grantee := ''cna''\<rparr>)], db_permission := []\<rparr>\<rparr>"

lemma sample_create:
  "case CreateObject sample_env sample_creation create_dao of Ok ((x, e), d) \<Rightarrow> e = None | _ \<Rightarrow> False"
  by code_simp

theorem create_exact_witness:
  "\<exists>x d. CreateObject sample_env sample_creation create_dao = Ok ((x, None), d) \<and>
    grants_ok d \<and> only_creates sample_env sample_creation (da_db create_dao) (da_db d)"
proof -
  obtain x d where c: "CreateObject sample_env sample_creation create_dao = Ok ((x, None), d)"
    using sample_create by (auto split: res.splits)
  have "grants_ok create_dao"
    by (simp add: grants_ok_def keyed_def create_dao_def sample_dao_def sample_db_def)
  then show ?thesis
    using create_exact [OF c] c by auto
qed

text \<open>The cache of grantees is not taken back with the transaction: a grantee that was added by a transaction that
  was rolled back stays in the cache, and from then on no permission can be given to it.\<close>

lemma grantee_poisoned:
  assumes "map_of (da_AcmGranteeCache dao) (AACFlatten (p_Grantee p)) = Some g" and "g_Grantee g \<notin> fst ` set (db_grantee (da_db dao))"
  shows "\<exists>m. addPermissionToObjectInTransaction env i p dao = Ok ((empty_permission, Some m), dao)"
  using assms by (simp add: addPermissionToObjectInTransaction_def getAcmGranteeInTransaction_def insert_permission_def Let_def)

text \<open>A request whose first permission names a new grantee and whose second cannot be added leaves it so.\<close>

definition failing_creation :: ODObject where
  "failing_creation = sample_creation\<lparr>o_Permissions := [empty_permission\<lparr>p_Grantee := ''cn=b'', p_AcmShare := ''s'',
       p_AcmGrantee := NewODAcmGranteeFromResourceName ''user/cn=b''\<rparr>, empty_permission\<lparr>p_Grantee := ''cn=a''\<rparr>]\<rparr>"

lemma create_poisons:
  "case CreateObject sample_env failing_creation create_dao of Ok ((x, e), d) \<Rightarrow> e \<noteq> None \<and>
      map_of (da_AcmGranteeCache d) ''cnb'' \<noteq> None \<and> map_of (db_grantee (da_db d)) ''cnb'' = None | _ \<Rightarrow> False"
  by code_simp

end
