(* ===== verification/Dao_Emptied.thy ===== *)
theory Dao_Emptied
  imports Dao_Tree
begin

text \<open>
  What deleting and expunging leave below an object they marked: no child that the user may delete. A page of
  children is read with the permissions that decide whether they are deleted (\<open>page_children\<close>); the locale of marks
  is continued with the lemmas that no child of the last page stays (\<open>page_emptied\<close>), that the loop over the pages
  reaches such a page for an object with at most a page of children, or with only children that may be deleted
  (\<open>pages_loop_left\<close>), and that the recursion does so for every row it marks (\<open>tree_left\<close>).
\<close>

text \<open>The grantee of every permission is a row, and no identifier is empty, so every child of a page can be read.\<close>

definition granted_rows :: "Db \<Rightarrow> bool" where
  "granted_rows db \<longleftrightarrow> p_Grantee ` set (db_permission db) \<subseteq> fst ` set (db_grantee db)"

definition readable :: "Db \<Rightarrow> bool" where
  "readable db \<longleftrightarrow> granted_rows db \<and> (\<forall>x \<in> set (db_object db). slice_len (o_ID x) \<noteq> 0)"

text \<open>A child the user may delete and that is not marked as deleted with an ancestor; and what it means that a run
  has emptied an object: none of its children is such a one, where it had at most a page of children, or only such.\<close>

definition removable :: "Db \<Rightarrow> RawSnippetFields list option \<Rightarrow> ODObject \<Rightarrow> bool" where
  "removable db snippets x \<longleftrightarrow> \<not> o_IsAncestorDeleted x \<and> may_delete db snippets (o_ID x)"

definition emptied :: "RawSnippetFields list option \<Rightarrow> slice \<Rightarrow> Db \<Rightarrow> Db \<Rightarrow> bool" where
  "emptied snippets i db db' \<longleftrightarrow>
     length (child_rows db i) \<le> 100 \<or> length (child_rows db i) < 2 ^ 32 \<and> (\<forall>x \<in> set (child_rows db i). removable db snippets x) \<longrightarrow>
     (\<forall>x \<in> set (child_rows db' i). \<not> removable db' snippets x)"

definition none_left :: "(ODObject \<Rightarrow> bool) \<Rightarrow> RawSnippetFields list option \<Rightarrow> Db \<Rightarrow> Db \<Rightarrow> bool" where
  "none_left already snippets db db' \<longleftrightarrow>
     (\<forall>x \<in> set (db_object db). \<forall>y \<in> set (db_object db'). o_ID y = o_ID x \<and> \<not> already x \<and> already y \<longrightarrow>
        emptied snippets (o_ID x) db db')"

lemma load_grantees_ok:
  "p_Grantee ` set ps \<subseteq> fst ` set (db_grantee (da_db dao)) \<Longrightarrow> \<exists>qs dao1. load_grantees ps dao = ((qs, None), dao1)"
proof (induction ps arbitrary: dao)
  case (Cons p ps)
  obtain g e dao1 where get: "getAcmGranteeInTransaction (p_Grantee p) dao = ((g, e), dao1)"
    by (metis surj_pair)
  have db: "da_db dao1 = da_db dao"
    by (rule getAcmGrantee_dbD [OF get])
  have "e = None"
    using get Cons.prems by (auto simp: getAcmGranteeInTransaction_def map_of_eq_None_iff split: option.splits)
  moreover obtain qs dao2 where "load_grantees ps dao1 = ((qs, None), dao2)"
    using Cons.IH [of dao1] Cons.prems db by auto
  ultimately show ?case
    using get by simp
qed simp

lemma child_loaded:
  assumes r: "r \<in> set (child_rows db i)" and db: "da_db d = db" and "unique_ids db" and "readable db" and "env_ok env"
  shows "\<exists>x d'. getObjectInTransaction env (o_ID r) True False d = ((x, None), d') \<and> da_db d' = db \<and> o_ID x = o_ID r \<and>
    o_IsAncestorDeleted x = o_IsAncestorDeleted r \<and> (authorizedToDelete user x \<longleftrightarrow> may_delete db (u_Snippets user) (o_ID r))"
proof -
  have mem: "r \<in> set (db_object db)" and len: "slice_len (o_ID r) \<noteq> 0"
    using r assms(4) by (auto simp: child_rows_def readable_def)
  obtain t del where t: "type_row db (o_TypeID r) = Some (t, del)"
    using r by (auto simp: child_rows_def)
  obtain b where b: "o_ID r = Some b"
    using len by (cases "o_ID r") auto
  have row: "object_row db (o_ID r) = Some r"
    using row_exists [OF mem b] unique_row [OF assms(3) mem refl] b by metis
  let ?ps = "de_by_grantee env (permission_rows db (o_ID r))"
  have set_ps: "set ?ps = {p \<in> set (db_permission db). \<not> p_IsDeleted p \<and> p_ObjectID p = o_ID r}"
    using env_ok_sets(3) [OF assms(5)] b by (auto simp: permission_rows_def)
  then have "p_Grantee ` set ?ps \<subseteq> fst ` set (db_grantee (da_db d))"
    using assms(4) db by (auto simp: readable_def granted_rows_def)
  then obtain qs d' where l: "load_grantees ?ps d = ((qs, None), d')"
    using load_grantees_ok by blast
  define x where "x = r\<lparr>o_TypeName := \<lparr>ns_String = t, ns_Valid = True\<rparr>, o_Permissions := qs, o_Properties := []\<rparr>"
  have get: "getObjectInTransaction env (o_ID r) True False d = ((x, None), d')"
    using l len row t db by (simp add: getObjectInTransaction_def getPermissionsForObjectInTransaction_def x_def Let_def)
  note rel = load_grantees_rows [OF l]
  have "authorizedToDelete user x" if may: "may_delete db (u_Snippets user) (o_ID r)"
  proof -
    obtain p where p: "p \<in> set ?ps" "p_AllowDelete p" "isUserMemberOf (u_Snippets user) (p_Grantee p)"
      using may by (auto simp: may_delete_def set_ps)
    obtain q where q: "q \<in> set qs" "q = p\<lparr>p_AcmGrantee := p_AcmGrantee q\<rparr>"
      using list_all2_mem1 [OF rel p(1)] by blast
    have "p_AllowDelete q" "p_Grantee q = p_Grantee p"
      using arg_cong [OF q(2), of p_AllowDelete] arg_cong [OF q(2), of p_Grantee] p(2) by simp_all
    then show ?thesis
      using q(1) p(3) by (auto simp: authorizedToDelete_def x_def list_ex_iff)
  qed
  moreover have "may_delete db (u_Snippets user) (o_ID r)" if "authorizedToDelete user x"
    using authorized_may_delete [OF get assms(5) that] db by simp
  ultimately show ?thesis
    using get getObject_dbD [OF get] db by (intro exI [of _ x] exI [of _ d']) (auto simp: x_def)
qed

text \<open>Every child of a page is read, with the permissions that decide whether it is deleted.\<close>

definition page_child :: "Db \<Rightarrow> ODUser \<Rightarrow> ODObject \<Rightarrow> ODObject \<Rightarrow> bool" where
  "page_child db user r x \<longleftrightarrow> o_ID x = o_ID r \<and>
     (\<not> o_IsAncestorDeleted x \<and> authorizedToDelete user x \<longleftrightarrow> removable db (u_Snippets user) r)"

lemma load_children:
  assumes "set rs \<subseteq> set (child_rows db i)" and "unique_ids db" and "readable db" and "env_ok env" and "da_db d = db"
  shows "\<exists>xs d'. load_objects env True False (map (\<lambda>x. empty_object\<lparr>o_ID := o_ID x\<rparr>) rs) d = ((xs, None), d') \<and>
    list_all2 (page_child db user) rs xs"
  using assms(1,5)
proof (induction rs arbitrary: d)
  case (Cons r rs)
  obtain x d1 where x: "getObjectInTransaction env (o_ID r) True False d = ((x, None), d1)" "da_db d1 = db"
      "page_child db user r x"
    using child_loaded [OF _ Cons.prems(2) assms(2-4), of r i user] Cons.prems(1)
    by (auto simp: page_child_def removable_def)
  obtain xs d' where "load_objects env True False (map (\<lambda>x. empty_object\<lparr>o_ID := o_ID x\<rparr>) rs) d1 = ((xs, None), d')"
      "list_all2 (page_child db user) rs xs"
    using Cons.IH [OF _ x(2)] Cons.prems(1) by auto
  then show ?case
    using x(1,3) by simp
qed simp

lemma page_children:
  assumes "getChildObjectsInTransaction env n 100 i True False dao = ((rs, e), d1)" and "unique_ids (da_db dao)"
    and "readable (da_db dao)" and "env_ok env"
  shows "list_all2 (page_child (da_db dao) user) (page_rows n 100 (de_recent env (child_rows (da_db dao) i))) (rs_Objects rs)"
proof -
  let ?rows = "page_rows n 100 (de_recent env (child_rows (da_db dao) i))"
  have "set ?rows \<subseteq> set (child_rows (da_db dao) i)"
    using env_ok_sets(1) [OF assms(4)] by (auto simp: page_rows_def dest!: in_set_takeD in_set_dropD)
  then obtain xs d' where "load_objects env True False (map (\<lambda>x. empty_object\<lparr>o_ID := o_ID x\<rparr>) ?rows) dao = ((xs, None), d')"
      "list_all2 (page_child (da_db dao) user) ?rows xs"
    using load_children [OF _ assms(2-4) refl] by blast
  then show ?thesis
    using assms(1) by (auto simp: getChildObjectsInTransaction_def load_page_def Let_def)
qed

lemma first_page_all: "length xs \<le> 100 \<Longrightarrow> page_rows 1 100 xs = xs"
  by (simp add: page_rows_def GetOffset_def GetLimit_def GetSanitizedPageNumber_def GetSanitizedPageSize_def
      absoluteMaxPageSize_def wrap64_def)

lemma one_page:
  assumes "getChildObjectsInTransaction env n 100 i lp lr dao = ((rs, e), d1)" and "\<not> 1 < rs_PageCount rs"
    and "length (child_rows (da_db dao) i) < 2 ^ 32"
  shows "length (child_rows (da_db dao) i) \<le> 100"
proof -
  let ?n = "length (child_rows (da_db dao) i)"
  have "rs_PageCount rs = page_count (int ?n) (GetSanitizedPageSize 100)"
    using assms(1) by (auto simp: getChildObjectsInTransaction_def load_page_def Let_def split: prod.splits)
  also have "\<dots> = (int ?n + 100 - 1) div 100"
    using page_count_nonneg [of 100 "int ?n"] assms(3) by (simp add: page_count_def GetSanitizedPageSize_def absoluteMaxPageSize_def)
  finally show ?thesis
    using assms(2) by linarith
qed

context marking
begin

lemma only_any: "only P a b \<Longrightarrow> only (\<lambda>x y. True) a b"
  by (erule only_mono) simp

lemma only_row_back:
  assumes "only P a b" and "y \<in> set (db_object b)"
  obtains x where "x \<in> set (db_object a)" and "o_ID x = o_ID y" and "x = y \<or> \<not> already x \<and> already y \<and> o_IsDeleted y"
  using assms list_all2_mem2 [of "mrow P" "db_object a" "db_object b" y]
  by (auto simp: only_marks_def marked_row_def same_content_def)

lemma only_row_on:
  assumes "only P a b" and "x \<in> set (db_object a)"
  obtains y where "y \<in> set (db_object b)" and "o_ID y = o_ID x" and "x = y \<or> \<not> already x \<and> already y \<and> o_IsDeleted y"
  using assms list_all2_mem1 [of "mrow P" "db_object a" "db_object b" x]
  by (auto simp: only_marks_def marked_row_def same_content_def)

lemma only_types: "only P a b \<Longrightarrow> type_row b = type_row a"
  by (rule ext) (auto simp: only_marks_def type_row_def split: option.split)

lemma only_child: "only P a b \<Longrightarrow> x \<in> set (child_rows b i) \<Longrightarrow> x \<in> set (child_rows a i)"
proof -
  assume o: "only P a b" and x: "x \<in> set (child_rows b i)"
  then obtain x0 where "x0 \<in> set (db_object a)" "x0 = x \<or> o_IsDeleted x"
    using only_row_back [OF o, of x] by (auto simp: child_rows_def)
  moreover have "type_row b = type_row a"
    by (rule only_types [OF o])
  ultimately show ?thesis
    using x by (auto simp: child_rows_def)
qed

lemma only_children: "only P a b \<Longrightarrow> length (child_rows b i) \<le> length (child_rows a i)"
proof -
  assume o: "only P a b"
  then have r: "list_all2 (mrow P) (db_object a) (db_object b)" and t: "type_row b = type_row a"
    using only_types [OF o] by (simp_all add: only_marks_def)
  from r show ?thesis
    unfolding child_rows_def t by (induction rule: list_all2_induct) (auto simp: marked_row_def)
qed

lemma only_removable: "only P a b \<Longrightarrow> removable b s x = removable a s x"
  by (simp add: removable_def only_may)

lemma only_readable: "only P a b \<Longrightarrow> readable a \<Longrightarrow> readable b"
proof -
  assume o: "only P a b" and r: "readable a"
  then have "slice_len (o_ID y) \<noteq> 0" if "y \<in> set (db_object b)" for y
    using only_row_back [OF o that] by (metis readable_def)
  then show "readable b"
    using o r by (simp add: readable_def granted_rows_def only_marks_def)
qed

text \<open>Children are only lost, so what is emptied once stays so, and counts for the tables before.\<close>

lemma emptied_later: "emptied s i a b \<Longrightarrow> only P b c \<Longrightarrow> emptied s i a c"
  unfolding emptied_def using only_child only_removable by blast

lemma emptied_sooner:
  assumes "emptied s i b c" and o: "only P a b"
  shows "emptied s i a c"
proof -
  have "length (child_rows b i) \<le> 100 \<or> length (child_rows b i) < 2 ^ 32 \<and> (\<forall>x \<in> set (child_rows b i). removable b s x)"
    if "length (child_rows a i) \<le> 100 \<or> length (child_rows a i) < 2 ^ 32 \<and> (\<forall>x \<in> set (child_rows a i). removable a s x)"
    using that only_children [OF o, of i] only_child [OF o, of _ i] only_removable [OF o] by (auto intro: order_trans)
  then show ?thesis
    using assms(1) unfolding emptied_def by blast
qed

lemma none_left_refl [simp]: "ok db \<Longrightarrow> none_left already s db db"
  by (auto simp: none_left_def good_def unique_ids_def distinct_map dest: inj_onD)

lemma none_left_trans:
  assumes "none_left already s a b" and "none_left already s b c" and ab: "only P a b" and bc: "only Q b c"
  shows "none_left already s a c"
  unfolding none_left_def
proof (intro ballI impI)
  fix x y assume x: "x \<in> set (db_object a)" and y: "y \<in> set (db_object c)" and i: "o_ID y = o_ID x \<and> \<not> already x \<and> already y"
  obtain z where z: "z \<in> set (db_object b)" "o_ID z = o_ID x" "x = z \<or> already z"
    using only_row_on [OF ab x] by metis
  show "emptied s (o_ID x) a c"
  proof (cases "already z")
    case True
    then have "emptied s (o_ID x) a b"
      using assms(1) x z i unfolding none_left_def by blast
    then show ?thesis
      by (rule emptied_later [OF _ bc])
  next
    case False
    then have "emptied s (o_ID z) b c"
      using assms(2) y z i unfolding none_left_def by metis
    then show ?thesis
      unfolding z(2) by (rule emptied_sooner [OF _ ab])
  qed
qed

lemma marked_stays:
  assumes "only P a b" and "y \<in> set (db_object a)" and "o_ID y = i" and "already y" and "ok a"
  obtains z where "z \<in> set (db_object b)" and "o_ID z = i" and "already z" and "o_IsDeleted z"
  using only_row_on [OF assms(1,2)] assms by (metis good_def list_all_iff)

abbreviation gone :: "Db \<Rightarrow> slice \<Rightarrow> bool" where
  "gone db i \<equiv> \<exists>y \<in> set (db_object db). o_ID y = i \<and> already y"

lemma gone_later: "gone a i \<Longrightarrow> only P a b \<Longrightarrow> gone b i"
  using only_row_on by metis

lemma gone_no_child:
  assumes "gone a i" and "ok a" and "x \<in> set (child_rows a j)"
  shows "o_ID x \<noteq> i"
proof
  assume i: "o_ID x = i"
  obtain y where y: "y \<in> set (db_object a)" "o_ID y = i" "already y"
    using assms(1) by blast
  then have "o_IsDeleted y" "x = y"
    using assms(2,3) i by (auto simp: good_def list_all_iff unique_ids_def distinct_map child_rows_def dest: inj_onD)
  then show False
    using assms(3) by (simp add: child_rows_def)
qed

text \<open>What is asked of the call for a child that returns no error, on tables that can be read.\<close>

definition leaves_none :: "RawSnippetFields list option \<Rightarrow> (ODObject \<Rightarrow> DataAccessLayer \<Rightarrow> (string option \<times> DataAccessLayer) option) \<Rightarrow> bool" where
  "leaves_none s del \<longleftrightarrow> (\<forall>x d d'. del x d = Some (None, d') \<and> ok (da_db d) \<and> readable (da_db d) \<longrightarrow>
     only (\<lambda>x y. True) (da_db d) (da_db d') \<and> none_left already s (da_db d) (da_db d') \<and> gone (da_db d') (o_ID x))"

lemma children_loop_left:
  assumes "children_loop del user who xs flag d = Some ((None, flag'), d')" and "leaves_none s del"
    and "ok (da_db d)" and "readable (da_db d)"
  shows "only (\<lambda>x y. True) (da_db d) (da_db d') \<and> none_left already s (da_db d) (da_db d') \<and>
    (\<forall>x \<in> set xs. \<not> o_IsAncestorDeleted x \<and> authorizedToDelete user x \<longrightarrow> gone (da_db d') (o_ID x)) \<and>
    (flag \<and> (\<forall>x \<in> set xs. \<not> o_IsAncestorDeleted x \<and> authorizedToDelete user x) \<longrightarrow> flag')"
  using assms(1,3,4)
proof (induction xs arbitrary: flag d)
  case (Cons x xs)
  show ?case
  proof (cases "\<not> o_IsAncestorDeleted x \<and> authorizedToDelete user x")
    case True
    then obtain d1 where d1: "del (x\<lparr>o_ModifiedBy := who\<rparr>) d = Some (None, d1)"
        "children_loop del user who xs True d1 = Some ((None, flag'), d')"
      using Cons.prems(1) by (auto split: option.splits)
    have one: "only (\<lambda>x y. True) (da_db d) (da_db d1)" "none_left already s (da_db d) (da_db d1)" "gone (da_db d1) (o_ID x)"
      using assms(2) d1(1) Cons.prems(2,3) unfolding leaves_none_def by fastforce+
    have rest: "only (\<lambda>x y. True) (da_db d1) (da_db d')" "none_left already s (da_db d1) (da_db d')"
        "\<forall>x \<in> set xs. \<not> o_IsAncestorDeleted x \<and> authorizedToDelete user x \<longrightarrow> gone (da_db d') (o_ID x)"
        "(\<forall>x \<in> set xs. \<not> o_IsAncestorDeleted x \<and> authorizedToDelete user x) \<longrightarrow> flag'"
      using Cons.IH [OF d1(2)] only_ok [OF one(1) Cons.prems(2)] only_readable [OF one(1) Cons.prems(3)] by simp_all
    have "gone (da_db d') (o_ID x)"
      by (rule gone_later [OF one(3) rest(1)])
    then show ?thesis
      using only_trans [OF one(1) rest(1)] none_left_trans [OF one(2) rest(2) one(1) rest(1)] rest(3,4) by auto
  next
    case False
    then have l: "children_loop del user who xs False d = Some ((None, flag'), d')"
      using Cons.prems(1) by auto
    then show ?thesis
      using Cons.IH [OF l Cons.prems(2,3)] False by auto
  qed
qed simp

lemma page_emptied:
  assumes g: "getChildObjectsInTransaction env 1 100 i True False dao = ((rs, e), d1)" and env: "env_ok env"
    and l: "children_loop del user who (rs_Objects rs) flag d1 = Some ((None, flag'), d2)"
    and del: "leaves_none (u_Snippets user) del" and good: "ok (da_db dao)" and read: "readable (da_db dao)"
    and few: "length (child_rows (da_db dao) i) \<le> 100" and x: "x \<in> set (child_rows (da_db d2) i)"
  shows "\<not> removable (da_db d2) (u_Snippets user) x"
proof
  assume r: "removable (da_db d2) (u_Snippets user) x"
  have db: "da_db d1 = da_db dao"
    by (rule getChildObjects_db [OF g])
  let ?rows = "child_rows (da_db dao) i"
  have run: "only (\<lambda>x y. True) (da_db dao) (da_db d2)"
      "\<forall>x \<in> set (rs_Objects rs). \<not> o_IsAncestorDeleted x \<and> authorizedToDelete user x \<longrightarrow> gone (da_db d2) (o_ID x)"
    using children_loop_left [OF l del] good read db by simp_all
  have "page_rows 1 100 (de_recent env ?rows) = de_recent env ?rows"
    using few env_ok_sets(2) [OF env] by (simp add: first_page_all)
  then have rel: "list_all2 (page_child (da_db dao) user) (de_recent env ?rows) (rs_Objects rs)"
    using page_children [OF g good_unique [OF good] read env] by simp
  have "x \<in> set (de_recent env ?rows)"
    using only_child [OF run(1) x] env_ok_sets(1) [OF env] by simp
  then obtain y where y: "y \<in> set (rs_Objects rs)" "page_child (da_db dao) user x y"
    using list_all2_mem1 [OF rel] by blast
  have "removable (da_db dao) (u_Snippets user) x"
    using r only_removable [OF run(1)] by simp
  then have "gone (da_db d2) (o_ID x)"
    using y run(2) unfolding page_child_def by metis
  then show False
    using gone_no_child [OF _ only_ok [OF run(1) good] x] by blast
qed

lemma pages_loop_left:
  assumes "pages_loop m del env user who i pn flag dao = Some (None, dao')" and env: "env_ok env"
    and del: "leaves_none (u_Snippets user) del" and "ok (da_db dao)" and "readable (da_db dao)"
  shows "only (\<lambda>x y. True) (da_db dao) (da_db dao') \<and> none_left already (u_Snippets user) (da_db dao) (da_db dao') \<and>
    (pn = 1 \<and> flag \<longrightarrow> emptied (u_Snippets user) i (da_db dao) (da_db dao'))"
  using assms(1,4,5)
proof (induction m arbitrary: pn flag dao)
  case (Suc m)
  let ?s = "u_Snippets user"
  obtain rs err d1 where g: "getChildObjectsInTransaction env pn 100 i True False dao = ((rs, err), d1)"
    by (metis surj_pair)
  then have d1: "da_db d1 = da_db dao"
    by (rule getChildObjects_db)
  obtain flag' d2 where l: "children_loop del user who (rs_Objects rs) flag d1 = Some ((None, flag'), d2)"
      and rest: "if rs_PageCount rs > pn \<and> flag
        then pages_loop m del env user who i (if \<not> flag' then pn + 1 else pn) flag' d2 = Some (None, dao') else dao' = d2"
    using Suc.prems(1) g by (auto simp: Let_def split: option.splits if_splits)
  note run = children_loop_left [OF l del, unfolded d1, OF Suc.prems(2,3)]
  have o2: "only (\<lambda>x y. True) (da_db dao) (da_db d2)"
    using run by blast
  have tail: "only (\<lambda>x y. True) (da_db d2) (da_db dao') \<and> none_left already ?s (da_db d2) (da_db dao') \<and>
      (rs_PageCount rs > pn \<and> flag \<and> flag' \<and> pn = 1 \<longrightarrow> emptied ?s i (da_db d2) (da_db dao'))"
  proof (cases "rs_PageCount rs > pn \<and> flag")
    case True
    then have r: "pages_loop m del env user who i (if \<not> flag' then pn + 1 else pn) flag' d2 = Some (None, dao')"
      using rest by simp
    show ?thesis
      using Suc.IH [OF r only_ok [OF o2 Suc.prems(2)] only_readable [OF o2 Suc.prems(3)]] by auto
  next
    case False
    then show ?thesis
      using rest only_ok [OF o2 Suc.prems(2)] by (auto simp: if_not_P)
  qed
  have "emptied ?s i (da_db dao) (da_db dao')" if first: "pn = 1 \<and> flag"
  proof (cases "length (child_rows (da_db dao) i) \<le> 100")
    case True
    have "emptied ?s i (da_db dao) (da_db d2)"
      unfolding emptied_def
      using page_emptied [OF g [unfolded conjunct1 [OF first]] env l del Suc.prems(2,3) True] by blast
    then show ?thesis
      using tail emptied_later by blast
  next
    case False
    show ?thesis
    proof (cases "length (child_rows (da_db dao) i) < 2 ^ 32 \<and> (\<forall>x \<in> set (child_rows (da_db dao) i). removable (da_db dao) ?s x)")
      case True
      then have more: "rs_PageCount rs > pn"
        using one_page [OF g] False first by fastforce
      have "\<forall>x \<in> set (rs_Objects rs). \<not> o_IsAncestorDeleted x \<and> authorizedToDelete user x"
      proof
        fix y assume "y \<in> set (rs_Objects rs)"
        then obtain x where x: "x \<in> set (page_rows pn 100 (de_recent env (child_rows (da_db dao) i)))" "page_child (da_db dao) user x y"
          using list_all2_mem2 [OF page_children [OF g good_unique [OF Suc.prems(2)] Suc.prems(3) env]] by blast
        then have "x \<in> set (child_rows (da_db dao) i)"
          using env_ok_sets(1) [OF env] by (auto simp: page_rows_def dest!: in_set_takeD in_set_dropD)
        then show "\<not> o_IsAncestorDeleted y \<and> authorizedToDelete user y"
          using x(2) True by (simp add: page_child_def)
      qed
      then have "flag'"
        using run first by blast
      then have "emptied ?s i (da_db d2) (da_db dao')"
        using tail more first by blast
      then show ?thesis
        by (rule emptied_sooner [OF _ o2])
    next
      case few: False
      then show ?thesis
        using False by (auto simp: emptied_def)
    qed
  qed
  then show ?case
    using run tail only_trans [OF o2] none_left_trans [OF _ _ o2] by blast
qed simp

lemma tree_left:
  assumes "tree_op verb already mark n env user obj explicit dao = Some (None, dao')" and "env_ok env"
    and "ok (da_db dao)" and "readable (da_db dao)"
  shows "only (\<lambda>x y. True) (da_db dao) (da_db dao') \<and>
    none_left already (snippets_used env user explicit) (da_db dao) (da_db dao') \<and> gone (da_db dao') (o_ID obj)"
  using assms(1,3,4)
proof (induction n arbitrary: user obj explicit dao dao')
  case (Suc n)
  note sc = scope [OF Suc.prems(1) assms(2) Suc.prems(2)]
  obtain dbo e d1 where g: "getObjectInTransaction env (o_ID obj) False False dao = ((dbo, e), d1)"
    by (metis surj_pair)
  have d1: "da_db d1 = da_db dao"
    by (rule getObject_dbD [OF g])
  let ?s = "snippets_used env user explicit"
  let ?u = "user\<lparr>u_Snippets := ?s\<rparr>"
  have "none_left already ?s (da_db dao) (da_db dao')"
  proof (cases "da_db dao' = da_db dao")
    case True
    then show ?thesis
      using Suc.prems(2) by simp
  next
    case False
    obtain db1 where e: "e = None" and live: "\<not> already dbo"
      and up: "update_object env (o_ID dbo) (mark env (o_ModifiedBy obj) explicit) (da_db dao) = Inr db1"
      and run: "pages_loop n (\<lambda>x. tree_op verb already mark n env ?u x False) env ?u (o_ModifiedBy obj) (o_ID dbo)
        1 True (d1\<lparr>da_db := db1\<rparr>) = Some (None, dao')"
      using Suc.prems(1) False g d1
      by (cases "getUserSnippets env user")
        (auto simp: Let_def snippets_used_def split: if_splits option.splits sum.splits)
    obtain row nm ps qs where row: "object_row (da_db dao) (o_ID obj) = Some row" "o_ID dbo = o_ID obj"
        "dbo = row\<lparr>o_TypeName := nm, o_Permissions := ps, o_Properties := qs\<rparr>"
      using getObject_row [OF g [unfolded e]] by metis
    have o1: "only (\<lambda>x y. o_ID x = o_ID obj \<and> o_IsAncestorDeleted y = (\<not> explicit)) (da_db dao) db1"
      using update_only [OF up _ _ Suc.prems(2), of row] row live by (simp add: reads_row)
    have del: "leaves_none (u_Snippets ?u) (\<lambda>x. tree_op verb already mark n env ?u x False)"
      unfolding leaves_none_def using Suc.IH [of ?u _ False] by (fastforce simp: snippets_used_def)
    have left: "only (\<lambda>x y. True) db1 (da_db dao')" "none_left already ?s db1 (da_db dao')" "emptied ?s (o_ID obj) db1 (da_db dao')"
      using pages_loop_left [OF run assms(2) del] only_ok [OF o1 Suc.prems(2)] only_readable [OF o1 Suc.prems(3)] row(2) by simp_all
    show ?thesis
      unfolding none_left_def
    proof (intro ballI impI)
      fix x y assume x: "x \<in> set (db_object (da_db dao))" and y: "y \<in> set (db_object (da_db dao'))"
        and i: "o_ID y = o_ID x \<and> \<not> already x \<and> already y"
      show "emptied ?s (o_ID x) (da_db dao) (da_db dao')"
      proof (cases "o_ID x = o_ID obj")
        case True
        then show ?thesis
          using emptied_sooner [OF left(3) o1] by simp
      next
        case False
        then have "x \<in> set (db_object db1)"
          using up row(2) x by (auto simp: update_object_def Let_def row(1) intro!: rev_image_eqI split: if_splits)
        then show ?thesis
          using left(2) y i emptied_sooner [OF _ o1] unfolding none_left_def by blast
      qed
    qed
  qed
  then show ?case
    using sc only_any by blast
qed simp

end

end
