(* ===== verification/Dao_Delete.thy ===== *)
theory Dao_Delete
  imports Dao_Emptied
begin

text \<open>
  Deleting an object with its descendants (\<open>dao.DeleteObject.go\<close>) and expunging it
  (\<open>dao.ExpungeObject.go\<close>), as instances of the recursion of \<open>Dao_Tree\<close>.
\<close>

subsection \<open>Deleting\<close>

definition mark_deleted :: "db_env \<Rightarrow> string \<Rightarrow> bool \<Rightarrow> ODObject \<Rightarrow> ODObject" where
  "mark_deleted env who explicit x = x\<lparr>o_ModifiedBy := who, o_IsDeleted := True, o_DeletedDate := Some (de_now env),
     o_DeletedBy := \<lparr>ns_String = who, ns_Valid = True\<rparr>, o_IsAncestorDeleted := \<not> explicit\<rparr>"

fun deleteObjectInTransaction :: "nat \<Rightarrow> db_env \<Rightarrow> ODUser \<Rightarrow> ODObject \<Rightarrow> bool \<Rightarrow> DataAccessLayer
    \<Rightarrow> (string option \<times> DataAccessLayer) option" where
  "deleteObjectInTransaction 0 env user obj explicit dao = None"
| "deleteObjectInTransaction (Suc n) env user obj explicit dao =
     (if o_ID obj = None then Some (Some ''Object ID was not specified for object being deleted'', dao)
      else if o_ChangeToken obj = '''' then Some (Some ''Object ChangeToken was not specified for object being deleted'', dao)
      else (case getObjectInTransaction env (o_ID obj) False False dao of
          ((_, Some e), dao1) \<Rightarrow> Some (Some e, dao1)
        | ((dbObject, None), dao1) \<Rightarrow>
            (if o_ChangeToken obj \<noteq> o_ChangeToken dbObject
             then Some (Some (''Object ChangeToken does not match expected value '' @ o_ChangeToken dbObject), dao1)
             else if o_IsDeleted dbObject then Some (None, dao1)
             else (case (if explicit then map_sum (\<lambda>e. e) Some (getUserSnippets env user) else Inr (u_Snippets user)) of
                 Inl e \<Rightarrow> Some (Some e, dao1)
               | Inr snippets \<Rightarrow>
                   (let user1 = user\<lparr>u_Snippets := snippets\<rparr> in
                    case update_object env (o_ID dbObject) (mark_deleted env (o_ModifiedBy obj) explicit) (da_db dao1) of
                      Inl e \<Rightarrow> Some (Some e, dao1)
                    | Inr db1 \<Rightarrow> pages_loop n (\<lambda>x. deleteObjectInTransaction n env user1 x False) env user1
                        (o_ModifiedBy obj) (o_ID dbObject) 1 True (dao1\<lparr>da_db := db1\<rparr>))))))"

definition DeleteObject :: "nat \<Rightarrow> db_env \<Rightarrow> ODUser \<Rightarrow> ODObject \<Rightarrow> bool \<Rightarrow> DataAccessLayer
    \<Rightarrow> (string option \<times> DataAccessLayer) option" where
  "DeleteObject n env user obj explicit dao = map_option (\<lambda>(err, dao1). (err, rollback err dao dao1))
     (deleteObjectInTransaction n env user obj explicit dao)"

subsection \<open>Expunging\<close>

definition mark_expunged :: "db_env \<Rightarrow> string \<Rightarrow> bool \<Rightarrow> ODObject \<Rightarrow> ODObject" where
  "mark_expunged env who explicit x =
     (let x1 = x\<lparr>o_ModifiedBy := who\<rparr>;
          x2 = (if \<not> o_IsDeleted x1
            then x1\<lparr>o_IsDeleted := True, o_DeletedDate := Some (de_now env), o_DeletedBy := \<lparr>ns_String = who, ns_Valid = True\<rparr>\<rparr>
            else x1)
      in x2\<lparr>o_IsAncestorDeleted := \<not> explicit, o_IsExpunged := True, o_ExpungedDate := Some (de_now env),
            o_ExpungedBy := \<lparr>ns_String = who, ns_Valid = True\<rparr>\<rparr>)"

fun expungeObjectInTransaction :: "nat \<Rightarrow> db_env \<Rightarrow> ODUser \<Rightarrow> ODObject \<Rightarrow> bool \<Rightarrow> DataAccessLayer
    \<Rightarrow> (string option \<times> DataAccessLayer) option" where
  "expungeObjectInTransaction 0 env user obj explicit dao = None"
| "expungeObjectInTransaction (Suc n) env user obj explicit dao =
     (if o_ID obj = None then Some (Some ''Object ID was not specified for object being expunged'', dao)
      else if o_ChangeToken obj = '''' then Some (Some ''Object ChangeToken was not specified for object being expunged'', dao)
      else (case getObjectInTransaction env (o_ID obj) False False dao of
          ((_, Some e), dao1) \<Rightarrow> Some (Some e, dao1)
        | ((dbObject, None), dao1) \<Rightarrow>
            (if o_ChangeToken obj \<noteq> o_ChangeToken dbObject
             then Some (Some (''Object ChangeToken does not match expected value '' @ o_ChangeToken dbObject), dao1)
             else if o_IsExpunged dbObject then Some (None, dao1)
             else (case (if explicit then map_sum (\<lambda>e. e) Some (getUserSnippets env user) else Inr (u_Snippets user)) of
                 Inl e \<Rightarrow> Some (Some e, dao1)
               | Inr snippets \<Rightarrow>
                   (let user1 = user\<lparr>u_Snippets := snippets\<rparr> in
                    case update_object env (o_ID dbObject) (mark_expunged env (o_ModifiedBy obj) explicit) (da_db dao1) of
                      Inl e \<Rightarrow> Some (Some e, dao1)
                    | Inr db1 \<Rightarrow> pages_loop n (\<lambda>x. expungeObjectInTransaction n env user1 x False) env user1
                        (o_ModifiedBy obj) (o_ID dbObject) 1 True (dao1\<lparr>da_db := db1\<rparr>))))))"

definition ExpungeObject :: "nat \<Rightarrow> db_env \<Rightarrow> ODUser \<Rightarrow> ODObject \<Rightarrow> bool \<Rightarrow> DataAccessLayer
    \<Rightarrow> (string option \<times> DataAccessLayer) option" where
  "ExpungeObject n env user obj explicit dao = map_option (\<lambda>(err, dao1). (err, rollback err dao dao1))
     (expungeObjectInTransaction n env user (obj\<lparr>o_ModifiedBy := u_DistinguishedName user\<rparr>) explicit dao)"

subsection \<open>Both are the recursion over the tree\<close>

text \<open>What a deletion keeps, and what an expunge keeps of a row that was deleted before.\<close>

definition delete_effect :: "ODObject \<Rightarrow> ODObject \<Rightarrow> bool" where
  "delete_effect x y \<longleftrightarrow> o_IsExpunged y = o_IsExpunged x"

definition expunge_effect :: "ODObject \<Rightarrow> ODObject \<Rightarrow> bool" where
  "expunge_effect x y \<longleftrightarrow> (o_IsDeleted x \<longrightarrow> o_DeletedDate y = o_DeletedDate x \<and> o_DeletedBy y = o_DeletedBy x)"

lemma delete_tree_op:
  "deleteObjectInTransaction n env user obj ex dao = tree_op ''deleted'' o_IsDeleted mark_deleted n env user obj ex dao"
proof -
  have "deleteObjectInTransaction n = tree_op ''deleted'' o_IsDeleted mark_deleted n"
  proof (induction n)
    case (Suc n)
    show ?case
      by (intro ext) (unfold deleteObjectInTransaction.simps tree_op.simps Suc, simp)
  qed (simp add: fun_eq_iff)
  then show ?thesis
    by simp
qed

lemma expunge_tree_op:
  "expungeObjectInTransaction n env user obj ex dao = tree_op ''expunged'' o_IsExpunged mark_expunged n env user obj ex dao"
proof -
  have "expungeObjectInTransaction n = tree_op ''expunged'' o_IsExpunged mark_expunged n"
  proof (induction n)
    case (Suc n)
    show ?case
      by (intro ext) (unfold expungeObjectInTransaction.simps tree_op.simps Suc, simp)
  qed (simp add: fun_eq_iff)
  then show ?thesis
    by simp
qed

interpretation deleting: marking "''deleted''" o_IsDeleted mark_deleted delete_effect
  by unfold_locales
    (auto simp: marked_row_def same_content_def tu_object_row_def mark_deleted_def delete_effect_def Let_def)

interpretation expunging: marking "''expunged''" o_IsExpunged mark_expunged expunge_effect
  by unfold_locales
    (auto simp: marked_row_def same_content_def tu_object_row_def mark_expunged_def expunge_effect_def Let_def)

lemma good_deleted [simp]: "good o_IsDeleted db = unique_ids db"
  by (simp add: good_def list_all_iff)

definition sample_user :: ODUser where
  "sample_user = \<lparr>u_ID = Some [5], u_DistinguishedName = ''cn=a'', u_Snippets = None\<rparr>"

lemma sample_delete:
  "map_option (\<lambda>(e, d). (e, map o_IsDeleted (db_object (da_db d)), map o_IsAncestorDeleted (db_object (da_db d))))
     (DeleteObject 9 sample_env sample_user (sample_row 1 None) True sample_dao)
   = Some (None, [True, True, False], [False, True, False])"
  by code_simp

subsection \<open>What they change\<close>

text \<open>A deletion that fails changes no table. One that succeeds leaves the object deleted, and deletes
  besides only live objects below it that the user has a permission to delete, marking them as deleted with
  an ancestor; the content of every row, every other row, and every permission, are as before. Where the rows can be read, no live
  child that the user may delete is left below a row it deleted, but for rows with more than a page of children of which
  some may not be deleted.\<close>

theorem delete_scope:
  assumes "DeleteObject n env user obj explicit dao = Some (err, dao')" and "env_ok env" and "unique_ids (da_db dao)"
  shows "if err = None
    then only_marks o_IsDeleted delete_effect (scope_row (da_db dao) (snippets_used env user explicit) explicit (o_ID obj))
        (da_db dao) (da_db dao') \<and>
      (\<exists>x \<in> set (db_object (da_db dao')). o_ID x = o_ID obj \<and> o_IsDeleted x) \<and>
      (readable (da_db dao) \<longrightarrow> none_left o_IsDeleted (snippets_used env user explicit) (da_db dao) (da_db dao'))
    else da_db dao' = da_db dao"
proof -
  obtain d where d: "deleteObjectInTransaction n env user obj explicit dao = Some (err, d)" "dao' = rollback err dao d"
    using assms(1) by (auto simp: DeleteObject_def)
  then show ?thesis
    using deleting.scope [OF d(1) [unfolded delete_tree_op]] deleting.tree_left [of n env user obj explicit dao d] assms(2,3)
    by (auto simp: rollback_def delete_tree_op [symmetric])
qed

lemma delete_scope_witness:
  "only_marks o_IsDeleted delete_effect (scope_row sample_db (snippets_used sample_env sample_user True) True (Some [1])) sample_db
    (da_db (snd (the (DeleteObject 9 sample_env sample_user (sample_row 1 None) True sample_dao))))"
proof -
  obtain e d where r: "DeleteObject 9 sample_env sample_user (sample_row 1 None) True sample_dao = Some (e, d)" and "e = None"
    using sample_delete by auto
  have "da_db sample_dao = sample_db" "o_ID (sample_row 1 None) = Some [1]"
    by (simp_all add: sample_dao_def sample_row_def)
  moreover have "unique_ids (da_db sample_dao)"
    by code_simp
  ultimately show ?thesis
    using delete_scope [OF r sample_env_ok] r \<open>e = None\<close> by simp
qed

text \<open>C23: a deletion always ends: a depth of recursion, and a number of pages read for one object, of the
  number of live objects plus three is never reached.\<close>

theorem delete_returns:
  assumes "env_ok env" and "unique_ids (da_db dao)" and "unmarked o_IsDeleted (da_db dao) + 3 \<le> n"
  shows "\<exists>err dao'. DeleteObject n env user obj explicit dao = Some (err, dao')"
  using deleting.returns [OF assms(1) _ assms(3), of user obj explicit] assms(2)
  by (auto simp: DeleteObject_def delete_tree_op)

lemma delete_returns_witness:
  "\<exists>err dao'. DeleteObject 6 sample_env sample_user (sample_row 1 None) True sample_dao = Some (err, dao')"
proof -
  have "unique_ids (da_db sample_dao)" "unmarked o_IsDeleted (da_db sample_dao) + 3 \<le> 6"
    by code_simp+
  then show ?thesis
    by (rule delete_returns [OF sample_env_ok])
qed

text \<open>Expunging marks only the object and what lies below it and the user may delete; what was in the
  trash keeps the date of its deletion, and a failure changes no table.\<close>

theorem expunge_scope:
  assumes "ExpungeObject n env user obj explicit dao = Some (err, dao')" and "env_ok env"
    and "good o_IsExpunged (da_db dao)"
  shows "if err = None
    then only_marks o_IsExpunged expunge_effect (scope_row (da_db dao) (snippets_used env user explicit) explicit (o_ID obj))
        (da_db dao) (da_db dao') \<and>
      (\<exists>x \<in> set (db_object (da_db dao')). o_ID x = o_ID obj \<and> o_IsExpunged x) \<and> good o_IsExpunged (da_db dao') \<and>
      (readable (da_db dao) \<longrightarrow> none_left o_IsExpunged (snippets_used env user explicit) (da_db dao) (da_db dao'))
    else da_db dao' = da_db dao"
proof -
  obtain d where d: "expungeObjectInTransaction n env user (obj\<lparr>o_ModifiedBy := u_DistinguishedName user\<rparr>) explicit dao
      = Some (err, d)" "dao' = rollback err dao d"
    using assms(1) by (auto simp: ExpungeObject_def)
  then show ?thesis
    using expunging.scope [OF d(1) [unfolded expunge_tree_op] assms(2,3)] expunging.only_ok assms(2,3)
      expunging.tree_left [of n env user "obj\<lparr>o_ModifiedBy := u_DistinguishedName user\<rparr>" explicit dao d]
    by (auto simp: rollback_def expunge_tree_op [symmetric])
qed

lemma expunge_scope_witness:
  "only_marks o_IsExpunged expunge_effect (scope_row sample_db (snippets_used sample_env sample_user True) True (Some [1])) sample_db
    (da_db (snd (the (ExpungeObject 9 sample_env sample_user (sample_row 1 None) True sample_dao))))"
proof -
  have "fst (the (ExpungeObject 9 sample_env sample_user (sample_row 1 None) True sample_dao)) = None"
       "ExpungeObject 9 sample_env sample_user (sample_row 1 None) True sample_dao \<noteq> None"
    by code_simp+
  then obtain d where r: "ExpungeObject 9 sample_env sample_user (sample_row 1 None) True sample_dao = Some (None, d)"
    by auto
  have "da_db sample_dao = sample_db" "o_ID (sample_row 1 None) = Some [1]"
    by (simp_all add: sample_dao_def sample_row_def)
  moreover have "good o_IsExpunged (da_db sample_dao)"
    by code_simp
  ultimately show ?thesis
    using expunge_scope [OF r sample_env_ok] r by simp
qed

lemma expunge_returns:
  assumes "env_ok env" and "good o_IsExpunged (da_db dao)" and "unmarked o_IsExpunged (da_db dao) + 3 \<le> n"
  shows "\<exists>err dao'. ExpungeObject n env user obj explicit dao = Some (err, dao')"
  using expunging.returns [OF assms, of user "obj\<lparr>o_ModifiedBy := u_DistinguishedName user\<rparr>" explicit]
  by (auto simp: ExpungeObject_def expunge_tree_op)

end
