(* ===== verification/Dao_Walk.thy ===== *)
theory Dao_Walk
  imports Dao_Write Dao_Delete
begin

text \<open>
  Walking from an object to the root: \<open>dao.Logic.go\<close> (whether a new parent lies below the object) and
  \<open>dao.GetParents.go\<close> (the chain of parents of an object). Neither walk has a bound: the result is \<open>None\<close> when it
  never ends. The rows of a drive form a \<open>forest\<close> when identifiers are unique, every parent is a row, every type is
  known and no object lies above itself; on a forest both walks end and are exact.
\<close>

subsection \<open>The walks\<close>

text \<open>Neither the permissions nor the properties are loaded, so nothing is cached.\<close>

partial_function (option) isParentIDADescendentInTransaction ::
  "db_env \<Rightarrow> DataAccessLayer \<Rightarrow> slice \<Rightarrow> slice \<Rightarrow> (bool \<times> string option) option" where
  "isParentIDADescendentInTransaction env dao i parentID =
     (if parentID = None then Some (False, None)
      else (case fst (getObjectInTransaction env parentID False False dao) of
          (_, Some e) \<Rightarrow> Some (True, Some e)
        | (dbObject, None) \<Rightarrow>
            (if slice_bytes (o_ParentID dbObject) = slice_bytes i then Some (True, None)
             else isParentIDADescendentInTransaction env dao i (o_ParentID dbObject))))"

declare isParentIDADescendentInTransaction.simps [code]

definition IsParentIDADescendent :: "db_env \<Rightarrow> DataAccessLayer \<Rightarrow> slice \<Rightarrow> slice \<Rightarrow> (bool \<times> string option) option" where
  "IsParentIDADescendent env dao i parentID = isParentIDADescendentInTransaction env dao i parentID"

partial_function (option) parents_from ::
  "db_env \<Rightarrow> slice \<Rightarrow> ODObject list \<Rightarrow> DataAccessLayer \<Rightarrow> ((ODObject list \<times> string option) \<times> DataAccessLayer) option" where
  "parents_from env i parents dao =
     (case getObjectInTransaction env i True False dao of
        ((_, Some e), dao1) \<Rightarrow> Some (([], Some e), dao1)
      | ((parent, None), dao1) \<Rightarrow>
          (if slice_len (o_ParentID parent) = 0 then Some ((parent # parents, None), dao1)
           else parents_from env (o_ParentID parent) (parent # parents) dao1))"

declare parents_from.simps [code]

definition getParentsInTransaction ::
  "db_env \<Rightarrow> ODObject \<Rightarrow> DataAccessLayer \<Rightarrow> ((ODObject list \<times> string option) \<times> DataAccessLayer) option" where
  "getParentsInTransaction env child dao = parents_from env (o_ParentID child) [] dao"

text \<open>The error is not given back: the caller sees an object without parents.\<close>

definition GetParents :: "db_env \<Rightarrow> ODObject \<Rightarrow> DataAccessLayer \<Rightarrow> (ODObject list \<times> DataAccessLayer) option" where
  "GetParents env child dao =
     (if slice_len (o_ParentID child) = 0 then Some ([], dao)
      else map_option (\<lambda>((parents, e), dao1). (parents, rollback e dao dao1)) (getParentsInTransaction env child dao))"

subsection \<open>Forests\<close>

definition row_ok :: "Db \<Rightarrow> ODObject \<Rightarrow> bool" where
  "row_ok db x \<longleftrightarrow> slice_len (o_ID x) \<noteq> 0 \<and> type_row db (o_TypeID x) \<noteq> None \<and>
     (o_ParentID x \<noteq> None \<longrightarrow> slice_len (o_ParentID x) \<noteq> 0 \<and> o_ParentID x \<in> o_ID ` set (db_object db))"

definition forest :: "Db \<Rightarrow> bool" where
  "forest db \<longleftrightarrow> unique_ids db \<and> (\<forall>x \<in> set (db_object db). row_ok db x) \<and> acyclic (parent_rel db)"

text \<open>What lies above an object.\<close>

definition above :: "Db \<Rightarrow> slice \<Rightarrow> slice set" where
  "above db i = {j. (i, j) \<in> (parent_rel db)\<^sup>+}"

lemma finite_parent_rel: "finite (parent_rel db)"
proof -
  have "parent_rel db \<subseteq> (\<lambda>x. (o_ID x, o_ParentID x)) ` set (db_object db)"
    by (auto simp: parent_rel_def)
  then show ?thesis
    using finite_surj by auto
qed

lemma forest_wf: "forest db \<Longrightarrow> wf ((parent_rel db)\<inverse>)"
  by (simp add: forest_def finite_acyclic_wf_converse finite_parent_rel)

lemma parent_rel_row:
  assumes "unique_ids db" and "x \<in> set (db_object db)"
  shows "(o_ID x, j) \<in> parent_rel db \<longleftrightarrow> j = o_ParentID x \<and> slice_len j \<noteq> 0"
proof
  assume "(o_ID x, j) \<in> parent_rel db"
  then obtain y where y: "y \<in> set (db_object db)" "o_ID x = o_ID y" "j = o_ParentID y" "slice_len (o_ParentID y) \<noteq> 0"
    by (auto simp: parent_rel_def)
  then have "y = x"
    using assms by (simp add: unique_ids_def distinct_map inj_on_def)
  then show "j = o_ParentID x \<and> slice_len j \<noteq> 0"
    using y(3,4) by simp
next
  assume "j = o_ParentID x \<and> slice_len j \<noteq> 0"
  then show "(o_ID x, j) \<in> parent_rel db"
    using assms(2) by (auto simp: parent_rel_def)
qed

lemma above_row:
  assumes "unique_ids db" and "x \<in> set (db_object db)"
  shows "above db (o_ID x) = (if slice_len (o_ParentID x) = 0 then {} else insert (o_ParentID x) (above db (o_ParentID x)))"
proof -
  have "(o_ID x, j) \<in> (parent_rel db)\<^sup>+ \<longleftrightarrow> slice_len (o_ParentID x) \<noteq> 0 \<and> (j = o_ParentID x \<or> (o_ParentID x, j) \<in> (parent_rel db)\<^sup>+)" for j
  proof
    assume "(o_ID x, j) \<in> (parent_rel db)\<^sup>+"
    then obtain k where "(o_ID x, k) \<in> parent_rel db" "(k, j) \<in> (parent_rel db)\<^sup>*"
      by (blast dest: tranclD)
    then show "slice_len (o_ParentID x) \<noteq> 0 \<and> (j = o_ParentID x \<or> (o_ParentID x, j) \<in> (parent_rel db)\<^sup>+)"
      using parent_rel_row [OF assms, of k] by (auto dest: rtranclD)
  next
    assume r: "slice_len (o_ParentID x) \<noteq> 0 \<and> (j = o_ParentID x \<or> (o_ParentID x, j) \<in> (parent_rel db)\<^sup>+)"
    then have "(o_ID x, o_ParentID x) \<in> parent_rel db"
      using parent_rel_row [OF assms, of "o_ParentID x"] by simp
    then show "(o_ID x, j) \<in> (parent_rel db)\<^sup>+"
      using r by (blast intro: trancl_into_trancl2)
  qed
  then show ?thesis
    by (auto simp: above_def)
qed

lemma get_row:
  assumes "forest db" and "x \<in> set (db_object db)" and "da_db dao = db"
  shows "\<exists>y. getObjectInTransaction env (o_ID x) False b dao = ((y, None), dao) \<and> o_ParentID y = o_ParentID x \<and> o_ID y = o_ID x"
proof -
  obtain n d where t: "type_row db (o_TypeID x) = Some (n, d)" and i: "slice_len (o_ID x) \<noteq> 0"
    using assms(1,2) by (auto simp: forest_def row_ok_def)
  obtain c where c: "o_ID x = Some c"
    using i by (cases "o_ID x") auto
  obtain y where "object_row db (Some c) = Some y"
    by (rule row_exists [OF assms(2) c])
  moreover have "unique_ids db"
    using assms(1) by (simp add: forest_def)
  ultimately have "object_row db (o_ID x) = Some x"
    using unique_row [of db x "Some c" y] assms(2) c by metis
  then show ?thesis
    using t i assms(3) by (simp add: getObjectInTransaction_def Let_def)
qed

lemma parent_rel_list:
  "parent_rel db = set (map (\<lambda>x. (o_ID x, o_ParentID x)) (filter (\<lambda>x. slice_len (o_ParentID x) \<noteq> 0) (db_object db)))"
  by (auto simp: parent_rel_def)

lemma sample_forest: "forest sample_db"
proof -
  have "map (\<lambda>x. (o_ID x, o_ParentID x)) (filter (\<lambda>x. slice_len (o_ParentID x) \<noteq> 0) (db_object sample_db))
      = [(Some [2], Some [1]), (Some [3], Some [1])]"
    by code_simp
  then have rel: "parent_rel sample_db = {(Some [2], Some [1]), (Some [3], Some [1])}"
    by (simp add: parent_rel_list)
  have "acyclic (parent_rel sample_db)"
    unfolding rel by (simp add: acyclic_insert rtrancl_insert) (simp add: acyclic_def)
  moreover have "unique_ids sample_db"
    by code_simp
  moreover have "\<forall>x \<in> set (db_object sample_db). row_ok sample_db x"
    by (simp add: sample_db_def sample_row_def row_ok_def type_row_def empty_object_def) blast
  ultimately show ?thesis
    by (simp add: forest_def)
qed

lemma walk_exact:
  assumes forest: "forest db" and db: "da_db dao = db" and i: "slice_len i \<noteq> 0"
  shows "x \<in> set (db_object db) \<Longrightarrow>
    isParentIDADescendentInTransaction env dao i (o_ID x) = Some (i \<in> above db (o_ID x), None)"
proof (induction "o_ID x" arbitrary: x rule: wf_induct_rule [OF forest_wf [OF forest]])
  case (1 x)
  obtain y where get: "getObjectInTransaction env (o_ID x) False False dao = ((y, None), dao)" "o_ParentID y = o_ParentID x"
    using get_row [OF forest 1(2) db] by blast
  have ok: "row_ok db x" and u: "unique_ids db"
    using forest 1(2) by (auto simp: forest_def)
  have "o_ID x \<noteq> None"
    using ok by (cases "o_ID x") (simp_all add: row_ok_def)
  then have step: "isParentIDADescendentInTransaction env dao i (o_ID x) =
      (if slice_bytes (o_ParentID x) = slice_bytes i then Some (True, None)
       else isParentIDADescendentInTransaction env dao i (o_ParentID x))"
    using get by (subst isParentIDADescendentInTransaction.simps) auto
  show ?case
  proof (cases "o_ParentID x")
    case None
    then have "slice_bytes (o_ParentID x) \<noteq> slice_bytes i"
      using i by (auto simp: slice_len_bytes)
    moreover have "isParentIDADescendentInTransaction env dao i None = Some (False, None)"
      by (subst isParentIDADescendentInTransaction.simps) simp
    ultimately show ?thesis
      using None above_row [OF u 1(2)] by (simp add: step)
  next
    case (Some b)
    then obtain p where p: "p \<in> set (db_object db)" "o_ID p = o_ParentID x" and len: "slice_len (o_ParentID x) \<noteq> 0"
      using ok by (auto simp: row_ok_def)
    have same: "slice_bytes (o_ParentID x) = slice_bytes i \<longleftrightarrow> i = o_ParentID x"
      using i Some by (cases i) auto
    have "(o_ID p, o_ID x) \<in> (parent_rel db)\<inverse>"
      using parent_rel_row [OF u 1(2)] p(2) len by simp
    then have "isParentIDADescendentInTransaction env dao i (o_ID p) = Some (i \<in> above db (o_ID p), None)"
      using 1(1) p(1) by blast
    then show ?thesis
      using same above_row [OF u 1(2)] len p(2) by (simp add: step)
  qed
qed

text \<open>C20: on a forest the check for circular references ends, without an error, and says exactly whether the
  object lies above the new parent; the root is below nothing.\<close>

theorem descendent_exact:
  assumes "forest (da_db dao)" and "slice_len i \<noteq> 0" and "parentID = None \<or> parentID \<in> o_ID ` set (db_object (da_db dao))"
  shows "IsParentIDADescendent env dao i parentID = Some (parentID \<noteq> None \<and> i \<in> above (da_db dao) parentID, None)"
proof (cases parentID)
  case None
  then show ?thesis
    by (simp add: IsParentIDADescendent_def isParentIDADescendentInTransaction.simps)
next
  case (Some b)
  then obtain x where x: "x \<in> set (db_object (da_db dao))" "parentID = o_ID x"
    using assms(3) by auto
  have "isParentIDADescendentInTransaction env dao i parentID = Some (i \<in> above (da_db dao) parentID, None)"
    using walk_exact [OF assms(1) refl assms(2) x(1)] by (simp only: x(2))
  moreover have "parentID \<noteq> None"
    by (simp add: Some)
  ultimately show ?thesis
    by (simp only: IsParentIDADescendent_def simp_thms)
qed

lemma descendent_exact_witness:
  "IsParentIDADescendent sample_env sample_dao (Some [1]) (Some [2]) = Some (True, None)"
proof -
  have "(Some [2], Some [1]) \<in> parent_rel sample_db"
    by (auto simp: parent_rel_def sample_db_def sample_row_def intro!: exI [of _ "sample_row 2 (Some [1])"])
  then have "Some [1] \<in> above sample_db (Some [2])"
    by (auto simp: above_def)
  moreover have "Some [2] \<in> o_ID ` set (db_object (da_db sample_dao))"
    by (auto simp: sample_dao_def sample_db_def sample_row_def)
  moreover have "da_db sample_dao = sample_db"
    by (simp add: sample_dao_def)
  ultimately show ?thesis
    using descendent_exact [of sample_dao "Some [1]" "Some [2]" sample_env] sample_forest by simp
qed

text \<open>Where the parents run in a circle that does not meet the object, the check never ends.\<close>

definition circle :: "db_env \<Rightarrow> DataAccessLayer \<Rightarrow> slice \<Rightarrow> slice set \<Rightarrow> bool" where
  "circle env dao i S \<longleftrightarrow> None \<notin> S \<and> (\<forall>q \<in> S. \<exists>x. fst (getObjectInTransaction env q False False dao) = (x, None) \<and>
     o_ParentID x \<in> S \<and> slice_bytes (o_ParentID x) \<noteq> slice_bytes i)"

lemma circle_step:
  assumes "circle env dao i S" and "p \<in> S"
  obtains x where "p \<noteq> None" and "fst (getObjectInTransaction env p False False dao) = (x, None)" and "o_ParentID x \<in> S"
    and "slice_bytes (o_ParentID x) \<noteq> slice_bytes i"
  using assms unfolding circle_def by metis

lemma walk_Some:
  assumes "isParentIDADescendentInTransaction env dao i p = Some r"
  shows "circle env dao i S \<longrightarrow> p \<notin> S"
proof (rule isParentIDADescendentInTransaction.raw_induct [OF _ assms])
  fix walk env dao i p r
  assume ih: "\<And>env dao i p r. walk env dao i p = Some r \<Longrightarrow> circle env dao i S \<longrightarrow> p \<notin> S"
    and run: "(if p = None then Some (False, None)
      else (case fst (getObjectInTransaction env p False False dao) of
          (_, Some e) \<Rightarrow> Some (True, Some e)
        | (dbObject, None) \<Rightarrow>
            (if slice_bytes (o_ParentID dbObject) = slice_bytes i then Some (True, None)
             else walk env dao i (o_ParentID dbObject)))) = Some r"
  show "circle env dao i S \<longrightarrow> p \<notin> S"
  proof (intro impI notI)
    assume c: "circle env dao i S" and p: "p \<in> S"
    obtain x where x: "p \<noteq> None" "fst (getObjectInTransaction env p False False dao) = (x, None)" "o_ParentID x \<in> S"
        "slice_bytes (o_ParentID x) \<noteq> slice_bytes i"
      by (rule circle_step [OF c p])
    then have "walk env dao i (o_ParentID x) = Some r"
      using run by (simp only: x(2) prod.case option.case if_False if_not_P [OF x(1)] if_not_P [OF x(4)])
    then show False
      using ih c x(3) by blast
  qed
qed

lemma circle_diverges:
  assumes "circle env dao i S" and "p \<in> S"
  shows "IsParentIDADescendent env dao i p = None"
  using walk_Some [of env dao i p _ S] assms unfolding IsParentIDADescendent_def
  by (cases "isParentIDADescendentInTransaction env dao i p") blast+

subsection \<open>The chain of parents\<close>

text \<open>From an object up to the root, each parent as its row has it.\<close>

fun path_up :: "Db \<Rightarrow> slice \<Rightarrow> ODObject list \<Rightarrow> bool" where
  "path_up db i [] \<longleftrightarrow> slice_len i = 0"
| "path_up db i (p # ps) \<longleftrightarrow> slice_len i \<noteq> 0 \<and>
     (\<exists>row nm perms props. object_row db i = Some row \<and> p = row\<lparr>o_TypeName := nm, o_Permissions := perms, o_Properties := props\<rparr>) \<and>
     path_up db (o_ParentID p) ps"

lemma get_row_loaded:
  assumes "forest db" and "x \<in> set (db_object db)" and "da_db dao = db" and "granted_rows db" and "env_ok env"
  shows "\<exists>y dao1. getObjectInTransaction env (o_ID x) True False dao = ((y, None), dao1)"
proof -
  obtain y where y: "getObjectInTransaction env (o_ID x) False False dao = ((y, None), dao)"
    using get_row [OF assms(1-3)] by blast
  have "set (permission_rows db (o_ID x)) \<subseteq> set (db_permission db)"
    by (auto simp: permission_rows_def)
  then have "p_Grantee ` set (de_by_grantee env (permission_rows db (o_ID x))) \<subseteq> fst ` set (db_grantee (da_db dao))"
    using assms(3,4) env_ok_sets(3) [OF assms(5)] by (auto simp: granted_rows_def)
  then obtain qs dao1 where "load_grantees (de_by_grantee env (permission_rows db (o_ID x))) dao = ((qs, None), dao1)"
    using load_grantees_ok by blast
  then show ?thesis
    using y assms(3) by (auto simp: getObjectInTransaction_def getPermissionsForObjectInTransaction_def Let_def
        split: if_splits option.splits)
qed

lemma parents_from_exact:
  assumes forest: "forest db" and g: "granted_rows db" and env: "env_ok env"
  shows "x \<in> set (db_object db) \<Longrightarrow> da_db dao = db \<Longrightarrow>
    \<exists>ps dao'. parents_from env (o_ID x) acc dao = Some ((ps @ acc, None), dao') \<and> path_up db (o_ID x) (rev ps) \<and> da_db dao' = db"
proof (induction "o_ID x" arbitrary: x acc dao rule: wf_induct_rule [OF forest_wf [OF forest]])
  case (1 x)
  obtain y dao1 where get: "getObjectInTransaction env (o_ID x) True False dao = ((y, None), dao1)"
    using get_row_loaded [OF forest 1(2,3) g env] by blast
  have db1: "da_db dao1 = db"
    using getObject_dbD [OF get] 1(3) by simp
  obtain row nm perms props where row: "object_row db (o_ID x) = Some row"
      "y = row\<lparr>o_TypeName := nm, o_Permissions := perms, o_Properties := props\<rparr>"
    using getObject_row [OF get] 1(3) by metis
  have "row = x"
    using unique_row [of db x "o_ID x" row] forest 1(2) row(1) by (simp add: forest_def)
  then have y: "o_ParentID y = o_ParentID x"
    by (simp add: row(2))
  have ok: "row_ok db x" and u: "unique_ids db"
    using forest 1(2) by (auto simp: forest_def)
  have step: "parents_from env (o_ID x) acc dao = (if slice_len (o_ParentID x) = 0 then Some ((y # acc, None), dao1)
      else parents_from env (o_ParentID x) (y # acc) dao1)"
    by (subst parents_from.simps) (simp add: get y)
  have path: "path_up db (o_ID x) (y # qs) \<longleftrightarrow> path_up db (o_ParentID x) qs" for qs
    using ok row y by (auto simp: row_ok_def)
  show ?case
  proof (cases "slice_len (o_ParentID x) = 0")
    case True
    then show ?thesis
      using step path [of "[]"] db1 by (intro exI [of _ "[y]"] exI [of _ dao1]) simp
  next
    case False
    then obtain p where p: "p \<in> set (db_object db)" "o_ID p = o_ParentID x"
      using ok by (auto simp: row_ok_def)
    have "(o_ID p, o_ID x) \<in> (parent_rel db)\<inverse>"
      using parent_rel_row [OF u 1(2)] p(2) False by simp
    then obtain ps dao' where rest: "parents_from env (o_ID p) (y # acc) dao1 = Some ((ps @ y # acc, None), dao')"
        "path_up db (o_ID p) (rev ps)" "da_db dao' = db"
      using 1(1) p(1) db1 by blast
    then show ?thesis
      using step False p(2) path [of "rev ps"] by (intro exI [of _ "ps @ [y]"] exI [of _ dao']) simp
  qed
qed

text \<open>C21: on a forest whose permissions all have their grantee, \<open>GetParents\<close> ends and returns the parents of the
  object, each as it is stored, from the root down to the immediate parent.\<close>

theorem parents_exact:
  assumes "forest (da_db dao)" and "granted_rows (da_db dao)" and "env_ok env" and "child \<in> set (db_object (da_db dao))"
  shows "\<exists>ps dao'. GetParents env child dao = Some (ps, dao') \<and> path_up (da_db dao) (o_ParentID child) (rev ps) \<and>
    da_db dao' = da_db dao"
proof (cases "slice_len (o_ParentID child) = 0")
  case True
  then show ?thesis
    by (simp add: GetParents_def)
next
  case False
  then obtain p where p: "p \<in> set (db_object (da_db dao))" "o_ID p = o_ParentID child"
    using assms(1,4) by (auto simp: forest_def row_ok_def)
  show ?thesis
    using parents_from_exact [OF assms(1-3) p(1) refl, of "[]"] p(2) False
    by (auto simp: GetParents_def getParentsInTransaction_def rollback_def)
qed

lemma parents_exact_witness:
  "\<exists>ps dao'. GetParents sample_env (sample_row 2 (Some [1])) sample_dao = Some (ps, dao') \<and>
    path_up sample_db (Some [1]) (rev ps) \<and> da_db dao' = sample_db"
proof -
  have db: "da_db sample_dao = sample_db" and parent: "o_ParentID (sample_row 2 (Some [1])) = Some [1]"
    by (simp_all add: sample_dao_def sample_row_def)
  have "granted_rows sample_db" "sample_row 2 (Some [1]) \<in> set (db_object sample_db)"
    by (simp_all add: granted_rows_def sample_db_def sample_grant_def)
  then show ?thesis
    using parents_exact [of sample_dao sample_env "sample_row 2 (Some [1])"] sample_forest sample_env_ok
    unfolding db parent by simp
qed

end
