(* ===== verification/Dao_Trash.thy ===== *)
theory Dao_Trash
  imports Dao_Delete
begin

text \<open>
  Taking an object out of the trash (\<open>dao.UndeleteObject.go\<close>), listing the trash of a user
  (\<open>dao.GetTrashedObjectsByUser.go\<close>) and emptying it (\<open>dao.ExpungeDeletedByUser.go\<close>). Which rows a user sees
  (through the user's ACMs) and owns (directly or through a group) is an argument, \<open>mine\<close>.
\<close>

subsection \<open>Undeleting\<close>

definition anc_children :: "Db \<Rightarrow> slice \<Rightarrow> ODObject list" where
  "anc_children db oid = filter (\<lambda>x. o_IsAncestorDeleted x \<and> \<not> o_IsExpunged x \<and> oid \<noteq> None \<and> o_ParentID x = oid \<and>
     type_row db (o_TypeID x) \<noteq> None) (db_object db)"

text \<open>The update joins the permissions: a row without any, deleted ones counted, is left as it is.\<close>

definition undelete_child :: "db_env \<Rightarrow> slice \<Rightarrow> Db \<Rightarrow> string + Db" where
  "undelete_child env oid db =
     (if list_ex (\<lambda>p. oid \<noteq> None \<and> p_ObjectID p = oid) (db_permission db) \<and>
         (case object_row db oid of Some x \<Rightarrow> \<not> o_IsExpunged x | None \<Rightarrow> False)
      then update_object env oid (\<lambda>x. x\<lparr>o_IsAncestorDeleted := False, o_IsDeleted := False\<rparr>) db
      else Inr db)"

fun undelete_each :: "db_env \<Rightarrow> ODObject list \<Rightarrow> Db \<Rightarrow> string + Db" where
  "undelete_each env [] db = Inr db"
| "undelete_each env (x # xs) db =
     (case undelete_child env (o_ID x) db of Inl e \<Rightarrow> Inl e | Inr db1 \<Rightarrow> undelete_each env xs db1)"

fun each_below :: "(slice \<Rightarrow> Db \<Rightarrow> (string + Db) option) \<Rightarrow> ODObject list \<Rightarrow> Db \<Rightarrow> (string + Db) option" where
  "each_below f [] db = Some (Inr db)"
| "each_below f (x # xs) db =
     (case f (o_ID x) db of
        None \<Rightarrow> None
      | Some (Inl e) \<Rightarrow> Some (Inl e)
      | Some (Inr db1) \<Rightarrow> each_below f xs db1)"

text \<open>First the children, then what is below each; the error of a trigger is never the one that is skipped,
  \<open>ErrNoRows\<close>.\<close>

fun undeleteAncestorChildren :: "nat \<Rightarrow> db_env \<Rightarrow> slice \<Rightarrow> Db \<Rightarrow> (string + Db) option" where
  "undeleteAncestorChildren 0 env oid db = None"
| "undeleteAncestorChildren (Suc n) env oid db =
     (let children = anc_children db oid in
      case undelete_each env children db of
        Inl e \<Rightarrow> Some (Inl e)
      | Inr db1 \<Rightarrow> each_below (undeleteAncestorChildren n env) children db1)"

text \<open>The change token is asked for and not compared; an error of the last read is dropped.\<close>

definition undeleteObjectInTransaction :: "nat \<Rightarrow> db_env \<Rightarrow> ODObject \<Rightarrow> DataAccessLayer
    \<Rightarrow> ((ODObject \<times> string option) \<times> DataAccessLayer) option" where
  "undeleteObjectInTransaction n env obj dao =
     (if o_ID obj = None then Some ((empty_object, Some ''Object ID was not specified for object being deleted''), dao)
      else if o_ChangeToken obj = ''''
      then Some ((empty_object, Some ''Object ChangeToken was not specified for object being deleted''), dao)
      else (case update_object env (o_ID obj) (\<lambda>x. x\<lparr>o_ModifiedBy := o_ModifiedBy obj, o_IsDeleted := False\<rparr>) (da_db dao) of
          Inl e \<Rightarrow> Some ((empty_object, Some e), dao)
        | Inr db1 \<Rightarrow> (case undeleteAncestorChildren n env (o_ID obj) db1 of
            None \<Rightarrow> None
          | Some (Inl e) \<Rightarrow> Some ((empty_object, Some e), dao)
          | Some (Inr db2) \<Rightarrow>
              (case getObjectInTransaction env (o_ID obj) False False (dao\<lparr>da_db := db2\<rparr>) of
                 ((dbObject, _), dao1) \<Rightarrow> Some ((dbObject, None), dao1)))))"

definition UndeleteObject :: "nat \<Rightarrow> db_env \<Rightarrow> ODObject \<Rightarrow> DataAccessLayer
    \<Rightarrow> ((ODObject \<times> string option) \<times> DataAccessLayer) option" where
  "UndeleteObject n env obj dao = map_option
     (\<lambda>((dbObject, err), dao1). (((if err = None then dbObject else empty_object), err), rollback err dao dao1))
     (undeleteObjectInTransaction n env obj dao)"

subsection \<open>The trash of a user\<close>

definition in_trash :: "(ODObject \<Rightarrow> bool) \<Rightarrow> Db \<Rightarrow> ODObject \<Rightarrow> bool" where
  "in_trash mine db x \<longleftrightarrow> o_IsDeleted x \<and> \<not> o_IsExpunged x \<and> \<not> o_IsAncestorDeleted x \<and>
     type_row db (o_TypeID x) \<noteq> None \<and> mine x"

definition trash_rows :: "(ODObject \<Rightarrow> bool) \<Rightarrow> Db \<Rightarrow> ODObject list" where
  "trash_rows mine db = filter (in_trash mine db) (db_object db)"

definition getTrashedObjectsByUserInTransaction :: "db_env \<Rightarrow> (ODObject \<Rightarrow> bool) \<Rightarrow> int \<Rightarrow> int \<Rightarrow> DataAccessLayer
    \<Rightarrow> (ODObjectResultset \<times> string option) \<times> DataAccessLayer" where
  "getTrashedObjectsByUserInTransaction env mine pageNumber pageSize dao =
     load_page env pageNumber pageSize True True (trash_rows mine (da_db dao)) dao"

text \<open>One transaction of the emptying. The number of pages is taken from the total as it was before the object
  was counted. The one who expunges is the one who last modified the object.\<close>

fun expunge_each :: "nat \<Rightarrow> db_env \<Rightarrow> ODUser \<Rightarrow> int \<Rightarrow> int \<Rightarrow> ODObject list \<Rightarrow> ODObjectResultset \<Rightarrow> DataAccessLayer
    \<Rightarrow> ((ODObjectResultset \<times> string option) \<times> DataAccessLayer) option" where
  "expunge_each n env user pageNumber pageSize [] expunged dao = Some ((expunged, None), dao)"
| "expunge_each n env user pageNumber pageSize (r # rs) expunged dao =
     (case expungeObjectInTransaction n env user r True dao of
        None \<Rightarrow> None
      | Some (Some e, dao1) \<Rightarrow> Some ((expunged, Some e), dao1)
      | Some (None, dao1) \<Rightarrow>
          (let xs = rs_Objects expunged @ [r];
               size' = GetSanitizedPageSize pageSize
           in expunge_each n env user pageNumber pageSize rs
                \<lparr>rs_TotalRows = int (length xs), rs_PageCount = page_count (rs_TotalRows expunged) size',
                 rs_PageNumber = GetSanitizedPageNumber pageNumber, rs_PageSize = size',
                 rs_PageRows = int (length xs), rs_Objects = xs\<rparr> dao1))"

definition empty_resultset :: ODObjectResultset where
  "empty_resultset = \<lparr>rs_TotalRows = 0, rs_PageCount = 0, rs_PageNumber = 0, rs_PageSize = 0, rs_PageRows = 0, rs_Objects = []\<rparr>"

text \<open>The error of reading the page is overwritten by that of preparing the statement.\<close>

definition expungeDeletedByUserInTransaction :: "nat \<Rightarrow> db_env \<Rightarrow> (ODObject \<Rightarrow> bool) \<Rightarrow> ODUser \<Rightarrow> int \<Rightarrow> int
    \<Rightarrow> DataAccessLayer \<Rightarrow> ((ODObjectResultset \<times> string option) \<times> DataAccessLayer) option" where
  "expungeDeletedByUserInTransaction n env mine user pageNumber pageSize dao =
     (case getTrashedObjectsByUserInTransaction env mine pageNumber pageSize dao of
        ((response, _), dao1) \<Rightarrow> expunge_each n env user pageNumber pageSize (rs_Objects response) empty_resultset dao1)"

fun expunge_chunks :: "nat \<Rightarrow> nat \<Rightarrow> db_env \<Rightarrow> (ODObject \<Rightarrow> bool) \<Rightarrow> ODUser \<Rightarrow> int \<Rightarrow> ODObjectResultset
    \<Rightarrow> DataAccessLayer \<Rightarrow> ((ODObjectResultset \<times> string option) \<times> DataAccessLayer) option" where
  "expunge_chunks 0 n env mine user pageSize overall dao = None"
| "expunge_chunks (Suc m) n env mine user pageSize overall dao =
     (case expungeDeletedByUserInTransaction n env mine user 1 pageSize dao of
        None \<Rightarrow> None
      | Some ((_, Some e), dao1) \<Rightarrow> Some ((overall, Some e), rollback (Some e) dao dao1)
      | Some ((expunged, None), dao1) \<Rightarrow>
          (if rs_PageCount expunged = 0 then Some ((overall, None), dao1)
           else (let xs = rs_Objects overall @ rs_Objects expunged in
             expunge_chunks m n env mine user pageSize
               (overall\<lparr>rs_Objects := xs, rs_PageRows := int (length xs), rs_PageSize := int (length xs),
                        rs_TotalRows := int (length xs)\<rparr>) dao1)))"

definition ExpungeDeletedByUser :: "nat \<Rightarrow> nat \<Rightarrow> db_env \<Rightarrow> (ODObject \<Rightarrow> bool) \<Rightarrow> ODUser \<Rightarrow> int
    \<Rightarrow> DataAccessLayer \<Rightarrow> ((ODObjectResultset \<times> string option) \<times> DataAccessLayer) option" where
  "ExpungeDeletedByUser m n env mine user pageSize dao =
     expunge_chunks m n env mine user (if pageSize \<le> 0 then 100 else pageSize)
       (empty_resultset\<lparr>rs_PageCount := 1, rs_PageNumber := 1\<rparr>) dao"

subsection \<open>What is restored\<close>

text \<open>A row and what became of it, when only rows with a property were restored.\<close>

definition restored_row :: "(ODObject \<Rightarrow> bool) \<Rightarrow> ODObject \<Rightarrow> ODObject \<Rightarrow> bool" where
  "restored_row P x y \<longleftrightarrow> x = y \<or> \<not> o_IsDeleted y \<and> same_content x y \<and> o_IsExpunged y = o_IsExpunged x \<and>
     (o_IsAncestorDeleted y \<longrightarrow> o_IsAncestorDeleted x) \<and> P x"

definition only_restores :: "(ODObject \<Rightarrow> bool) \<Rightarrow> Db \<Rightarrow> Db \<Rightarrow> bool" where
  "only_restores P db db' \<longleftrightarrow> list_all2 (restored_row P) (db_object db) (db_object db') \<and>
     db_permission db' = db_permission db \<and> db_type db' = db_type db \<and>
     db_property db' = db_property db \<and> db_grantee db' = db_grantee db"

text \<open>The parents of the rows that were deleted with an ancestor and are not expunged.\<close>

definition anc_rel :: "Db \<Rightarrow> (slice \<times> slice) set" where
  "anc_rel db = {(o_ID x, o_ParentID x) | x. x \<in> set (db_object db) \<and> o_IsAncestorDeleted x \<and> \<not> o_IsExpunged x \<and>
     slice_len (o_ParentID x) \<noteq> 0}"

lemma restored_row_refl [simp]: "restored_row P x x"
  by (simp add: restored_row_def)

lemma only_restores_refl [simp]: "only_restores P db db"
  by (simp add: only_restores_def list.rel_refl)

lemma same_content_trans: "same_content x y \<Longrightarrow> same_content y z \<Longrightarrow> same_content x z"
  by (auto simp: same_content_def)

lemma only_restores_trans:
  assumes "only_restores P a b" and "only_restores Q b c"
    and "\<And>x y. restored_row P x y \<Longrightarrow> Q y \<Longrightarrow> P x"
  shows "only_restores P a c"
proof -
  have "restored_row P x z" if "restored_row P x y" "restored_row Q y z" for x y z
    using that assms(3) [OF that(1)] by (auto simp: restored_row_def intro: same_content_trans)
  then have "list_all2 (restored_row P) (db_object a) (db_object c)"
    using assms(1,2) unfolding only_restores_def by (blast intro: list_all2_trans)
  then show ?thesis
    using assms(1,2) by (simp add: only_restores_def)
qed

lemma restored_row_keeps:
  assumes "restored_row P x y" and "slice_len (o_ParentID y) \<noteq> 0"
  shows "o_ID x = o_ID y" "o_ParentID x = o_ParentID y" "o_IsExpunged x = o_IsExpunged y"
    "o_IsAncestorDeleted y \<Longrightarrow> o_IsAncestorDeleted x"
proof -
  consider "x = y" | "same_content x y" "o_IsExpunged y = o_IsExpunged x" "o_IsAncestorDeleted y \<longrightarrow> o_IsAncestorDeleted x"
    using assms(1) unfolding restored_row_def by blast
  note c = this
  show "o_ID x = o_ID y" by (rule c) (simp_all add: same_content_def)
  show "o_ParentID x = o_ParentID y"
  proof (rule c)
    assume "same_content x y"
    then show ?thesis
      using assms(2) unfolding same_content_def by (cases "slice_len (o_ParentID x) = 0") simp_all
  qed simp
  show "o_IsExpunged x = o_IsExpunged y" by (rule c) simp_all
  show "o_IsAncestorDeleted y \<Longrightarrow> o_IsAncestorDeleted x" by (rule c) simp_all
qed

lemma only_restores_anc: "only_restores P a b \<Longrightarrow> anc_rel b \<subseteq> anc_rel a"
proof
  fix e assume "only_restores P a b" and "e \<in> anc_rel b"
  then have rows: "list_all2 (restored_row P) (db_object a) (db_object b)"
    by (simp add: only_restores_def)
  obtain y where y: "e = (o_ID y, o_ParentID y)" "y \<in> set (db_object b)" "o_IsAncestorDeleted y" "\<not> o_IsExpunged y"
      "slice_len (o_ParentID y) \<noteq> 0"
    using \<open>e \<in> anc_rel b\<close> by (auto simp: anc_rel_def)
  then obtain x where "x \<in> set (db_object a)" "restored_row P x y"
    using list_all2_mem2 [OF rows] by blast
  note k = restored_row_keeps [OF \<open>restored_row P x y\<close> y(5)]
  have "e = (o_ID x, o_ParentID x)" "o_IsAncestorDeleted x" "\<not> o_IsExpunged x" "slice_len (o_ParentID x) \<noteq> 0"
    using y k by simp_all
  then show "e \<in> anc_rel a"
    using \<open>x \<in> set (db_object a)\<close> unfolding anc_rel_def by blast
qed

lemma only_restores_ids: "only_restores P a b \<Longrightarrow> map o_ID (db_object b) = map o_ID (db_object a)"
  unfolding only_restores_def
  by (auto simp: list_all2_conv_all_nth restored_row_def same_content_def intro!: nth_equalityI)

lemma only_restores_unique: "only_restores P a b \<Longrightarrow> unique_ids a \<Longrightarrow> unique_ids b"
  by (simp add: unique_ids_def only_restores_ids)

text \<open>An update that clears the deleted flag restores the row it names.\<close>

lemma update_restores:
  assumes "update_object env i f db = Inr db'" and "unique_ids db"
    and "\<And>x. \<not> o_IsDeleted (f x) \<and> same_content x (f x) \<and> o_IsExpunged (f x) = o_IsExpunged x \<and>
      (o_IsAncestorDeleted (f x) \<longrightarrow> o_IsAncestorDeleted x)"
    and "\<And>x. o_ID x = i \<Longrightarrow> P x"
  shows "only_restores P db db' \<and> (i \<noteq> None \<longrightarrow> (\<forall>y \<in> set (db_object db'). o_ID y = i \<longrightarrow> \<not> o_IsDeleted y))"
proof (cases "object_row db i")
  case None
  then have "db' = db"
    using assms(1) by (simp add: update_object_def)
  moreover have "o_ID y \<noteq> i" if y: "y \<in> set (db_object db)" and some: "i \<noteq> None" for y
  proof
    assume "o_ID y = i"
    moreover obtain b where "i = Some b"
      using some by blast
    ultimately obtain z where "object_row db (Some b) = Some z"
      using row_exists [OF y, of b] by auto
    then show False
      using None \<open>i = Some b\<close> by simp
  qed
  ultimately show ?thesis
    by simp
next
  case (Some row)
  let ?new = "tu_object_row env row (f row)"
  have rows: "db_object db' = map (\<lambda>x. if o_ID x = i then ?new else x) (db_object db)"
    and rest: "db_permission db' = db_permission db" "db_type db' = db_type db" "db_property db' = db_property db"
      "db_grantee db' = db_grantee db"
    using assms(1) Some by (auto simp: update_object_def Let_def split: if_splits)
  have new: "restored_row P row ?new" "\<not> o_IsDeleted ?new" "o_ID ?new = o_ID row"
    using assms(3) [of row] assms(4) [of row] object_row_mem [OF Some]
    by (auto simp: restored_row_def same_content_def tu_object_row_def Let_def)
  have "restored_row P x (if o_ID x = i then ?new else x)" if "x \<in> set (db_object db)" for x
    using new unique_row [OF assms(2) that _ Some] by auto
  then have "list_all2 (restored_row P) (db_object db) (db_object db')"
    unfolding rows by (simp add: list_all2_conv_all_nth)
  then show ?thesis
    using rest new object_row_mem [OF Some] by (auto simp: only_restores_def rows)
qed

lemma only_restores_mono: "only_restores P a b \<Longrightarrow> (\<And>x. P x \<Longrightarrow> Q x) \<Longrightarrow> only_restores Q a b"
  unfolding only_restores_def restored_row_def by (auto elim!: list.rel_mono_strong)

text \<open>The rows below an object along rows that were deleted with an ancestor.\<close>

abbreviation anc_below :: "Db \<Rightarrow> slice \<Rightarrow> ODObject \<Rightarrow> bool" where
  "anc_below db t x \<equiv> (o_ID x, t) \<in> (anc_rel db)\<^sup>+"

lemma undelete_child_restores:
  assumes "undelete_child env i db = Inr db'" and "unique_ids db" and "\<And>x. o_ID x = i \<Longrightarrow> P x"
  shows "only_restores P db db'"
proof -
  have "same_content x (x\<lparr>o_IsAncestorDeleted := False, o_IsDeleted := False\<rparr>)" for x
    by (simp add: same_content_def)
  then show ?thesis
    using assms update_restores [where P = P and i = i and db = db and db' = db' and env = env
        and f = "\<lambda>x. x\<lparr>o_IsAncestorDeleted := False, o_IsDeleted := False\<rparr>"]
    by (auto simp: undelete_child_def split: if_splits option.splits)
qed

lemma undelete_each_restores:
  assumes "undelete_each env xs db = Inr db'" and "unique_ids db" and "\<And>x y. y \<in> set xs \<Longrightarrow> o_ID x = o_ID y \<Longrightarrow> P x"
    and "\<And>x y. restored_row P x y \<Longrightarrow> P y \<Longrightarrow> P x"
  shows "only_restores P db db'"
  using assms(1-3)
proof (induction xs arbitrary: db)
  case (Cons x xs)
  then obtain db1 where db1: "undelete_child env (o_ID x) db = Inr db1" "undelete_each env xs db1 = Inr db'"
    by (auto split: sum.splits)
  have one: "only_restores P db db1"
    by (rule undelete_child_restores [OF db1(1) Cons.prems(2)]) (metis Cons.prems(3) list.set_intros(1))
  have "only_restores P db1 db'"
    by (rule Cons.IH [OF db1(2) only_restores_unique [OF one Cons.prems(2)]]) (metis Cons.prems(3) list.set_intros(2))
  then show ?case
    by (rule only_restores_trans [OF one _ assms(4)])
qed simp

lemma below_closed:
  assumes "restored_row (anc_below db t) x y" and "anc_below db t y"
  shows "anc_below db t x"
  using assms by (auto simp: restored_row_def same_content_def)

lemma undelete_rel:
  assumes "undeleteAncestorChildren n env t db = Some (Inr db')" and "unique_ids db" and "slice_len t \<noteq> 0"
    and "list_all (\<lambda>i. slice_len i \<noteq> 0) (map o_ID (db_object db))"
  shows "only_restores (anc_below db t) db db'"
  using assms(1-3,4)
proof (induction n arbitrary: t db db')
  case (Suc n)
  let ?P = "anc_below db t"
  let ?xs = "anc_children db t"
  obtain db1 where each: "undelete_each env ?xs db = Inr db1"
      and rest: "each_below (undeleteAncestorChildren n env) ?xs db1 = Some (Inr db')"
    using Suc.prems(1) by (auto simp: Let_def split: sum.splits)
  have child: "(o_ID y, t) \<in> anc_rel db" if "y \<in> set ?xs" for y
    using that Suc.prems(3) by (auto simp: anc_children_def anc_rel_def)
  have first: "only_restores ?P db db1"
    by (rule undelete_each_restores [OF each Suc.prems(2)]) (auto dest: child below_closed)
  have "only_restores ?P db db2"
    if "each_below (undeleteAncestorChildren n env) ys d = Some (Inr db2)" "only_restores ?P db d" "set ys \<subseteq> set ?xs"
    for ys d db2
    using that
  proof (induction ys arbitrary: d)
    case (Cons y ys)
    obtain d1 where d1: "undeleteAncestorChildren n env (o_ID y) d = Some (Inr d1)"
        "each_below (undeleteAncestorChildren n env) ys d1 = Some (Inr db2)"
      using Cons.prems(1) by (auto split: option.splits sum.splits)
    have "slice_len (o_ID y) \<noteq> 0"
      using Cons.prems(3) Suc.prems(4) by (auto simp: anc_children_def list_all_iff)
    then have "only_restores (anc_below d (o_ID y)) d d1"
      using Suc.IH [OF d1(1) only_restores_unique [OF Cons.prems(2) Suc.prems(2)]] Suc.prems(4)
        only_restores_ids [OF Cons.prems(2)] by simp
    moreover have "anc_below db t x" if "anc_below d (o_ID y) x" for x
      using that trancl_mono [OF _ only_restores_anc [OF Cons.prems(2)]] child [of y] Cons.prems(3)
      by (auto intro: trancl_into_trancl)
    ultimately have "only_restores ?P d d1"
      by (auto intro: only_restores_mono)
    then have "only_restores ?P db d1"
      by (rule only_restores_trans [OF Cons.prems(2) _ below_closed])
    then show ?case
      using Cons.IH [OF d1(2)] Cons.prems(3) by simp
  qed simp
  then show ?case
    using rest first by blast
qed simp

definition ids_ok :: "Db \<Rightarrow> bool" where
  "ids_ok db \<longleftrightarrow> unique_ids db \<and> list_all (\<lambda>x. slice_len (o_ID x) \<noteq> 0) (db_object db)"

subsection \<open>All that is restored\<close>

text \<open>The joined update takes a row with some permission row; the rows form a tree and have types.\<close>

definition has_permission :: "Db \<Rightarrow> slice \<Rightarrow> bool" where
  "has_permission db i \<longleftrightarrow> list_ex (\<lambda>p. p_ObjectID p = i) (db_permission db)"

definition typed_tree :: "Db \<Rightarrow> bool" where
  "typed_tree db \<longleftrightarrow> acyclic (parent_rel db) \<and> (\<forall>x \<in> set (db_object db). type_row db (o_TypeID x) \<noteq> None)"

definition live_row :: "Db \<Rightarrow> slice \<Rightarrow> bool" where
  "live_row db i \<longleftrightarrow> (\<forall>x \<in> set (db_object db). o_ID x = i \<longrightarrow> \<not> o_IsDeleted x \<and> \<not> o_IsAncestorDeleted x)"

text \<open>Every row below an object, along rows that were deleted with an ancestor, that has a permission row is live.\<close>

definition all_restored :: "slice \<Rightarrow> Db \<Rightarrow> Db \<Rightarrow> bool" where
  "all_restored t db db' \<longleftrightarrow> (\<forall>x \<in> set (db_object db). anc_below db t x \<and> has_permission db (o_ID x) \<longrightarrow> live_row db' (o_ID x))"

lemma restores_row_back:
  assumes "only_restores P a b" and "y \<in> set (db_object b)"
  obtains x where "x \<in> set (db_object a)" and "restored_row P x y" and "o_ID x = o_ID y"
  using assms list_all2_mem2 [of "restored_row P" "db_object a" "db_object b" y]
  by (auto simp: only_restores_def restored_row_def same_content_def)

lemma restores_row_on:
  assumes "only_restores P a b" and "x \<in> set (db_object a)"
  obtains y where "y \<in> set (db_object b)" and "restored_row P x y" and "o_ID y = o_ID x"
  using assms list_all2_mem1 [of "restored_row P" "db_object a" "db_object b" x]
  by (auto simp: only_restores_def restored_row_def same_content_def)

lemma restores_ids_ok: "only_restores P a b \<Longrightarrow> ids_ok a \<Longrightarrow> ids_ok b"
proof -
  assume o: "only_restores P a b" and i: "ids_ok a"
  have "slice_len (o_ID y) \<noteq> 0" if y: "y \<in> set (db_object b)" for y
  proof -
    obtain x where "x \<in> set (db_object a)" "o_ID x = o_ID y"
      using restores_row_back [OF o y] by metis
    then show ?thesis
      using i unfolding ids_ok_def list_all_iff by metis
  qed
  then show ?thesis
    using only_restores_unique [OF o] i by (simp add: ids_ok_def list_all_iff)
qed

lemma live_later:
  assumes "only_restores P a b" and "live_row a i"
  shows "live_row b i"
  unfolding live_row_def
proof (intro ballI impI)
  fix y assume "y \<in> set (db_object b)" "o_ID y = i"
  then obtain x where "x \<in> set (db_object a)" "restored_row P x y" "o_ID x = i"
    using restores_row_back [OF assms(1)] by metis
  then show "\<not> o_IsDeleted y \<and> \<not> o_IsAncestorDeleted y"
    using assms(2) by (auto simp: live_row_def restored_row_def)
qed

lemma restores_permissions: "only_restores P a b \<Longrightarrow> has_permission b i = has_permission a i"
  by (simp add: only_restores_def has_permission_def)

lemma restores_parents: "only_restores P a b \<Longrightarrow> parent_rel b \<subseteq> parent_rel a"
proof
  fix e assume o: "only_restores P a b" and "e \<in> parent_rel b"
  then obtain y where y: "e = (o_ID y, o_ParentID y)" "y \<in> set (db_object b)" "slice_len (o_ParentID y) \<noteq> 0"
    by (auto simp: parent_rel_def)
  obtain x where x: "x \<in> set (db_object a)" "restored_row P x y"
    using restores_row_back [OF o y(2)] by metis
  then show "e \<in> parent_rel a"
    using y restored_row_keeps(1,2) [OF x(2) y(3)] unfolding parent_rel_def by (intro CollectI exI [of _ x]) simp
qed

lemma restores_typed: "only_restores P a b \<Longrightarrow> typed_tree a \<Longrightarrow> typed_tree b"
proof -
  assume o: "only_restores P a b" and t: "typed_tree a"
  have "type_row b = type_row a"
    by (rule ext) (use o in \<open>auto simp: only_restores_def type_row_def split: option.split\<close>)
  moreover have "o_TypeID x = o_TypeID y" if "restored_row P x y" for x y
    using that by (auto simp: restored_row_def same_content_def)
  ultimately have "type_row b (o_TypeID y) \<noteq> None" if "y \<in> set (db_object b)" for y
    using restores_row_back [OF o that] t by (metis typed_tree_def)
  moreover have "acyclic (parent_rel b)"
    using acyclic_subset [OF _ restores_parents [OF o]] t by (simp add: typed_tree_def)
  ultimately show ?thesis
    by (simp add: typed_tree_def)
qed

lemma undelete_child_live:
  assumes "undelete_child env i db = Inr db'" and "unique_ids db" and "has_permission db i" and "r \<in> set (db_object db)"
    and "o_ID r = i" and "i \<noteq> None" and "\<not> o_IsExpunged r"
  shows "live_row db' i"
proof -
  obtain b where b: "i = Some b"
    using assms(6) by blast
  have row: "object_row db i = Some r"
    using row_exists [OF assms(4)] unique_row [OF assms(2,4,5)] assms(5) b by metis
  let ?f = "\<lambda>x. x\<lparr>o_IsAncestorDeleted := False, o_IsDeleted := False\<rparr>"
  have "update_object env i ?f db = Inr db'"
    using assms(1,3,6,7) row by (auto simp: undelete_child_def has_permission_def list_ex_iff split: if_splits)
  then have "db_object db' = map (\<lambda>x. if o_ID x = i then tu_object_row env r (?f r) else x) (db_object db)"
    using row by (auto simp: update_object_def Let_def split: if_splits)
  then show ?thesis
    using assms(5) by (auto simp: live_row_def tu_object_row_def Let_def)
qed

lemma undelete_each_live:
  assumes "undelete_each env xs db = Inr db'" and "unique_ids db" and "x \<in> set xs" and "has_permission db (o_ID x)"
    and "r \<in> set (db_object db)" and "o_ID r = o_ID x" and "o_ID x \<noteq> None" and "\<not> o_IsExpunged r"
  shows "live_row db' (o_ID x)"
  using assms
proof (induction xs arbitrary: db r)
  case (Cons z xs)
  then obtain db1 where db1: "undelete_child env (o_ID z) db = Inr db1" "undelete_each env xs db1 = Inr db'"
    by (auto split: sum.splits)
  have one: "only_restores (\<lambda>x. True) db db1"
    by (rule undelete_child_restores [OF db1(1) Cons.prems(2)]) simp
  have u1: "unique_ids db1"
    by (rule only_restores_unique [OF one Cons.prems(2)])
  have rest: "only_restores (\<lambda>x. True) db1 db'"
    by (rule undelete_each_restores [OF db1(2) u1]) simp_all
  show ?case
  proof (cases "o_ID x = o_ID z")
    case True
    then show ?thesis
      using undelete_child_live [OF db1(1) Cons.prems(2), of r] Cons.prems(4-8) live_later [OF rest] by simp
  next
    case False
    obtain r1 where "r1 \<in> set (db_object db1)" "restored_row (\<lambda>x. True) r r1" "o_ID r1 = o_ID r"
      using restores_row_on [OF one Cons.prems(5)] by metis
    then show ?thesis
      using Cons.IH [OF db1(2) u1, of r1] False Cons.prems(3-8) restores_permissions [OF one] by (auto simp: restored_row_def)
  qed
qed simp

lemma anc_rel_single: "unique_ids db \<Longrightarrow> single_valued (anc_rel db)"
  by (auto simp: single_valued_def anc_rel_def unique_ids_def distinct_map dest: inj_onD)

lemma anc_rel_parent: "anc_rel db \<subseteq> parent_rel db"
  by (auto simp: anc_rel_def parent_rel_def)

text \<open>What lies below one child lies below no other, and is no child itself.\<close>

lemma other_branch:
  assumes "unique_ids db" and ac: "acyclic (parent_rel db)" and y: "(y, t) \<in> anc_rel db" and z: "(z, t) \<in> anc_rel db"
    and ay: "(a, y) \<in> (anc_rel db)\<^sup>+" and az: "(a, z) \<in> (anc_rel db)\<^sup>*"
  shows "z = y \<and> a \<noteq> z"
proof -
  let ?R = "anc_rel db"
  have sv: "single_valued ?R"
    by (rule anc_rel_single [OF assms(1)])
  have no: "(b, b) \<notin> ?R\<^sup>+" for b
    using ac trancl_mono [OF _ anc_rel_parent] by (metis acyclic_def)
  have up: "(t, w) \<in> ?R\<^sup>*" if "(v, w) \<in> ?R\<^sup>+" "(v, t) \<in> ?R" for v w
  proof -
    note h = that
    obtain u where "(v, u) \<in> ?R" "(u, w) \<in> ?R\<^sup>*"
      using tranclD [OF h(1)] by blast
    then show ?thesis
      using h(2) sv by (metis single_valuedD)
  qed
  have apart: "v = w" if "(v, w) \<in> ?R\<^sup>*" "(v, t) \<in> ?R" "(w, t) \<in> ?R" for v w
  proof (rule ccontr)
    assume "v \<noteq> w"
    then have "(v, w) \<in> ?R\<^sup>+"
      using that(1) by (metis rtranclD)
    then have "(w, w) \<in> ?R\<^sup>+"
      using up [OF _ that(2)] that(3) by (metis rtrancl_into_trancl2)
    then show False
      using no by blast
  qed
  have "(y, z) \<in> ?R\<^sup>* \<or> (z, y) \<in> ?R\<^sup>*"
    by (rule single_valued_confluent [OF sv trancl_into_rtrancl [OF ay] az])
  then have "z = y"
    using apart y z by metis
  moreover have "a \<noteq> y"
    using ay no by blast
  ultimately show ?thesis
    by simp
qed

lemma kept_below:
  assumes o: "only_restores Q db d" and below: "(a, y) \<in> (anc_rel db)\<^sup>+"
    and kept: "\<And>x. (o_ID x, y) \<in> (anc_rel db)\<^sup>+ \<Longrightarrow> \<not> Q x"
  shows "(a, y) \<in> (anc_rel d)\<^sup>+"
proof -
  have edge: "(a, b) \<in> anc_rel d" if "(a, b) \<in> anc_rel db" "(a, y) \<in> (anc_rel db)\<^sup>+" for a b
  proof -
    note h = that
    obtain r where r: "r \<in> set (db_object db)" "a = o_ID r" "b = o_ParentID r" "o_IsAncestorDeleted r" "\<not> o_IsExpunged r"
        "slice_len (o_ParentID r) \<noteq> 0"
      using h(1) unfolding anc_rel_def by blast
    obtain r' where "r' \<in> set (db_object d)" "restored_row Q r r'"
      using restores_row_on [OF o r(1)] by metis
    then have "r \<in> set (db_object d)"
      using kept h(2) r(2) by (auto simp: restored_row_def)
    then show ?thesis
      using r by (auto simp: anc_rel_def)
  qed
  show ?thesis
    using below
  proof (induction rule: converse_trancl_induct)
    case (base a)
    then show ?case
      using edge by blast
  next
    case (step a b)
    then show ?case
      using edge [OF step.hyps(1)] by (meson trancl_into_trancl2)
  qed
qed

text \<open>The loop over the children, each already restored where it can be, restores what is below each.\<close>

lemma branches_restored:
  assumes loop: "each_below f ys d = Some (Inr db2)" and xs: "anc_children db t = zs @ ys"
    and o: "only_restores (\<lambda>x. (o_ID x, t) \<in> anc_rel db \<or> (\<exists>z \<in> set zs. anc_below db (o_ID z) x)) db d"
    and ids: "ids_ok db" and tree: "typed_tree db" and t: "slice_len t \<noteq> 0"
    and run: "\<And>i d d'. f i d = Some (Inr d') \<Longrightarrow> ids_ok d \<Longrightarrow> typed_tree d \<Longrightarrow> slice_len i \<noteq> 0 \<Longrightarrow>
      only_restores (anc_below d i) d d' \<and> all_restored i d d'"
  shows "only_restores (\<lambda>x. True) d db2 \<and> (\<forall>y \<in> set ys. all_restored (o_ID y) db db2)"
  using loop xs o
proof (induction ys arbitrary: zs d)
  case (Cons y ys)
  obtain d1 where d1: "f (o_ID y) d = Some (Inr d1)" "each_below f ys d1 = Some (Inr db2)"
    using Cons.prems(1) by (auto split: option.splits sum.splits)
  have u: "unique_ids db" and ac: "acyclic (parent_rel db)"
    using ids tree by (simp_all add: ids_ok_def typed_tree_def)
  have child: "(o_ID z, t) \<in> anc_rel db" "z \<in> set (db_object db)" if "z \<in> set (zs @ y # ys)" for z
    using that t unfolding Cons.prems(2) [symmetric] by (auto simp: anc_children_def anc_rel_def)
  have "distinct (map o_ID (anc_children db t))"
    using u by (simp add: anc_children_def unique_ids_def distinct_map_filter)
  then have dist: "distinct (map o_ID (zs @ y # ys))"
    by (simp only: Cons.prems(2))
  have new: "o_ID z \<noteq> o_ID y" if "z \<in> set zs" for z
  proof
    assume "o_ID z = o_ID y"
    then have "o_ID y \<in> o_ID ` set zs"
      using that by (intro image_eqI [of _ _ z]) simp_all
    then show False
      using dist by simp
  qed
  have idsd: "ids_ok d" and treed: "typed_tree d" and len: "slice_len (o_ID y) \<noteq> 0"
    using restores_ids_ok [OF Cons.prems(3) ids] restores_typed [OF Cons.prems(3) tree] child(2) [of y] ids
    by (simp_all add: ids_ok_def list_all_iff)
  have sub: "only_restores (anc_below d (o_ID y)) d d1" and all': "all_restored (o_ID y) d d1"
    using run [OF d1(1) idsd treed len] by simp_all
  have kept: "(a, o_ID y) \<in> (anc_rel d)\<^sup>+" if "(a, o_ID y) \<in> (anc_rel db)\<^sup>+" for a
  proof (rule kept_below [OF Cons.prems(3) that])
    fix x :: "ODObject" assume x: "(o_ID x, o_ID y) \<in> (anc_rel db)\<^sup>+"
    have "(o_ID x, t) \<notin> anc_rel db"
      using other_branch [OF u ac child(1) [of y] _ x, of "o_ID x"] by auto
    moreover have "\<not> anc_below db (o_ID z) x" if "z \<in> set zs" for z
      using other_branch [OF u ac child(1) [of y] child(1) [of z] x] new [OF that] that by (auto dest: trancl_into_rtrancl)
    ultimately show "\<not> ((o_ID x, t) \<in> anc_rel db \<or> (\<exists>z \<in> set zs. anc_below db (o_ID z) x))"
      by blast
  qed
  have up_again: "anc_below db (o_ID y) x" if "anc_below d (o_ID y) x" for x
    by (rule trancl_mono [OF that only_restores_anc [OF Cons.prems(3)]])
  have "only_restores (\<lambda>x. (o_ID x, t) \<in> anc_rel db \<or> (\<exists>z \<in> set (zs @ [y]). anc_below db (o_ID z) x)) db d1"
    by (rule only_restores_trans [OF only_restores_mono [OF Cons.prems(3)] only_restores_mono [OF sub up_again]])
      (auto simp: restored_row_def same_content_def)
  then have rest: "only_restores (\<lambda>x. True) d1 db2" "\<forall>y \<in> set ys. all_restored (o_ID y) db db2"
    using Cons.IH [OF d1(2), of "zs @ [y]"] Cons.prems(2) by simp_all
  have "live_row db2 (o_ID x)" if x: "x \<in> set (db_object db)" "anc_below db (o_ID y) x" "has_permission db (o_ID x)" for x
  proof -
    obtain x' where "x' \<in> set (db_object d)" "o_ID x' = o_ID x"
      using restores_row_on [OF Cons.prems(3) x(1)] by metis
    then have "live_row d1 (o_ID x)"
      using all' kept [OF x(2)] x(3) restores_permissions [OF Cons.prems(3)] unfolding all_restored_def by metis
    then show ?thesis
      by (rule live_later [OF rest(1)])
  qed
  then have "all_restored (o_ID y) db db2"
    by (simp add: all_restored_def)
  moreover have "only_restores (\<lambda>x. True) d db2"
    by (rule only_restores_trans [OF only_restores_mono [OF sub] rest(1)]) simp_all
  ultimately show ?case
    using rest(2) by simp
qed simp

lemma undelete_all:
  assumes "undeleteAncestorChildren n env t db = Some (Inr db')" and "ids_ok db" and "typed_tree db" and "slice_len t \<noteq> 0"
  shows "only_restores (anc_below db t) db db' \<and> all_restored t db db'"
  using assms
proof (induction n arbitrary: t db db')
  case (Suc n)
  let ?xs = "anc_children db t"
  have u: "unique_ids db"
    using Suc.prems(2) by (simp add: ids_ok_def)
  obtain db1 where each: "undelete_each env ?xs db = Inr db1"
      and loop: "each_below (undeleteAncestorChildren n env) ?xs db1 = Some (Inr db')"
    using Suc.prems(1) by (auto simp: Let_def split: sum.splits)
  have child: "(o_ID y, t) \<in> anc_rel db" if "y \<in> set ?xs" for y
    using that Suc.prems(4) by (auto simp: anc_children_def anc_rel_def)
  have first: "only_restores (\<lambda>x. (o_ID x, t) \<in> anc_rel db) db db1"
    by (rule undelete_each_restores [OF each u]) (auto dest: child simp: restored_row_def same_content_def)
  have branches: "only_restores (\<lambda>x. True) db1 db'" "\<forall>y \<in> set ?xs. all_restored (o_ID y) db db'"
    using branches_restored [OF loop _ _ Suc.prems(2-4) Suc.IH, of "[]"] first by simp_all
  have "live_row db' (o_ID x)" if x: "x \<in> set (db_object db)" "anc_below db t x" "has_permission db (o_ID x)" for x
  proof -
    have mem: "\<exists>y \<in> set ?xs. o_ID y = a" if "(a, t) \<in> anc_rel db" for a
    proof -
      note h = that
      obtain r where r: "r \<in> set (db_object db)" "a = o_ID r" "t = o_ParentID r" "o_IsAncestorDeleted r" "\<not> o_IsExpunged r"
        using h unfolding anc_rel_def by blast
      moreover have "t \<noteq> None"
        using Suc.prems(4) by (cases t) simp_all
      ultimately have "r \<in> set ?xs"
        using Suc.prems(3) unfolding anc_children_def typed_tree_def by simp
      then show ?thesis
        using r(2) by blast
    qed
    from x(2) consider "(o_ID x, t) \<in> anc_rel db" | b where "(o_ID x, b) \<in> (anc_rel db)\<^sup>+" "(b, t) \<in> anc_rel db"
      by (meson tranclD2 rtranclD trancl.cases)
    then show ?thesis
    proof cases
      case 1
      then obtain y where y: "y \<in> set ?xs" "o_ID y = o_ID x"
        using mem by blast
      have r: "y \<in> set (db_object db)" "\<not> o_IsExpunged y"
        using y(1) by (simp_all add: anc_children_def)
      then have "slice_len (o_ID y) \<noteq> 0"
        using Suc.prems(2) by (simp add: ids_ok_def list_all_iff)
      then have some: "o_ID y \<noteq> None"
        by (cases "o_ID y") simp_all
      have "live_row db1 (o_ID y)"
        by (rule undelete_each_live [OF each u y(1) _ r(1) refl some r(2)]) (use x(3) y(2) in simp)
      then show ?thesis
        using live_later [OF branches(1)] y(2) by simp
    next
      case (2 b)
      then obtain y where "y \<in> set ?xs" "o_ID y = b"
        using mem by blast
      then show ?thesis
        using branches(2) 2(1) x(1,3) unfolding all_restored_def by metis
    qed
  qed
  then have "all_restored t db db'"
    by (simp add: all_restored_def)
  moreover have "only_restores (anc_below db t) db db'"
    by (rule undelete_rel [OF Suc.prems(1) u Suc.prems(4)]) (use Suc.prems(2) in \<open>simp add: ids_ok_def list_all_iff\<close>)
  ultimately show ?case
    by blast
qed simp

lemma undelete_restores:
  assumes "UndeleteObject n env obj dao = Some ((x, err), dao')" and "ids_ok (da_db dao)" and "slice_len (o_ID obj) \<noteq> 0"
  shows "if err = None
    then only_restores (\<lambda>x. o_ID x = o_ID obj \<or> anc_below (da_db dao) (o_ID obj) x) (da_db dao) (da_db dao') \<and>
      list_all (\<lambda>y. o_ID y = o_ID obj \<longrightarrow> \<not> o_IsDeleted y) (db_object (da_db dao')) \<and>
      (typed_tree (da_db dao) \<longrightarrow> all_restored (o_ID obj) (da_db dao) (da_db dao'))
    else da_db dao' = da_db dao"
proof (cases err)
  case None
  let ?t = "o_ID obj"
  let ?P = "\<lambda>x. o_ID x = ?t \<or> anc_below (da_db dao) ?t x"
  let ?f = "\<lambda>x. x\<lparr>o_ModifiedBy := o_ModifiedBy obj, o_IsDeleted := False\<rparr>"
  obtain db1 db2 where up: "update_object env ?t ?f (da_db dao) = Inr db1"
      and below: "undeleteAncestorChildren n env ?t db1 = Some (Inr db2)" and "da_db dao' = db2"
    using assms(1) None
    by (auto simp: UndeleteObject_def undeleteObjectInTransaction_def rollback_def
        split: if_splits sum.splits option.splits prod.splits dest!: getObject_dbD)
  have one: "only_restores ?P (da_db dao) db1 \<and> (?t \<noteq> None \<longrightarrow> (\<forall>y \<in> set (db_object db1). o_ID y = ?t \<longrightarrow> \<not> o_IsDeleted y))"
    by (rule update_restores [OF up]) (use assms(2) in \<open>simp_all add: ids_ok_def same_content_def\<close>)
  have ids: "map o_ID (db_object db1) = map o_ID (db_object (da_db dao))"
    using one only_restores_ids by blast
  have rest: "only_restores (anc_below db1 ?t) db1 db2"
    using undelete_rel [OF below _ assms(3)] assms(2) ids by (auto simp: ids_ok_def unique_ids_def list_all_iff)
  have "anc_below (da_db dao) ?t x" if "anc_below db1 ?t x" for x
    by (rule trancl_mono [OF that only_restores_anc [OF conjunct1 [OF one]]])
  then have "only_restores ?P db1 db2"
    using rest by (auto intro: only_restores_mono)
  then have "only_restores ?P (da_db dao) db2"
    by (rule only_restores_trans [OF conjunct1 [OF one]]) (auto simp: restored_row_def same_content_def)
  moreover have "\<not> o_IsDeleted z" if "z \<in> set (db_object db2)" "o_ID z = ?t" for z
  proof -
    have rows: "list_all2 (restored_row (anc_below db1 ?t)) (db_object db1) (db_object db2)"
      using rest by (simp add: only_restores_def)
    obtain y where "y \<in> set (db_object db1)" "restored_row (anc_below db1 ?t) y z"
      using list_all2_mem2 [OF rows \<open>z \<in> set (db_object db2)\<close>] by blast
    moreover have "\<not> o_IsDeleted y" if "y = z"
      using one \<open>o_ID z = ?t\<close> \<open>y \<in> set (db_object db1)\<close> that assms(3) by auto
    ultimately show ?thesis
      unfolding restored_row_def by blast
  qed
  moreover have "all_restored ?t (da_db dao) db2" if tree: "typed_tree (da_db dao)"
  proof -
    note h = tree
    have o1: "only_restores ?P (da_db dao) db1"
      using one by blast
    have ids1: "ids_ok db1"
      by (rule restores_ids_ok [OF o1 assms(2)])
    have t1: "typed_tree db1"
      by (rule restores_typed [OF o1 h])
    have all1: "all_restored ?t db1 db2"
      using undelete_all [OF below ids1 t1 assms(3)] by blast
    have u: "unique_ids (da_db dao)"
      using assms(2) by (simp add: ids_ok_def)
    obtain first: "only_restores (\<lambda>x. o_ID x = ?t) (da_db dao) db1"
      using update_restores [OF up u, of "\<lambda>x. o_ID x = ?t"] by (auto simp: same_content_def)
    have kept_t: "(o_ID x, ?t) \<in> (anc_rel db1)\<^sup>+" if "anc_below (da_db dao) ?t x" for x :: "ODObject"
    proof (rule kept_below [OF first that])
      fix y :: "ODObject" assume "(o_ID y, ?t) \<in> (anc_rel (da_db dao))\<^sup>+"
      then have "(o_ID y, ?t) \<in> (parent_rel (da_db dao))\<^sup>+"
        by (rule trancl_mono [OF _ anc_rel_parent])
      then show "o_ID y \<noteq> ?t"
        using h by (auto simp: typed_tree_def acyclic_def)
    qed
    have "live_row db2 (o_ID x)"
      if x: "x \<in> set (db_object (da_db dao))" "anc_below (da_db dao) ?t x" "has_permission (da_db dao) (o_ID x)" for x
    proof -
      obtain y where "y \<in> set (db_object db1)" "o_ID y = o_ID x"
        using restores_row_on [OF o1 x(1)] by metis
      moreover have "has_permission db1 (o_ID x)"
        using x(3) by (simp only: restores_permissions [OF o1])
      moreover have "anc_below db1 ?t x"
        using kept_t x(2) by blast
      ultimately show ?thesis
        using all1 unfolding all_restored_def by metis
    qed
    then show ?thesis
      unfolding all_restored_def by blast
  qed
  ultimately show ?thesis
    using \<open>da_db dao' = db2\<close> None by (simp add: list_all_iff)
next
  case (Some e)
  then show ?thesis
    using assms(1) by (auto simp: UndeleteObject_def rollback_def)
qed

text \<open>Undeleting that fails changes no table. One that succeeds restores the object, and besides only objects
  below it along rows that were deleted with an ancestor, in a tree all of those that have a permission; an expunged object stays expunged, and the content of
  every row, and every permission, are as before.\<close>

theorem undelete_scope:
  assumes "UndeleteObject n env obj dao = Some ((x, err), dao')" and "ids_ok (da_db dao)" and "slice_len (o_ID obj) \<noteq> 0"
  shows "if err = None
    then only_restores (\<lambda>x. o_ID x = o_ID obj \<or> anc_below (da_db dao) (o_ID obj) x) (da_db dao) (da_db dao') \<and>
      list_all (\<lambda>y. o_ID y = o_ID obj \<longrightarrow> \<not> o_IsDeleted y) (db_object (da_db dao')) \<and>
      (typed_tree (da_db dao) \<longrightarrow> all_restored (o_ID obj) (da_db dao) (da_db dao'))
    else da_db dao' = da_db dao"
  by (rule undelete_restores [OF assms])

text \<open>The small drive, after its folder was deleted.\<close>

definition sample_trashed :: DataAccessLayer where
  "sample_trashed = snd (the (DeleteObject 9 sample_env sample_user (sample_row 1 None) True sample_dao))"

lemma undelete_scope_witness:
  "only_restores (\<lambda>x. o_ID x = Some [1] \<or> anc_below (da_db sample_trashed) (Some [1]) x) (da_db sample_trashed)
     (da_db (snd (the (UndeleteObject 5 sample_env (sample_row 1 None) sample_trashed)))) \<and>
   map o_IsDeleted (db_object (da_db (snd (the (UndeleteObject 5 sample_env (sample_row 1 None) sample_trashed))))) =
     [False, False, False]"
proof -
  have f: "map_option (\<lambda>((x, e), d). (e, map o_IsDeleted (db_object (da_db d)))) (UndeleteObject 5 sample_env (sample_row 1 None) sample_trashed)
      = Some (None, [False, False, False])" and ids: "ids_ok (da_db sample_trashed)"
    by code_simp+
  then obtain x d where r: "UndeleteObject 5 sample_env (sample_row 1 None) sample_trashed = Some ((x, None), d)"
      and "map o_IsDeleted (db_object (da_db d)) = [False, False, False]"
    by auto
  moreover have "o_ID (sample_row 1 None) = Some [1]"
    by (simp add: sample_row_def)
  ultimately show ?thesis
    using undelete_scope [OF r ids] by simp
qed

subsection \<open>Expunging what lies in a deleted folder\<close>

text \<open>C38: an object of the trash whose parent is deleted as well cannot be expunged: the trigger on objects takes
  a deleted parent only when the update changes whether the object is deleted.\<close>

theorem expunge_blocked:
  assumes "object_row (da_db dao) (o_ID obj) = Some row" and "o_IsDeleted row" and "\<not> o_IsExpunged row"
    and "slice_len (o_ID obj) \<noteq> 0" and "o_ChangeToken obj = o_ChangeToken row" and "o_ChangeToken row \<noteq> ''''"
    and "live_type (da_db dao) (o_TypeID row)" and "slice_len (o_ParentID row) \<noteq> 0"
    and "list_all (\<lambda>x. o_ID x = o_ParentID row \<longrightarrow> o_IsDeleted x) (db_object (da_db dao))"
    and "getUserSnippets env user = Inr s"
  shows "ExpungeObject (Suc n) env user obj True dao
    = Some (Some ''Field parentId must be valid when updating record'', dao)"
proof -
  obtain nm del where ty: "type_row (da_db dao) (o_TypeID row) = Some (nm, del)" and "\<not> del"
    using assms(7) by (auto simp: live_type_def split: option.splits)
  have "o_ID obj \<noteq> None" "o_ID row = o_ID obj"
    using assms(4) object_row_mem [OF assms(1)] by (cases "o_ID obj"; simp)+
  moreover have "tu_object_error (da_db dao) row (mark_expunged env w True row) = ''Field parentId must be valid ''" for w
    using assms(2,6,7,8,9)
    by (auto simp: tu_object_error_def mark_expunged_def Let_def list_all_iff list_ex_iff)
  ultimately show ?thesis
    using assms ty by (simp add: ExpungeObject_def getObjectInTransaction_def update_object_def rollback_def Let_def)
qed

text \<open>The file was put in the trash, and then its folder.\<close>

definition sample_twice_trashed :: DataAccessLayer where
  "sample_twice_trashed = snd (the (DeleteObject 9 sample_env sample_user (sample_row 1 None) True
     (snd (the (DeleteObject 9 sample_env sample_user (sample_row 2 (Some [1])) True sample_dao)))))"

lemma expunge_blocked_witness:
  "ExpungeObject 9 sample_env sample_user (sample_row 2 (Some [1])\<lparr>o_ChangeToken := ''tt''\<rparr>) True sample_twice_trashed
    = Some (Some ''Field parentId must be valid when updating record'', sample_twice_trashed)"
proof -
  let ?obj = "sample_row 2 (Some [1])\<lparr>o_ChangeToken := ''tt''\<rparr>"
  let ?row = "the (object_row (da_db sample_twice_trashed) (Some [2]))"
  have [simp]: "o_ID ?obj = Some [2]" "o_ChangeToken ?obj = ''tt''"
    by (simp_all add: sample_row_def)
  have row: "object_row (da_db sample_twice_trashed) (Some [2]) \<noteq> None" "o_IsDeleted ?row" "\<not> o_IsExpunged ?row"
      "o_ChangeToken ?row = ''tt''" "live_type (da_db sample_twice_trashed) (o_TypeID ?row)" "o_ParentID ?row = Some [1]"
      "list_all (\<lambda>x. o_ID x = Some [1] \<longrightarrow> o_IsDeleted x) (db_object (da_db sample_twice_trashed))"
    by code_simp+
  have "getUserSnippets sample_env sample_user = Inr [\<lparr>FieldName = ''f_share'', Treatment = ''ALLOWED'', FieldValues = [''cn_a'']\<rparr>]"
    by code_simp
  then have "ExpungeObject (Suc 8) sample_env sample_user ?obj True sample_twice_trashed
    = Some (Some ''Field parentId must be valid when updating record'', sample_twice_trashed)"
    by (intro expunge_blocked [where row = ?row]) (use row in auto)
  then show ?thesis
    by simp
qed

text \<open>So the user cannot empty the trash: the folder would go first, the file fails, and both stay.\<close>

lemma trash_stuck:
  "ExpungeDeletedByUser 5 9 sample_env (\<lambda>x. True) sample_user 100 sample_twice_trashed =
    Some ((empty_resultset\<lparr>rs_PageCount := 1, rs_PageNumber := 1\<rparr>,
           Some ''Field parentId must be valid when updating record''),
      sample_twice_trashed\<lparr>da_AcmGranteeCache := [(''cn_a'', empty_grantee\<lparr>g_Grantee := ''cn_a''\<rparr>)]\<rparr>)"
  by code_simp

subsection \<open>Emptying the trash\<close>

lemma filter_changed:
  assumes "list_all2 R xs ys" and "\<And>x y. R x y \<Longrightarrow> Q y \<Longrightarrow> x = y"
  shows "length (filter Q ys) \<le> length (filter Q xs) \<and> set (filter Q ys) \<subseteq> set (filter Q xs)"
  using assms(1)
proof (induction rule: list_all2_induct)
  case (Cons x xs y ys)
  then show ?case
    using assms(2) [of x y] by auto
qed simp

lemma in_trash_marks:
  assumes "only_marks o_IsExpunged expunge_effect P a b"
  shows "in_trash mine b = in_trash mine a"
  using assms by (intro ext) (simp only: only_marks_def in_trash_def type_row_def)

lemma trash_filter:
  assumes "only_marks o_IsExpunged expunge_effect P a b"
  shows "length (trash_rows mine b) \<le> length (trash_rows mine a) \<and> set (trash_rows mine b) \<subseteq> set (trash_rows mine a)"
proof -
  have rows: "list_all2 (marked_row o_IsExpunged expunge_effect P) (db_object a) (db_object b)"
    using assms by (simp add: only_marks_def)
  show ?thesis
    unfolding trash_rows_def in_trash_marks [OF assms]
    by (rule filter_changed [OF rows]) (auto simp: marked_row_def in_trash_def)
qed

lemma length_filter_less:
  assumes "length (filter Q ys) \<le> length (filter Q xs)" and "set (filter Q ys) \<subseteq> set (filter Q xs)"
    and "distinct (map f xs)" and "distinct (map f ys)" and "x \<in> set (filter Q xs)" and "f x \<notin> f ` set (filter Q ys)"
  shows "length (filter Q ys) < length (filter Q xs)"
proof -
  have d: "distinct (map f (filter Q zs))" if "distinct (map f zs)" for zs
    using that by (simp add: distinct_map inj_on_def)
  have "f ` set (filter Q ys) \<subset> f ` set (filter Q xs)"
    using assms(2,5,6) by auto
  then have "card (f ` set (filter Q ys)) < card (f ` set (filter Q xs))"
    by (intro psubset_card_mono) auto
  then show ?thesis
    using distinct_card [OF d [OF assms(3)]] distinct_card [OF d [OF assms(4)]] by simp
qed

lemma trash_less:
  assumes "only_marks o_IsExpunged expunge_effect P a b" and "unique_ids a" and "x \<in> set (trash_rows mine a)"
    and "y \<in> set (db_object b)" and "o_ID y = o_ID x" and "o_IsExpunged y"
  shows "length (trash_rows mine b) < length (trash_rows mine a)"
    and "x' \<in> set (trash_rows mine b) \<Longrightarrow> o_ID x' \<noteq> o_ID x"
proof -
  have u: "unique_ids b" "map o_ID (db_object b) = map o_ID (db_object a)"
    using expunging.only_ids [OF assms(1)] assms(2) by (simp_all add: unique_ids_def)
  have gone: "o_ID z \<noteq> o_ID x" if "z \<in> set (trash_rows mine b)" for z
  proof
    assume "o_ID z = o_ID x"
    then have "z = y"
      using that assms(4,5) u(1) by (auto simp: trash_rows_def in_trash_def unique_ids_def distinct_map inj_on_def)
    then show False
      using that assms(6) by (simp add: trash_rows_def in_trash_def)
  qed
  then show "x' \<in> set (trash_rows mine b) \<Longrightarrow> o_ID x' \<noteq> o_ID x" .
  note f = trash_filter [OF assms(1), of mine, unfolded trash_rows_def in_trash_marks [OF assms(1)]]
  show "length (trash_rows mine b) < length (trash_rows mine a)"
  proof (unfold trash_rows_def in_trash_marks [OF assms(1)], rule length_filter_less [where f = o_ID and x = x])
    show "x \<in> set (filter (in_trash mine a) (db_object a))"
      using assms(3) unfolding trash_rows_def .
    show "o_ID x \<notin> o_ID ` set (filter (in_trash mine a) (db_object b))"
      using gone unfolding trash_rows_def in_trash_marks [OF assms(1)] by force
  qed (use f assms(2) u(1) in \<open>simp_all add: unique_ids_def\<close>)
qed

lemma load_objects_ids:
  "load_objects env lp lr xs dao = ((ys, e), dao1) \<Longrightarrow> map o_ID ys = map o_ID xs"
proof (induction xs arbitrary: dao ys e dao1)
  case (Cons x xs)
  obtain z e2 dao2 where g: "getObjectInTransaction env (o_ID x) lp lr dao = ((z, e2), dao2)"
    by (metis surj_pair)
  show ?case
  proof (cases e2)
    case None
    obtain zs e3 dao3 where l: "load_objects env lp lr xs dao2 = ((zs, e3), dao3)"
      by (metis surj_pair)
    have "o_ID z = o_ID x"
      using getObject_row [OF g [unfolded None]] by metis
    then show ?thesis
      using Cons.IH [OF l] Cons.prems g None l by auto
  qed (use Cons.prems g in auto)
qed simp

lemma load_page_ids:
  assumes "load_page env pn s lp lr rows dao = ((rs, e), dao1)"
  shows "map o_ID (rs_Objects rs) = map o_ID (page_rows pn s (de_recent env rows))"
proof -
  obtain e' where "load_objects env lp lr (map (\<lambda>x. empty_object\<lparr>o_ID := o_ID x\<rparr>) (page_rows pn s (de_recent env rows))) dao
      = ((rs_Objects rs, e'), dao1)"
    using assms by (auto simp: load_page_def Let_def split: prod.splits)
  then show ?thesis
    using load_objects_ids by fastforce
qed

text \<open>One transaction: what it reports, what it marks, and that every object of the page is expunged.\<close>

abbreviation expunges :: "Db \<Rightarrow> Db \<Rightarrow> bool" where
  "expunges \<equiv> only_marks o_IsExpunged expunge_effect (\<lambda>x y. True)"

lemma expunge_one:
  assumes "expungeObjectInTransaction n env user obj True dao = Some (e, dao')" and "env_ok env"
    and "good o_IsExpunged (da_db dao)"
  shows "expunges (da_db dao) (da_db dao')" "good o_IsExpunged (da_db dao')"
    "e = None \<Longrightarrow> \<exists>x \<in> set (db_object (da_db dao')). o_ID x = o_ID obj \<and> o_IsExpunged x"
proof -
  note s = expunging.scope [OF assms(1) [unfolded expunge_tree_op] assms(2,3)]
  show "expunges (da_db dao) (da_db dao')"
    by (rule expunging.only_mono [OF conjunct1 [OF s]]) simp
  then show "good o_IsExpunged (da_db dao')"
    by (rule expunging.only_ok) (rule assms(3))
  show "e = None \<Longrightarrow> \<exists>x \<in> set (db_object (da_db dao')). o_ID x = o_ID obj \<and> o_IsExpunged x"
    using s by simp
qed

lemma expunges_keep:
  assumes "expunges a b" and "x \<in> set (db_object a)" and "o_ID x = i" and "o_IsExpunged x"
  shows "\<exists>y \<in> set (db_object b). o_ID y = i \<and> o_IsExpunged y"
proof -
  have rows: "list_all2 (marked_row o_IsExpunged expunge_effect (\<lambda>x y. True)) (db_object a) (db_object b)"
    using assms(1) by (simp add: only_marks_def)
  obtain y where "y \<in> set (db_object b)" "marked_row o_IsExpunged expunge_effect (\<lambda>x y. True) x y"
    using list_all2_mem1 [OF rows assms(2)] by blast
  then show ?thesis
    using assms(3,4) by (auto simp: marked_row_def)
qed

lemma expunge_each_spec:
  assumes "expunge_each n env user pn s rs expunged dao = Some ((res, e), dao')" and "env_ok env"
    and "good o_IsExpunged (da_db dao)"
  shows "expunges (da_db dao) (da_db dao') \<and> good o_IsExpunged (da_db dao') \<and>
    (e = None \<longrightarrow> (\<forall>r \<in> set rs. \<exists>x \<in> set (db_object (da_db dao')). o_ID x = o_ID r \<and> o_IsExpunged x) \<and>
      rs_PageCount res = (if rs = [] then rs_PageCount expunged
        else page_count (if length rs = 1 then rs_TotalRows expunged else int (length (rs_Objects expunged) + length rs - 1))
          (GetSanitizedPageSize s)))"
  using assms(1,3)
proof (induction rs arbitrary: expunged dao)
  case (Cons r rs)
  obtain e1 d1 where one: "expungeObjectInTransaction n env user r True dao = Some (e1, d1)"
    using Cons.prems(1) by (auto split: option.splits)
  note o = expunge_one [OF one assms(2) Cons.prems(2)]
  show ?case
  proof (cases e1)
    case (Some m)
    then show ?thesis
      using Cons.prems(1) one o(1,2) by auto
  next
    case None
    define x1 where "x1 = \<lparr>rs_TotalRows = int (length (rs_Objects expunged @ [r])),
      rs_PageCount = page_count (rs_TotalRows expunged) (GetSanitizedPageSize s),
      rs_PageNumber = GetSanitizedPageNumber pn, rs_PageSize = GetSanitizedPageSize s,
      rs_PageRows = int (length (rs_Objects expunged @ [r])), rs_Objects = rs_Objects expunged @ [r]\<rparr>"
    have rest: "expunge_each n env user pn s rs x1 d1 = Some ((res, e), dao')"
      using Cons.prems(1) one None by (simp add: x1_def Let_def)
    note ih = Cons.IH [OF rest o(2)]
    have x1: "rs_PageCount x1 = page_count (rs_TotalRows expunged) (GetSanitizedPageSize s)"
        "rs_TotalRows x1 = int (length (rs_Objects expunged) + 1)" "length (rs_Objects x1) = length (rs_Objects expunged) + 1"
      by (simp_all add: x1_def)
    have all: "expunges (da_db dao) (da_db dao')"
      using expunging.only_trans [OF o(1)] ih by blast
    have "\<exists>x \<in> set (db_object (da_db dao')). o_ID x = o_ID r \<and> o_IsExpunged x"
      using o(3) [OF None] expunges_keep ih by blast
    moreover have "rs_PageCount res = page_count (if length (r # rs) = 1 then rs_TotalRows expunged
        else int (length (rs_Objects expunged) + length (r # rs) - 1)) (GetSanitizedPageSize s)" if "e = None"
      using ih that x1 by (cases rs) auto
    ultimately show ?thesis
      using all ih by simp
  qed
qed simp

lemma expunge_each_returns:
  assumes "env_ok env" and "good o_IsExpunged (da_db dao)" and "unmarked o_IsExpunged (da_db dao) + 3 \<le> n"
  shows "\<exists>r dao'. expunge_each n env user pn s rs expunged dao = Some (r, dao') \<and>
    unmarked o_IsExpunged (da_db dao') \<le> unmarked o_IsExpunged (da_db dao)"
  using assms(2,3)
proof (induction rs arbitrary: expunged dao)
  case (Cons r rs)
  obtain e d1 where one: "expungeObjectInTransaction n env user r True dao = Some (e, d1)"
      "unmarked o_IsExpunged (da_db d1) \<le> unmarked o_IsExpunged (da_db dao)" "good o_IsExpunged (da_db d1)"
    using expunging.returns [OF assms(1) Cons.prems, of user r True] unfolding expunge_tree_op by blast
  moreover have "\<exists>r dao'. expunge_each n env user pn s rs x d1 = Some (r, dao') \<and>
      unmarked o_IsExpunged (da_db dao') \<le> unmarked o_IsExpunged (da_db dao)" for x
    using Cons.IH [OF one(3), of x] one(2) Cons.prems(2) order_trans by (meson add_le_mono1)
  ultimately show ?case
    by (cases e) (simp_all add: Let_def)
qed simp

lemma page_count_pos: "1 \<le> t \<Longrightarrow> t \<le> 2 ^ 61 \<Longrightarrow> page_count t (GetSanitizedPageSize s) \<noteq> 0"
proof -
  assume t: "1 \<le> t" "t \<le> 2 ^ 61"
  let ?s = "GetSanitizedPageSize s"
  have "1 \<le> ?s" "?s \<le> 10000"
    using sanitized_size by blast+
  then have "page_count t ?s = (t + ?s - 1) div ?s"
    using page_count_nonneg [of ?s t] t by (simp add: page_count_def)
  moreover have "1 \<le> (t + ?s - 1) div ?s"
    using t(1) \<open>1 \<le> ?s\<close> by (simp add: pos_imp_zdiv_pos_iff int_one_le_iff_zero_less)
  ultimately show ?thesis
    by simp
qed

lemma first_page:
  assumes "2 \<le> s"
  shows "length (page_rows 1 s xs) \<le> 10000" "page_rows 1 s xs = [] \<longleftrightarrow> xs = []"
    "length (page_rows 1 s xs) = 1 \<Longrightarrow> length xs = 1"
  using assms
  by (auto simp: page_rows_def GetOffset_def GetLimit_def GetSanitizedPageNumber_def GetSanitizedPageSize_def
      absoluteMaxPageSize_def wrap64_def split: if_splits)

text \<open>A transaction that reports no page leaves the trash empty; one that reports a page leaves it smaller.\<close>

lemma expunge_chunk:
  assumes "expungeDeletedByUserInTransaction n env mine user 1 s dao = Some ((res, None), dao')" and "env_ok env"
    and "good o_IsExpunged (da_db dao)" and "2 \<le> s"
  shows "if rs_PageCount res = 0 then trash_rows mine (da_db dao') = []
    else length (trash_rows mine (da_db dao')) < length (trash_rows mine (da_db dao))"
    and "good o_IsExpunged (da_db dao')"
proof -
  let ?rows = "de_recent env (trash_rows mine (da_db dao))"
  obtain rsp e d1 where page: "load_page env 1 s True True (trash_rows mine (da_db dao)) dao = ((rsp, e), d1)"
    by (metis surj_pair)
  have d1: "da_db d1 = da_db dao"
    by (rule load_page_db [OF page])
  let ?rs = "rs_Objects rsp"
  have run: "expunge_each n env user 1 s ?rs empty_resultset d1 = Some ((res, None), dao')"
    using assms(1) page by (simp add: expungeDeletedByUserInTransaction_def getTrashedObjectsByUserInTransaction_def)
  have ids: "map o_ID ?rs = map o_ID (page_rows 1 s ?rows)"
    by (rule load_page_ids [OF page])
  then have len: "length ?rs = length (page_rows 1 s ?rows)"
    by (metis length_map)
  have rows: "set ?rows = set (trash_rows mine (da_db dao))" "length ?rows = length (trash_rows mine (da_db dao))"
    using env_ok_sets(1,2) [OF assms(2)] by blast+
  have spec: "expunges (da_db dao) (da_db dao')" "good o_IsExpunged (da_db dao')"
      "\<And>r. r \<in> set ?rs \<Longrightarrow> \<exists>x \<in> set (db_object (da_db dao')). o_ID x = o_ID r \<and> o_IsExpunged x"
      "rs_PageCount res = (if ?rs = [] then 0 else page_count (if length ?rs = 1 then 0 else int (length ?rs - 1)) (GetSanitizedPageSize s))"
    using expunge_each_spec [OF run assms(2)] assms(3) d1 by (auto simp: empty_resultset_def)
  show "good o_IsExpunged (da_db dao')"
    by (rule spec(2))
  have gone: "\<exists>y \<in> set (db_object (da_db dao')). o_ID y = o_ID x \<and> o_IsExpunged y" if "x \<in> set (page_rows 1 s ?rows)" for x
  proof -
    have "o_ID x \<in> set (map o_ID ?rs)"
      using that ids by simp
    then obtain r where "r \<in> set ?rs" "o_ID r = o_ID x"
      by auto
    then show ?thesis
      using spec(3) by metis
  qed
  show "if rs_PageCount res = 0 then trash_rows mine (da_db dao') = []
    else length (trash_rows mine (da_db dao')) < length (trash_rows mine (da_db dao))"
  proof (cases "?rs = []")
    case True
    then have "trash_rows mine (da_db dao) = []"
      using len rows(2) first_page(2) [OF assms(4), of ?rows] by (metis length_0_conv)
    then show ?thesis
      using trash_filter [OF spec(1), of mine] spec(4) True by simp
  next
    case False
    then obtain x where x: "x \<in> set (page_rows 1 s ?rows)"
      using len by (metis last_in_set length_0_conv)
    then have xt: "x \<in> set (trash_rows mine (da_db dao))"
      using rows(1) by (auto simp: page_rows_def dest!: in_set_takeD in_set_dropD)
    obtain y where y: "y \<in> set (db_object (da_db dao'))" "o_ID y = o_ID x" "o_IsExpunged y"
      using gone [OF x] by blast
    note less = trash_less(1) [OF spec(1) good_unique [OF assms(3)] xt y]
    show ?thesis
    proof (cases "length ?rs = 1")
      case True
      then have "length (trash_rows mine (da_db dao)) = 1"
        using first_page(3) [OF assms(4), of ?rows] len rows(2) by simp
      then show ?thesis
        using less by simp
    next
      case more: False
      then have "1 \<le> int (length ?rs - 1)" "int (length ?rs - 1) \<le> 2 ^ 61"
        using False len first_page(1) [OF assms(4), of ?rows] by (cases ?rs; cases "tl ?rs"; simp)+
      then have "rs_PageCount res \<noteq> 0"
        using spec(4) False more page_count_pos by simp
      then show ?thesis
        using less by simp
    qed
  qed
qed

text \<open>C22: with a page size of two or more, emptying the trash ends, and when it reports no error the trash of
  the user is empty.\<close>

theorem trash_emptied:
  assumes "env_ok env" and "good o_IsExpunged (da_db dao)" and "2 \<le> pageSize"
    and "unmarked o_IsExpunged (da_db dao) + 3 \<le> n" and "length (trash_rows mine (da_db dao)) + 1 \<le> m"
  shows "\<exists>overall err dao'. ExpungeDeletedByUser m n env mine user pageSize dao = Some ((overall, err), dao') \<and>
    (err = None \<longrightarrow> trash_rows mine (da_db dao') = [])"
proof -
  have "\<exists>res err dao'. expunge_chunks m n env mine user pageSize overall dao = Some ((res, err), dao') \<and>
      (err = None \<longrightarrow> trash_rows mine (da_db dao') = [])" for overall
    using assms(2,4,5)
  proof (induction m arbitrary: overall dao)
    case (Suc m)
    obtain rsp e0 d0 where page: "getTrashedObjectsByUserInTransaction env mine 1 pageSize dao = ((rsp, e0), d0)"
      by (metis surj_pair)
    have "da_db d0 = da_db dao"
      using page load_page_db unfolding getTrashedObjectsByUserInTransaction_def by blast
    then obtain res e dao1 where run: "expungeDeletedByUserInTransaction n env mine user 1 pageSize dao = Some ((res, e), dao1)"
        and count: "unmarked o_IsExpunged (da_db dao1) \<le> unmarked o_IsExpunged (da_db dao)"
      using expunge_each_returns [OF assms(1), of d0 n user 1 pageSize "rs_Objects rsp" empty_resultset] Suc.prems(1,2) page
      by (auto simp: expungeDeletedByUserInTransaction_def)
    show ?case
    proof (cases e)
      case None
      note c = expunge_chunk [OF run [unfolded None] assms(1) Suc.prems(1) assms(3)]
      show ?thesis
      proof (cases "rs_PageCount res = 0")
        case True
        then show ?thesis
          using run None c(1) by auto
      next
        case False
        then have "length (trash_rows mine (da_db dao1)) + 1 \<le> m"
          using c(1) Suc.prems(3) by simp
        then show ?thesis
          using Suc.IH [OF c(2)] run None False count Suc.prems(2) by (auto simp: Let_def)
      qed
    next
      case (Some msg)
      then show ?thesis
        using run by simp
    qed
  qed simp
  then show ?thesis
    using assms(3) by (simp add: ExpungeDeletedByUser_def)
qed

lemma trash_emptied_witness:
  "\<exists>overall dao'. ExpungeDeletedByUser 2 6 sample_env (\<lambda>x. True) sample_user 100 sample_trashed = Some ((overall, None), dao') \<and>
    trash_rows (\<lambda>x. True) (da_db dao') = []"
proof -
  have "good o_IsExpunged (da_db sample_trashed)" "unmarked o_IsExpunged (da_db sample_trashed) + 3 \<le> 6"
      "length (trash_rows (\<lambda>x. True) (da_db sample_trashed)) + 1 \<le> 2"
      "map_option (\<lambda>((r, e), d). e) (ExpungeDeletedByUser 2 6 sample_env (\<lambda>x. True) sample_user 100 sample_trashed) = Some None"
    by code_simp+
  then show ?thesis
    using trash_emptied [OF sample_env_ok, of sample_trashed 100 6 "\<lambda>x. True" 2 sample_user] by auto
qed

text \<open>A page size of one stops after the first object, which it expunges and does not report.\<close>

lemma trash_page_of_one:
  "map_option (\<lambda>((r, e), d). (length (rs_Objects r), e, map o_IsExpunged (db_object (da_db d))))
     (ExpungeDeletedByUser 9 9 sample_env (\<lambda>x. True) sample_user 1
       (snd (the (DeleteObject 9 sample_env sample_user (sample_row 2 None) True
         (snd (the (DeleteObject 9 sample_env sample_user (sample_row 3 None) True sample_dao)))))))
   = Some (0, None, [False, True, False])"
  by code_simp

end
