(* ===== verification/Dao_Forest.thy ===== *)
theory Dao_Forest
  imports Dao_Walk Dao_Trash
begin

text \<open>
  What every write of the data layer keeps: the objects stay a forest, and every permission keeps a grantee that
  is known. The writes are the steps of a relation: an object is created, updated below a parent that the check of
  \<open>dao.Logic.go\<close> let pass, deleted, expunged or undeleted, or the trash is emptied; each as a whole and with any
  outcome. When the check and the update of two moves interleave, the forest is lost (\<open>interleaved_moves\<close>).
\<close>

subsection \<open>Rows that keep their place\<close>

definition keeps_place :: "ODObject \<Rightarrow> ODObject \<Rightarrow> bool" where
  "keeps_place x y \<longleftrightarrow> o_ID y = o_ID x \<and> o_TypeID y = o_TypeID x \<and>
     (slice_len (o_ParentID x) \<noteq> 0 \<longrightarrow> o_ParentID y = o_ParentID x) \<and> (o_ParentID x = None \<longrightarrow> o_ParentID y = None)"

lemma keeps_parent: "keeps_place x y \<Longrightarrow> row_ok db x \<Longrightarrow> o_ParentID y = o_ParentID x"
  by (cases "o_ParentID x") (auto simp: keeps_place_def row_ok_def)

lemma row_ok_cong:
  assumes "db_type db' = db_type db" and "o_ID ` set (db_object db) \<subseteq> o_ID ` set (db_object db')" and "row_ok db x"
  shows "row_ok db' x"
proof -
  have "type_row db' = type_row db"
    by (rule ext) (simp only: type_row_def assms(1))
  then show ?thesis
    using assms(2,3) by (auto simp: row_ok_def)
qed

lemma map_eq_image: "map f xs = map f ys \<Longrightarrow> f ` set xs = f ` set ys"
  by (metis list.set_map)

lemma list_all2_map_eq: "list_all2 (\<lambda>x y. f y = f x) xs ys \<Longrightarrow> map f ys = map f xs"
  by (induction rule: list_all2_induct) simp_all

lemma forest_places:
  assumes "forest db" and rel: "list_all2 keeps_place (db_object db) (db_object db')" and t: "db_type db' = db_type db"
  shows "forest db'"
proof -
  have ok: "\<And>x. x \<in> set (db_object db) \<Longrightarrow> row_ok db x" and u: "unique_ids db" and a: "acyclic (parent_rel db)"
    using assms(1) by (auto simp: forest_def)
  have place: "list_all2 (\<lambda>x y. (o_ID y, o_TypeID y, o_ParentID y) = (o_ID x, o_TypeID x, o_ParentID x)) (db_object db) (db_object db')"
  proof (rule list.rel_mono_strong [OF rel])
    fix x y
    assume "x \<in> set (db_object db)" and k: "keeps_place x y"
    then have "o_ParentID y = o_ParentID x"
      using keeps_parent [OF k ok] by blast
    then show "(o_ID y, o_TypeID y, o_ParentID y) = (o_ID x, o_TypeID x, o_ParentID x)"
      using k by (simp add: keeps_place_def)
  qed
  have same: "map (\<lambda>x. (o_ID x, o_TypeID x, o_ParentID x)) (db_object db') = map (\<lambda>x. (o_ID x, o_TypeID x, o_ParentID x)) (db_object db)"
    by (rule list_all2_map_eq [OF place])
  then have img: "(\<lambda>x. (o_ID x, o_TypeID x, o_ParentID x)) ` set (db_object db') = (\<lambda>x. (o_ID x, o_TypeID x, o_ParentID x)) ` set (db_object db)"
    by (rule map_eq_image)
  have ids: "map o_ID (db_object db') = map o_ID (db_object db)"
    by (rule list_all2_map_eq, rule list.rel_mono_strong [OF place]) simp
  have find: "\<exists>x \<in> set (db_object db). o_ID x = o_ID y \<and> o_TypeID x = o_TypeID y \<and> o_ParentID x = o_ParentID y"
    if y: "y \<in> set (db_object db')" for y
  proof -
    have "(o_ID y, o_TypeID y, o_ParentID y) \<in> (\<lambda>x. (o_ID x, o_TypeID x, o_ParentID x)) ` set (db_object db)"
      using y img by blast
    then show ?thesis
      by (auto simp: image_iff)
  qed
  have idset: "o_ID ` set (db_object db') = o_ID ` set (db_object db)"
    using ids by (metis list.set_map)
  have rows: "row_ok db' y" if y: "y \<in> set (db_object db')" for y
  proof -
    obtain x where x: "x \<in> set (db_object db)" "o_ID x = o_ID y" "o_TypeID x = o_TypeID y" "o_ParentID x = o_ParentID y"
      using find [OF y] by blast
    then have "row_ok db y"
      using ok [OF x(1)] by (simp add: row_ok_def)
    then show ?thesis
      using row_ok_cong [OF t] idset by blast
  qed
  have "parent_rel db' \<subseteq> parent_rel db"
  proof
    fix e
    assume "e \<in> parent_rel db'"
    then obtain y where y: "y \<in> set (db_object db')" "e = (o_ID y, o_ParentID y)" "slice_len (o_ParentID y) \<noteq> 0"
      unfolding parent_rel_def by blast
    then obtain x where x: "x \<in> set (db_object db)" "o_ID x = o_ID y" "o_ParentID x = o_ParentID y"
      using find by blast
    then have "e = (o_ID x, o_ParentID x)" "slice_len (o_ParentID x) \<noteq> 0"
      using y(2,3) by simp_all
    then show "e \<in> parent_rel db"
      unfolding parent_rel_def using x(1) by blast
  qed
  then show ?thesis
    using rows ids u a acyclic_subset by (auto simp: forest_def unique_ids_def)
qed

lemma marks_forest: "only_marks already effect P db db' \<Longrightarrow> forest db \<Longrightarrow> forest db'"
proof (erule forest_places)
  assume "only_marks already effect P db db'"
  then show "list_all2 keeps_place (db_object db) (db_object db')" "db_type db' = db_type db"
    by (auto simp: only_marks_def marked_row_def keeps_place_def same_content_def elim!: list_all2_mono)
qed

lemma restores_forest: "only_restores P db db' \<Longrightarrow> forest db \<Longrightarrow> forest db'"
proof (erule forest_places)
  assume "only_restores P db db'"
  then show "list_all2 keeps_place (db_object db) (db_object db')" "db_type db' = db_type db"
    by (auto simp: only_restores_def restored_row_def keeps_place_def same_content_def elim!: list_all2_mono)
qed

lemma forest_ids: "forest db \<Longrightarrow> ids_ok db"
  by (auto simp: forest_def ids_ok_def row_ok_def list_all_iff)

subsection \<open>New and moved rows\<close>

lemma live_type_row: "live_type db t \<Longrightarrow> type_row db t \<noteq> None"
  by (auto simp: live_type_def split: option.splits)

text \<open>A fresh identifier is new and not empty.\<close>

definition fresh_ok :: "db_env \<Rightarrow> bool" where
  "fresh_ok env \<longleftrightarrow> (\<forall>ids. de_fresh env ids \<notin> set ids \<and> de_fresh env ids \<noteq> [])"

lemma create_forest:
  assumes "only_creates env obj db db'" and forest: "forest db" and fresh: "fresh_ok env"
  shows "forest db'"
proof -
  obtain row where row: "db_object db' = db_object db @ [row]" "o_ID row = Some (de_fresh env (map (slice_bytes \<circ> o_ID) (db_object db)))"
      "live_type db (o_TypeID row)" "db_type db' = db_type db"
      "o_ParentID row \<noteq> None \<longrightarrow> (\<exists>p \<in> set (db_object db). o_ID p = o_ParentID row \<and> \<not> o_IsDeleted p)"
    using assms(1) unfolding only_creates_def by blast
  have ok: "\<And>x. x \<in> set (db_object db) \<Longrightarrow> row_ok db x" and u: "unique_ids db" and a: "acyclic (parent_rel db)"
    using forest by (auto simp: forest_def)
  have "slice_bytes (o_ID row) \<notin> (slice_bytes \<circ> o_ID) ` set (db_object db)"
    using fresh row(2) unfolding fresh_ok_def by (metis list.set_map slice_bytes_simps(2))
  then have new: "o_ID row \<notin> o_ID ` set (db_object db)"
    by auto
  have len: "slice_len (o_ID row) \<noteq> 0"
    using fresh row(2) by (simp add: fresh_ok_def)
  have parent: "o_ParentID row \<noteq> None \<Longrightarrow> slice_len (o_ParentID row) \<noteq> 0 \<and> o_ParentID row \<in> o_ID ` set (db_object db)"
    using row(5) ok by (force simp: row_ok_def)
  have old: "row_ok db' x" if "row_ok db x" for x
    by (rule row_ok_cong [OF row(4) _ that]) (auto simp: row(1))
  have "row_ok db row"
    using len parent live_type_row [OF row(3)] by (simp add: row_ok_def)
  then have "row_ok db' row"
    by (rule old)
  then have rows: "\<forall>x \<in> set (db_object db'). row_ok db' x"
    using ok old row(1) by auto
  have sub: "parent_rel db' \<subseteq> insert (o_ID row, o_ParentID row) (parent_rel db)"
    using row(1) by (auto simp: parent_rel_def)
  have loop: "(o_ParentID row, o_ID row) \<notin> (parent_rel db)\<^sup>*" if "o_ParentID row \<noteq> None"
  proof
    assume "(o_ParentID row, o_ID row) \<in> (parent_rel db)\<^sup>*"
    moreover have "o_ParentID row \<noteq> o_ID row"
      using parent [OF that] new by auto
    ultimately obtain k where "(k, o_ID row) \<in> parent_rel db"
      by (metis rtranclE)
    then obtain x where x: "x \<in> set (db_object db)" "o_ParentID x = o_ID row" "slice_len (o_ParentID x) \<noteq> 0"
      by (auto simp: parent_rel_def)
    then have "o_ID row \<in> o_ID ` set (db_object db)"
      using ok [OF x(1)] row(2) unfolding row_ok_def x(2) by (elim conjE) (drule mp, simp_all)
    then show False
      using new by simp
  qed
  have "acyclic (parent_rel db')"
  proof (cases "o_ParentID row")
    case None
    then have "parent_rel db' \<subseteq> parent_rel db"
      using row(1) by (auto simp: parent_rel_def)
    then show ?thesis
      using a acyclic_subset by blast
  next
    case (Some b)
    then have "(o_ParentID row, o_ID row) \<notin> (parent_rel db)\<^sup>*"
      using loop by simp
    then have "acyclic (insert (o_ID row, o_ParentID row) (parent_rel db))"
      using a by (simp add: acyclic_insert)
    then show ?thesis
      using sub acyclic_subset by blast
  qed
  moreover have "unique_ids db'"
    using u new row(1) by (auto simp: unique_ids_def)
  ultimately show ?thesis
    using rows by (simp add: forest_def)
qed

lemma update_forest:
  assumes "only_updates env obj db db'" and forest: "forest db"
    and place: "norm_id (o_ParentID obj) = None \<or> norm_id (o_ParentID obj) \<noteq> o_ID obj \<and> o_ID obj \<notin> above db (norm_id (o_ParentID obj))"
  shows "forest db'"
proof -
  let ?p = "norm_id (o_ParentID obj)"
  obtain row new where row: "object_row db (o_ID obj) = Some row" "updated_row env (obj\<lparr>o_TypeID := norm_id (o_TypeID obj)\<rparr>) row new"
      "live_type db (o_TypeID new)" "db_type db' = db_type db"
      "o_ParentID new \<noteq> None \<longrightarrow> (\<exists>p \<in> set (db_object db). o_ID p = o_ParentID new \<and> \<not> o_IsDeleted p)"
      "db_object db' = map (\<lambda>x. if o_ID x = o_ID obj then new else x) (db_object db)"
    using assms(1) unfolding only_updates_def by blast
  have ok: "\<And>x. x \<in> set (db_object db) \<Longrightarrow> row_ok db x" and u: "unique_ids db" and a: "acyclic (parent_rel db)"
    using forest by (auto simp: forest_def)
  have mem: "row \<in> set (db_object db)" "o_ID row = o_ID obj"
    using object_row_mem [OF row(1)] by auto
  have new: "o_ID new = o_ID obj" "o_ParentID new = ?p"
    using row(2) mem(2) by (simp_all add: updated_row_def stored_row_def)
  have ids: "map o_ID (db_object db') = map o_ID (db_object db)"
    using new(1) row(6) by simp
  then have idset: "o_ID ` set (db_object db') = o_ID ` set (db_object db)"
    using ids by (metis list.set_map)
  have parent: "?p \<noteq> None \<Longrightarrow> slice_len ?p \<noteq> 0 \<and> ?p \<in> o_ID ` set (db_object db)"
    using row(5) ok new(2) by (force simp: row_ok_def)
  have "row_ok db new"
    using ok [OF mem(1)] mem(2) new parent live_type_row [OF row(3)] by (simp add: row_ok_def)
  then have "row_ok db' new" "\<And>x. x \<in> set (db_object db) \<Longrightarrow> row_ok db' x"
    using ok row_ok_cong [OF row(4)] idset by blast+
  then have rows: "\<forall>x \<in> set (db_object db'). row_ok db' x"
    using row(6) by auto
  have sub: "parent_rel db' \<subseteq> {(o_ID obj, ?p) | u. slice_len ?p \<noteq> 0} \<union> parent_rel db"
    using row(6) new by (auto simp: parent_rel_def)
  have "acyclic (parent_rel db')"
  proof (cases "?p = None")
    case True
    then have "parent_rel db' \<subseteq> parent_rel db"
      using sub by auto
    then show ?thesis
      using a acyclic_subset by blast
  next
    case False
    then have "(?p, o_ID obj) \<notin> (parent_rel db)\<^sup>*"
      using place by (auto simp: above_def dest: rtranclD)
    then have "acyclic (insert (o_ID obj, ?p) (parent_rel db))"
      using a by (simp add: acyclic_insert)
    moreover have "parent_rel db' \<subseteq> insert (o_ID obj, ?p) (parent_rel db)"
      using sub by auto
    ultimately show ?thesis
      using acyclic_subset by blast
  qed
  moreover have "unique_ids db'"
    using u ids by (simp add: unique_ids_def)
  ultimately show ?thesis
    using rows by (simp add: forest_def)
qed

subsection \<open>The cache of grantees\<close>

definition caches :: "DataAccessLayer \<Rightarrow> DataAccessLayer \<Rightarrow> bool" where
  "caches a b \<longleftrightarrow> (keyed (da_AcmGranteeCache a) \<and> keyed (db_grantee (da_db a)) \<longrightarrow> keyed (da_AcmGranteeCache b)) \<and>
     db_grantee (da_db b) = db_grantee (da_db a)"

lemma caches_refl [simp]: "caches a a"
  by (simp add: caches_def)

lemma caches_trans: "caches a b \<Longrightarrow> caches b c \<Longrightarrow> caches a c"
  by (simp add: caches_def)

lemma caches_db: "caches a b \<Longrightarrow> db_grantee db' = db_grantee (da_db b) \<Longrightarrow> caches a (b\<lparr>da_db := db'\<rparr>)"
  by (simp add: caches_def)

lemma caches_rollback: "caches a b \<Longrightarrow> caches a (rollback e a b)"
  by (simp add: caches_def rollback_def)

lemma caches_getAcmGrantee: "getAcmGranteeInTransaction k dao = (r, dao') \<Longrightarrow> caches dao dao'"
proof -
  assume get: "getAcmGranteeInTransaction k dao = (r, dao')"
  show ?thesis
  proof (cases "dao' = dao")
    case False
    then obtain x where x: "map_of (db_grantee (da_db dao)) k = Some x"
        "dao' = dao\<lparr>da_AcmGranteeCache := assoc_set k x (da_AcmGranteeCache dao)\<rparr>"
      using get by (auto simp: getAcmGranteeInTransaction_def split: option.splits)
    then have "keyed (db_grantee (da_db dao)) \<Longrightarrow> g_Grantee x = k"
      by (auto simp: keyed_def dest!: map_of_SomeD)
    then show ?thesis
      using x(2) keyed_assoc_set by (auto simp: caches_def)
  qed simp
qed

lemma caches_load_grantees: "load_grantees ps dao = (r, dao') \<Longrightarrow> caches dao dao'"
proof (induction ps arbitrary: dao r)
  case (Cons p ps)
  obtain g e dao1 where get: "getAcmGranteeInTransaction (p_Grantee p) dao = ((g, e), dao1)"
    by (metis surj_pair)
  show ?case
    using Cons get caches_getAcmGrantee [OF get] caches_trans by (cases e) (fastforce split: prod.splits)+
qed simp

lemma caches_getObject: "getObjectInTransaction env i b c dao = (r, dao') \<Longrightarrow> caches dao dao'"
  using caches_load_grantees
  by (fastforce simp: getObjectInTransaction_def getPermissionsForObjectInTransaction_def Let_def
      split: option.splits prod.splits if_splits)

lemma caches_load_objects: "load_objects env b c xs dao = (r, dao') \<Longrightarrow> caches dao dao'"
proof (induction xs arbitrary: dao r)
  case (Cons x xs)
  obtain y e dao1 where get: "getObjectInTransaction env (o_ID x) b c dao = ((y, e), dao1)"
    by (metis surj_pair)
  show ?case
    using Cons get caches_getObject [OF get] caches_trans by (cases e) (fastforce split: prod.splits)+
qed simp

lemma caches_children: "getChildObjectsInTransaction env n s i b c dao = (r, dao') \<Longrightarrow> caches dao dao'"
  by (auto simp: getChildObjectsInTransaction_def load_page_def Let_def split: prod.splits dest: caches_load_objects)

lemma update_object_grantee: "update_object env i f db = Inr db' \<Longrightarrow> db_grantee db' = db_grantee db"
  by (auto simp: update_object_def Let_def split: option.splits if_splits)

lemma caches_children_loop:
  assumes "\<And>x d e d'. del x d = Some (e, d') \<Longrightarrow> caches d d'"
  shows "children_loop del user who xs flag dao = Some (r, dao') \<Longrightarrow> caches dao dao'"
proof (induction xs arbitrary: flag dao)
  case (Cons x xs)
  show ?case
  proof (cases "\<not> o_IsAncestorDeleted x \<and> authorizedToDelete user x")
    case False
    then show ?thesis
      using Cons by auto
  next
    case True
    then obtain e d1 where d: "del (x\<lparr>o_ModifiedBy := who\<rparr>) dao = Some (e, d1)"
      using Cons.prems by (auto split: option.splits)
    have "dao' = d1 \<or> children_loop del user who xs True d1 = Some (r, dao')"
      using Cons.prems True d by (cases e) auto
    then show ?thesis
      using Cons.IH assms [OF d] caches_trans by blast
  qed
qed simp

lemma caches_pages_loop:
  assumes "\<And>x d e d'. del x d = Some (e, d') \<Longrightarrow> caches d d'"
  shows "pages_loop n del env user who oid pn flag dao = Some (r, dao') \<Longrightarrow> caches dao dao'"
proof (induction n arbitrary: pn flag dao)
  case (Suc n)
  obtain rs err d1 where page: "getChildObjectsInTransaction env pn 100 oid True False dao = ((rs, err), d1)"
    by (metis surj_pair)
  obtain e f d2 where loop: "children_loop del user who (rs_Objects rs) flag d1 = Some ((e, f), d2)"
    using Suc.prems page by (auto simp: Let_def split: option.splits)
  have "caches dao d2"
    by (rule caches_trans [OF caches_children [OF page]], rule caches_children_loop [OF _ loop], rule assms)
  moreover have "dao' = d2 \<or> (\<exists>pn'. pages_loop n del env user who oid pn' f d2 = Some (r, dao'))"
    using Suc.prems page loop by (cases e) (auto simp: Let_def split: if_splits)
  ultimately show ?case
    using Suc.IH caches_trans by blast
qed simp

lemma caches_tree_op: "tree_op verb already mark n env user obj ex dao = Some (r, dao') \<Longrightarrow> caches dao dao'"
proof (induction n arbitrary: user obj ex dao r dao')
  case (Suc n)
  obtain x e d1 where get: "getObjectInTransaction env (o_ID obj) False False dao = ((x, e), d1)"
    by (metis surj_pair)
  note c1 = caches_getObject [OF get]
  consider "dao' = dao \<or> dao' = d1"
    | user1 db1 where "update_object env (o_ID x) (mark env (o_ModifiedBy obj) ex) (da_db d1) = Inr db1"
      "pages_loop n (\<lambda>x. tree_op verb already mark n env user1 x False) env user1 (o_ModifiedBy obj) (o_ID x) 1 True
         (d1\<lparr>da_db := db1\<rparr>) = Some (r, dao')"
    using Suc.prems get by (auto simp: Let_def split: if_splits option.splits sum.splits)
  then show ?case
  proof cases
    case 1
    then show ?thesis
      using c1 by auto
  next
    case (2 user1 db1)
    have "caches dao (d1\<lparr>da_db := db1\<rparr>)"
      by (rule caches_db [OF c1 update_object_grantee [OF 2(1)]])
    moreover have "caches (d1\<lparr>da_db := db1\<rparr>) dao'"
      by (rule caches_pages_loop [OF _ 2(2)]) (rule Suc.IH)
    ultimately show ?thesis
      by (rule caches_trans)
  qed
qed simp

lemma caches_grants:
  assumes "caches dao dao'" and "db_permission (da_db dao') = db_permission (da_db dao)" and "grants_ok dao"
  shows "grants_ok dao'"
  using assms by (simp add: caches_def grants_ok_def)

lemma update_permission_grants:
  assumes "update_permission env i c f db = Inr db'" and f: "\<And>x. p_Grantee (f x) = p_Grantee x"
  shows "p_Grantee ` set (db_permission db') \<subseteq> p_Grantee ` set (db_permission db) \<and> db_grantee db' = db_grantee db"
proof (cases "db' = db")
  case False
  then obtain old where old: "permission_row db i = Some old"
      "db' = db\<lparr>db_permission := map (\<lambda>p. if p_ID p = i then tu_permission_row env old (f old) else p) (db_permission db)\<rparr>"
    using assms(1) by (auto simp: update_permission_def Let_def split: option.splits if_splits)
  have "old \<in> set (db_permission db)"
    using old(1) by (auto simp: permission_row_def find_Some_iff split: option.splits)
  moreover have "p_Grantee (tu_permission_row env old (f old)) = p_Grantee old"
    by (simp add: tu_permission_row_def Let_def f)
  ultimately show ?thesis
    using old(2) by auto
qed simp

lemma grants_ok_permissions:
  assumes "grants_ok dao" and "p_Grantee ` set (db_permission db') \<subseteq> p_Grantee ` set (db_permission (da_db dao)) \<and>
    db_grantee db' = db_grantee (da_db dao)"
  shows "grants_ok (dao\<lparr>da_db := db'\<rparr>)"
  using assms by (auto simp: grants_ok_def)

lemma deletePermission_grants:
  assumes "deleteObjectPermissionInTransaction env p (da_db dao) = (r, db')" and "grants_ok dao"
  shows "grants_ok (dao\<lparr>da_db := db'\<rparr>)"
proof (cases "db' = da_db dao")
  case False
  then obtain by' i where "update_permission env i (\<lambda>x. True) (\<lambda>x. x\<lparr>p_ModifiedBy := p_ModifiedBy p, p_IsDeleted := True, p_DeletedBy := by'\<rparr>)
      (da_db dao) = Inr db'"
    using assms(1) by (auto simp: deleteObjectPermissionInTransaction_def Let_def split: if_splits prod.splits option.splits sum.splits)
  then show ?thesis
    using grants_ok_permissions [OF assms(2)] update_permission_grants by fastforce
qed (use assms(2) in simp)

lemma update_permissions_grants:
  "update_permissions env who oid ps dao = Ok (r, dao') \<Longrightarrow> grants_ok dao \<Longrightarrow> grants_ok dao'"
proof (induction ps arbitrary: dao)
  case (Cons p ps)
  obtain x e db1 where d: "deleteObjectPermissionInTransaction env (p\<lparr>p_ModifiedBy := who\<rparr>) (da_db dao) = ((x, e), db1)"
    by (metis surj_pair)
  note d' = deletePermission_grants [OF d Cons.prems(2)]
  consider "p_IsDeleted p \<and> \<not> perm_IsCreating p" | "perm_IsCreating p \<and> \<not> p_IsDeleted p"
    | "\<not> (p_IsDeleted p \<and> \<not> perm_IsCreating p)" "\<not> (perm_IsCreating p \<and> \<not> p_IsDeleted p)"
    by blast
  then show ?case
  proof cases
    case 1
    then have "dao' = dao\<lparr>da_db := db1\<rparr> \<or> update_permissions env who oid ps (dao\<lparr>da_db := db1\<rparr>) = Ok (r, dao')"
      using Cons.prems(1) d by (cases e) (auto split: if_splits)
    then show ?thesis
      using Cons.IH d' by blast
  next
    case 2
    then obtain y e2 dao1 where a: "addPermissionToObjectInTransaction env oid (p\<lparr>p_CreatedBy := who\<rparr>) dao = Ok ((y, e2), dao1)"
      using Cons.prems(1) by (auto simp: bind_res_Ok_iff)
    have "dao' = dao1 \<or> update_permissions env who oid ps dao1 = Ok (r, dao')"
      using Cons.prems(1) 2 a by (cases e2) (auto split: if_splits)
    then show ?thesis
      using Cons.IH addPermission_spec(1) [OF a Cons.prems(2)] by blast
  next
    case 3
    then have "update_permissions env who oid ps dao = Ok (r, dao')"
      using Cons.prems(1) by (simp only: update_permissions.simps if_False)
    then show ?thesis
      using Cons by blast
  qed
qed simp

lemma check_update_grants: "check_update env obj dao = (r, dao1) \<Longrightarrow> grants_ok dao \<Longrightarrow> grants_ok dao1"
  using getObject_grants by (fastforce simp: check_update_def Let_def split: if_splits option.splits prod.splits)

lemma update_object_grants:
  "update_object env i f db = Inr db' \<Longrightarrow> grants_ok (dao\<lparr>da_db := db\<rparr>) \<Longrightarrow> grants_ok (dao\<lparr>da_db := db'\<rparr>)"
proof -
  assume "update_object env i f db = Inr db'"
  then have "db_permission db' = db_permission db" "db_grantee db' = db_grantee db"
    by (auto simp: update_object_def Let_def split: option.splits if_splits)
  then show "grants_ok (dao\<lparr>da_db := db\<rparr>) \<Longrightarrow> grants_ok (dao\<lparr>da_db := db'\<rparr>)"
    by (simp add: grants_ok_def)
qed

lemma update_tx_grants:
  assumes "updateObjectInTransaction env obj dao = Ok ((obj', c, e), dao')" and "grants_ok dao"
  shows "grants_ok dao'"
proof -
  obtain r obj0 dao1 where chk: "check_update env obj dao = ((r, obj0), dao1)"
    by (metis surj_pair)
  have ok1: "grants_ok dao1"
    by (rule check_update_grants [OF chk assms(2)])
  obtain obj1 db2 where own: "add_owner obj0 (da_db dao1) = (obj1, db2)"
    by (metis surj_pair)
  have ok2: "grants_ok (dao1\<lparr>da_db := db2\<rparr>)" and rows2: "rows db2 = rows (da_db dao1)"
    using grants_ok_rows [OF _ ok1] add_owner_keeps [OF own] by blast+
  show ?thesis
  proof (cases "\<exists>x acm. r = Inr x \<and> normalizedACM env (ns_String (o_RawAcm obj1)) = Some acm")
    case False
    then have "dao' = dao1 \<or> dao' = dao1\<lparr>da_db := db2\<rparr>"
      using assms(1) chk own by (cases r) (auto simp: updateObjectInTransaction_def split: option.splits)
    then show ?thesis
      using ok1 ok2 by blast
  next
    case True
    then obtain x acm where acm: "r = Inr x" "normalizedACM env (ns_String (o_RawAcm obj1)) = Some acm"
      by blast
    let ?arg = "obj1\<lparr>o_RawAcm := (o_RawAcm obj1)\<lparr>ns_String := acm\<rparr>\<rparr>"
    obtain obj2 created e3 db3 where set_: "setObjectACM2ForObjectInTransaction env ?arg db2 = Ok ((obj2, created, e3), db3)"
      using assms(1) chk own acm by (auto simp: updateObjectInTransaction_def bind_res_Ok_iff)
    have rows3: "rows db3 = rows (da_db dao1)"
      using setObjectACM2_keeps [OF set_] rows2 by simp
    then have ok3: "grants_ok (dao1\<lparr>da_db := db3\<rparr>)"
      using grants_ok_rows [OF _ ok1] by blast
    show ?thesis
    proof (cases "e3 = None \<and> (\<exists>db4. update_object env (o_ID obj2) (set_object_fields obj2) db3 = Inr db4)")
      case False
      then have "dao' = dao1\<lparr>da_db := db3\<rparr>"
        using assms(1) chk own acm set_
        by (cases e3; cases "update_object env (o_ID obj2) (set_object_fields obj2) db3") (auto simp: updateObjectInTransaction_def)
      then show ?thesis
        using ok3 by simp
    next
      case True
      then obtain db4 where up: "update_object env (o_ID obj2) (set_object_fields obj2) db3 = Inr db4"
        by blast
      obtain e5 db5 where props: "update_properties env (o_ModifiedBy obj2) (o_ID obj2) (o_Properties x) (o_Properties obj2) db4 = (e5, db5)"
        by (metis surj_pair)
      have ok4: "grants_ok (dao1\<lparr>da_db := db4\<rparr>)"
        by (rule update_object_grants [OF up ok3])
      have ok5: "grants_ok (dao1\<lparr>da_db := db5\<rparr>)"
        using grants_ok_rows [of db5 "dao1\<lparr>da_db := db4\<rparr>", OF _ ok4] update_properties_objects [OF props] by simp
      show ?thesis
      proof (cases e5)
        case (Some m)
        then have "dao' = dao1\<lparr>da_db := db5\<rparr>"
          using assms(1) chk own acm set_ True up props by (auto simp: updateObjectInTransaction_def)
        then show ?thesis
          using ok5 by simp
      next
        case None
        then obtain e6 dao6 where perms: "update_permissions env (o_ModifiedBy obj2) (o_ID obj2) (o_Permissions obj2) (dao1\<lparr>da_db := db5\<rparr>)
            = Ok (e6, dao6)"
          using assms(1) chk own acm set_ True up props by (auto simp: updateObjectInTransaction_def bind_res_Ok_iff)
        note ok6 = update_permissions_grants [OF perms ok5]
        obtain y e7 dao7 where get: "getObjectInTransaction env (o_ID obj2) True True dao6 = ((y, e7), dao7)"
          by (metis surj_pair)
        have "dao' = dao6 \<or> dao' = dao7"
          using assms(1) chk own acm set_ True up props None perms get
          by (cases e6; cases e7) (auto simp: updateObjectInTransaction_def)
        then show ?thesis
          using ok6 getObject_grants [OF get ok6] by blast
      qed
    qed
  qed
qed

lemma update_attempts_grants: "update_attempts n env obj dao = Ok (r, dao') \<Longrightarrow> grants_ok dao \<Longrightarrow> grants_ok dao'"
proof (induction n arbitrary: obj dao)
  case 0
  then obtain o1 c1 e1 dao1 where u: "updateObjectInTransaction env obj dao = Ok ((o1, c1, e1), dao1)"
    by (auto simp: bind_res_Ok_iff)
  show ?case
    using 0 u update_tx_grants [OF u] rollback_grants [of dao dao1] by (cases e1) auto
next
  case (Suc n)
  then obtain o1 c1 e1 dao1 where u: "updateObjectInTransaction env obj dao = Ok ((o1, c1, e1), dao1)"
    by (auto simp: bind_res_Ok_iff)
  have ok: "grants_ok dao1" "grants_ok (rollback_tx dao dao1)"
    using update_tx_grants [OF u] rollback_grants Suc.prems(2) by blast+
  have "dao' = dao1 \<or> dao' = rollback_tx dao dao1 \<or> update_attempts n env o1 (rollback_tx dao dao1) = Ok (r, dao')"
    using Suc.prems(1) u by (cases e1) (auto split: if_splits)
  then show ?case
    using ok Suc.IH by blast
qed

lemma UpdateObject_grants: "UpdateObject env obj dao = Ok (r, dao') \<Longrightarrow> grants_ok dao \<Longrightarrow> grants_ok dao'"
  using update_attempts_grants by (fastforce simp: UpdateObject_def bind_res_Ok_iff)

subsection \<open>The writes as steps\<close>

text \<open>A step is a whole operation with any outcome. An update names a new parent only after the check let it
  pass, and an object that is undeleted was not expunged: the handlers see to both.\<close>

inductive store_step :: "db_env \<Rightarrow> DataAccessLayer \<Rightarrow> DataAccessLayer \<Rightarrow> bool" for env where
  create: "CreateObject env obj dao = Ok (r, dao') \<Longrightarrow> store_step env dao dao'"
| update: "UpdateObject env obj dao = Ok (r, dao') \<Longrightarrow>
    norm_id (o_ParentID obj) = None \<or> norm_id (o_ParentID obj) \<noteq> o_ID obj \<and>
      IsParentIDADescendent env dao (o_ID obj) (norm_id (o_ParentID obj)) = Some (False, None) \<Longrightarrow> store_step env dao dao'"
| delete: "DeleteObject n env user obj explicit dao = Some (e, dao') \<Longrightarrow> store_step env dao dao'"
| expunge: "ExpungeObject n env user obj explicit dao = Some (e, dao') \<Longrightarrow> store_step env dao dao'"
| undelete: "UndeleteObject n env obj dao = Some (r, dao') \<Longrightarrow> object_row (da_db dao) (o_ID obj) = Some x \<Longrightarrow>
    \<not> o_IsExpunged x \<Longrightarrow> store_step env dao dao'"

text \<open>The invariant of the tables: a forest whose expunged rows are deleted, and known grantees.\<close>

definition well_formed :: "DataAccessLayer \<Rightarrow> bool" where
  "well_formed dao \<longleftrightarrow> forest (da_db dao) \<and> good o_IsExpunged (da_db dao) \<and> grants_ok dao"

lemma forest_rows: "objs db' = objs db \<Longrightarrow> forest db \<Longrightarrow> forest db'"
proof (erule forest_places)
  assume o: "objs db' = objs db"
  show "list_all2 keeps_place (db_object db) (db_object db')"
    using objsD(1) [OF o] by (simp add: list_all2_same keeps_place_def)
  show "db_type db' = db_type db"
    by (rule objsD(2) [OF o])
qed

lemma good_rows: "db_object db' = db_object db \<Longrightarrow> good already db \<Longrightarrow> good already db'"
  by (simp add: good_def unique_ids_def)

lemma well_formed_names:
  assumes "only_names (da_db dao) (da_db dao')" and "well_formed dao" and "grants_ok dao'"
  shows "well_formed dao'"
proof -
  have o: "objs (da_db dao') = objs (da_db dao)"
    by (rule rowsD(5) [OF only_names_rows [OF assms(1)]])
  show ?thesis
    using assms(2,3) forest_rows [OF o] good_rows [OF objsD(1) [OF o]] by (simp add: well_formed_def)
qed

lemma create_good:
  assumes "only_creates env obj db db'" and "good o_IsExpunged db" and "forest db'"
  shows "good o_IsExpunged db'"
proof -
  obtain row where "db_object db' = db_object db @ [row]" "created_row obj row"
    using assms(1) unfolding only_creates_def by blast
  then show ?thesis
    using assms(2,3) by (auto simp: good_def created_row_def forest_def)
qed

lemma update_good:
  assumes "only_updates env obj db db'" and "good o_IsExpunged db" and "forest db'"
  shows "good o_IsExpunged db'"
proof -
  obtain row new where row: "object_row db (o_ID obj) = Some row" "\<not> o_IsDeleted row"
      "updated_row env (obj\<lparr>o_TypeID := norm_id (o_TypeID obj)\<rparr>) row new"
      "db_object db' = map (\<lambda>x. if o_ID x = o_ID obj then new else x) (db_object db)"
    using assms(1) unfolding only_updates_def by blast
  have "\<not> o_IsExpunged row"
    using row(2) object_row_mem [OF row(1)] assms(2) unfolding good_def list_all_iff by blast
  then have "\<not> o_IsExpunged new"
    using row(3) by (simp add: updated_row_def stored_row_def)
  then show ?thesis
    using assms(2,3) row(4) by (auto simp: good_def list_all_iff forest_def)
qed

lemma step_create:
  assumes "CreateObject env obj dao = Ok ((x, e), dao')" and "well_formed dao" and "fresh_ok env"
  shows "well_formed dao'"
proof -
  obtain x1 o1 e1 dao1 where run: "create_attempts (de_retries env) env obj dao = Ok ((x1, o1, e1), dao1)"
    using assms(1) by (auto simp: CreateObject_def bind_res_Ok_iff)
  have spec: "grants_ok dao1" "if e1 = None then only_creates env obj (da_db dao) (da_db dao1) else only_names (da_db dao) (da_db dao1)"
    using create_attempts_spec [OF run] assms(2) by (simp_all add: well_formed_def)
  have one: "well_formed dao1"
  proof (cases e1)
    case None
    then have "only_creates env obj (da_db dao) (da_db dao1)"
      using spec(2) by simp
    then show ?thesis
      using create_forest create_good assms(2,3) spec(1) by (simp add: well_formed_def)
  next
    case (Some m)
    then show ?thesis
      using well_formed_names [OF _ assms(2) spec(1)] spec(2) by simp
  qed
  obtain y e2 dao2 where get: "getObjectInTransaction env (o_ID x1) True True dao1 = ((y, e2), dao2)"
    by (metis surj_pair)
  have "dao' = dao1 \<or> dao' = dao2"
    using assms(1) run get by (cases e1; cases e2) (auto simp: CreateObject_def)
  moreover have "well_formed dao2"
    using one getObject_dbD [OF get] getObject_grants [OF get] by (simp add: well_formed_def)
  ultimately show ?thesis
    using one by blast
qed

lemma step_update:
  assumes "UpdateObject env obj dao = Ok ((x, e), dao')" and "well_formed dao"
    and ok: "norm_id (o_ParentID obj) = None \<or> norm_id (o_ParentID obj) \<noteq> o_ID obj \<and>
      IsParentIDADescendent env dao (o_ID obj) (norm_id (o_ParentID obj)) = Some (False, None)"
  shows "well_formed dao'"
proof -
  obtain c where run: "update_attempts (de_retries env) env obj dao = Ok ((x, c, e), dao')"
    using assms(1) by (auto simp: UpdateObject_def bind_res_Ok_iff)
  note spec = update_attempts_spec [OF run]
  have g: "grants_ok dao'"
    using update_attempts_grants [OF run] assms(2) by (simp add: well_formed_def)
  show ?thesis
  proof (cases e)
    case (Some m)
    then show ?thesis
      using well_formed_names [OF _ assms(2) g] spec by simp
  next
    case None
    then have up: "only_updates env obj (da_db dao) (da_db dao')"
      using spec by simp
    obtain row new where row: "object_row (da_db dao) (o_ID obj) = Some row"
        "updated_row env (obj\<lparr>o_TypeID := norm_id (o_TypeID obj)\<rparr>) row new"
        "o_ParentID new \<noteq> None \<longrightarrow> (\<exists>p \<in> set (db_object (da_db dao)). o_ID p = o_ParentID new \<and> \<not> o_IsDeleted p)"
      using up unfolding only_updates_def by blast
    have forest: "forest (da_db dao)"
      using assms(2) by (simp add: well_formed_def)
    have len: "slice_len (o_ID obj) \<noteq> 0"
      using object_row_mem [OF row(1)] forest by (auto simp: forest_def row_ok_def)
    let ?p = "norm_id (o_ParentID obj)"
    have "o_ParentID new = ?p"
      using row(2) by (simp add: updated_row_def stored_row_def)
    then have parent: "?p \<noteq> None \<Longrightarrow> ?p \<in> o_ID ` set (db_object (da_db dao))"
      using row(3) by (metis imageI)
    have "?p = None \<or> ?p \<noteq> o_ID obj \<and> o_ID obj \<notin> above (da_db dao) ?p"
    proof (cases "?p = None")
      case False
      then obtain z where z: "z \<in> set (db_object (da_db dao))" "?p = o_ID z"
        using parent by auto
      then show ?thesis
        using ok False walk_exact [OF forest refl len z(1), of env] by (simp add: IsParentIDADescendent_def)
    qed simp
    then have "forest (da_db dao')"
      by (rule update_forest [OF up forest])
    then show ?thesis
      using update_good [OF up] assms(2) g by (simp add: well_formed_def)
  qed
qed

lemma step_delete:
  assumes "DeleteObject n env user obj explicit dao = Some (e, dao')" and "well_formed dao" and "env_ok env"
  shows "well_formed dao'"
proof -
  obtain d where d: "deleteObjectInTransaction n env user obj explicit dao = Some (e, d)" "dao' = rollback e dao d"
    using assms(1) by (auto simp: DeleteObject_def)
  have u: "unique_ids (da_db dao)"
    using assms(2) by (simp add: well_formed_def forest_def)
  obtain P where marks: "only_marks o_IsDeleted delete_effect P (da_db dao) (da_db d)"
    using deleting.scope [OF d(1) [unfolded delete_tree_op] assms(3)] u by auto
  have perms: "db_permission (da_db d) = db_permission (da_db dao)"
    using marks by (simp add: only_marks_def)
  have "grants_ok d"
    by (rule caches_grants [OF caches_tree_op [OF d(1) [unfolded delete_tree_op]] perms]) (use assms(2) in \<open>simp add: well_formed_def\<close>)
  moreover have "good o_IsExpunged (da_db d)"
  proof -
    have rows: "list_all2 (marked_row o_IsDeleted delete_effect P) (db_object (da_db dao)) (db_object (da_db d))"
      using marks by (simp add: only_marks_def)
    have "o_IsExpunged y \<longrightarrow> o_IsDeleted y" if y: "y \<in> set (db_object (da_db d))" for y
    proof -
      obtain x where "x \<in> set (db_object (da_db dao))" "marked_row o_IsDeleted delete_effect P x y"
        using list_all2_mem2 [OF rows y] by blast
      then show ?thesis
        using assms(2) by (auto simp: marked_row_def well_formed_def good_def list_all_iff)
    qed
    then show ?thesis
      using marks_forest [OF marks] assms(2) by (simp add: good_def list_all_iff well_formed_def forest_def)
  qed
  ultimately have "well_formed d"
    using marks_forest [OF marks] assms(2) by (simp add: well_formed_def)
  then show ?thesis
    using d(2) assms(2) by (cases e) (simp_all add: rollback_def well_formed_def grants_ok_def)
qed

lemma rollback_well_formed: "well_formed dao \<Longrightarrow> well_formed d \<Longrightarrow> well_formed (rollback e dao d)" if "caches dao d"
  using that by (cases e) (simp_all add: rollback_def well_formed_def grants_ok_def)

lemma expunge_tx_well_formed:
  assumes "expungeObjectInTransaction n env user obj explicit dao = Some (e, d)" and "well_formed dao" and "env_ok env"
  shows "well_formed d" and "caches dao d"
proof -
  have g: "good o_IsExpunged (da_db dao)"
    using assms(2) by (simp add: well_formed_def)
  obtain P where marks: "only_marks o_IsExpunged expunge_effect P (da_db dao) (da_db d)"
    using expunging.scope [OF assms(1) [unfolded expunge_tree_op] assms(3) g] by auto
  have perms: "db_permission (da_db d) = db_permission (da_db dao)"
    using marks by (simp add: only_marks_def)
  show c: "caches dao d"
    by (rule caches_tree_op [OF assms(1) [unfolded expunge_tree_op]])
  have "grants_ok d"
    by (rule caches_grants [OF c perms]) (use assms(2) in \<open>simp add: well_formed_def\<close>)
  then show "well_formed d"
    using marks_forest [OF marks] expunging.only_ok [OF marks g] assms(2) by (simp add: well_formed_def)
qed

lemma step_expunge:
  assumes "ExpungeObject n env user obj explicit dao = Some (e, dao')" and "well_formed dao" and "env_ok env"
  shows "well_formed dao'"
proof -
  obtain d where d: "expungeObjectInTransaction n env user (obj\<lparr>o_ModifiedBy := u_DistinguishedName user\<rparr>) explicit dao = Some (e, d)"
      "dao' = rollback e dao d"
    using assms(1) by (auto simp: ExpungeObject_def)
  show ?thesis
    unfolding d(2) using expunge_tx_well_formed [OF d(1) assms(2,3)] rollback_well_formed assms(2) by blast
qed

text \<open>Emptying the trash expunges one object after another.\<close>

lemma expunge_each_well_formed:
  assumes "env_ok env"
  shows "expunge_each n env user pn s rs expunged dao = Some (r, dao') \<Longrightarrow> well_formed dao \<Longrightarrow> well_formed dao' \<and> caches dao dao'"
proof (induction rs arbitrary: expunged dao)
  case (Cons x rs)
  obtain e d where run: "expungeObjectInTransaction n env user x True dao = Some (e, d)"
    using Cons.prems(1) by (auto split: option.splits)
  note wf = expunge_tx_well_formed [OF run Cons.prems(2) assms]
  show ?case
  proof (cases e)
    case (Some y)
    then show ?thesis
      using Cons.prems(1) run wf by auto
  next
    case None
    then obtain ex where "expunge_each n env user pn s rs ex d = Some (r, dao')"
      using Cons.prems(1) run by (auto simp: Let_def)
    then show ?thesis
      using Cons.IH wf caches_trans by blast
  qed
qed simp

lemma expunge_chunks_well_formed:
  assumes "env_ok env"
  shows "expunge_chunks m n env mine user s overall dao = Some (r, dao') \<Longrightarrow> well_formed dao \<Longrightarrow> well_formed dao'"
proof (induction m arbitrary: overall dao)
  case (Suc m)
  obtain ex e d where run: "expungeDeletedByUserInTransaction n env mine user 1 s dao = Some ((ex, e), d)"
    using Suc.prems(1) by (auto split: option.splits)
  obtain y d1 where page: "getTrashedObjectsByUserInTransaction env mine 1 s dao = (y, d1)"
    by (metis surj_pair)
  have d1: "caches dao d1" "da_db d1 = da_db dao"
    using page by (auto simp: getTrashedObjectsByUserInTransaction_def load_page_def Let_def split: prod.splits
        dest: caches_load_objects load_objects_db)
  then have wf1: "well_formed d1"
    using Suc.prems(2) by (auto simp: well_formed_def grants_ok_def caches_def)
  have wf: "well_formed d" "caches dao d"
    using run page expunge_each_well_formed [OF assms _ wf1] caches_trans [OF d1(1)]
    by (auto simp: expungeDeletedByUserInTransaction_def split: prod.splits)
  show ?case
  proof (cases e)
    case (Some x)
    then have "dao' = rollback (Some x) dao d"
      using Suc.prems(1) run by auto
    then show ?thesis
      using rollback_well_formed [OF wf(2) Suc.prems(2) wf(1)] by simp
  next
    case None
    then show ?thesis
      using Suc.prems(1) run wf(1) Suc.IH by (auto simp: Let_def split: if_splits)
  qed
qed simp

lemma empty_trash_well_formed:
  "ExpungeDeletedByUser m n env mine user s dao = Some (r, dao') \<Longrightarrow> well_formed dao \<Longrightarrow> env_ok env \<Longrightarrow> well_formed dao'"
  using expunge_chunks_well_formed by (auto simp: ExpungeDeletedByUser_def)

lemma anc_below_row:
  assumes "anc_below db t x" and "x \<in> set (db_object db)" and "unique_ids db"
  shows "\<not> o_IsExpunged x"
proof -
  obtain k where "(o_ID x, k) \<in> anc_rel db"
    using tranclD [OF assms(1)] by blast
  then obtain z where z: "(o_ID x, k) = (o_ID z, o_ParentID z)" "z \<in> set (db_object db)" "\<not> o_IsExpunged z"
    unfolding anc_rel_def mem_Collect_eq by (elim exE conjE)
  have "inj_on o_ID (set (db_object db))"
    using assms(3) by (simp add: unique_ids_def distinct_map)
  then have "z = x"
    using inj_onD [OF _ _ z(2) assms(2)] z(1) by (metis Pair_inject)
  then show ?thesis
    using z(3) by blast
qed

lemma get_plain: "getObjectInTransaction env i False c dao = (r, dao1) \<Longrightarrow> dao1 = dao"
  by (auto simp: getObjectInTransaction_def Let_def split: if_splits option.splits)

lemma undelete_cache:
  assumes "UndeleteObject n env obj dao = Some (r, dao')"
  shows "da_AcmGranteeCache dao' = da_AcmGranteeCache dao"
  using assms by (auto simp: UndeleteObject_def undeleteObjectInTransaction_def rollback_def
      split: if_splits sum.splits option.splits prod.splits dest!: get_plain)

lemma step_undelete:
  assumes "UndeleteObject n env obj dao = Some ((y, e), dao')" and "well_formed dao"
    and row: "object_row (da_db dao) (o_ID obj) = Some x" "\<not> o_IsExpunged x"
  shows "well_formed dao'"
proof -
  have forest: "forest (da_db dao)" and good: "good o_IsExpunged (da_db dao)" and g: "grants_ok dao"
    using assms(2) by (simp_all add: well_formed_def)
  have mem: "x \<in> set (db_object (da_db dao))" "o_ID x = o_ID obj"
    using object_row_mem [OF row(1)] by auto
  have "slice_len (o_ID obj) \<noteq> 0"
    using forest mem by (auto simp: forest_def row_ok_def)
  note spec = undelete_restores [OF assms(1) forest_ids [OF forest] this]
  note cache = undelete_cache [OF assms(1)]
  show ?thesis
  proof (cases e)
    case (Some m)
    then have "da_db dao' = da_db dao"
      using spec by simp
    then show ?thesis
      using cache g forest good by (simp add: well_formed_def grants_ok_def)
  next
    case None
    let ?P = "\<lambda>x. o_ID x = o_ID obj \<or> anc_below (da_db dao) (o_ID obj) x"
    have rel: "only_restores ?P (da_db dao) (da_db dao')"
      using spec None by simp
    have f: "forest (da_db dao')"
      by (rule restores_forest [OF rel forest])
    have rows: "list_all2 (restored_row ?P) (db_object (da_db dao)) (db_object (da_db dao'))"
      using rel by (simp add: only_restores_def)
    have u: "unique_ids (da_db dao)"
      using forest by (simp add: forest_def)
    have "o_IsExpunged z \<longrightarrow> o_IsDeleted z" if z: "z \<in> set (db_object (da_db dao'))" for z
    proof -
      obtain w where w: "w \<in> set (db_object (da_db dao))" "restored_row ?P w z"
        using list_all2_mem2 [OF rows z] by blast
      have "?P w \<Longrightarrow> \<not> o_IsExpunged w"
        using anc_below_row [OF _ w(1) u] unique_row [OF u w(1) _ row(1)] row(2) by blast
      moreover have "o_IsExpunged w \<longrightarrow> o_IsDeleted w"
        using good w(1) by (simp add: good_def list_all_iff)
      ultimately show ?thesis
        using w(2) unfolding restored_row_def by metis
    qed
    then have "good o_IsExpunged (da_db dao')"
      using f by (simp add: good_def list_all_iff forest_def)
    moreover have "grants_ok dao'"
      using cache g rel by (simp add: only_restores_def grants_ok_def)
    ultimately show ?thesis
      using f by (simp add: well_formed_def)
  qed
qed

lemma step_well_formed:
  assumes "store_step env dao dao'" and "well_formed dao" and "env_ok env" and "fresh_ok env"
  shows "well_formed dao'"
  using assms(1)
proof cases
  case (create obj r)
  then show ?thesis
    using step_create assms(2,4) by (metis surj_pair)
next
  case (update obj r)
  then show ?thesis
    using step_update assms(2) by (metis surj_pair)
next
  case (delete n user obj explicit e)
  then show ?thesis
    using step_delete assms(2,3) by blast
next
  case (expunge n user obj explicit e)
  then show ?thesis
    using step_expunge assms(2,3) by blast
next
  case (undelete n obj r x)
  then show ?thesis
    using step_undelete assms(2) by (metis surj_pair)
qed

text \<open>C14: whatever sequence of these steps runs, and however each of them ends: a creation, an update whose new parent
  is none or is neither the object nor one that the check before a move finds below it in the same state, a
  deletion, an expunge, or an undeletion of an object that is not expunged. The tables stay well formed, which
  is no more than this: identifiers are unique and not empty, every parent and type is a row, no object is its own
  ancestor, what is expunged is deleted, the grantee of every permission is a row, and the rows and the cache of
  grantees are under their own names. New identifiers are assumed new, and the orders of the queries
  to be permutations. The conditions on updates and undeletions are checks of the handlers; a check that
  runs before another move's update does not count, and then the forest is lost (\<open>interleaved_moves\<close> below).\<close>

theorem store_stays_well_formed:
  assumes "(store_step env)\<^sup>*\<^sup>* dao dao'" and "well_formed dao" and "env_ok env" and "fresh_ok env"
  shows "well_formed dao'"
  using assms(1)
proof induction
  case base
  show ?case
    by (rule assms(2))
next
  case (step y z)
  then show ?case
    using step_well_formed assms(3,4) by blast
qed

lemma max_fold: "x \<in> set xs \<Longrightarrow> (x::nat) \<le> fold max xs a"
proof (induction xs arbitrary: a)
  case (Cons y ys)
  have ge: "b \<le> fold max ys b" for b :: nat
  proof (induction ys arbitrary: b)
    case (Cons z zs)
    then show ?case
      by (simp add: le_trans [OF _ Cons.IH])
  qed simp
  show ?case
    using Cons ge [of "max y a"] by (auto intro: le_trans [OF max.cobounded1])
qed simp

lemma sample_fresh: "fresh_ok sample_env"
proof -
  have "replicate (fold max (map length ids) 0 + 1) 0 \<notin> set ids" for ids :: "bytes list"
  proof
    assume "replicate (fold max (map length ids) 0 + 1) 0 \<in> set ids"
    then have "fold max (map length ids) 0 + 1 \<le> fold max (map length ids) 0"
      using max_fold [of "fold max (map length ids) 0 + 1" "map length ids" 0] by (metis image_eqI length_replicate list.set_map)
    then show False
      by simp
  qed
  then show ?thesis
    by (simp add: fresh_ok_def sample_env_def)
qed

lemma sample_well_formed: "well_formed sample_dao"
proof -
  have "grants_ok sample_dao" "good o_IsExpunged sample_db"
    by (simp_all add: grants_ok_def keyed_def sample_dao_def sample_db_def sample_grant_def sample_row_def good_def
        unique_ids_def empty_object_def)
  then show ?thesis
    using sample_forest by (simp add: well_formed_def sample_dao_def)
qed

theorem store_stays_well_formed_witness:
  "\<exists>d1 d2. (store_step sample_env)\<^sup>*\<^sup>* sample_dao d2 \<and> d1 \<noteq> d2 \<and> store_step sample_env d1 d2 \<and> well_formed d2"
proof -
  let ?r = "DeleteObject 9 sample_env sample_user (sample_row 1 None) True sample_dao"
  obtain d1 where d1: "?r = Some (None, d1)" "map o_IsDeleted (db_object (da_db d1)) = [True, True, False]"
    using sample_delete by auto
  have "map_option (\<lambda>((x, e), d). (e, map o_IsDeleted (db_object (da_db d))))
      (UndeleteObject 5 sample_env (sample_row 1 None) (snd (the ?r))) = Some (None, [False, False, False])"
    by code_simp
  then obtain x d2 where d2: "UndeleteObject 5 sample_env (sample_row 1 None) d1 = Some ((x, None), d2)"
      "map o_IsDeleted (db_object (da_db d2)) = [False, False, False]"
    using d1 by auto
  have "map_option o_IsExpunged (object_row (da_db (snd (the ?r))) (Some [1])) = Some False"
    by code_simp
  then obtain row where row: "object_row (da_db d1) (o_ID (sample_row 1 None)) = Some row" "\<not> o_IsExpunged row"
    using d1 by (auto simp: sample_row_def)
  have s1: "store_step sample_env sample_dao d1"
    by (rule store_step.delete [OF d1(1)])
  have s2: "store_step sample_env d1 d2"
    by (rule store_step.undelete [OF d2(1) row])
  have steps: "(store_step sample_env)\<^sup>*\<^sup>* sample_dao d2"
    using s1 s2 by (meson rtranclp.rtrancl_refl rtranclp.rtrancl_into_rtrancl)
  have "well_formed d2"
    by (rule store_stays_well_formed [OF steps sample_well_formed sample_env_ok sample_fresh])
  moreover have "d1 \<noteq> d2"
    using d1(2) d2(2) by auto
  ultimately show ?thesis
    using steps s2 by blast
qed

subsection \<open>Moves that interleave\<close>

text \<open>Two folders at the root are moved into each other. Both checks run before either update: they let both pass,
  each update holds the current change token of its own row, and afterwards each folder lies above itself. From
  then on the check for circular references does not end on an object below them.\<close>

definition two_folders :: DataAccessLayer where
  "two_folders = sample_dao\<lparr>da_db := sample_db\<lparr>db_object := [sample_row 1 None, sample_row 2 None, sample_row 3 None]\<rparr>\<rparr>"

definition into :: "8 word \<Rightarrow> 8 word \<Rightarrow> ODObject" where
  "into a b = (sample_row a (Some [b]))\<lparr>o_ModifiedBy := ''cn=a'', o_Name := ''f'', o_RawAcm := ToNullString ''x''\<rparr>"

definition after_moves :: "DataAccessLayer" where
  "after_moves = (case UpdateObject sample_env (into 1 2) two_folders of
     Ok ((x, None), d1) \<Rightarrow> (case UpdateObject sample_env (into 2 1) d1 of Ok ((y, None), d2) \<Rightarrow> d2 | _ \<Rightarrow> two_folders)
   | _ \<Rightarrow> two_folders)"

lemma interleaved_moves:
  "IsParentIDADescendent sample_env two_folders (Some [1]) (Some [2]) = Some (False, None)"
  "IsParentIDADescendent sample_env two_folders (Some [2]) (Some [1]) = Some (False, None)"
  "map o_ParentID (db_object (da_db after_moves)) = [Some [2], Some [1], None]"
  "IsParentIDADescendent sample_env after_moves (Some [3]) (Some [1]) = None"
proof -
  show "IsParentIDADescendent sample_env two_folders (Some [1]) (Some [2]) = Some (False, None)"
    "IsParentIDADescendent sample_env two_folders (Some [2]) (Some [1]) = Some (False, None)"
    "map o_ParentID (db_object (da_db after_moves)) = [Some [2], Some [1], None]"
    by code_simp+
  have r: "snd (fst (getObjectInTransaction sample_env (Some [1]) False False after_moves)) = None"
      "o_ParentID (fst (fst (getObjectInTransaction sample_env (Some [1]) False False after_moves))) = Some [2]"
      "snd (fst (getObjectInTransaction sample_env (Some [2]) False False after_moves)) = None"
      "o_ParentID (fst (fst (getObjectInTransaction sample_env (Some [2]) False False after_moves))) = Some [1]"
    by code_simp+
  have "circle sample_env after_moves (Some [3]) {Some [1], Some [2]}"
    using r by (simp add: circle_def prod_eq_iff)
  then show "IsParentIDADescendent sample_env after_moves (Some [3]) (Some [1]) = None"
    by (rule circle_diverges) simp
qed

end
