(* ===== verification/Object_Get.thy ===== *)
theory Object_Get
  imports Object_Mapping Object_Stream Dao_Forest
begin

text \<open>
  \<open>server/getObject.go\<close>: the handler that gives the metadata of an object, with the chain of its parents as far as
  the caller may see them, and what the other handlers of objects share: \<open>dao.GetObject\<close>, \<open>dao.GetAcmGrantees\<close> and
  the names of the groups of the caller (\<open>server/moveObject.go\<close>). A handler gives an error or a response, with the
  store after it; \<open>None\<close> is a walk that never ends, and \<open>Panic\<close> ends the request. The events and audit records it
  publishes are not modelled.
\<close>

subsection \<open>Reading the store\<close>

definition GetObject :: "db_env \<Rightarrow> ODObject \<Rightarrow> bool \<Rightarrow> DataAccessLayer \<Rightarrow> (ODObject \<times> string option) \<times> DataAccessLayer" where
  "GetObject env obj loadProperties dao = getObjectInTransaction env (o_ID obj) True loadProperties dao"

fun GetAcmGrantees :: "string list \<Rightarrow> DataAccessLayer \<Rightarrow> (ODAcmGrantee list \<times> string option) \<times> DataAccessLayer" where
  "GetAcmGrantees [] dao = (([], None), dao)"
| "GetAcmGrantees (grantee # grantees) dao = (case getAcmGranteeInTransaction grantee dao of
     ((g, e), dao1) \<Rightarrow>
       (if e = None \<or> e = Some ErrNoRows then (case GetAcmGrantees grantees dao1 of
            ((gs, e'), dao2) \<Rightarrow> (((if e = None then g # gs else gs), e'), dao2))
        else (([], e), dao1)))"

definition getKnownResourceStringsFromUserGroups :: "string list option \<Rightarrow> DataAccessLayer \<Rightarrow> string list \<times> DataAccessLayer" where
  "getKnownResourceStringsFromUserGroups groups dao = (case groups of
     None \<Rightarrow> ([], dao)
   | Some gs \<Rightarrow> (case GetAcmGrantees gs dao of
        ((acmGrantees, Some e), dao1) \<Rightarrow> ([], dao1)
      | ((acmGrantees, None), dao1) \<Rightarrow> (map ResourceName acmGrantees, dao1)))"

subsection \<open>The handler\<close>

datatype object_response = ObjectResponse "json Object" | DeletedResponse "json DeletedObject"

definition isExpungedOrAnscestorDeletedErr :: "ODObject \<Rightarrow> AppError option" where
  "isExpungedOrAnscestorDeletedErr obj =
     (if o_IsExpunged obj then Some (NewAppError 410 ''expunged or ancestor deleted'')
      else if o_IsAncestorDeleted obj then Some (NewAppError 409 ''expunged or ancestor deleted'') else None)"

definition getObjectDAOError :: "string \<Rightarrow> AppError" where
  "getObjectDAOError e = (if e = ErrNoRows then NewAppError 404 ''Not found''
     else if e = ErrMissingID then NewAppError 400 ''Must provide ID field''
     else NewAppError 500 ''Error retrieving object'')"

text \<open>The parents are looked at from the nearest one up, until one that the caller may not see.\<close>

definition may_see :: "stream_env \<Rightarrow> ODObject \<Rightarrow> bool" where
  "may_see env p \<longleftrightarrow> isUserAllowedToRead (se_sha env) (se_masterKey env) (se_caller env) (se_groups env) p \<and> acm_err env p = None"

definition redactParents :: "stream_env \<Rightarrow> ODObject list \<Rightarrow> ODObject list" where
  "redactParents env parents = rev (takeWhile (may_see env) (rev parents))"

definition errOnDeletedParents :: "ODObject list \<Rightarrow> AppError option" where
  "errOnDeletedParents parents = (if list_ex o_IsDeleted parents then Some (NewAppError 409 '''') else None)"

definition breadcrumbsFromParents :: "ODObject list \<Rightarrow> Breadcrumb list" where
  "breadcrumbsFromParents parents = map (\<lambda>p. \<lparr>bc_ID = hex_encode (slice_bytes (o_ID p)),
     bc_ParentID = hex_encode (slice_bytes (o_ParentID p)), bc_Name = o_Name p\<rparr>) parents"

text \<open>The answer with the object and its breadcrumbs, once the object was read or changed.\<close>

definition with_crumbs :: "stream_env \<Rightarrow> db_env \<Rightarrow> ODObject \<Rightarrow> DataAccessLayer
    \<Rightarrow> ((AppError + object_response) \<times> DataAccessLayer) res option" where
  "with_crumbs env db obj dao = (case GetParents db obj dao of
     None \<Rightarrow> None
   | Some (parents, dao1) \<Rightarrow>
      (case errOnDeletedParents parents of
         Some herr \<Rightarrow> Some (Ok (Inl herr, dao1))
       | None \<Rightarrow> (case MapODObjectToObject (se_unm env) obj of
            None \<Rightarrow> Some Panic
          | Some x \<Rightarrow> Some (Ok (Inr (ObjectResponse (WithBreadcrumbs (WithCallerPermission (se_caller env) x)
              (breadcrumbsFromParents (redactParents env parents)))), dao1)))))"

definition getObject :: "stream_env \<Rightarrow> db_env \<Rightarrow> string option \<Rightarrow> DataAccessLayer
    \<Rightarrow> ((AppError + object_response) \<times> DataAccessLayer) res option" where
  "getObject env db captured dao = (case parseGetObjectRequest captured of
     Inl e \<Rightarrow> Some (Ok (Inl (NewAppError 400 ''Error parsing URI''), dao))
   | Inr requestObject \<Rightarrow> (case GetObject db requestObject True dao of
        ((_, Some e), dao1) \<Rightarrow> Some (Ok (Inl (getObjectDAOError e), dao1))
      | ((dbObject, None), dao1) \<Rightarrow>
         (if \<not> isUserAllowedToRead (se_sha env) (se_masterKey env) (se_caller env) (se_groups env) dbObject
          then Some (Ok (Inl (NewAppError 403 ''Forbidden - User does not have permission to read/view this object''), dao1))
          else (case acm_err env dbObject of
              Some herr \<Rightarrow> Some (Ok (Inl herr, dao1))
            | None \<Rightarrow> (case isExpungedOrAnscestorDeletedErr dbObject of
                Some herr \<Rightarrow> Some (Ok (Inl herr, dao1))
              | None \<Rightarrow>
                 (if o_IsDeleted dbObject
                  then (case MapODObjectToDeletedObject (se_unm env) dbObject of
                      None \<Rightarrow> Some Panic
                    | Some x \<Rightarrow> Some (Ok (Inr (DeletedResponse (deleted_WithCallerPermission (se_caller env) x)), dao1)))
                  else with_crumbs env db dbObject dao1))))))"

subsection \<open>Reading changes no table\<close>

definition reads :: "DataAccessLayer \<Rightarrow> DataAccessLayer \<Rightarrow> bool" where
  "reads a b \<longleftrightarrow> da_db b = da_db a \<and> caches a b"

lemma reads_refl [simp]: "reads a a"
  by (simp add: reads_def)

lemma reads_trans: "reads a b \<Longrightarrow> reads b c \<Longrightarrow> reads a c"
  using caches_trans by (auto simp: reads_def)

lemma reads_well_formed: "reads a b \<Longrightarrow> well_formed a \<Longrightarrow> well_formed b"
  by (auto simp: reads_def well_formed_def grants_ok_def caches_def)

lemma getObject_reads: "getObjectInTransaction db i b c dao = (r, dao') \<Longrightarrow> reads dao dao'"
  by (simp add: reads_def getObject_dbD caches_getObject)

lemma GetObject_reads: "GetObject db obj b dao = (r, dao') \<Longrightarrow> reads dao dao'"
  by (simp add: GetObject_def getObject_reads)

lemma getAcmGrantee_reads: "getAcmGranteeInTransaction k dao = (r, dao') \<Longrightarrow> reads dao dao'"
  using caches_getAcmGrantee [of k dao r dao']
  by (auto simp: reads_def getAcmGranteeInTransaction_def split: option.splits)

lemma GetAcmGrantees_reads: "GetAcmGrantees gs dao = (r, dao') \<Longrightarrow> reads dao dao'"
proof (induction gs arbitrary: dao r dao')
  case (Cons g gs)
  obtain x e dao1 where get: "getAcmGranteeInTransaction g dao = ((x, e), dao1)"
    by (metis surj_pair)
  obtain ys e' dao2 where rest: "GetAcmGrantees gs dao1 = ((ys, e'), dao2)"
    by (metis surj_pair)
  show ?case
    using Cons.prems Cons.IH [OF rest] getAcmGrantee_reads [OF get] reads_trans
    by (auto simp: get rest split: if_splits)
qed simp

lemma known_reads: "getKnownResourceStringsFromUserGroups groups dao = (r, dao') \<Longrightarrow> reads dao dao'"
  by (auto simp: getKnownResourceStringsFromUserGroups_def split: option.splits prod.splits dest: GetAcmGrantees_reads)

lemma parents_from_reads: "parents_from db i acc dao = Some (r, dao') \<Longrightarrow> reads dao dao'"
proof -
  assume run: "parents_from db i acc dao = Some (r, dao')"
  have "reads dao (snd y)" if "parents_from db i acc dao = Some y" for y
  proof (rule parents_from.raw_induct [OF _ that, of "\<lambda>env i acc dao y. reads dao (snd y)"])
    fix f :: "db_env \<Rightarrow> slice \<Rightarrow> ODObject list \<Rightarrow> DataAccessLayer \<Rightarrow> ((ODObject list \<times> string option) \<times> DataAccessLayer) option"
      and env i acc dao y
    assume IH: "\<And>env i acc dao y. f env i acc dao = Some y \<Longrightarrow> reads dao (snd y)"
    assume step: "(case getObjectInTransaction env i True False dao of
        ((_, Some e), dao1) \<Rightarrow> Some (([], Some e), dao1)
      | ((parent, None), dao1) \<Rightarrow>
          (if slice_len (o_ParentID parent) = 0 then Some ((parent # acc, None), dao1)
           else f env (o_ParentID parent) (parent # acc) dao1)) = Some y"
    obtain parent e dao1 where get: "getObjectInTransaction env i True False dao = ((parent, e), dao1)"
      by (metis surj_pair)
    show "reads dao (snd y)"
    proof (cases "e = None \<and> slice_len (o_ParentID parent) \<noteq> 0")
      case True
      then have "f env (o_ParentID parent) (parent # acc) dao1 = Some y"
        using step by (simp add: get)
      then show ?thesis
        using IH getObject_reads [OF get] reads_trans by blast
    next
      case False
      then show ?thesis
        using step getObject_reads [OF get] by (cases e) (auto simp: get)
    qed
  qed
  then show ?thesis
    using run by auto
qed

lemma reads_rollback: "reads a b \<Longrightarrow> reads a (rollback e a b)"
  by (simp add: reads_def caches_rollback) (simp add: rollback_def)

lemma GetParents_reads: "GetParents db child dao = Some (ps, dao') \<Longrightarrow> reads dao dao'"
  by (auto simp: GetParents_def getParentsInTransaction_def split: if_splits intro: reads_rollback parents_from_reads)

lemma with_crumbs_cases:
  assumes "with_crumbs env db obj dao = Some (Ok (r, dao'))"
  obtains parents where "GetParents db obj dao = Some (parents, dao')"
    and "(\<exists>herr. r = Inl herr) \<or> (errOnDeletedParents parents = None \<and> (\<exists>x. MapODObjectToObject (se_unm env) obj = Some x \<and>
      r = Inr (ObjectResponse (WithBreadcrumbs (WithCallerPermission (se_caller env) x)
              (breadcrumbsFromParents (redactParents env parents))))))"
  using assms by (auto simp: with_crumbs_def split: option.splits prod.splits)

lemma with_crumbs_reads: "with_crumbs env db obj dao = Some (Ok (r, dao')) \<Longrightarrow> reads dao dao'"
  by (erule with_crumbs_cases) (rule GetParents_reads)

lemma getObject_cases:
  assumes "getObject env db captured dao = Some (Ok (r, dao'))"
  obtains (request) "dao' = dao" and "\<exists>herr. r = Inl herr"
  | (refused) requestObject y dao1 where "parseGetObjectRequest captured = Inr requestObject"
      and "GetObject db requestObject True dao = (y, dao1)" and "dao' = dao1" and "\<exists>herr. r = Inl herr"
  | (trash) requestObject obj dao1 x where "parseGetObjectRequest captured = Inr requestObject"
      and "GetObject db requestObject True dao = ((obj, None), dao1)" and "dao' = dao1" and "may_see env obj"
      and "isExpungedOrAnscestorDeletedErr obj = None" and "o_IsDeleted obj" and "MapODObjectToDeletedObject (se_unm env) obj = Some x"
      and "r = Inr (DeletedResponse (deleted_WithCallerPermission (se_caller env) x))"
  | (live) requestObject obj dao1 where "parseGetObjectRequest captured = Inr requestObject"
      and "GetObject db requestObject True dao = ((obj, None), dao1)" and "may_see env obj"
      and "isExpungedOrAnscestorDeletedErr obj = None" and "\<not> o_IsDeleted obj"
      and "with_crumbs env db obj dao1 = Some (Ok (r, dao'))"
proof (cases "parseGetObjectRequest captured")
  case (Inl e)
  then show ?thesis
    using assms by (intro request) (auto simp: getObject_def)
next
  case (Inr requestObject)
  obtain obj e dao1 where get: "GetObject db requestObject True dao = ((obj, e), dao1)"
    by (metis surj_pair)
  show ?thesis
  proof (cases "e = None \<and> may_see env obj \<and> isExpungedOrAnscestorDeletedErr obj = None")
    case False
    then have "dao' = dao1 \<and> (\<exists>herr. r = Inl herr)"
      using assms by (cases e) (auto simp: getObject_def Inr get may_see_def split: if_splits option.splits)
    then show ?thesis
      using refused [OF Inr get] by blast
  next
    case True
    then show ?thesis
      using assms get trash [OF Inr] live [OF Inr] by (auto simp: getObject_def Inr may_see_def split: if_splits option.splits)
  qed
qed

lemma getObject_handler_reads: "getObject env db captured dao = Some (Ok (r, dao')) \<Longrightarrow> reads dao dao'"
  by (erule getObject_cases) (auto dest: GetObject_reads with_crumbs_reads intro: reads_trans)

subsection \<open>What a client is shown\<close>

lemma GetParents_chain:
  assumes "forest (da_db dao)" and "granted_rows (da_db dao)" and "env_ok db"
    and "x \<in> set (db_object (da_db dao))" and "o_ParentID obj = o_ParentID x" and "GetParents db obj dao = Some (ps, dao')"
  shows "path_up (da_db dao) (o_ParentID obj) (rev ps)"
proof (cases "slice_len (o_ParentID obj) = 0")
  case True
  then show ?thesis
    using assms(6) by (simp add: GetParents_def)
next
  case False
  then obtain p where p: "p \<in> set (db_object (da_db dao))" "o_ID p = o_ParentID obj"
    using assms(1,4,5) by (auto simp: forest_def row_ok_def)
  show ?thesis
    using parents_from_exact [OF assms(1-3) p(1) refl, of "[]"] p(2) False assms(6)
    by (auto simp: GetParents_def getParentsInTransaction_def rollback_def)
qed

text \<open>A chain that goes up from an object, and the part of it the caller may see.\<close>

lemma redactParents_spec:
  "\<exists>hidden. parents = hidden @ redactParents env parents \<and> (hidden = [] \<or> \<not> may_see env (last hidden)) \<and>
    list_all (may_see env) (redactParents env parents)"
proof -
  have "rev parents = takeWhile (may_see env) (rev parents) @ dropWhile (may_see env) (rev parents)"
    by simp
  then have "parents = rev (dropWhile (may_see env) (rev parents)) @ redactParents env parents"
    unfolding redactParents_def by (metis rev_append rev_rev_ident)
  moreover have "rev (dropWhile (may_see env) (rev parents)) = [] \<or> \<not> may_see env (last (rev (dropWhile (may_see env) (rev parents))))"
    by (metis hd_dropWhile last_rev rev_is_Nil_conv)
  moreover have "list_all (may_see env) (redactParents env parents)"
    by (auto simp: redactParents_def list_all_iff dest: set_takeWhileD)
  ultimately show ?thesis
    by blast
qed


text \<open>A folder with an object in it, both signed for the caller of the samples.\<close>

definition sample_signed :: "8 word \<Rightarrow> ODObjectPermission" where
  "sample_signed k = empty_permission\<lparr>p_ID := Some [k], p_AcmShare := ''s'', p_ObjectID := Some [k], p_Grantee := ''cna'', p_AllowCreate := True,
     p_AllowRead := True, p_AllowUpdate := True, p_AllowDelete := True, p_EncryptKey := replicate 32 5, p_PermissionMAC := replicate 32 0\<rparr>"

definition sample_owned :: "8 word \<Rightarrow> slice \<Rightarrow> ODObject" where
  "sample_owned k parent = (sample_row k parent)\<lparr>o_Name := ''n'', o_OwnedBy := ToNullString ''user/cn=a'', o_RawAcm := ToNullString ''x''\<rparr>"

definition signed_dao :: DataAccessLayer where
  "signed_dao = \<lparr>da_db = sample_db\<lparr>db_object := [sample_owned 1 None, sample_owned 2 (Some [1]), sample_owned 3 None],
       db_permission := [sample_signed 1, sample_signed 2, sample_signed 3],
       db_grantee := [(''cna'', empty_grantee\<lparr>g_Grantee := ''cna'', g_DisplayName := ToNullString ''a'',
         g_UserDistinguishedName := ToNullString ''cn=a''\<rparr>)]\<rparr>, da_AcmGranteeCache = []\<rparr>"

definition sample_stream :: stream_env where
  "sample_stream = \<lparr>se_sha = sample_sha, se_masterKey = ''k'', se_caller = sample_caller, se_groups = [],
     se_service = Some sample_service, se_unm = (\<lambda>s. None)\<rparr>"

lemma signed_well_formed: "well_formed signed_dao"
proof -
  let ?db = "da_db signed_dao"
  have "map (\<lambda>x. (o_ID x, o_ParentID x)) (filter (\<lambda>x. slice_len (o_ParentID x) \<noteq> 0) (db_object ?db)) = [(Some [2], Some [1])]"
    by code_simp
  then have rel: "parent_rel ?db = {(Some [2], Some [1])}"
    by (simp add: parent_rel_list)
  have "acyclic (parent_rel ?db)"
    unfolding rel by (simp add: acyclic_insert) (simp add: acyclic_def)
  moreover have "unique_ids ?db"
    by code_simp
  moreover have "\<forall>x \<in> set (db_object ?db). row_ok ?db x"
    by (simp add: signed_dao_def sample_db_def sample_owned_def sample_row_def row_ok_def type_row_def empty_object_def) blast
  moreover have "good o_IsExpunged ?db"
    by (simp add: signed_dao_def sample_db_def sample_owned_def sample_row_def good_def unique_ids_def empty_object_def)
  moreover have "grants_ok signed_dao"
    by (simp add: grants_ok_def keyed_def signed_dao_def sample_db_def sample_signed_def)
  ultimately show ?thesis
    by (simp add: well_formed_def forest_def)
qed

lemma sample_shown: "case getObject sample_stream sample_env (Some ''02'') signed_dao of
    Some (Ok (Inr (ObjectResponse x), dao')) \<Rightarrow> map bc_Name (ob_Breadcrumbs x) = [''n''] | _ \<Rightarrow> False"
  by code_simp

lemma shown_case:
  assumes "case r of Some (Ok (Inr (ObjectResponse x), d)) \<Rightarrow> P x d | _ \<Rightarrow> False"
  shows "\<exists>x d. r = Some (Ok (Inr (ObjectResponse x), d)) \<and> P x d"
proof -
  obtain a d where r: "r = Some (Ok (a, d))"
    using assms by (auto split: option.splits res.splits)
  obtain y where a: "a = Inr y"
    using assms by (cases a) (simp_all add: r)
  show ?thesis
    using assms by (cases y) (simp_all add: r a)
qed

text \<open>The two objects of the folder, and one of them in the trash.\<close>

definition trashed_dao :: DataAccessLayer where
  "trashed_dao = signed_dao\<lparr>da_db := (da_db signed_dao)\<lparr>db_object := [sample_owned 1 None, (sample_owned 2 (Some [1]))\<lparr>o_IsDeleted := True\<rparr>,
     sample_owned 3 None]\<rparr>\<rparr>"

lemma sample_shown_trash: "case getObject sample_stream sample_env (Some ''02'') trashed_dao of
    Some (Ok (Inr (DeletedResponse x), dao')) \<Rightarrow> True | _ \<Rightarrow> False"
  by code_simp


end
