(* ===== verification/Object_Move.thy ===== *)
theory Object_Move
  imports Object_Get
begin

text \<open>
  \<open>server/moveObject.go\<close> and \<open>server/doBulkMove.go\<close>: moving one object, or each of a list, below another parent.
  The error of a step is kept apart from its code and its message, as \<open>moveObjectRaw\<close> does: the handler of one object
  tests both, the bulk handler only the error.
\<close>

subsection \<open>Moving one object\<close>

definition forbidden_move :: "nat \<Rightarrow> string \<Rightarrow> nat \<times> string \<times> string option" where
  "forbidden_move code msg = (code, msg, Some ''Forbidden'')"

text \<open>The target: it is read, the caller may create in it, and it is neither the object nor below it. The test whether
  the target is deleted looks at the request, which never is.\<close>

definition check_target :: "stream_env \<Rightarrow> db_env \<Rightarrow> ODObject \<Rightarrow> DataAccessLayer
    \<Rightarrow> ((nat \<times> string \<times> string option) option \<times> DataAccessLayer) option" where
  "check_target env db requestObject dao =
     (let targetParent = empty_object\<lparr>o_ID := o_ParentID requestObject\<rparr> in
      case GetObject db targetParent False dao of
        ((_, Some e), dao1) \<Rightarrow> Some (Some (400, ''Error retrieving parent to move object into'', Some e), dao1)
      | ((dbParent, None), dao1) \<Rightarrow>
         (if \<not> isUserAllowedToCreate (se_sha env) (se_masterKey env) (se_caller env) (se_groups env) dbParent
          then Some (Some (forbidden_move 403 ''Forbidden - User does not have permission to move this object to target''), dao1)
          else if o_IsDeleted targetParent
          then (if o_IsExpunged targetParent
                then Some (Some (forbidden_move 410 ''Unable to move object into an object that does not exist''), dao1)
                else Some (Some (forbidden_move 400 ''Unable to move object into an object that is deleted''), dao1))
          else if slice_bytes (o_ParentID requestObject) = slice_bytes (o_ID requestObject)
          then Some (Some (400, ''ParentID cannot be set to the ID of the object. Circular references are not allowed.'', None), dao1)
          else (case IsParentIDADescendent db dao1 (o_ID requestObject) (o_ParentID requestObject) of
              None \<Rightarrow> None
            | Some (_, Some e) \<Rightarrow> Some (Some (500, ''Error retrieving ancestor to check for circular references'', Some e), dao1)
            | Some (circular, None) \<Rightarrow>
                if circular
                then Some (Some (forbidden_move 400 ''ParentID cannot be set to the value specified as would result in a circular reference''), dao1)
                else Some (None, dao1))))"

text \<open>What must hold of the object itself. The second case of the state is never reached.\<close>

definition check_movable :: "stream_env \<Rightarrow> string list \<Rightarrow> ODObject \<Rightarrow> ODObject \<Rightarrow> (nat \<times> string \<times> string option) option" where
  "check_movable env resourceStrings requestObject dbObject =
     (if \<not> isUserAllowedToUpdate (se_sha env) (se_masterKey env) (se_caller env) (se_groups env) dbObject
      then Some (forbidden_move 403 ''Forbidden - User does not have permission to update this object'')
      else if \<not> aacIsUserOwner (DistinguishedName (se_caller env)) resourceStrings (ns_String (o_OwnedBy dbObject))
      then Some (forbidden_move 403 ''Forbidden - User must be an object owner to move the object'')
      else if o_IsDeleted dbObject
      then (if o_IsExpunged dbObject then Some (forbidden_move 410 ''The object no longer exists.'')
            else if o_IsAncestorDeleted dbObject \<and> \<not> o_IsDeleted dbObject
            then Some (forbidden_move 400 ''The object cannot be modified because an ancestor is deleted.'')
            else Some (forbidden_move 400 ''The object is currently in the trash. Use removeObjectFromTrash to restore it''))
      else if o_ChangeToken requestObject \<noteq> o_ChangeToken dbObject
      then Some (400, ''ChangeToken does not match expected value. Object may have been changed by another request.'',
        Some ''Precondition required: ChangeToken does not match expected value'')
      else None)"

text \<open>The errors after the update have no cause.\<close>

definition move_result :: "ODObject \<Rightarrow> string option \<Rightarrow> ODObject \<Rightarrow> nat \<times> string \<times> string option" where
  "move_result requestObject e dbObject =
     (if e \<noteq> None then (500, ''Error saving object in new location'', None)
      else if o_ChangeCount dbObject \<le> o_ChangeCount requestObject
      then (500, ''ChangeCount didn'' @ [CHR 0x27] @ ''t update when processing move request'', None)
      else if o_ChangeToken requestObject = o_ChangeToken dbObject
      then (500, ''ChangeToken didn'' @ [CHR 0x27] @ ''t update when processing move request'', None)
      else (0, '''', None))"

text \<open>The parent that is set: when it does not differ from the present one, the object of the store stands for the
  request, its change token included.\<close>

definition moveObjectRaw :: "stream_env \<Rightarrow> db_env \<Rightarrow> string list \<Rightarrow> ODObject \<Rightarrow> ODObject \<Rightarrow> DataAccessLayer
    \<Rightarrow> (((nat \<times> string \<times> string option) \<times> ODObject) \<times> DataAccessLayer) res option" where
  "moveObjectRaw env db resourceStrings requestObject0 dbObject dao =
     (let requestObject1 = requestObject0\<lparr>o_ChangeCount := o_ChangeCount dbObject\<rparr> in
      case check_movable env resourceStrings requestObject1 dbObject of
        Some herr \<Rightarrow> Some (Ok ((herr, dbObject), dao))
      | None \<Rightarrow>
         (let noop = (slice_bytes (o_ParentID requestObject1) = slice_bytes (o_ParentID dbObject));
              requestObject = (if noop then dbObject else requestObject1) in
          case (if \<not> noop \<and> slice_len (o_ParentID requestObject) > 0 then check_target env db requestObject dao else Some (None, dao)) of
            None \<Rightarrow> None
          | Some (Some herr, dao1) \<Rightarrow> Some (Ok ((herr, dbObject), dao1))
          | Some (None, dao1) \<Rightarrow>
              Some (bind_res (UpdateObject db (dbObject\<lparr>o_ModifiedBy := DistinguishedName (se_caller env),
                  o_ParentID := o_ParentID requestObject\<rparr>) dao1) (\<lambda>((dbObject', e), dao2).
                Ok ((move_result requestObject e dbObject', dbObject'), dao2)))))"

text \<open>The body is decoded into a request; \<open>None\<close> is an error of the decoder. The groups of the route are named.\<close>

definition parseMoveObjectRequestAsJSON :: "MoveObjectRequest option \<Rightarrow> (string \<Rightarrow> string) option \<Rightarrow> string + ODObject" where
  "parseMoveObjectRequestAsJSON body captured = (case body of
     None \<Rightarrow> Inl ''decode''
   | Some jsonObject \<Rightarrow> (case captured of
        None \<Rightarrow> Inl ''Could not get capture groups''
      | Some c \<Rightarrow>
         (if c ''objectId'' = '''' then Inl ''Could not extract ObjectID from URI''
          else if hex_decode (c ''objectId'') = None then Inl ''Invalid ObjectID in URI''
          else (let jsonObject1 = jsonObject\<lparr>mq_ID := c ''objectId''\<rparr> in
            if length (c ''folderId'') > 0
            then (if hex_decode (c ''folderId'') = None then Inl ''Invalid folderId in URI''
                  else MapMoveObjectRequestToODObject (jsonObject1\<lparr>mq_ParentID := c ''folderId''\<rparr>))
            else MapMoveObjectRequestToODObject jsonObject1))))"

definition moveObject :: "stream_env \<Rightarrow> db_env \<Rightarrow> string list option \<Rightarrow> bool \<Rightarrow> MoveObjectRequest option \<Rightarrow> (string \<Rightarrow> string) option
    \<Rightarrow> DataAccessLayer \<Rightarrow> ((AppError + object_response) \<times> DataAccessLayer) res option" where
  "moveObject env db groups is_json body captured dao =
     (if \<not> is_json then Some (Ok (Inl (NewAppError 400 ''Requires Content-Type: application/json''), dao))
      else (case parseMoveObjectRequestAsJSON body captured of
          Inl e \<Rightarrow> Some (Ok (Inl (NewAppError 400 ''Error parsing JSON''), dao))
        | Inr requestObject \<Rightarrow> (case GetObject db requestObject True dao of
            ((_, Some e), dao1) \<Rightarrow> Some (Ok (Inl (NewAppError 500 ''Error retrieving object''), dao1))
          | ((dbObject, None), dao1) \<Rightarrow> (case getKnownResourceStringsFromUserGroups groups dao1 of
              (resourceStrings, dao2) \<Rightarrow> (case moveObjectRaw env db resourceStrings requestObject dbObject dao2 of
                None \<Rightarrow> None
              | Some Panic \<Rightarrow> Some Panic | Some (Fail e) \<Rightarrow> Some (Fail e)
              | Some (Ok (((code, msg, errCause), dbObject'), dao3)) \<Rightarrow>
                  if errCause \<noteq> None \<or> msg \<noteq> '''' then Some (Ok (Inl (NewAppError code msg), dao3))
                  else with_crumbs env db dbObject' dao3)))))"

subsection \<open>Moving many\<close>

record ObjectError =
  oe_ObjectID :: string
  oe_Error :: string
  oe_Msg :: string
  oe_Code :: nat

text \<open>One request of the list: its entry in the answer. The walks and panics are those of one move; the object is
  mapped for the event that is published.\<close>

definition bulk_move_one :: "stream_env \<Rightarrow> db_env \<Rightarrow> string list option \<Rightarrow> MoveObjectRequest \<Rightarrow> DataAccessLayer
    \<Rightarrow> (ObjectError \<times> DataAccessLayer) res option" where
  "bulk_move_one env db groups q dao =
     (let answer = (\<lambda>e msg code d. Some (Ok (\<lparr>oe_ObjectID = mq_ID q, oe_Error = e, oe_Msg = msg, oe_Code = code\<rparr>, d))) in
      case hex_decode (mq_ID q) of
        None \<Rightarrow> answer ''encoding/hex'' ''Cannot decode object id'' 400 dao
      | Some oid \<Rightarrow> (case hex_decode (mq_ParentID q) of
          None \<Rightarrow> answer ''encoding/hex'' ''Cannot decode object parent id'' 400 dao
        | Some parentid \<Rightarrow>
           (let requestObject = empty_object\<lparr>o_ID := Some oid, o_ChangeToken := mq_ChangeToken q, o_ParentID := Some parentid\<rparr> in
            case GetObject db requestObject True dao of
              ((_, Some e), dao1) \<Rightarrow> answer e ''Error retrieving object'' 400 dao1
            | ((dbObject, None), dao1) \<Rightarrow> (case getKnownResourceStringsFromUserGroups groups dao1 of
                (resourceStrings, dao2) \<Rightarrow> (case moveObjectRaw env db resourceStrings requestObject dbObject dao2 of
                  None \<Rightarrow> None
                | Some Panic \<Rightarrow> Some Panic | Some (Fail e) \<Rightarrow> Some (Fail e)
                | Some (Ok (((code, msg, Some e), dbObject'), dao3)) \<Rightarrow> answer e msg code dao3
                | Some (Ok (((code, msg, None), dbObject'), dao3)) \<Rightarrow>
                    if MapODObjectToObject (se_unm env) dbObject' = None then Some Panic else answer '''' '''' 200 dao3)))))"

fun bulk_moves :: "stream_env \<Rightarrow> db_env \<Rightarrow> string list option \<Rightarrow> MoveObjectRequest list \<Rightarrow> DataAccessLayer
    \<Rightarrow> (ObjectError list \<times> DataAccessLayer) res option" where
  "bulk_moves env db groups [] dao = Some (Ok ([], dao))"
| "bulk_moves env db groups (q # qs) dao = (case bulk_move_one env db groups q dao of
     None \<Rightarrow> None | Some Panic \<Rightarrow> Some Panic | Some (Fail e) \<Rightarrow> Some (Fail e)
   | Some (Ok (r, dao1)) \<Rightarrow> map_option (\<lambda>x. bind_res x (\<lambda>(rs, dao2). Ok (r # rs, dao2))) (bulk_moves env db groups qs dao1))"

text \<open>The body is read and then parsed as a list of requests.\<close>

definition doBulkMove :: "stream_env \<Rightarrow> db_env \<Rightarrow> string list option \<Rightarrow> 'b option \<Rightarrow> ('b \<Rightarrow> MoveObjectRequest list option) \<Rightarrow> DataAccessLayer
    \<Rightarrow> ((AppError + ObjectError list) \<times> DataAccessLayer) res option" where
  "doBulkMove env db groups body parse dao = (case body of
     None \<Rightarrow> Some (Ok (Inl (NewAppError 400 ''Cannot read list of IDs''), dao))
   | Some b \<Rightarrow> (case parse b of
        None \<Rightarrow> Some (Ok (Inl (NewAppError 400 ''Cannot parse list of IDs''), dao))
      | Some objects \<Rightarrow> map_option (\<lambda>x. bind_res x (\<lambda>(rs, dao1). Ok (Inr rs, dao1))) (bulk_moves env db groups objects dao)))"

subsection \<open>What a move does\<close>

lemma check_target_cases:
  assumes "check_target env db req dao = Some (r, dao')"
  shows "reads dao dao' \<and> (\<forall>herr. r = Some herr \<longrightarrow> fst (snd herr) \<noteq> '''') \<and>
    (r = None \<longrightarrow> (\<exists>target. GetObject db (empty_object\<lparr>o_ID := o_ParentID req\<rparr>) False dao = ((target, None), dao') \<and>
      isUserAllowedToCreate (se_sha env) (se_masterKey env) (se_caller env) (se_groups env) target \<and>
      slice_bytes (o_ParentID req) \<noteq> slice_bytes (o_ID req) \<and>
      IsParentIDADescendent db dao' (o_ID req) (o_ParentID req) = Some (False, None)))"
proof -
  obtain target e dao1 where get: "GetObject db (empty_object\<lparr>o_ID := o_ParentID req\<rparr>) False dao = ((target, e), dao1)"
    by (metis surj_pair)
  note reads = GetObject_reads [OF get]
  show ?thesis
  proof (cases e)
    case (Some x)
    then have "Some (Some (400, ''Error retrieving parent to move object into'', Some x), dao1) = Some (r, dao')"
      using assms get by (simp add: check_target_def)
    then show ?thesis
      using reads by auto
  next
    case None
    let ?create = "isUserAllowedToCreate (se_sha env) (se_masterKey env) (se_caller env) (se_groups env) target"
    have live: "\<not> o_IsDeleted (empty_object\<lparr>o_ID := o_ParentID req\<rparr>)"
      by (simp add: empty_object_def)
    show ?thesis
    proof (cases "?create \<and> slice_bytes (o_ParentID req) \<noteq> slice_bytes (o_ID req)")
      case False
      then have "dao' = dao1 \<and> (\<exists>herr. r = Some herr \<and> fst (snd herr) \<noteq> '''')"
        using assms get None live by (auto simp: check_target_def Let_def forbidden_move_def split: if_splits)
      then show ?thesis
        using reads by auto
    next
      case True
      then have run: "(case IsParentIDADescendent db dao1 (o_ID req) (o_ParentID req) of
              None \<Rightarrow> None
            | Some (_, Some e) \<Rightarrow> Some (Some (500, ''Error retrieving ancestor to check for circular references'', Some e), dao1)
            | Some (circular, None) \<Rightarrow>
                if circular
                then Some (Some (forbidden_move 400 ''ParentID cannot be set to the value specified as would result in a circular reference''), dao1)
                else Some (None, dao1)) = Some (r, dao')"
        using assms get None live by (simp add: check_target_def Let_def)
      then obtain c e' where walk: "IsParentIDADescendent db dao1 (o_ID req) (o_ParentID req) = Some (c, e')"
        by (auto split: option.splits)
      show ?thesis
        using run walk True get None reads by (cases e') (auto simp: forbidden_move_def split: if_splits)
    qed
  qed
qed

definition movable :: "stream_env \<Rightarrow> string list \<Rightarrow> ODObject \<Rightarrow> ODObject \<Rightarrow> bool" where
  "movable env rs req obj \<longleftrightarrow> isUserAllowedToUpdate (se_sha env) (se_masterKey env) (se_caller env) (se_groups env) obj \<and>
     aacIsUserOwner (DistinguishedName (se_caller env)) rs (ns_String (o_OwnedBy obj)) \<and> \<not> o_IsDeleted obj \<and>
     o_ChangeToken req = o_ChangeToken obj"

lemma check_movable_iff: "check_movable env rs req obj = None \<longleftrightarrow> movable env rs req obj"
  by (auto simp: check_movable_def movable_def forbidden_move_def)

lemma check_movable_msg: "check_movable env rs req obj = Some (code, msg, e) \<Longrightarrow> e \<noteq> None"
  by (auto simp: check_movable_def forbidden_move_def split: if_splits)

text \<open>The parent a move sets.\<close>

definition same_parent :: "ODObject \<Rightarrow> ODObject \<Rightarrow> bool" where
  "same_parent req obj \<longleftrightarrow> slice_bytes (o_ParentID req) = slice_bytes (o_ParentID obj)"

definition moved :: "stream_env \<Rightarrow> ODObject \<Rightarrow> ODObject \<Rightarrow> ODObject" where
  "moved env req obj = obj\<lparr>o_ModifiedBy := DistinguishedName (se_caller env),
     o_ParentID := (if same_parent req obj then o_ParentID obj else o_ParentID req)\<rparr>"

lemma check_target_count [simp]: "check_target env db (req\<lparr>o_ChangeCount := k\<rparr>) dao = check_target env db req dao"
proof -
  have "o_ParentID (req\<lparr>o_ChangeCount := k\<rparr>) = o_ParentID req" "o_ID (req\<lparr>o_ChangeCount := k\<rparr>) = o_ID req"
    by simp_all
  then show ?thesis
    unfolding check_target_def by presburger
qed

lemma movable_count [simp]: "movable env rs (req\<lparr>o_ChangeCount := k\<rparr>) obj = movable env rs req obj"
  by (simp add: movable_def)

lemma moveObjectRaw_cases:
  assumes "moveObjectRaw env db rs req obj dao = Some (Ok (((code, msg, e), obj'), dao'))"
  obtains (refused) "reads dao dao'" and "obj' = obj" and "(code, msg, e) \<noteq> (0, '''', None)"
  | (updated) dao1 err where "movable env rs req obj"
      and "if same_parent req obj \<or> slice_len (o_ParentID req) = 0 then dao1 = dao else check_target env db req dao = Some (None, dao1)"
      and "UpdateObject db (moved env req obj) dao1 = Ok ((obj', err), dao')"
      and "(code, msg, e) = (0, '''', None) \<longrightarrow> err = None" and "e = None"
      and "(code, msg, e) \<noteq> (0, '''', None) \<longrightarrow> code = 500 \<and> (err \<noteq> None \<longleftrightarrow> msg = ''Error saving object in new location'')"
proof (cases "check_movable env rs (req\<lparr>o_ChangeCount := o_ChangeCount obj\<rparr>) obj")
  case (Some herr)
  then show ?thesis
    using assms check_movable_msg refused by (cases herr) (fastforce simp: moveObjectRaw_def Let_def)
next
  case None
  note movable = None [unfolded check_movable_iff movable_count]
  let ?same = "same_parent req obj"
  let ?req = "if ?same then obj else req\<lparr>o_ChangeCount := o_ChangeCount obj\<rparr>"
  have same: "slice_bytes (o_ParentID (req\<lparr>o_ChangeCount := o_ChangeCount obj\<rparr>)) = slice_bytes (o_ParentID obj) \<longleftrightarrow> ?same"
    by (simp add: same_parent_def)
  let ?chk = "if \<not> ?same \<and> slice_len (o_ParentID ?req) > 0 then check_target env db ?req dao else Some (None, dao)"
  have req: "o_ParentID ?req = (if ?same then o_ParentID obj else o_ParentID req)"
    by simp
  have run: "moveObjectRaw env db rs req obj dao = (case ?chk of None \<Rightarrow> None
      | Some (Some herr, dao1) \<Rightarrow> Some (Ok ((herr, obj), dao1))
      | Some (None, dao1) \<Rightarrow> Some (bind_res (UpdateObject db (moved env req obj) dao1) (\<lambda>((dbObject', e), dao2).
          Ok ((move_result ?req e dbObject', dbObject'), dao2))))"
    unfolding moveObjectRaw_def Let_def None option.case same moved_def req ..
  obtain r dao1 where chk: "?chk = Some (r, dao1)"
    using assms unfolding run by (cases ?chk) auto
  have chk': "if ?same \<or> slice_len (o_ParentID req) = 0 then r = None \<and> dao1 = dao else check_target env db req dao = Some (r, dao1)"
    using chk by (auto split: if_splits)
  show ?thesis
  proof (cases r)
    case (Some herr)
    then have c: "check_target env db req dao = Some (Some herr, dao1)"
      using chk' by (auto split: if_splits)
    have "(code, msg, e) = herr" "obj' = obj" "dao' = dao1"
      using assms unfolding run chk Some by simp_all
    then show ?thesis
      using check_target_cases [OF c] refused by (cases herr) auto
  next
    case None
    obtain err where up: "UpdateObject db (moved env req obj) dao1 = Ok ((obj', err), dao')"
        and res: "move_result ?req err obj' = (code, msg, e)"
      using assms unfolding run chk None by (auto simp: bind_res_Ok_iff)
    have ok: "e = None" "(code, msg, e) = (0, '''', None) \<longrightarrow> err = None"
        "(code, msg, e) \<noteq> (0, '''', None) \<longrightarrow> code = 500 \<and> (err \<noteq> None \<longleftrightarrow> msg = ''Error saving object in new location'')"
      using res by (auto simp: move_result_def split: if_splits)
    show ?thesis
      using chk' by (intro updated [OF movable _ up ok(2,1,3)]) (auto simp: None split: if_splits)
  qed
qed

lemma UpdateObject_spec:
  "UpdateObject env obj dao = Ok ((obj', e), dao') \<Longrightarrow>
    if e = None then only_updates env obj (da_db dao) (da_db dao') else only_names (da_db dao) (da_db dao')"
  using update_attempts_spec by (fastforce simp: UpdateObject_def bind_res_Ok_iff)

lemma only_updates_row:
  assumes "only_updates env obj db db'"
  obtains row new where "object_row db (o_ID obj) = Some row" and "new \<in> set (db_object db')" and "o_ID new = o_ID obj"
    and "updated_row env (obj\<lparr>o_TypeID := norm_id (o_TypeID obj)\<rparr>) row new"
proof -
  obtain row new where r: "object_row db (o_ID obj) = Some row" "updated_row env (obj\<lparr>o_TypeID := norm_id (o_TypeID obj)\<rparr>) row new"
      "db_object db' = map (\<lambda>x. if o_ID x = o_ID obj then new else x) (db_object db)"
    using assms unfolding only_updates_def by blast
  have m: "row \<in> set (db_object db)" "o_ID row = o_ID obj"
    using object_row_mem [OF r(1)] by simp_all
  have "new \<in> set (db_object db')"
    unfolding r(3) using m by (auto intro!: rev_image_eqI)
  moreover have "o_ID new = o_ID obj"
    using r(2) m(2) by (simp add: updated_row_def stored_row_def)
  ultimately show thesis
    using that r(1,2) by blast
qed

text \<open>What an update of a row keeps that changes neither its place nor its content nor its owner, as the trigger stores it.\<close>

definition kept_row :: "db_env \<Rightarrow> ODObject \<Rightarrow> ODObject \<Rightarrow> bool" where
  "kept_row env old new \<longleftrightarrow> o_ParentID new = norm_id (o_ParentID old) \<and>
     ns_String (o_ContentConnector new) = ns_String (o_ContentConnector old) \<and> o_ContentSize new = o_ContentSize old \<and>
     o_ContentHash new = o_ContentHash old \<and> o_EncryptIV new = o_EncryptIV old \<and> o_CreatedBy new = o_CreatedBy old \<and>
     (\<exists>owner. owner_named (ns_String (o_OwnedBy old)) owner \<and> owner_stored env owner new)"

lemma GetObject_row:
  assumes "GetObject db req b dao = ((obj, None), dao')"
  obtains row n ps qs where "row \<in> set (db_object (da_db dao'))" and "o_ID row = o_ID req" and "slice_len (o_ID req) \<noteq> 0"
    and "obj = row\<lparr>o_TypeName := n, o_Permissions := ps, o_Properties := qs\<rparr>"
    and "object_row (da_db dao') (o_ID req) = Some row"
proof -
  obtain row n ps qs where row: "object_row (da_db dao) (o_ID req) = Some row" "o_ID row = o_ID req"
      "obj = row\<lparr>o_TypeName := n, o_Permissions := ps, o_Properties := qs\<rparr>"
    using assms unfolding GetObject_def by (rule getObject_row)
  have dbs: "da_db dao' = da_db dao"
    using GetObject_reads [OF assms] by (simp add: reads_def)
  have len: "slice_len (o_ID req) \<noteq> 0"
    using assms by (auto simp: GetObject_def getObject_def getObjectInTransaction_def split: if_splits)
  show ?thesis
    by (rule that [OF _ row(2) len row(3)]) (use object_row_mem [OF row(1)] row(1) in \<open>simp_all add: dbs\<close>)
qed

text \<open>A target that was checked is not the object and does not lie below it; and an object that stays where it is
  does not either.\<close>

lemma target_outside:
  assumes "forest (da_db dao)" and "check_target env db req dao = Some (None, dao1)" and "slice_len (o_ID req) \<noteq> 0"
  shows "o_ID req \<notin> insert (o_ParentID req) (above (da_db dao) (o_ParentID req))"
    and "\<exists>target d. GetObject db (empty_object\<lparr>o_ID := o_ParentID req\<rparr>) False dao = ((target, None), d) \<and>
      isUserAllowedToCreate (se_sha env) (se_masterKey env) (se_caller env) (se_groups env) target"
    and "o_ParentID req \<noteq> o_ID req \<and> IsParentIDADescendent db dao1 (o_ID req) (o_ParentID req) = Some (False, None)"
proof -
  obtain target where t: "GetObject db (empty_object\<lparr>o_ID := o_ParentID req\<rparr>) False dao = ((target, None), dao1)"
      "isUserAllowedToCreate (se_sha env) (se_masterKey env) (se_caller env) (se_groups env) target"
      "slice_bytes (o_ParentID req) \<noteq> slice_bytes (o_ID req)"
      "IsParentIDADescendent db dao1 (o_ID req) (o_ParentID req) = Some (False, None)"
    using check_target_cases [OF assms(2)] by auto
  obtain p where p: "p \<in> set (db_object (da_db dao1))" "o_ID p = o_ParentID req"
    using t(1) by (rule GetObject_row) simp
  have dbs: "da_db dao1 = da_db dao"
    using GetObject_reads [OF t(1)] by (simp add: reads_def)
  have "isParentIDADescendentInTransaction db dao1 (o_ID req) (o_ID p) = Some (o_ID req \<in> above (da_db dao) (o_ID p), None)"
    using walk_exact [OF assms(1) dbs assms(3)] p(1) by (simp add: dbs)
  then show "o_ID req \<notin> insert (o_ParentID req) (above (da_db dao) (o_ParentID req))"
    using t(3,4) by (auto simp: p(2) IsParentIDADescendent_def)
  show "\<exists>target d. GetObject db (empty_object\<lparr>o_ID := o_ParentID req\<rparr>) False dao = ((target, None), d) \<and>
      isUserAllowedToCreate (se_sha env) (se_masterKey env) (se_caller env) (se_groups env) target"
    using t(1,2) by blast
  show "o_ParentID req \<noteq> o_ID req \<and> IsParentIDADescendent db dao1 (o_ID req) (o_ParentID req) = Some (False, None)"
    using t(3,4) by auto
qed

lemma stays_outside:
  assumes "forest (da_db dao)" and "row \<in> set (db_object (da_db dao))"
  shows "norm_id (o_ParentID row) = None \<or> norm_id (o_ParentID row) \<noteq> o_ID row \<and>
    IsParentIDADescendent db dao (o_ID row) (norm_id (o_ParentID row)) = Some (False, None)"
proof (cases "slice_len (o_ParentID row) = 0")
  case False
  have u: "unique_ids (da_db dao)" and acyc: "acyclic (parent_rel (da_db dao))" and ok: "row_ok (da_db dao) row"
    using assms by (auto simp: forest_def)
  have rel: "(o_ID row, o_ParentID row) \<in> parent_rel (da_db dao)"
    using parent_rel_row [OF u assms(2)] False by simp
  have "o_ParentID row \<noteq> None"
    using False by (cases "o_ParentID row") (simp_all add: slice_len_def slice_bytes_def)
  then obtain p where p: "p \<in> set (db_object (da_db dao))" "o_ID p = o_ParentID row"
    using ok by (auto simp: row_ok_def)
  have "(o_ID row, o_ID row) \<notin> (parent_rel (da_db dao))\<^sup>+"
    using acyc by (simp add: acyclic_def)
  then have "o_ID row \<notin> above (da_db dao) (o_ParentID row)" "o_ParentID row \<noteq> o_ID row"
    using rel by (auto simp: above_def intro: trancl_into_trancl2)
  moreover have "slice_len (o_ID row) \<noteq> 0"
    using ok by (simp add: row_ok_def)
  ultimately show ?thesis
    using walk_exact [OF assms(1) refl _ p(1), of "o_ID row" db] False p(2) by (simp add: norm_id_def IsParentIDADescendent_def)
qed (simp add: norm_id_def)

text \<open>C4: a move that succeeds was asked for by a caller who may update the object and owns it, with its current change
  token, for an object that is not in the trash; a new parent is an object the caller may create in, and is neither the
  object nor below it; and the move replaces exactly that one row, by one with the new parent and otherwise the name,
  the ACM, the owner and the content of the object as it was read. Every other answer changes no table but for what the
  update itself leaves: when it fails, at most names of ACM keys and values, and when its result has the old change
  count or token, the answer is an error although the row was replaced.\<close>

theorem move_exact:
  assumes "GetObject db req True dao0 = ((obj, None), dao)" and "forest (da_db dao)"
    and "moveObjectRaw env db rs req obj dao = Some (Ok (((code, msg, e), obj'), dao'))"
  shows "((code, msg, e) = (0, '''', None) \<longrightarrow> movable env rs req obj \<and> only_updates db (moved env req obj) (da_db dao) (da_db dao') \<and>
      (same_parent req obj \<or> slice_len (o_ParentID req) = 0 \<or>
        o_ID req \<notin> insert (o_ParentID req) (above (da_db dao) (o_ParentID req)) \<and>
        (\<exists>target d. GetObject db (empty_object\<lparr>o_ID := o_ParentID req\<rparr>) False dao = ((target, None), d) \<and>
          isUserAllowedToCreate (se_sha env) (se_masterKey env) (se_caller env) (se_groups env) target))) \<and>
    ((code, msg, e) \<noteq> (0, '''', None) \<longrightarrow> reads dao dao' \<or>
      e = None \<and> code = 500 \<and> movable env rs req obj \<and>
        (if msg = ''Error saving object in new location'' then only_names (da_db dao) (da_db dao')
         else only_updates db (moved env req obj) (da_db dao) (da_db dao')))"
  using assms(3)
proof (cases rule: moveObjectRaw_cases)
  case refused
  then show ?thesis
    by blast
next
  case (updated dao1 err)
  have "slice_len (o_ID req) \<noteq> 0"
    using assms(1) by (rule GetObject_row)
  note target = target_outside [OF assms(2) _ this]
  have "da_db dao1 = da_db dao"
    using updated(2) check_target_cases by (fastforce simp: reads_def split: if_splits)
  then have "if err = None then only_updates db (moved env req obj) (da_db dao) (da_db dao') else only_names (da_db dao) (da_db dao')"
    using UpdateObject_spec [OF updated(3)] by (cases err) simp_all
  note run = this
  have place: "same_parent req obj \<or> slice_len (o_ParentID req) = 0 \<or>
      o_ID req \<notin> insert (o_ParentID req) (above (da_db dao) (o_ParentID req)) \<and>
      (\<exists>target d. GetObject db (empty_object\<lparr>o_ID := o_ParentID req\<rparr>) False dao = ((target, None), d) \<and>
        isUserAllowedToCreate (se_sha env) (se_masterKey env) (se_caller env) (se_groups env) target)"
  proof (cases "same_parent req obj \<or> slice_len (o_ParentID req) = 0")
    case False
    then have "check_target env db req dao = Some (None, dao1)"
      using updated(2) by simp
    then show ?thesis
      using target(1,2) by blast
  qed blast
  show ?thesis
  proof (cases "(code, msg, e) = (0, '''', None)")
    case True
    then show ?thesis
      using run updated(1,4) place by simp
  next
    case False
    then have "code = 500" "err \<noteq> None \<longleftrightarrow> msg = ''Error saving object in new location''"
      using updated(6) by blast+
    then show ?thesis
      using run updated(1,5) False by (cases err) simp_all
  qed
qed

lemma move_well_formed:
  assumes "GetObject db req True dao0 = ((obj, None), dao00)" and "reads dao00 dao" and "well_formed dao"
    and "moveObjectRaw env db rs req obj dao = Some (Ok (r, dao'))"
  shows "well_formed dao'"
proof -
  obtain code msg e obj' where "r = ((code, msg, e), obj')"
    by (metis prod_cases4 surj_pair)
  then have "moveObjectRaw env db rs req obj dao = Some (Ok (((code, msg, e), obj'), dao'))"
    using assms(4) by simp
  then show ?thesis
  proof (cases rule: moveObjectRaw_cases)
    case refused
    then show ?thesis
      using assms(3) reads_well_formed by blast
  next
    case (updated dao1 err)
    have forest: "forest (da_db dao)"
      using assms(3) by (simp add: well_formed_def)
    obtain row n ps qs where row: "row \<in> set (db_object (da_db dao00))" "o_ID row = o_ID req" "slice_len (o_ID req) \<noteq> 0"
        "obj = row\<lparr>o_TypeName := n, o_Permissions := ps, o_Properties := qs\<rparr>"
      using assms(1) by (rule GetObject_row)
    have mem: "row \<in> set (db_object (da_db dao))"
      using row(1) assms(2) by (simp add: reads_def)
    have ids: "o_ID (moved env req obj) = o_ID row" "o_ID (moved env req obj) = o_ID req"
        "o_ParentID (moved env req obj) = (if same_parent req obj then o_ParentID row else o_ParentID req)"
      using row(2) by (simp_all add: moved_def row(4))
    have wf1: "well_formed dao1"
      using updated(2) assms(3) check_target_cases reads_well_formed by (metis)
    have "norm_id (o_ParentID (moved env req obj)) = None \<or> norm_id (o_ParentID (moved env req obj)) \<noteq> o_ID (moved env req obj) \<and>
      IsParentIDADescendent db dao1 (o_ID (moved env req obj)) (norm_id (o_ParentID (moved env req obj))) = Some (False, None)"
    proof (cases "same_parent req obj \<or> slice_len (o_ParentID req) = 0")
      case True
      then have "dao1 = dao"
        using updated(2) by simp
      then show ?thesis
        using stays_outside [OF forest mem, of db] True ids by (auto simp: norm_id_def)
    next
      case False
      then have "check_target env db req dao = Some (None, dao1)"
        using updated(2) by simp
      then show ?thesis
        using target_outside(3) [OF forest _ row(3)] False ids by (simp add: norm_id_def)
    qed
    then show ?thesis
      using step_update [OF updated(3) wf1] by blast
  qed
qed

text \<open>The object of the signed folder is moved into the other one.\<close>

definition sample_move :: ODObject where
  "sample_move = empty_object\<lparr>o_ID := Some [2], o_ChangeToken := ''t'', o_ParentID := Some [3]\<rparr>"

lemma sample_moves:
  "snd (fst (GetObject sample_env sample_move True signed_dao)) = None"
  "case moveObjectRaw sample_stream sample_env [] sample_move (fst (fst (GetObject sample_env sample_move True signed_dao)))
      (snd (GetObject sample_env sample_move True signed_dao)) of
    Some (Ok ((r, obj'), dao')) \<Rightarrow> r = (0, '''', None) \<and> map o_ParentID (db_object (da_db dao')) = [None, Some [3], None] | _ \<Rightarrow> False"
  by code_simp+

lemma move_exact_witness:
  "\<exists>obj dao obj' dao'. GetObject sample_env sample_move True signed_dao = ((obj, None), dao) \<and>
    moveObjectRaw sample_stream sample_env [] sample_move obj dao = Some (Ok (((0, '''', None), obj'), dao')) \<and>
    movable sample_stream [] sample_move obj \<and> only_updates sample_env (moved sample_stream sample_move obj) (da_db dao) (da_db dao') \<and>
    map o_ParentID (db_object (da_db dao')) = [None, Some [3], None]"
proof -
  obtain obj dao where get: "GetObject sample_env sample_move True signed_dao = ((obj, None), dao)"
    using sample_moves(1) by (metis prod.collapse)
  obtain obj' dao' where run: "moveObjectRaw sample_stream sample_env [] sample_move obj dao = Some (Ok (((0, '''', None), obj'), dao'))"
      and parents: "map o_ParentID (db_object (da_db dao')) = [None, Some [3], None]"
    using sample_moves(2) unfolding get by (auto split: option.splits res.splits)
  have "forest (da_db dao)"
    using reads_well_formed [OF GetObject_reads [OF get] signed_well_formed] by (simp add: well_formed_def)
  then have "movable sample_stream [] sample_move obj \<and> only_updates sample_env (moved sample_stream sample_move obj) (da_db dao) (da_db dao')"
    using move_exact [OF get _ run] by simp
  then show ?thesis
    using get run parents by (intro exI conjI) (assumption | erule conjunct1 conjunct2)+
qed

text \<open>Moving an object into itself is refused with no cause; the handler of many takes that for a success.\<close>

lemma bulk_move_into_itself:
  "case doBulkMove sample_stream sample_env None (Some ()) (\<lambda>_. Some [\<lparr>mq_ID = ''01'', mq_ChangeToken = ''t'', mq_ParentID = ''01''\<rparr>])
      signed_dao of
    Some (Ok (Inr answers, dao')) \<Rightarrow> map oe_Code answers = [200] \<and> db_object (da_db dao') = db_object (da_db signed_dao)
  | _ \<Rightarrow> False"
  by code_simp

end
