(* ===== verification/Object_Remove.thy ===== *)
theory Object_Remove
  imports Object_Move
begin

text \<open>
  The handlers that put objects into the trash, take them out of it and expunge them: \<open>server/deleteObject.go\<close>,
  \<open>doBulkDelete.go\<close>, \<open>removeObjectFromTrash.go\<close>, \<open>deleteObjectForever.go\<close> and \<open>expungeDeleted.go\<close>. The fuel of the
  recursions over the tree is a parameter of the handlers; \<open>None\<close> is a recursion that ran out of it.
\<close>

subsection \<open>The request\<close>

text \<open>What the middleware left in the context, besides what \<open>stream_env\<close> holds.\<close>

record remove_ctx =
  rc_caller_set :: bool
  rc_user :: "ODUser option"
  rc_snippets :: "RawSnippetFields list option"

definition parseDeleteObjectRequest :: "DeleteObjectRequest option \<Rightarrow> string option \<Rightarrow> string + ODObject" where
  "parseDeleteObjectRequest body captured = (case body of
     None \<Rightarrow> Inl ''decode''
   | Some jsonObject \<Rightarrow> (case captured of
        None \<Rightarrow> Inl ''Could not get capture groups''
      | Some objectId \<Rightarrow>
         (if objectId = '''' then Inl ''Could not extract ObjectID from URI''
          else if hex_decode objectId = None then Inl ''Invalid ObjectID in URI''
          else MapDeleteObjectRequestToODObject (jsonObject\<lparr>dq_ID := objectId\<rparr>))))"

text \<open>The user whose snippets the children are checked with.\<close>

definition remove_user :: "remove_ctx \<Rightarrow> AppError + ODUser" where
  "remove_user c =
     (if \<not> rc_caller_set c then Inl (NewAppError 500 ''Invalid caller.'')
      else (case rc_user c of
          None \<Rightarrow> Inl (NewAppError 500 ''Invalid user.'')
        | Some user \<Rightarrow> (case rc_snippets c of
            None \<Rightarrow> Inl (NewAppError 502 ''Error communicating with upstream'')
          | Some snippetFields \<Rightarrow> Inr (user\<lparr>u_Snippets := Some snippetFields\<rparr>))))"

definition may_remove :: "stream_env \<Rightarrow> ODObject \<Rightarrow> bool" where
  "may_remove env obj = isUserAllowedToDelete (se_sha env) (se_masterKey env) (se_caller env) (se_groups env) obj"

subsection \<open>Deleting\<close>

text \<open>The object is read again for the answer, and an error of that is not looked at. It is also mapped for the event.\<close>

definition deleteObject :: "nat \<Rightarrow> stream_env \<Rightarrow> db_env \<Rightarrow> remove_ctx \<Rightarrow> DeleteObjectRequest option \<Rightarrow> string option
    \<Rightarrow> DataAccessLayer \<Rightarrow> ((AppError + DeletedObjectResponse) \<times> DataAccessLayer) res option" where
  "deleteObject n env db c body captured dao = (case remove_user c of
     Inl herr \<Rightarrow> Some (Ok (Inl herr, dao))
   | Inr user \<Rightarrow> (case parseDeleteObjectRequest body captured of
        Inl e \<Rightarrow> Some (Ok (Inl (NewAppError 400 ''Error parsing JSON''), dao))
      | Inr requestObject \<Rightarrow> (case GetObject db requestObject False dao of
          ((_, Some e), dao1) \<Rightarrow> Some (Ok (Inl (NewAppError 500 ''Error retrieving object''), dao1))
        | ((dbObject, None), dao1) \<Rightarrow>
           (if \<not> may_remove env dbObject
            then Some (Ok (Inl (NewAppError 403 ''Forbidden - User does not have permission to delete this object''), dao1))
            else if o_IsDeleted dbObject \<and> o_IsExpunged dbObject
            then Some (Ok (Inl (NewAppError 410 ''The referenced object no longer exists.''), dao1))
            else (case (if o_IsDeleted dbObject then Some (None, dao1)
                  else DeleteObject n db user (dbObject\<lparr>o_ModifiedBy := DistinguishedName (se_caller env),
                    o_ChangeToken := o_ChangeToken requestObject\<rparr>) True dao1) of
                None \<Rightarrow> None
              | Some (Some e, dao2) \<Rightarrow> Some (Ok (Inl (NewAppError 500 ''DAO Error deleting object''), dao2))
              | Some (None, dao2) \<Rightarrow> (case GetObject db requestObject False dao2 of
                  ((dbObject', _), dao3) \<Rightarrow>
                     if MapODObjectToObject (se_unm env) dbObject' = None then Some Panic
                     else Some (Ok (Inr (deletedResponse_WithCallerPermission (se_caller env)
                       (MapODObjectToDeletedObjectResponse dbObject')), dao3))))))))"

subsection \<open>Deleting many\<close>

record ObjectVersioned =
  ov_ObjectID :: string
  ov_ChangeToken :: string

text \<open>The error of an expunged object is nil, and its text is asked for: a panic.\<close>

definition bulk_delete_one :: "nat \<Rightarrow> stream_env \<Rightarrow> db_env \<Rightarrow> ODUser \<Rightarrow> ObjectVersioned \<Rightarrow> DataAccessLayer
    \<Rightarrow> (ObjectError \<times> DataAccessLayer) res option" where
  "bulk_delete_one n env db user q dao =
     (let answer = (\<lambda>e msg code d. Some (Ok (\<lparr>oe_ObjectID = ov_ObjectID q, oe_Error = e, oe_Msg = msg, oe_Code = code\<rparr>, d))) in
      case hex_decode (ov_ObjectID q) of
        None \<Rightarrow> answer ''encoding/hex'' ''Cannot decode object id'' 400 dao
      | Some oid \<Rightarrow>
         (let requestObject = empty_object\<lparr>o_ID := Some oid, o_ChangeToken := ov_ChangeToken q\<rparr> in
          case GetObject db requestObject True dao of
            ((_, Some e), dao1) \<Rightarrow> answer e ''Error retrieving object'' 500 dao1
          | ((dbObject, None), dao1) \<Rightarrow>
             (if \<not> may_remove env dbObject
              then answer ''Forbidden'' ''Forbidden - User does not have permission to delete this object'' 403 dao1
              else if o_IsDeleted dbObject \<and> o_IsExpunged dbObject then Some Panic
              else (case (if o_IsDeleted dbObject then Some (None, dao1)
                    else DeleteObject n db user (dbObject\<lparr>o_ModifiedBy := DistinguishedName (se_caller env),
                      o_ChangeToken := o_ChangeToken requestObject\<rparr>) True dao1) of
                  None \<Rightarrow> None
                | Some (Some e, dao2) \<Rightarrow> answer e ''DAO Error deleting object'' 500 dao2
                | Some (None, dao2) \<Rightarrow> (case GetObject db requestObject False dao2 of
                    ((dbObject', _), dao3) \<Rightarrow>
                       if MapODObjectToObject (se_unm env) dbObject' = None then Some Panic else answer '''' '''' 200 dao3)))))"

fun bulk_deletes :: "nat \<Rightarrow> stream_env \<Rightarrow> db_env \<Rightarrow> ODUser \<Rightarrow> ObjectVersioned list \<Rightarrow> DataAccessLayer
    \<Rightarrow> (ObjectError list \<times> DataAccessLayer) res option" where
  "bulk_deletes n env db user [] dao = Some (Ok ([], dao))"
| "bulk_deletes n env db user (q # qs) dao = (case bulk_delete_one n env db user q dao of
     None \<Rightarrow> None | Some Panic \<Rightarrow> Some Panic | Some (Fail e) \<Rightarrow> Some (Fail e)
   | Some (Ok (r, dao1)) \<Rightarrow> map_option (\<lambda>x. bind_res x (\<lambda>(rs, dao2). Ok (r # rs, dao2))) (bulk_deletes n env db user qs dao1))"

definition empty_user :: ODUser where
  "empty_user = \<lparr>u_ID = None, u_DistinguishedName = '''', u_Snippets = None\<rparr>"

definition doBulkDelete :: "nat \<Rightarrow> stream_env \<Rightarrow> db_env \<Rightarrow> remove_ctx \<Rightarrow> 'b option \<Rightarrow> ('b \<Rightarrow> ObjectVersioned list option) \<Rightarrow> DataAccessLayer
    \<Rightarrow> ((AppError + ObjectError list) \<times> DataAccessLayer) res option" where
  "doBulkDelete n env db c body parse dao =
     (let user = (case rc_user c of None \<Rightarrow> empty_user | Some u \<Rightarrow> u) in
      if \<not> rc_caller_set c then Some (Ok (Inl (NewAppError 500 ''Invalid caller.''), dao))
      else (case body of
          None \<Rightarrow> Some (Ok (Inl (NewAppError 400 ''Cannot read list of IDs''), dao))
        | Some b \<Rightarrow> (case parse b of
            None \<Rightarrow> Some (Ok (Inl (NewAppError 400 ''Cannot parse list of IDs''), dao))
          | Some objects \<Rightarrow>
             (if length objects > 1000
              then Some (Ok (Inl (NewAppError 400 ''Cannot delete more then 1000 objects at a time''), dao))
              else map_option (\<lambda>x. bind_res x (\<lambda>(rs, dao1). Ok (Inr rs, dao1))) (bulk_deletes n env db user objects dao)))))"

subsection \<open>Out of the trash\<close>

text \<open>The token of the body: \<open>None\<close> when there is no body or it does not decode.\<close>

definition NewChangeTokenStructFromJSONBody :: "string option \<Rightarrow> string + string" where
  "NewChangeTokenStructFromJSONBody body = (case body of
     None \<Rightarrow> Inl ''decode'' | Some t \<Rightarrow> if t = '''' then Inl ''ChangeTokenStruct cannot be empty'' else Inr t)"

definition removeObjectFromTrash :: "nat \<Rightarrow> stream_env \<Rightarrow> db_env \<Rightarrow> string option \<Rightarrow> string option
    \<Rightarrow> DataAccessLayer \<Rightarrow> ((AppError + json Object) \<times> DataAccessLayer) res option" where
  "removeObjectFromTrash n env db body captured dao = (case NewChangeTokenStructFromJSONBody body of
     Inl e \<Rightarrow> Some (Ok (Inl (NewAppError 400 ''Unexpected change token''), dao))
   | Inr changeToken \<Rightarrow> (case parseGetObjectRequest captured of
        Inl e \<Rightarrow> Some (Ok (Inl (NewAppError 400 ''Error parsing URI''), dao))
      | Inr requestObject \<Rightarrow> (case GetObject db requestObject True dao of
          ((_, Some e), dao1) \<Rightarrow> Some (Ok (Inl (getObjectDAOError e), dao1))
        | ((dbObject, None), dao1) \<Rightarrow>
           (if o_IsExpunged dbObject then Some (Ok (Inl (NewAppError 410 ''Object was expunged''), dao1))
            else if o_IsAncestorDeleted dbObject then Some (Ok (Inl (NewAppError 409 ''Object has deleted ancestor''), dao1))
            else if o_ChangeToken dbObject \<noteq> changeToken then Some (Ok (Inl (NewAppError 409 ''Invalid changeToken.''), dao1))
            else if \<not> may_remove env dbObject
            then Some (Ok (Inl (NewAppError 403 ''Forbidden - User does not have permission to undelete this object''), dao1))
            else (case UndeleteObject n db (dbObject\<lparr>o_ModifiedBy := DistinguishedName (se_caller env)\<rparr>) dao1 of
                None \<Rightarrow> None
              | Some ((_, Some e), dao2) \<Rightarrow> Some (Ok (Inl (NewAppError 500 ''Error restoring object''), dao2))
              | Some ((unDeletedObj, None), dao2) \<Rightarrow> (case MapODObjectToObject (se_unm env) unDeletedObj of
                  None \<Rightarrow> Some Panic
                | Some x \<Rightarrow> Some (Ok (Inr (WithCallerPermission (se_caller env) x), dao2))))))))"

subsection \<open>For ever\<close>

text \<open>The answer is made from the object as it was read before: its date is the one it had then.\<close>

definition deleteObjectForever :: "nat \<Rightarrow> stream_env \<Rightarrow> db_env \<Rightarrow> remove_ctx \<Rightarrow> DeleteObjectRequest option \<Rightarrow> string option
    \<Rightarrow> DataAccessLayer \<Rightarrow> ((AppError + ExpungedObjectResponse) \<times> DataAccessLayer) res option" where
  "deleteObjectForever n env db c body captured dao = (case remove_user c of
     Inl herr \<Rightarrow> Some (Ok (Inl herr, dao))
   | Inr user \<Rightarrow> (case parseDeleteObjectRequest body captured of
        Inl e \<Rightarrow> Some (Ok (Inl (NewAppError 400 ''Error parsing JSON''), dao))
      | Inr requestObject \<Rightarrow> (case GetObject db requestObject True dao of
          ((_, Some e), dao1) \<Rightarrow> Some (Ok (Inl (NewAppError 500 ''Error retrieving object''), dao1))
        | ((dbObject, None), dao1) \<Rightarrow>
           (if \<not> may_remove env dbObject
            then Some (Ok (Inl (NewAppError 403 ''Forbidden - User does not have permission to expunge this object''), dao1))
            else if o_IsExpunged dbObject then Some (Ok (Inl (NewAppError 410 ''The referenced object no longer exists.''), dao1))
            else (let dbObject1 = dbObject\<lparr>o_ModifiedBy := DistinguishedName (se_caller env), o_ChangeToken := o_ChangeToken requestObject\<rparr> in
              case ExpungeObject n db user dbObject1 True dao1 of
                None \<Rightarrow> None
              | Some (Some e, dao2) \<Rightarrow> Some (Ok (Inl (NewAppError 500 ''DAO Error expunging object''), dao2))
              | Some (None, dao2) \<Rightarrow>
                  if MapODObjectToObject (se_unm env) dbObject1 = None then Some Panic
                  else Some (Ok (Inr (expungedResponse_WithCallerPermission (se_caller env)
                    (MapODObjectToExpungedObjectResponse dbObject1)), dao2)))))))"

text \<open>Emptying the trash: the page size of the query, if it has one, but not above the limit; the answer is the number of
  objects expunged. \<open>mine\<close> tells which objects are the user's.\<close>

definition expungeDeleted :: "nat \<Rightarrow> nat \<Rightarrow> stream_env \<Rightarrow> db_env \<Rightarrow> (ODObject \<Rightarrow> bool) \<Rightarrow> remove_ctx \<Rightarrow> int \<Rightarrow> string option
    \<Rightarrow> DataAccessLayer \<Rightarrow> ((AppError + int) \<times> DataAccessLayer) res option" where
  "expungeDeleted m n env db mine c maxPageSize pageSizeStr dao =
     (let user = (case rc_user c of None \<Rightarrow> empty_user | Some u \<Rightarrow> u) in
      case (case pageSizeStr of None \<Rightarrow> Some maxPageSize | Some s \<Rightarrow> ParseInt64 s) of
        None \<Rightarrow> Some (Ok (Inl (NewAppError 400 ''malformed pageSize''), dao))
      | Some pageSize \<Rightarrow> (case ExpungeDeletedByUser m n db mine user (if pageSize > maxPageSize then maxPageSize else pageSize) dao of
          None \<Rightarrow> None
        | Some ((_, Some e), dao1) \<Rightarrow> Some (Ok (Inl (NewAppError 500 ''Unable to expunge deleted objects for user''), dao1))
        | Some ((expungedObjects, None), dao1) \<Rightarrow>
            if list_ex (\<lambda>x. MapODObjectToObject (se_unm env) x = None) (rs_Objects expungedObjects) then Some Panic
            else Some (Ok (Inr (rs_TotalRows expungedObjects), dao1))))"

subsection \<open>Who may remove, and what is removed\<close>

text \<open>The token of a deletion is compared with that of the row.\<close>

lemma tree_op_token:
  assumes "tree_op verb already mark n env user obj ex dao = Some (None, dao')"
  shows "\<exists>x dao1. getObjectInTransaction env (o_ID obj) False False dao = ((x, None), dao1) \<and> o_ChangeToken obj = o_ChangeToken x"
proof -
  obtain k where n: "n = Suc k"
    using assms by (cases n) simp_all
  obtain x e dao1 where get: "getObjectInTransaction env (o_ID obj) False False dao = ((x, e), dao1)"
    by (metis surj_pair)
  show ?thesis
    using assms get by (cases e) (auto simp: n split: if_splits)
qed

lemma same_token:
  assumes "GetObject db req b dao = ((obj, None), dao1)" and "getObjectInTransaction env (o_ID req) False False dao1 = ((x, None), dao2)"
  shows "o_ChangeToken x = o_ChangeToken obj"
proof -
  obtain row n ps qs where row: "obj = row\<lparr>o_TypeName := n, o_Permissions := ps, o_Properties := qs\<rparr>"
      "object_row (da_db dao1) (o_ID req) = Some row"
    using assms(1) by (rule GetObject_row)
  obtain row' n' ps' qs' where row': "object_row (da_db dao1) (o_ID req) = Some row'"
      "x = row'\<lparr>o_TypeName := n', o_Permissions := ps', o_Properties := qs'\<rparr>"
    using assms(2) by (rule getObject_row)
  have "row' = row"
    using row(2) row'(1) by simp
  then show ?thesis
    by (simp add: row(1) row'(2))
qed

lemma GetObject_id: "GetObject db req b dao = ((obj, None), dao1) \<Longrightarrow> o_ID obj = o_ID req"
  unfolding GetObject_def by (erule getObject_row)

lemma GetObject_db: "GetObject db req b dao = (r, dao1) \<Longrightarrow> da_db dao1 = da_db dao"
  using GetObject_reads by (simp add: reads_def)

lemma remove_user_snippets: "remove_user c = Inr user \<Longrightarrow> u_Snippets user \<noteq> None"
  by (auto simp: remove_user_def split: if_splits option.splits)

lemma snippets_used_user: "u_Snippets user \<noteq> None \<Longrightarrow> snippets_used db user True = u_Snippets user"
  by (auto simp: snippets_used_def getUserSnippets_def)

lemma deleteObject_cases:
  assumes "deleteObject n env db c body captured dao = Some (Ok (r, dao'))"
  obtains (reads) "reads dao dao'"
  | (failed) user req obj dao1 e where "GetObject db req False dao = ((obj, None), dao1)"
      and "DeleteObject n db user (obj\<lparr>o_ModifiedBy := DistinguishedName (se_caller env), o_ChangeToken := o_ChangeToken req\<rparr>) True dao1
        = Some (Some e, dao')"
  | (deleted) user req obj dao1 dao2 where "remove_user c = Inr user" and "parseDeleteObjectRequest body captured = Inr req"
      and "GetObject db req False dao = ((obj, None), dao1)" and "may_remove env obj" and "\<not> o_IsDeleted obj"
      and "DeleteObject n db user (obj\<lparr>o_ModifiedBy := DistinguishedName (se_caller env), o_ChangeToken := o_ChangeToken req\<rparr>) True dao1
        = Some (None, dao2)" and "reads dao2 dao'"
proof (cases "remove_user c")
  case (Inl herr)
  then show ?thesis
    using assms reads by (simp add: deleteObject_def)
next
  case user: (Inr user)
  show ?thesis
  proof (cases "parseDeleteObjectRequest body captured")
    case (Inl e)
    then show ?thesis
      using assms user reads by (simp add: deleteObject_def)
  next
    case req: (Inr req)
    obtain obj e dao1 where get: "GetObject db req False dao = ((obj, e), dao1)"
      by (metis surj_pair)
    note r1 = GetObject_reads [OF get]
    let ?run = "if o_IsDeleted obj then Some (None, dao1)
      else DeleteObject n db user (obj\<lparr>o_ModifiedBy := DistinguishedName (se_caller env), o_ChangeToken := o_ChangeToken req\<rparr>) True dao1"
    show ?thesis
    proof (cases "e = None \<and> may_remove env obj \<and> \<not> (o_IsDeleted obj \<and> o_IsExpunged obj)")
      case False
      then have "dao' = dao1"
        using assms get by (cases e) (auto simp: deleteObject_def user req split: if_splits)
      then show ?thesis
        using r1 reads by simp
    next
      case True
      then have step: "(case ?run of None \<Rightarrow> None
          | Some (Some e, dao2) \<Rightarrow> Some (Ok (Inl (NewAppError 500 ''DAO Error deleting object''), dao2))
          | Some (None, dao2) \<Rightarrow> (case GetObject db req False dao2 of
              ((obj', _), dao3) \<Rightarrow> if MapODObjectToObject (se_unm env) obj' = None then Some Panic
                else Some (Ok (Inr (deletedResponse_WithCallerPermission (se_caller env) (MapODObjectToDeletedObjectResponse obj')), dao3))))
          = Some (Ok (r, dao'))"
        using assms by (simp only: deleteObject_def user req get sum.case prod.case option.case not_not if_False conj_assoc) (auto split: if_splits)
      then obtain err dao2 where run: "?run = Some (err, dao2)"
        by (cases ?run) auto
      show ?thesis
      proof (cases err)
        case (Some x)
        then show ?thesis
          using step run True get failed by (auto split: if_splits)
      next
        case None
        obtain obj' e' dao3 where get2: "GetObject db req False dao2 = ((obj', e'), dao3)"
          by (metis surj_pair)
        have "dao' = dao3"
          using step unfolding run None by (auto simp: get2 split: if_splits)
        then have r2: "reads dao2 dao'"
          using GetObject_reads [OF get2] by simp
        show ?thesis
        proof (cases "o_IsDeleted obj")
          case True
          then show ?thesis
            using run r1 r2 reads_trans reads by (auto simp: None)
        next
          case False
          then show ?thesis
            using deleted [OF user req _ _ False _ r2] True run get by (simp add: None)
        qed
      qed
    qed
  qed
qed

lemma DeleteObject_failed: "DeleteObject n db user obj ex dao = Some (Some e, dao') \<Longrightarrow> da_db dao' = da_db dao"
  by (auto simp: DeleteObject_def rollback_def)

lemma ExpungeObject_failed: "ExpungeObject n db user obj ex dao = Some (Some e, dao') \<Longrightarrow> da_db dao' = da_db dao"
  by (auto simp: ExpungeObject_def rollback_def)

lemma DeleteObject_token:
  assumes "DeleteObject n db user obj True dao = Some (None, dao')"
  shows "\<exists>x dao1. getObjectInTransaction db (o_ID obj) False False dao = ((x, None), dao1) \<and> o_ChangeToken obj = o_ChangeToken x"
proof -
  obtain d where "deleteObjectInTransaction n db user obj True dao = Some (None, d)"
    using assms by (auto simp: DeleteObject_def)
  then show ?thesis
    using tree_op_token by (simp only: delete_tree_op)
qed

lemma ExpungeObject_token:
  assumes "ExpungeObject n db user obj True dao = Some (None, dao')"
  shows "\<exists>x dao1. getObjectInTransaction db (o_ID obj) False False dao = ((x, None), dao1) \<and> o_ChangeToken obj = o_ChangeToken x"
proof -
  obtain d where "expungeObjectInTransaction n db user (obj\<lparr>o_ModifiedBy := u_DistinguishedName user\<rparr>) True dao = Some (None, d)"
    using assms by (auto simp: ExpungeObject_def)
  then show ?thesis
    using tree_op_token [of _ _ _ n db user "obj\<lparr>o_ModifiedBy := u_DistinguishedName user\<rparr>"] by (simp add: expunge_tree_op)
qed

text \<open>C8: the request to delete an object changes a table only when the caller may delete the object, holds its current
  change token and the object is not in the trash; then it is put there, and nothing else changes but objects below it
  that the snippets of the user let be deleted, which are put there with it. Where the rows can be read, those are all:
  below no object that was put into the trash is a live child left that the snippets let be deleted. Left out of that are
  children marked as deleted with an ancestor, and the children of an object with more than a page of a hundred of them,
  when some may not be deleted: there the loop over the pages stops early.\<close>

theorem delete_authorized:
  assumes "deleteObject n env db c body captured dao = Some (Ok (r, dao'))" and "da_db dao' \<noteq> da_db dao"
    and "env_ok db" and "unique_ids (da_db dao)"
  shows "\<exists>user req obj dao1. remove_user c = Inr user \<and> parseDeleteObjectRequest body captured = Inr req \<and>
    GetObject db req False dao = ((obj, None), dao1) \<and> may_remove env obj \<and> \<not> o_IsDeleted obj \<and>
    o_ChangeToken req = o_ChangeToken obj \<and>
    only_marks o_IsDeleted delete_effect (scope_row (da_db dao) (u_Snippets user) True (o_ID req)) (da_db dao) (da_db dao') \<and>
    (\<exists>x \<in> set (db_object (da_db dao')). o_ID x = o_ID req \<and> o_IsDeleted x) \<and>
    (readable (da_db dao) \<longrightarrow> none_left o_IsDeleted (u_Snippets user) (da_db dao) (da_db dao'))"
  using assms(1)
proof (cases rule: deleteObject_cases)
  case reads
  then show ?thesis
    using assms(2) by (simp add: reads_def)
next
  case (failed user req obj dao1 e)
  then show ?thesis
    using assms(2) DeleteObject_failed GetObject_db by metis
next
  case (deleted user req obj dao1 dao2)
  have d1: "da_db dao1 = da_db dao" and d2: "da_db dao' = da_db dao2"
    using GetObject_db [OF deleted(3)] deleted(7) by (simp_all add: reads_def)
  have i: "o_ID (obj\<lparr>o_ModifiedBy := DistinguishedName (se_caller env), o_ChangeToken := o_ChangeToken req\<rparr>) = o_ID req"
    using GetObject_id [OF deleted(3)] by simp
  have "o_ChangeToken req = o_ChangeToken obj"
    using DeleteObject_token [OF deleted(6)] same_token [OF deleted(3)] by (auto simp: i)
  moreover have "unique_ids (da_db dao1)"
    using assms(4) by (simp add: d1)
  note delete_scope [OF deleted(6) assms(3) this]
  ultimately show ?thesis
    using deleted(1-5) snippets_used_user [OF remove_user_snippets [OF deleted(1)], of db] unfolding i d1 d2 by auto
qed

lemma delete_well_formed:
  assumes "deleteObject n env db c body captured dao = Some (Ok (r, dao'))" and "well_formed dao" and "env_ok db"
  shows "well_formed dao'"
  using assms(1)
proof (cases rule: deleteObject_cases)
  case reads
  then show ?thesis
    using assms(2) reads_well_formed by blast
next
  case (failed user req obj dao1 e)
  then show ?thesis
    using step_delete assms(2,3) reads_well_formed GetObject_reads by blast
next
  case (deleted user req obj dao1 dao2)
  then show ?thesis
    using step_delete assms(2,3) reads_well_formed GetObject_reads by blast
qed

subsection \<open>Expunging and restoring\<close>

lemma deleteObjectForever_cases:
  assumes "deleteObjectForever n env db c body captured dao = Some (Ok (r, dao'))"
  obtains (reads) "reads dao dao'"
  | (ran) user req obj dao1 err where "remove_user c = Inr user" and "parseDeleteObjectRequest body captured = Inr req"
      and "GetObject db req True dao = ((obj, None), dao1)" and "may_remove env obj" and "\<not> o_IsExpunged obj"
      and "ExpungeObject n db user (obj\<lparr>o_ModifiedBy := DistinguishedName (se_caller env), o_ChangeToken := o_ChangeToken req\<rparr>) True dao1
        = Some (err, dao')"
proof (cases "remove_user c")
  case (Inl herr)
  then show ?thesis
    using assms reads by (simp add: deleteObjectForever_def)
next
  case user: (Inr user)
  show ?thesis
  proof (cases "parseDeleteObjectRequest body captured")
    case (Inl e)
    then show ?thesis
      using assms user reads by (simp add: deleteObjectForever_def)
  next
    case req: (Inr req)
    obtain obj e dao1 where get: "GetObject db req True dao = ((obj, e), dao1)"
      by (metis surj_pair)
    note r1 = GetObject_reads [OF get]
    show ?thesis
    proof (cases "e = None \<and> may_remove env obj \<and> \<not> o_IsExpunged obj")
      case False
      then have "dao' = dao1"
        using assms get by (cases e) (auto simp: deleteObjectForever_def user req split: if_splits)
      then show ?thesis
        using r1 reads by simp
    next
      case True
      then obtain err where "ExpungeObject n db user (obj\<lparr>o_ModifiedBy := DistinguishedName (se_caller env),
          o_ChangeToken := o_ChangeToken req\<rparr>) True dao1 = Some (err, dao')"
        using assms get by (auto simp: deleteObjectForever_def user req Let_def split: option.splits if_splits)
      then show ?thesis
        using ran [OF user req] True get by blast
    qed
  qed
qed

text \<open>C16: the request to delete an object for ever changes a table only when the caller may delete the object and holds
  its current change token; then the object is expunged, and nothing else changes but objects below it that the snippets
  of the user let be deleted, which are expunged with it. Where the rows can be read, those are all: below no object that
  was expunged is a live child left that the snippets let be deleted. Left out of that are children already in the trash,
  which the walk does not see, and the children of an object with more than a page of a hundred of them, when some may
  not be deleted.\<close>

theorem forever_authorized:
  assumes "deleteObjectForever n env db c body captured dao = Some (Ok (r, dao'))" and "da_db dao' \<noteq> da_db dao"
    and "env_ok db" and "good o_IsExpunged (da_db dao)"
  shows "\<exists>user req obj dao1. remove_user c = Inr user \<and> parseDeleteObjectRequest body captured = Inr req \<and>
    GetObject db req True dao = ((obj, None), dao1) \<and> may_remove env obj \<and> \<not> o_IsExpunged obj \<and>
    o_ChangeToken req = o_ChangeToken obj \<and>
    only_marks o_IsExpunged expunge_effect (scope_row (da_db dao) (u_Snippets user) True (o_ID req)) (da_db dao) (da_db dao') \<and>
    (\<exists>x \<in> set (db_object (da_db dao')). o_ID x = o_ID req \<and> o_IsExpunged x) \<and>
    (readable (da_db dao) \<longrightarrow> none_left o_IsExpunged (u_Snippets user) (da_db dao) (da_db dao'))"
  using assms(1)
proof (cases rule: deleteObjectForever_cases)
  case reads
  then show ?thesis
    using assms(2) by (simp add: reads_def)
next
  case (ran user req obj dao1 err)
  have d1: "da_db dao1 = da_db dao"
    by (rule GetObject_db [OF ran(3)])
  have none: "err = None"
    using ExpungeObject_failed assms(2) d1 ran(6) by (cases err) fastforce+
  have i: "o_ID (obj\<lparr>o_ModifiedBy := DistinguishedName (se_caller env), o_ChangeToken := o_ChangeToken req\<rparr>) = o_ID req"
    using GetObject_id [OF ran(3)] by simp
  have "o_ChangeToken req = o_ChangeToken obj"
    using ExpungeObject_token [OF ran(6) [unfolded none]] same_token [OF ran(3)] by (auto simp: i)
  moreover have "good o_IsExpunged (da_db dao1)"
    using assms(4) by (simp add: d1)
  note expunge_scope [OF ran(6) assms(3) this]
  ultimately show ?thesis
    using ran(1-5) none snippets_used_user [OF remove_user_snippets [OF ran(1)], of db] unfolding i d1 by auto
qed

lemma forever_well_formed:
  assumes "deleteObjectForever n env db c body captured dao = Some (Ok (r, dao'))" and "well_formed dao" and "env_ok db"
  shows "well_formed dao'"
  using assms(1)
proof (cases rule: deleteObjectForever_cases)
  case reads
  then show ?thesis
    using assms(2) reads_well_formed by blast
next
  case (ran user req obj dao1 err)
  then show ?thesis
    using step_expunge assms(2,3) reads_well_formed GetObject_reads by blast
qed

lemma removeObjectFromTrash_cases:
  assumes "removeObjectFromTrash n env db body captured dao = Some (Ok (r, dao'))"
  obtains (reads) "reads dao dao'"
  | (ran) token req obj dao1 x err where "NewChangeTokenStructFromJSONBody body = Inr token" and "parseGetObjectRequest captured = Inr req"
      and "GetObject db req True dao = ((obj, None), dao1)" and "may_remove env obj" and "\<not> o_IsExpunged obj" and "\<not> o_IsAncestorDeleted obj"
      and "o_ChangeToken obj = token"
      and "UndeleteObject n db (obj\<lparr>o_ModifiedBy := DistinguishedName (se_caller env)\<rparr>) dao1 = Some ((x, err), dao')"
proof (cases "NewChangeTokenStructFromJSONBody body")
  case (Inl herr)
  then show ?thesis
    using assms reads by (simp add: removeObjectFromTrash_def)
next
  case token: (Inr token)
  show ?thesis
  proof (cases "parseGetObjectRequest captured")
    case (Inl e)
    then show ?thesis
      using assms token reads by (simp add: removeObjectFromTrash_def)
  next
    case req: (Inr req)
    obtain obj e dao1 where get: "GetObject db req True dao = ((obj, e), dao1)"
      by (metis surj_pair)
    note r1 = GetObject_reads [OF get]
    show ?thesis
    proof (cases "e = None \<and> \<not> o_IsExpunged obj \<and> \<not> o_IsAncestorDeleted obj \<and> o_ChangeToken obj = token \<and> may_remove env obj")
      case False
      then have "dao' = dao1"
        using assms get by (cases e) (auto simp: removeObjectFromTrash_def token req split: if_splits)
      then show ?thesis
        using r1 reads by simp
    next
      case True
      then obtain x err where "UndeleteObject n db (obj\<lparr>o_ModifiedBy := DistinguishedName (se_caller env)\<rparr>) dao1 = Some ((x, err), dao')"
        using assms get by (auto simp: removeObjectFromTrash_def token req Let_def split: option.splits if_splits)
      then show ?thesis
        using ran [OF token req] True get by blast
    qed
  qed
qed


lemma restore_well_formed:
  assumes "removeObjectFromTrash n env db body captured dao = Some (Ok (r, dao'))" and "well_formed dao"
  shows "well_formed dao'"
  using assms(1)
proof (cases rule: removeObjectFromTrash_cases)
  case reads
  then show ?thesis
    using assms(2) reads_well_formed by blast
next
  case (ran token req obj dao1 x err)
  obtain row n' ps qs where row: "obj = row\<lparr>o_TypeName := n', o_Permissions := ps, o_Properties := qs\<rparr>"
      "object_row (da_db dao1) (o_ID req) = Some row"
    using ran(3) by (rule GetObject_row)
  have i: "o_ID (obj\<lparr>o_ModifiedBy := DistinguishedName (se_caller env)\<rparr>) = o_ID req"
    using GetObject_id [OF ran(3)] by simp
  have "\<not> o_IsExpunged row"
    using ran(5) by (simp add: row(1))
  then show ?thesis
    using step_undelete [OF ran(8)] row(2) reads_well_formed [OF GetObject_reads [OF ran(3)] assms(2)] i by metis
qed

subsection \<open>Many at once\<close>

lemma bulk_delete_one_well_formed:
  assumes "bulk_delete_one n env db user q dao = Some (Ok (a, dao'))" and "well_formed dao" and "env_ok db"
  shows "well_formed dao'"
proof (cases "hex_decode (ov_ObjectID q)")
  case None
  then show ?thesis
    using assms(1,2) by (simp add: bulk_delete_one_def)
next
  case (Some oid)
  let ?req = "empty_object\<lparr>o_ID := Some oid, o_ChangeToken := ov_ChangeToken q\<rparr>"
  obtain obj e dao1 where get: "GetObject db ?req True dao = ((obj, e), dao1)"
    by (metis surj_pair)
  have wf1: "well_formed dao1"
    by (rule reads_well_formed [OF GetObject_reads [OF get] assms(2)])
  let ?run = "if o_IsDeleted obj then Some (None, dao1)
    else DeleteObject n db user (obj\<lparr>o_ModifiedBy := DistinguishedName (se_caller env), o_ChangeToken := o_ChangeToken ?req\<rparr>) True dao1"
  show ?thesis
  proof (cases "e = None \<and> may_remove env obj \<and> \<not> (o_IsDeleted obj \<and> o_IsExpunged obj)")
    case False
    then have "dao' = dao1"
      using assms(1) get by (cases e) (auto simp: bulk_delete_one_def Some Let_def split: if_splits)
    then show ?thesis
      using wf1 by simp
  next
    case True
    then obtain err dao2 where run: "?run = Some (err, dao2)"
      using assms(1) get by (cases ?run) (auto simp: bulk_delete_one_def Some Let_def split: if_splits)
    have wf2: "well_formed dao2"
      using run wf1 step_delete [OF _ wf1 assms(3)] by (auto split: if_splits)
    obtain obj' e' dao3 where get2: "GetObject db ?req False dao2 = ((obj', e'), dao3)"
      by (metis surj_pair)
    have "dao' = dao2 \<or> dao' = dao3"
    proof (cases err)
      case (Some x)
      then show ?thesis
        using assms(1) get True run \<open>hex_decode _ = _\<close> by (auto simp: bulk_delete_one_def Let_def split: if_splits)
    next
      case None
      then show ?thesis
        using assms(1) get get2 True run Some by (auto simp: bulk_delete_one_def Let_def split: if_splits)
    qed
    then show ?thesis
      using wf2 reads_well_formed [OF GetObject_reads [OF get2] wf2] by blast
  qed
qed

lemma bulk_deletes_well_formed:
  assumes "env_ok db"
  shows "bulk_deletes n env db user qs dao = Some (Ok (rs, dao')) \<Longrightarrow> well_formed dao \<Longrightarrow> well_formed dao'"
proof (induction qs arbitrary: dao rs)
  case (Cons q qs)
  obtain a dao1 where one: "bulk_delete_one n env db user q dao = Some (Ok (a, dao1))"
    using Cons.prems(1) by (auto split: option.splits res.splits)
  obtain rs' where "bulk_deletes n env db user qs dao1 = Some (Ok (rs', dao'))"
    using Cons.prems(1) by (auto simp: one bind_res_Ok_iff)
  then show ?case
    using Cons.IH bulk_delete_one_well_formed [OF one Cons.prems(2) assms] by blast
qed simp

lemma doBulkDelete_well_formed:
  assumes "doBulkDelete n env db c body parse dao = Some (Ok (r, dao'))" and "well_formed dao" and "env_ok db"
  shows "well_formed dao'"
  using assms(1,2) bulk_deletes_well_formed [OF assms(3)]
  by (auto simp: doBulkDelete_def Let_def bind_res_Ok_iff split: if_splits option.splits)

lemma bulk_move_one_well_formed:
  assumes "bulk_move_one env db groups q dao = Some (Ok (a, dao'))" and "well_formed dao"
  shows "well_formed dao'"
proof (cases "hex_decode (mq_ID q) = None \<or> hex_decode (mq_ParentID q) = None")
  case True
  then show ?thesis
    using assms by (auto simp: bulk_move_one_def split: option.splits)
next
  case False
  then obtain oid pid where ids: "hex_decode (mq_ID q) = Some oid" "hex_decode (mq_ParentID q) = Some pid"
    by auto
  let ?req = "empty_object\<lparr>o_ID := Some oid, o_ChangeToken := mq_ChangeToken q, o_ParentID := Some pid\<rparr>"
  obtain obj e dao1 where get: "GetObject db ?req True dao = ((obj, e), dao1)"
    by (metis surj_pair)
  obtain rs dao2 where known: "getKnownResourceStringsFromUserGroups groups dao1 = (rs, dao2)"
    by (metis surj_pair)
  have wf2: "well_formed dao1" "well_formed dao2"
    using assms(2) GetObject_reads [OF get] known_reads [OF known] reads_well_formed by blast+
  show ?thesis
  proof (cases e)
    case (Some x)
    then show ?thesis
      using assms(1) get wf2 by (auto simp: bulk_move_one_def ids Let_def)
  next
    case None
    then obtain code msg err obj' where raw: "moveObjectRaw env db rs ?req obj dao2 = Some (Ok (((code, msg, err), obj'), dao'))"
      using assms(1) get known
      by (auto simp: bulk_move_one_def ids Let_def split: option.splits res.splits prod.splits if_splits)
    show ?thesis
      by (rule move_well_formed [OF get [unfolded None] known_reads [OF known] wf2(2) raw])
  qed
qed

lemma bulk_moves_well_formed:
  "bulk_moves env db groups qs dao = Some (Ok (rs, dao')) \<Longrightarrow> well_formed dao \<Longrightarrow> well_formed dao'"
proof (induction qs arbitrary: dao rs)
  case (Cons q qs)
  obtain a dao1 where one: "bulk_move_one env db groups q dao = Some (Ok (a, dao1))"
    using Cons.prems(1) by (auto split: option.splits res.splits)
  obtain rs' where "bulk_moves env db groups qs dao1 = Some (Ok (rs', dao'))"
    using Cons.prems(1) by (auto simp: one bind_res_Ok_iff)
  then show ?case
    using Cons.IH bulk_move_one_well_formed [OF one Cons.prems(2)] by blast
qed simp

lemma doBulkMove_well_formed:
  "doBulkMove env db groups body parse dao = Some (Ok (r, dao')) \<Longrightarrow> well_formed dao \<Longrightarrow> well_formed dao'"
  using bulk_moves_well_formed by (auto simp: doBulkMove_def bind_res_Ok_iff split: option.splits)

lemma moveObject_well_formed:
  assumes "moveObject env db groups is_json body captured dao = Some (Ok (r, dao'))" and "well_formed dao"
  shows "well_formed dao'"
proof (cases "is_json \<and> (\<exists>req. parseMoveObjectRequestAsJSON body captured = Inr req)")
  case False
  then show ?thesis
    using assms by (auto simp: moveObject_def split: sum.splits if_splits)
next
  case True
  then obtain req where req: "parseMoveObjectRequestAsJSON body captured = Inr req"
    by blast
  obtain obj e dao1 where get: "GetObject db req True dao = ((obj, e), dao1)"
    by (metis surj_pair)
  obtain rs dao2 where known: "getKnownResourceStringsFromUserGroups groups dao1 = (rs, dao2)"
    by (metis surj_pair)
  have wf2: "well_formed dao1" "well_formed dao2"
    using assms(2) GetObject_reads [OF get] known_reads [OF known] reads_well_formed by blast+
  show ?thesis
  proof (cases e)
    case (Some x)
    then show ?thesis
      using assms(1) get wf2 True by (simp add: moveObject_def req)
  next
    case None
    obtain code msg err obj' dao3 where raw: "moveObjectRaw env db rs req obj dao2 = Some (Ok (((code, msg, err), obj'), dao3))"
        and last: "dao' = dao3 \<or> with_crumbs env db obj' dao3 = Some (Ok (r, dao'))"
      using assms(1) get known True None by (auto simp: moveObject_def req split: option.splits res.splits prod.splits if_splits)
    have "well_formed dao3"
      by (rule move_well_formed [OF get [unfolded None] known_reads [OF known] wf2(2) raw])
    then show ?thesis
      using last with_crumbs_reads reads_well_formed by blast
  qed
qed

lemma expungeDeleted_well_formed:
  assumes "expungeDeleted m n env db mine c maxPageSize pageSizeStr dao = Some (Ok (r, dao'))" and "well_formed dao" and "env_ok db"
  shows "well_formed dao'"
proof (cases "case pageSizeStr of None \<Rightarrow> Some maxPageSize | Some s \<Rightarrow> ParseInt64 s")
  case None
  then show ?thesis
    using assms(1,2) by (simp add: expungeDeleted_def)
next
  case (Some s)
  let ?user = "case rc_user c of None \<Rightarrow> empty_user | Some u \<Rightarrow> u"
  obtain x where "ExpungeDeletedByUser m n db mine ?user (if s > maxPageSize then maxPageSize else s) dao = Some (x, dao')"
    using assms(1) by (auto simp: expungeDeleted_def Let_def Some split: option.splits if_splits)
  then show ?thesis
    using empty_trash_well_formed assms(2,3) by blast
qed

text \<open>A drive whose folder is deleted, restored, and deleted for ever by its signed caller.\<close>

definition sample_ctx :: remove_ctx where
  "sample_ctx = \<lparr>rc_caller_set = True, rc_user = Some sample_user,
     rc_snippets = Some [\<lparr>FieldName = ''f_share'', Treatment = ''ALLOWED'', FieldValues = [''cna'']\<rparr>]\<rparr>"

definition sample_body :: "string \<Rightarrow> DeleteObjectRequest option" where
  "sample_body token = Some \<lparr>dq_ID = '''', dq_ChangeToken = token\<rparr>"

text \<open>The rows after a handler that gave no error.\<close>

definition marks_after :: "(('e + 'a) \<times> DataAccessLayer) res option \<Rightarrow> (bool \<times> bool \<times> bool) list option" where
  "marks_after r = (case r of Some (Ok (Inr x, d)) \<Rightarrow>
     Some (map (\<lambda>x. (o_IsDeleted x, o_IsAncestorDeleted x, o_IsExpunged x)) (db_object (da_db d))) | _ \<Rightarrow> None)"

definition state_after :: "(('e + 'a) \<times> DataAccessLayer) res option \<Rightarrow> DataAccessLayer" where
  "state_after r = (case r of Some (Ok (x, d)) \<Rightarrow> d | _ \<Rightarrow> signed_dao)"

definition sample_removed :: DataAccessLayer where
  "sample_removed = state_after (deleteObject 9 sample_stream sample_env sample_ctx (sample_body ''t'') (Some ''01'') signed_dao)"

lemma sample_handlers:
  "marks_after (deleteObject 9 sample_stream sample_env sample_ctx (sample_body ''t'') (Some ''01'') signed_dao)
    = Some [(True, False, False), (True, True, False), (False, False, False)]"
  "marks_after (removeObjectFromTrash 9 sample_stream sample_env (Some ''tt'') (Some ''01'') sample_removed)
    = Some [(False, False, False), (False, False, False), (False, False, False)]"
  "marks_after (deleteObjectForever 9 sample_stream sample_env sample_ctx (sample_body ''t'') (Some ''01'') signed_dao)
    = Some [(True, False, True), (True, True, True), (False, False, False)]"
  by code_simp+

lemma marks_afterD:
  assumes "marks_after r = Some ms"
  obtains x d where "r = Some (Ok (Inr x, d))" and "state_after r = d"
    and "map (\<lambda>x. (o_IsDeleted x, o_IsAncestorDeleted x, o_IsExpunged x)) (db_object (da_db d)) = ms"
proof -
  obtain a d where r: "r = Some (Ok (a, d))"
    using assms by (auto simp: marks_after_def split: option.splits res.splits)
  obtain x where a: "a = Inr x"
    using assms by (cases a) (simp_all add: r marks_after_def)
  have "state_after r = d" "map (\<lambda>x. (o_IsDeleted x, o_IsAncestorDeleted x, o_IsExpunged x)) (db_object (da_db d)) = ms"
    using assms by (simp_all add: r a marks_after_def state_after_def)
  then show ?thesis
    by (rule that [OF r [unfolded a]])
qed

lemma signed_marks: "map (\<lambda>x. (o_IsDeleted x, o_IsAncestorDeleted x, o_IsExpunged x)) (db_object (da_db signed_dao)) =
    [(False, False, False), (False, False, False), (False, False, False)]"
  by code_simp

lemma delete_authorized_witness:
  "\<exists>x dao'. deleteObject 9 sample_stream sample_env sample_ctx (sample_body ''t'') (Some ''01'') signed_dao = Some (Ok (Inr x, dao')) \<and>
    (\<exists>req obj dao1. GetObject sample_env req False signed_dao = ((obj, None), dao1) \<and> may_remove sample_stream obj \<and>
      (\<exists>x \<in> set (db_object (da_db dao')). o_ID x = o_ID req \<and> o_IsDeleted x))"
proof -
  obtain x d where run: "deleteObject 9 sample_stream sample_env sample_ctx (sample_body ''t'') (Some ''01'') signed_dao = Some (Ok (Inr x, d))"
    and marks: "map (\<lambda>x. (o_IsDeleted x, o_IsAncestorDeleted x, o_IsExpunged x)) (db_object (da_db d)) =
      [(True, False, False), (True, True, False), (False, False, False)]"
    using sample_handlers(1) by (rule marks_afterD)
  have "da_db d \<noteq> da_db signed_dao"
    using marks signed_marks by auto
  moreover have "unique_ids (da_db signed_dao)"
    using signed_well_formed by (simp add: well_formed_def forest_def)
  ultimately show ?thesis
    using run delete_authorized [OF run _ sample_env_ok] by blast
qed

lemma forever_authorized_witness:
  "\<exists>x dao'. deleteObjectForever 9 sample_stream sample_env sample_ctx (sample_body ''t'') (Some ''01'') signed_dao = Some (Ok (Inr x, dao')) \<and>
    (\<exists>req obj dao1. GetObject sample_env req True signed_dao = ((obj, None), dao1) \<and> may_remove sample_stream obj \<and>
      (\<exists>x \<in> set (db_object (da_db dao')). o_ID x = o_ID req \<and> o_IsExpunged x))"
proof -
  obtain x d where run: "deleteObjectForever 9 sample_stream sample_env sample_ctx (sample_body ''t'') (Some ''01'') signed_dao = Some (Ok (Inr x, d))"
    and marks: "map (\<lambda>x. (o_IsDeleted x, o_IsAncestorDeleted x, o_IsExpunged x)) (db_object (da_db d)) =
      [(True, False, True), (True, True, True), (False, False, False)]"
    using sample_handlers(3) by (rule marks_afterD)
  have "da_db d \<noteq> da_db signed_dao"
    using marks signed_marks by auto
  moreover have "good o_IsExpunged (da_db signed_dao)"
    using signed_well_formed by (simp add: well_formed_def)
  ultimately show ?thesis
    using run forever_authorized [OF run _ sample_env_ok] by blast
qed

lemma removed_well_formed: "well_formed sample_removed"
proof -
  obtain x where "deleteObject 9 sample_stream sample_env sample_ctx (sample_body ''t'') (Some ''01'') signed_dao
      = Some (Ok (Inr x, sample_removed))"
    using sample_handlers(1) unfolding sample_removed_def by (rule marks_afterD) simp
  then show ?thesis
    using delete_well_formed signed_well_formed sample_env_ok by blast
qed

lemma removed_marks: "map (\<lambda>x. (o_IsDeleted x, o_IsAncestorDeleted x, o_IsExpunged x)) (db_object (da_db sample_removed)) =
    [(True, False, False), (True, True, False), (False, False, False)]"
  using sample_handlers(1) unfolding sample_removed_def by (rule marks_afterD) simp


text \<open>Deleting an expunged object with others makes the handler panic.\<close>

definition sample_expunged :: DataAccessLayer where
  "sample_expunged = state_after (deleteObjectForever 9 sample_stream sample_env sample_ctx (sample_body ''t'') (Some ''01'') signed_dao)"

lemma bulk_delete_panics:
  "doBulkDelete 9 sample_stream sample_env sample_ctx (Some ()) (\<lambda>_. Some [\<lparr>ov_ObjectID = ''01'', ov_ChangeToken = ''tt''\<rparr>]) sample_expunged
    = Some Panic"
  by code_simp

end
