(* ===== verification/Object_Change.thy ===== *)
theory Object_Change
  imports Object_Get
begin

text \<open>
  What the handlers that create and change objects share: the permissions of a request merged and given a key
  (\<open>server/createObject.go\<close>), the comparison of the shares of two ACMs (\<open>server/acmUtils.go\<close>), and the type of an object by
  its name (\<open>server/createObject.go\<close>, \<open>dao/dao.GetObjectTypeByName.go\<close>, \<open>dao/dao.CreateObjectType.go\<close>).
\<close>

subsection \<open>Permissions of a request\<close>

text \<open>A new permission that is not deleted is merged into every new one of its grantee that went before it.\<close>

definition absorbs :: "ODObjectPermission \<Rightarrow> ODObjectPermission \<Rightarrow> bool" where
  "absorbs perm c \<longleftrightarrow> \<not> p_IsDeleted perm \<and> \<not> p_IsDeleted c \<and> perm_IsCreating c \<and> perm_IsCreating perm \<and> p_Grantee c = p_Grantee perm"

definition consolidate_change :: "ODObjectPermission \<Rightarrow> ODObjectPermission list \<Rightarrow> ODObjectPermission list" where
  "consolidate_change perm consolidated =
     (if list_ex (absorbs perm) consolidated
      then map (\<lambda>c. if absorbs perm c then or_flags c perm else c) consolidated
      else consolidated @ [perm])"

definition consolidateChangingPermissions :: "ODObject \<Rightarrow> ODObject" where
  "consolidateChangingPermissions obj = obj\<lparr>o_Permissions := fold consolidate_change (o_Permissions obj) []\<rparr>"

text \<open>The key of a permission that the caller holds is copied to all of them; \<open>None\<close> ends the program.\<close>

fun copy_keys :: "(nat \<Rightarrow> ODObjectPermission \<Rightarrow> ODObjectPermission option) \<Rightarrow> ODObjectPermission list \<Rightarrow> ODObjectPermission list option" where
  "copy_keys copy [] = Some []"
| "copy_keys copy (p # ps) = (case copy (length ps) p of None \<Rightarrow> None
     | Some q \<Rightarrow> (case copy_keys copy ps of None \<Rightarrow> None | Some qs \<Rightarrow> Some (q # qs)))"

definition rekeyed :: "stream_env \<Rightarrow> (nat \<Rightarrow> bytes) \<Rightarrow> ODObjectPermission \<Rightarrow> ODObject \<Rightarrow> ODObject res" where
  "rekeyed env rnd grant obj =
     (case copy_keys (\<lambda>n. CopyEncryptKey (se_sha env) (rnd n) (se_masterKey env) grant) (o_Permissions obj) of
        None \<Rightarrow> Panic | Some ps \<Rightarrow> Ok (obj\<lparr>o_Permissions := ps\<rparr>))"

text \<open>The permissions are brought in line with an ACM, which the caller has to have access to, and merged.\<close>

definition normalize_change :: "stream_env \<Rightarrow> marshal \<Rightarrow> string \<Rightarrow> bool \<Rightarrow> string \<Rightarrow> ODObject \<Rightarrow> (AppError + ODObject) res" where
  "normalize_change env mar owner creating acm obj =
     (case aacNormalizePermissionsFromACM (se_unm env) mar owner (o_Permissions obj) acm creating of
        Panic \<Rightarrow> Panic | Fail e \<Rightarrow> Fail e
      | Ok (_, _, Some e) \<Rightarrow> Ok (Inl (NewAppError (authHTTPErr e) e))
      | Ok (modifiedPermissions, modifiedACM, None) \<Rightarrow>
         (let obj1 = obj\<lparr>o_RawAcm := ToNullString modifiedACM, o_Permissions := modifiedPermissions\<rparr> in
          case acm_err env obj1 of
            Some herr \<Rightarrow> Ok (Inl herr) | None \<Rightarrow> Ok (Inr (consolidateChangingPermissions obj1))))"

subsection \<open>The share of an ACM\<close>

text \<open>Deep equality of decoded values: the order of the keys of an object does not matter.\<close>

function json_same :: "json \<Rightarrow> json \<Rightarrow> bool" where
  "json_same (JArr xs) b = (case b of JArr ys \<Rightarrow> length xs = length ys \<and> list_all (\<lambda>p. json_same (fst p) (snd p)) (zip xs ys) | _ \<Rightarrow> False)"
| "json_same (JObj m) b = (case b of JObj n \<Rightarrow> length m = length n \<and>
     list_all (\<lambda>p. case map_of n (fst p) of None \<Rightarrow> False | Some w \<Rightarrow> json_same (snd p) w) m | _ \<Rightarrow> False)"
| "json_same JNull b = (b = JNull)"
| "json_same (JBool x) b = (b = JBool x)"
| "json_same (JNum x) b = (b = JNum x)"
| "json_same (JStr x) b = (b = JStr x)"
  by pat_completeness auto

lemma size_in_zip: "p \<in> set (zip xs ys) \<Longrightarrow> size (fst p) < Suc (size_list size xs)"
  by (cases p) (auto dest!: set_zip_leftD simp: le_imp_less_Suc size_list_estimation')

lemma size_in_obj: "p \<in> set m \<Longrightarrow> size (snd p) < Suc (size_list (size_prod (\<lambda>x. 0) size) m)"
  by (rule le_imp_less_Suc, rule size_list_estimation') (auto simp: size_prod_simp)

termination json_same
  by (relation "measure (\<lambda>(a, b). size a)") (use size_in_zip size_in_obj in fastforce)+

definition getACMMap :: "unmarshal \<Rightarrow> NullString \<Rightarrow> AppError + (string \<times> json) list" where
  "getACMMap unm acm =
     (if \<not> ns_Valid acm then Inl (NewAppError 400 ''Missing ACM'')
      else if length (ns_String acm) = 0 then Inl (NewAppError 400 ''Missing ACM'')
      else (case unm (ns_String acm) of
          None \<Rightarrow> Inl (NewAppError 500 ''ACM unparseable'')
        | Some acmInterface \<Rightarrow> (case acmInterface of JObj m \<Rightarrow> Inr m | _ \<Rightarrow> Inl (NewAppError 500 ''ACM unparseable''))))"

definition getACMInterfacePart :: "unmarshal \<Rightarrow> NullString \<Rightarrow> string \<Rightarrow> AppError + json" where
  "getACMInterfacePart unm acm acmKeySearch = (case getACMMap unm acm of
     Inl herr \<Rightarrow> Inl herr | Inr m \<Rightarrow> Inr (case map_of m acmKeySearch of None \<Rightarrow> JNull | Some v \<Rightarrow> v))"

definition isAcmShareDifferent :: "unmarshal \<Rightarrow> string \<Rightarrow> string \<Rightarrow> AppError + bool" where
  "isAcmShareDifferent unm acm1 acm2 =
     (case getACMInterfacePart unm (ToNullString acm1) ''share'' of
        Inl herr1 \<Rightarrow> Inl herr1
      | Inr share1 \<Rightarrow> (case getACMInterfacePart unm (ToNullString acm2) ''share'' of
          Inl herr2 \<Rightarrow> Inl herr2 | Inr share2 \<Rightarrow> Inr (\<not> json_same share1 share2)))"

subsection \<open>The type of an object\<close>

type_synonym type_cache = "(string \<times> bytes) list"

definition getObjectTypeByNameInTransaction :: "Db \<Rightarrow> string \<Rightarrow> (bytes \<times> string \<times> bool) option" where
  "getObjectTypeByNameInTransaction db typeName =
     (case find_last (\<lambda>(i, n, del). n = typeName \<and> \<not> del) (db_type db) of
        Some t \<Rightarrow> Some t | None \<Rightarrow> find_last (\<lambda>(i, n, del). n = typeName) (db_type db))"

text \<open>A type is inserted when no other that is not deleted has its name (the trigger \<open>ti_object_type\<close>), and read again.
  Its error is none that a new attempt could help.\<close>

definition CreateObjectType :: "db_env \<Rightarrow> string \<Rightarrow> DataAccessLayer \<Rightarrow> (string + bytes \<times> string \<times> bool) \<times> DataAccessLayer" where
  "CreateObjectType env typeName dao =
     (if list_ex (\<lambda>(i, n, del). n = typeName \<and> \<not> del) (db_type (da_db dao))
      then (Inl ''Field name must be unique when inserting record into object_type'', dao)
      else (let row = (de_fresh env (map fst (db_type (da_db dao))), typeName, False) in
        (Inr row, dao\<lparr>da_db := (da_db dao)\<lparr>db_type := db_type (da_db dao) @ [row]\<rparr>\<rparr>)))"

definition GetObjectTypeByName :: "db_env \<Rightarrow> string \<Rightarrow> bool \<Rightarrow> DataAccessLayer \<Rightarrow> (string + bytes \<times> string \<times> bool) \<times> DataAccessLayer" where
  "GetObjectTypeByName env typeName addIfMissing dao =
     (case getObjectTypeByNameInTransaction (da_db dao) typeName of
        None \<Rightarrow> (if addIfMissing then CreateObjectType env typeName dao else (Inl ErrNoRows, dao))
      | Some (i, n, del) \<Rightarrow> (if del \<and> addIfMissing then CreateObjectType env typeName dao else (Inr (i, n, del), dao)))"

text \<open>The types are cached by name. What the cache holds at a request, after the entries it has dropped, is an input.\<close>

definition handleTypeName :: "db_env \<Rightarrow> type_cache \<Rightarrow> ODObject \<Rightarrow> DataAccessLayer
    \<Rightarrow> (string option \<times> ODObject \<times> type_cache) \<times> DataAccessLayer" where
  "handleTypeName env types obj dao =
     (if slice_len (o_TypeID obj) \<noteq> 0 then ((None, obj, types), dao)
      else (let obj1 = obj\<lparr>o_TypeID := None\<rparr>; n = ns_String (o_TypeName obj1) in
        case map_of types n of
          Some i \<Rightarrow> ((None, obj1\<lparr>o_TypeID := Some i\<rparr>, types), dao)
        | None \<Rightarrow> (case GetObjectTypeByName env n True dao of
            (Inl e, dao1) \<Rightarrow> ((Some e, obj1, types), dao1)
          | (Inr (i, _, _), dao1) \<Rightarrow> ((None, obj1\<lparr>o_TypeID := Some i\<rparr>, assoc_set n i types), dao1))))"

definition GetPermissionsForObject :: "db_env \<Rightarrow> ODObject \<Rightarrow> DataAccessLayer
    \<Rightarrow> (ODObjectPermission list \<times> string option) \<times> DataAccessLayer" where
  "GetPermissionsForObject env obj dao = getPermissionsForObjectInTransaction env (o_ID obj) dao"

subsection \<open>What they do\<close>

text \<open>Merging takes no grant and adds none: for every grantee, the new permissions give what they gave before.\<close>

definition new_grants :: "ODObjectPermission list \<Rightarrow> string \<Rightarrow> capability \<Rightarrow> bool" where
  "new_grants ps g c \<longleftrightarrow> (\<exists>p \<in> set ps. \<not> p_IsDeleted p \<and> perm_IsCreating p \<and> p_Grantee p = g \<and> has_cap c p)"

lemma has_cap_or [simp]: "has_cap c (or_flags a b) \<longleftrightarrow> has_cap c a \<or> has_cap c b"
  by (cases c) (simp_all add: or_flags_def set_flags_def)

lemma or_flags_row [simp]: "p_IsDeleted (or_flags a b) = p_IsDeleted a" "p_Grantee (or_flags a b) = p_Grantee a"
    "perm_IsCreating (or_flags a b) = perm_IsCreating a" "p_ID (or_flags a b) = p_ID a"
  by (simp_all add: or_flags_def set_flags_def perm_IsCreating_def)

definition old_rows :: "ODObjectPermission list \<Rightarrow> ODObjectPermission list" where
  "old_rows ps = filter (\<lambda>p. p_IsDeleted p \<or> \<not> perm_IsCreating p) ps"

definition new_rows :: "ODObjectPermission list \<Rightarrow> ODObjectPermission list" where
  "new_rows ps = filter (\<lambda>p. \<not> p_IsDeleted p \<and> perm_IsCreating p) ps"

lemma new_grants_Cons: "new_grants (p # ps) g c \<longleftrightarrow>
    (\<not> p_IsDeleted p \<and> perm_IsCreating p \<and> p_Grantee p = g \<and> has_cap c p) \<or> new_grants ps g c"
  by (auto simp: new_grants_def)

lemma new_grants_append: "new_grants (ps @ qs) g c \<longleftrightarrow> new_grants ps g c \<or> new_grants qs g c"
  by (auto simp: new_grants_def)

lemma new_grants_absorb:
  "new_grants (map (\<lambda>c. if absorbs perm c then or_flags c perm else c) cs) g c \<longleftrightarrow>
    new_grants cs g c \<or> (list_ex (absorbs perm) cs \<and> p_Grantee perm = g \<and> has_cap c perm)"
proof (induction cs)
  case (Cons a cs)
  then show ?case
    by (auto simp: new_grants_Cons absorbs_def)
qed (simp add: new_grants_def)

lemma consolidate_change_grants: "new_grants (consolidate_change perm cs) g c \<longleftrightarrow> new_grants (cs @ [perm]) g c"
proof (cases "list_ex (absorbs perm) cs")
  case True
  moreover have "\<not> p_IsDeleted perm \<and> perm_IsCreating perm"
    using True by (auto simp: list_ex_iff absorbs_def)
  ultimately show ?thesis
    by (auto simp: consolidate_change_def new_grants_absorb new_grants_append) (auto simp: new_grants_def)
qed (simp add: consolidate_change_def)

lemma filter_map_same:
  "(\<And>x. x \<in> set xs \<Longrightarrow> P (f x) \<longleftrightarrow> P x) \<Longrightarrow> (\<And>x. x \<in> set xs \<Longrightarrow> P x \<Longrightarrow> f x = x) \<Longrightarrow> filter P (map f xs) = filter P xs"
  by (induction xs) auto

lemma consolidate_change_old: "old_rows (consolidate_change perm cs) = old_rows cs @ old_rows [perm]"
proof (cases "list_ex (absorbs perm) cs")
  case True
  moreover have "\<not> p_IsDeleted perm \<and> perm_IsCreating perm"
    using True by (auto simp: list_ex_iff absorbs_def)
  moreover have "old_rows (map (\<lambda>c. if absorbs perm c then or_flags c perm else c) cs) = old_rows cs"
    unfolding old_rows_def by (rule filter_map_same) (auto simp: absorbs_def)
  ultimately show ?thesis
    by (simp add: consolidate_change_def old_rows_def)
qed (simp add: consolidate_change_def old_rows_def)

lemma consolidate_change_distinct:
  "distinct (map p_Grantee (new_rows cs)) \<Longrightarrow> distinct (map p_Grantee (new_rows (consolidate_change perm cs)))"
proof (cases "list_ex (absorbs perm) cs")
  case True
  have "map p_Grantee (new_rows (map (\<lambda>c. if absorbs perm c then or_flags c perm else c) cs)) = map p_Grantee (new_rows cs)"
    by (induction cs) (auto simp: new_rows_def)
  then show "distinct (map p_Grantee (new_rows cs)) \<Longrightarrow> distinct (map p_Grantee (new_rows (consolidate_change perm cs)))"
    using True by (simp add: consolidate_change_def)
next
  case False
  then show "distinct (map p_Grantee (new_rows cs)) \<Longrightarrow> distinct (map p_Grantee (new_rows (consolidate_change perm cs)))"
    by (auto simp: consolidate_change_def new_rows_def list_ex_iff absorbs_def)
qed

lemma consolidate_fold:
  "(new_grants (fold consolidate_change ps cs) g c \<longleftrightarrow> new_grants (cs @ ps) g c) \<and>
    old_rows (fold consolidate_change ps cs) = old_rows cs @ old_rows ps \<and>
    (distinct (map p_Grantee (new_rows cs)) \<longrightarrow> distinct (map p_Grantee (new_rows (fold consolidate_change ps cs))))"
proof (induction ps arbitrary: cs)
  case (Cons p ps)
  have split: "old_rows (p # ps) = old_rows [p] @ old_rows ps"
    by (simp add: old_rows_def)
  show ?case
    using Cons.IH [of "consolidate_change p cs"] consolidate_change_distinct [of cs p]
    by (simp add: new_grants_append consolidate_change_grants consolidate_change_old split) (auto simp: new_grants_Cons new_grants_append new_grants_def)
qed (simp add: old_rows_def)

lemma consolidated_change:
  fixes obj :: ODObject
  defines "ps \<equiv> o_Permissions (consolidateChangingPermissions obj)"
  shows "new_grants ps g c \<longleftrightarrow> new_grants (o_Permissions obj) g c"
    and "old_rows ps = old_rows (o_Permissions obj)"
    and "distinct (map p_Grantee (new_rows ps))"
  using consolidate_fold [of "o_Permissions obj" "[]" g c]
  by (simp_all add: ps_def consolidateChangingPermissions_def old_rows_def new_rows_def)

subsection \<open>Carrying a change down\<close>

text \<open>The walk that \<open>updateObjectRecursive\<close> and \<open>changeOwnerRecursive\<close> make: page after page of the children of an object,
  each child visited, and the walk repeated from each child that the visit changed. Fuel bounds its depth and pages. A
  walk from a child that the code starts beside the loop is run here before the next child.\<close>

type_synonym visit = "ODObject \<Rightarrow> ODObject \<Rightarrow> DataAccessLayer \<Rightarrow> (ODObject option \<times> DataAccessLayer) res"

function descend_pages :: "visit \<Rightarrow> nat \<Rightarrow> db_env \<Rightarrow> int \<Rightarrow> int \<Rightarrow> ODObject \<Rightarrow> DataAccessLayer \<Rightarrow> DataAccessLayer res option"
  and descend_children :: "visit \<Rightarrow> nat \<Rightarrow> db_env \<Rightarrow> int \<Rightarrow> ODObject \<Rightarrow> ODObject list \<Rightarrow> DataAccessLayer \<Rightarrow> DataAccessLayer res option" where
  "descend_pages visit 0 db sz page parent dao = None"
| "descend_pages visit (Suc n) db sz page parent dao =
     (case getChildObjectsInTransaction db page sz (o_ID parent) True True dao of
        ((_, Some e), dao1) \<Rightarrow> Some (Ok dao1)
      | ((children, None), dao1) \<Rightarrow> (case descend_children visit n db sz parent (rs_Objects children) dao1 of
          Some (Ok dao2) \<Rightarrow> (if page + 1 > rs_PageCount children then Some (Ok dao2)
            else descend_pages visit n db sz (page + 1) parent dao2)
        | x \<Rightarrow> x))"
| "descend_children visit n db sz parent [] dao = Some (Ok dao)"
| "descend_children visit n db sz parent (child # children) dao =
     (if o_IsDeleted child then descend_children visit n db sz parent children dao
      else (case visit parent child dao of
          Panic \<Rightarrow> Some Panic | Fail e \<Rightarrow> Some (Fail e)
        | Ok (None, dao1) \<Rightarrow> descend_children visit n db sz parent children dao1
        | Ok (Some child', dao1) \<Rightarrow> (case descend_pages visit n db sz 1 child' dao1 of
            Some (Ok dao2) \<Rightarrow> descend_children visit n db sz parent children dao2
          | x \<Rightarrow> x)))"
  by pat_completeness auto
termination
  by (relation "measures [case_sum (\<lambda>(v, n, _). n) (\<lambda>(v, n, _). n), case_sum (\<lambda>_. 0) (\<lambda>(_, _, _, _, _, cs, _). Suc (length cs))]") auto

text \<open>Where every row lies. A visit that writes a child of the tree back with its parent moves nothing.\<close>

definition places :: "DataAccessLayer \<Rightarrow> (slice \<times> slice) list" where
  "places dao = map (\<lambda>x. (o_ID x, norm_id (o_ParentID x))) (db_object (da_db dao))"

definition keeps_places :: "DataAccessLayer \<Rightarrow> DataAccessLayer \<Rightarrow> bool" where
  "keeps_places a b \<longleftrightarrow> well_formed b \<and> places b = places a"

definition placed :: "ODObject \<Rightarrow> DataAccessLayer \<Rightarrow> bool" where
  "placed x dao \<longleftrightarrow> (o_ID x, norm_id (o_ParentID x)) \<in> set (places dao)"

definition visit_ok :: "visit \<Rightarrow> bool" where
  "visit_ok visit \<longleftrightarrow> (\<forall>parent child dao r dao'. visit parent child dao = Ok (r, dao') \<longrightarrow> well_formed dao \<longrightarrow> placed child dao \<longrightarrow>
     keeps_places dao dao')"

lemma keeps_places_trans: "keeps_places a b \<Longrightarrow> keeps_places b c \<Longrightarrow> keeps_places a c"
  by (simp add: keeps_places_def)

lemma reads_places: "reads a b \<Longrightarrow> well_formed a \<Longrightarrow> keeps_places a b"
  using reads_well_formed by (auto simp: keeps_places_def places_def reads_def)

lemma placed_keeps: "keeps_places a b \<Longrightarrow> placed x a \<Longrightarrow> placed x b"
  by (simp add: keeps_places_def placed_def)

lemma load_objects_spec:
  assumes "load_objects env b c (map (\<lambda>x. empty_object\<lparr>o_ID := o_ID x\<rparr>) xs) dao = ((ys, None), dao')"
  shows "reads dao dao' \<and> (\<forall>y \<in> set ys. placed y dao)"
  using assms
proof (induction xs arbitrary: ys dao)
  case (Cons x xs)
  obtain y e dao1 where get: "getObjectInTransaction env (o_ID x) b c dao = ((y, e), dao1)"
    by (metis surj_pair)
  have e: "e = None"
    using Cons.prems by (cases e) (simp_all add: get)
  obtain zs where rest: "load_objects env b c (map (\<lambda>x. empty_object\<lparr>o_ID := o_ID x\<rparr>) xs) dao1 = ((zs, None), dao')" "ys = y # zs"
    using Cons.prems by (auto simp: get e split: prod.splits)
  obtain row n ps qs where row: "object_row (da_db dao) (o_ID x) = Some row" "o_ID y = o_ID x" "y = row\<lparr>o_TypeName := n, o_Permissions := ps, o_Properties := qs\<rparr>"
    using get unfolding e by (rule getObject_row)
  have dbs: "da_db dao1 = da_db dao"
    using getObject_reads [OF get] by (simp add: reads_def)
  have "placed y dao"
    unfolding placed_def places_def using object_row_mem [OF row(1)] by (auto simp: row(3) intro!: image_eqI [of _ _ row])
  moreover have "\<forall>z \<in> set zs. placed z dao"
    using Cons.IH [OF rest(1)] by (simp add: placed_def places_def dbs)
  ultimately show ?case
    using Cons.IH [OF rest(1)] getObject_reads [OF get] reads_trans rest(2) by auto
qed simp

lemma load_objects_reads: "load_objects env b c xs dao = (r, dao') \<Longrightarrow> reads dao dao'"
proof (induction xs arbitrary: r dao)
  case (Cons x xs)
  obtain y e dao1 where get: "getObjectInTransaction env (o_ID x) b c dao = ((y, e), dao1)"
    by (metis surj_pair)
  show ?case
    using Cons getObject_reads [OF get] reads_trans by (cases e) (auto simp: get split: prod.splits)
qed simp

lemma children_placed:
  assumes "getChildObjectsInTransaction db page sz i True True dao = ((rs, e), dao')"
  shows "reads dao dao' \<and> (e = None \<longrightarrow> (\<forall>y \<in> set (rs_Objects rs). placed y dao))"
proof -
  let ?stubs = "map (\<lambda>x. empty_object\<lparr>o_ID := o_ID x\<rparr>) (page_rows page sz (de_recent db (child_rows (da_db dao) i)))"
  obtain xs e' dao1 where load: "load_objects db True True ?stubs dao = ((xs, e'), dao1)"
    by (metis surj_pair)
  then have "rs_Objects rs = xs" "e' = e" "dao1 = dao'"
    using assms by (auto simp: getChildObjectsInTransaction_def load_page_def Let_def)
  then show ?thesis
    using load load_objects_reads [OF load] load_objects_spec by blast
qed

lemma descend_keeps:
  "descend_pages visit n db sz page parent dao = Some (Ok dao') \<Longrightarrow> visit_ok visit \<Longrightarrow> well_formed dao \<Longrightarrow> keeps_places dao dao'"
  "descend_children visit n db sz parent cs dao = Some (Ok dao') \<Longrightarrow> visit_ok visit \<Longrightarrow> well_formed dao \<Longrightarrow>
     (\<And>c. c \<in> set cs \<Longrightarrow> placed c dao) \<Longrightarrow> keeps_places dao dao'"
proof (induction visit n db sz page parent dao and visit n db sz parent cs dao arbitrary: dao' and dao'
    rule: descend_pages_descend_children.induct)
  case (2 visit n db sz page parent dao)
  obtain rs e dao1 where get: "getChildObjectsInTransaction db page sz (o_ID parent) True True dao = ((rs, e), dao1)"
    by (metis surj_pair)
  have k1: "keeps_places dao dao1"
    using children_placed [OF get] reads_places 2(5) by blast
  show ?case
  proof (cases e)
    case (Some m)
    then show ?thesis
      using 2(3) k1 by (simp add: get)
  next
    case None
    obtain dao2 where d: "descend_children visit n db sz parent (rs_Objects rs) dao1 = Some (Ok dao2)"
      using 2(3) by (auto simp: get None split: option.splits res.splits)
    have wf: "well_formed dao1"
      using k1 by (simp add: keeps_places_def)
    have p: "placed c dao1" if "c \<in> set (rs_Objects rs)" for c
      using children_placed [OF get] that placed_keeps [OF k1] None by blast
    have "keeps_places dao1 dao2"
      using 2(1) [OF get [symmetric] refl None d 2(4) wf] p by blast
    then have k2: "keeps_places dao dao2"
      using k1 keeps_places_trans by blast
    show ?thesis
    proof (cases "page + 1 > rs_PageCount rs")
      case True
      then show ?thesis
        using 2(3) k2 by (simp add: get None d)
    next
      case False
      then have "descend_pages visit n db sz (page + 1) parent dao2 = Some (Ok dao')"
        using 2(3) by (simp add: get None d)
      moreover have "well_formed dao2"
        using k2 by (simp add: keeps_places_def)
      ultimately have "keeps_places dao2 dao'"
        using 2(2) [OF get [symmetric] refl None d refl False _ 2(4)] by blast
      then show ?thesis
        using k2 keeps_places_trans by blast
    qed
  qed
next
  case (3 visit n db sz parent dao)
  then show ?case
    by (simp add: keeps_places_def)
next
  case (4 visit n db sz parent child children dao)
  show ?case
  proof (cases "o_IsDeleted child")
    case True
    then show ?thesis
      using 4(1) [OF True _ 4(6,7)] 4(5,8) by simp
  next
    case False
    obtain x dao1 where v: "visit parent child dao = Ok (x, dao1)"
      using 4(5) False by (auto split: res.splits)
    have k1: "keeps_places dao dao1"
      using 4(6,7,8) v unfolding visit_ok_def by (metis list.set_intros(1))
    then have wf: "well_formed dao1"
      by (simp add: keeps_places_def)
    have rest: "placed c dao1" if "c \<in> set children" for c
      using 4(8) that placed_keeps [OF k1] by simp
    show ?thesis
    proof (cases x)
      case None
      then have "descend_children visit n db sz parent children dao1 = Some (Ok dao')"
        using 4(5) False v by simp
      then show ?thesis
        using 4(2) [OF False v refl None _ 4(6) wf] rest k1 keeps_places_trans by blast
    next
      case (Some child')
      then obtain dao2 where d: "descend_pages visit n db sz 1 child' dao1 = Some (Ok dao2)"
        using 4(5) False v by (auto split: option.splits res.splits)
      have k2: "keeps_places dao1 dao2"
        using 4(3) [OF False v refl Some d 4(6) wf] .
      then have "well_formed dao2" "\<And>c. c \<in> set children \<Longrightarrow> placed c dao2"
        using rest placed_keeps by (auto simp: keeps_places_def placed_def)
      moreover have "descend_children visit n db sz parent children dao2 = Some (Ok dao')"
        using 4(5) False v Some d by simp
      ultimately have "keeps_places dao2 dao'"
        using 4(4) [OF False v refl Some d refl _ 4(6)] by blast
      then show ?thesis
        using k1 k2 keeps_places_trans by blast
    qed
  qed
qed simp

end
