(* ===== verification/Object_Update.thy ===== *)
theory Object_Update
  imports Object_Change Object_Move
begin

text \<open>
  \<open>server/updateObject.go\<close>: changing the metadata, the ACM and the permissions of an object, and carrying the permissions
  down to what lies below it. What the response is followed by is part of the answer: the object that the recursive
  update starts from, if one was asked for.
\<close>

subsection \<open>The request\<close>

record UpdateObjectRequest =
  ur_ID :: string
  ur_ChangeToken :: string
  ur_TypeID :: string
  ur_TypeName :: string
  ur_Name :: string
  ur_Description :: string
  ur_RawAcm :: json
  ur_Permission :: Permission
  ur_ContentType :: string
  ur_ContainsUSPersonsData :: string
  ur_ExemptFromFOIA :: string
  ur_Properties :: "Property list"
  ur_RecursiveShare :: bool

text \<open>\<open>None\<close> for the body is an error of the decoder.\<close>

definition parseUpdateObjectRequestAsJSON :: "marshal \<Rightarrow> bool \<Rightarrow> string option \<Rightarrow> UpdateObjectRequest option
    \<Rightarrow> (ODObject \<times> bool) res" where
  "parseUpdateObjectRequestAsJSON mar is_json captured body =
     (if \<not> is_json then Fail ''expected Content-Type: application/json''
      else (case parseGetObjectRequest captured of
          Inl e \<Rightarrow> Fail ''Object Identifier in Request URI is not a hex string''
        | Inr requestObject \<Rightarrow> (case body of
            None \<Rightarrow> Fail ''decode''
          | Some j \<Rightarrow>
             (if hex_encode (slice_bytes (o_ID requestObject)) \<noteq> ur_ID j then Fail ''bad request: ID mismatch''
              else if ur_Name j \<noteq> '''' \<and> length (fst (GetNextDelimitedPart (ur_Name j) DefaultPathDelimiter)) > 0
              then Fail (''bad request: name cannot include path delimiter '' @ DefaultPathDelimiter)
              else (case MarshalInterfaceToString mar (ur_RawAcm j) of
                  None \<Rightarrow> Fail ''json''
                | Some convertedAcm \<Rightarrow> bind_res (MapPermissionToODPermissions (ur_Permission j)) (\<lambda>permissions.
                   (case (if length (ur_Properties j) > 0 then MapPropertiesToODProperties (ur_Properties j) else Inr []) of
                      Inl e \<Rightarrow> Fail e
                    | Inr properties \<Rightarrow> Ok (requestObject\<lparr>o_Name := ur_Name j, o_ChangeToken := ur_ChangeToken j,
                        o_TypeName := ToNullString (ur_TypeName j), o_Description := ToNullString (ur_Description j),
                        o_RawAcm := ToNullString convertedAcm, o_Permissions := permissions,
                        o_ContentType := ToNullString (ur_ContentType j), o_ContainsUSPersonsData := ur_ContainsUSPersonsData j,
                        o_ExemptFromFOIA := ur_ExemptFromFOIA j, o_Properties := properties\<rparr>, ur_RecursiveShare j))))))))"

subsection \<open>The steps of an update\<close>

text \<open>The second case of the deleted states is never reached.\<close>

definition check_updatable :: "stream_env \<Rightarrow> ODObject \<Rightarrow> ODObject \<Rightarrow> AppError option" where
  "check_updatable env requestObject dbObject =
     (if \<not> isUserAllowedToUpdate (se_sha env) (se_masterKey env) (se_caller env) (se_groups env) dbObject
      then Some (NewAppError 403 ''user does not have permission to update this object'')
      else (case acm_err env dbObject of
          Some herr \<Rightarrow> Some herr
        | None \<Rightarrow>
           (if o_IsDeleted dbObject
            then (if o_IsExpunged dbObject then Some (NewAppError 410 ''The object no longer exists.'')
                  else if o_IsAncestorDeleted dbObject \<and> \<not> o_IsDeleted dbObject
                  then Some (NewAppError 409 ''The object cannot be modified because an ancestor is deleted.'')
                  else Some (NewAppError 409 ''The object is currently in the trash. Use removeObjectFromTrash to restore it''))
            else if o_IsDeleted requestObject \<or> o_IsAncestorDeleted requestObject \<or> o_IsExpunged requestObject
            then Some (NewAppError 409 ''Assigning object as deleted through update operation not allowed. Use deleteObject operation'')
            else if o_ChangeToken requestObject \<noteq> o_ChangeToken dbObject
            then Some (NewAppError 409 ''changeToken does not match expected value'')
            else None)))"

text \<open>What an update leaves as it is: the parent, the stream and the owner; and the ACM and the permissions when the
  request gives none. An ACM or permissions that are given replace the old permissions.\<close>

definition retained :: "ODObject \<Rightarrow> ODObject \<Rightarrow> ODObject" where
  "retained dbObject req = req\<lparr>o_ParentID := o_ParentID dbObject, o_ContentConnector := o_ContentConnector dbObject,
     o_ContentType := (if \<not> ns_Valid (o_ContentType req) then o_ContentType dbObject else o_ContentType req),
     o_ContentSize := o_ContentSize dbObject, o_ContentHash := o_ContentHash dbObject, o_EncryptIV := o_EncryptIV dbObject,
     o_OwnedBy := ToNullString (ns_String (o_OwnedBy dbObject)),
     o_RawAcm := (if length (ns_String (o_RawAcm req)) > 0 then o_RawAcm req else ToNullString (ns_String (o_RawAcm dbObject))),
     o_Permissions := replace_permissions (o_Permissions req) (ns_String (o_RawAcm req)) (o_Permissions dbObject)\<rparr>"

text \<open>A changed ACM is checked once more, and a changed share needs the permission to share, on the permissions read again.\<close>

definition check_changed_acm :: "stream_env \<Rightarrow> db_env \<Rightarrow> ODObject \<Rightarrow> ODObject \<Rightarrow> DataAccessLayer \<Rightarrow> AppError option \<times> DataAccessLayer" where
  "check_changed_acm env db req dbObject dao =
     (if ns_String (o_RawAcm dbObject) = ns_String (o_RawAcm req) then (None, dao)
      else (case acm_err env req of
          Some herr \<Rightarrow> (Some herr, dao)
        | None \<Rightarrow> (case isAcmShareDifferent (se_unm env) (ns_String (o_RawAcm dbObject)) (ns_String (o_RawAcm req)) of
            Inl herr \<Rightarrow> (Some herr, dao)
          | Inr diff \<Rightarrow>
             (if \<not> diff then (None, dao)
              else (case GetPermissionsForObject db dbObject dao of ((dbPermissions, _), dao1) \<Rightarrow>
                (if isUserAllowedToShare (se_sha env) (se_masterKey env) (se_caller env) (se_groups env)
                      (dbObject\<lparr>o_Permissions := dbPermissions\<rparr>)
                 then (None, dao1)
                 else (Some (NewAppError 403 ''Forbidden - User does not have permission to change the share for this object''), dao1)))))))"

definition defaulted :: "stream_env \<Rightarrow> ODObject \<Rightarrow> ODObject \<Rightarrow> ODObject" where
  "defaulted env dbObject req = req\<lparr>o_Name := (if length (o_Name req) = 0 then o_Name dbObject else o_Name req),
     o_Description := (if length (ns_String (o_Description req)) = 0
       then (o_Description req)\<lparr>ns_String := ns_String (o_Description dbObject)\<rparr> else o_Description req),
     o_TypeName := (if length (ns_String (o_TypeName req)) = 0
       then (o_TypeName req)\<lparr>ns_String := ns_String (o_TypeName dbObject)\<rparr> else o_TypeName req),
     o_ContainsUSPersonsData := (if length (o_ContainsUSPersonsData req) = 0 then o_ContainsUSPersonsData dbObject else o_ContainsUSPersonsData req),
     o_ExemptFromFOIA := (if length (o_ExemptFromFOIA req) = 0 then o_ExemptFromFOIA dbObject else o_ExemptFromFOIA req),
     o_ModifiedBy := DistinguishedName (se_caller env)\<rparr>"

text \<open>The request as it is written, from the object as it was read.\<close>

definition prepare_update :: "stream_env \<Rightarrow> db_env \<Rightarrow> (nat \<Rightarrow> bytes) \<Rightarrow> ODObject \<Rightarrow> ODObject \<Rightarrow> DataAccessLayer
    \<Rightarrow> ((AppError + ODObject) \<times> DataAccessLayer) res" where
  "prepare_update env db rnd requestObject dbObject dao =
     (case check_updatable env requestObject dbObject of
        Some herr \<Rightarrow> Ok (Inl herr, dao)
      | None \<Rightarrow>
         (let grant = snd (isUserAllowedToUpdateWithPermission (se_sha env) (se_masterKey env) (se_caller env) (se_groups env) dbObject);
              req = retained dbObject requestObject in
          bind_res (normalize_change env (de_marshal db) (ns_String (o_OwnedBy req)) (obj_IsCreating req) (ns_String (o_RawAcm req)) req)
            (\<lambda>r. case r of
               Inl herr \<Rightarrow> Ok (Inl herr, dao)
             | Inr req1 \<Rightarrow> bind_res (rekeyed env rnd grant req1) (\<lambda>req2.
                 (case check_changed_acm env db req2 dbObject dao of
                    (Some herr, dao1) \<Rightarrow> Ok (Inl herr, dao1)
                  | (None, dao1) \<Rightarrow> Ok (Inr (defaulted env dbObject req2), dao1))))))"

definition with_types :: "type_cache \<Rightarrow> ((AppError + object_response) \<times> DataAccessLayer) res option \<Rightarrow> ODObject option
    \<Rightarrow> (((AppError + object_response \<times> ODObject option) \<times> type_cache) \<times> DataAccessLayer) res option" where
  "with_types types x next_object = map_option (\<lambda>r. bind_res r (\<lambda>(a, d).
     Ok (((case a of Inl herr \<Rightarrow> Inl herr | Inr resp \<Rightarrow> Inr (resp, next_object)), types), d))) x"

definition updateObject :: "stream_env \<Rightarrow> db_env \<Rightarrow> (nat \<Rightarrow> bytes) \<Rightarrow> type_cache \<Rightarrow> bool \<Rightarrow> string option \<Rightarrow> UpdateObjectRequest option
    \<Rightarrow> DataAccessLayer \<Rightarrow> (((AppError + object_response \<times> ODObject option) \<times> type_cache) \<times> DataAccessLayer) res option" where
  "updateObject env db rnd types is_json captured body dao =
     (let refuse = (\<lambda>herr t d. Some (Ok ((Inl herr, t), d))) in
      case parseUpdateObjectRequestAsJSON (de_marshal db) is_json captured body of
        Panic \<Rightarrow> Some Panic
      | Fail e \<Rightarrow> refuse (NewAppError 400 e) types dao
      | Ok (requestObject, recursive) \<Rightarrow> (case GetObject db requestObject True dao of
          ((_, Some e), dao1) \<Rightarrow> refuse (NewAppError 500 ''Error retrieving object'') types dao1
        | ((dbObject, None), dao1) \<Rightarrow> (case prepare_update env db rnd requestObject dbObject dao1 of
            Panic \<Rightarrow> Some Panic | Fail e \<Rightarrow> Some (Fail e)
          | Ok (Inl herr, dao2) \<Rightarrow> refuse herr types dao2
          | Ok (Inr req, dao2) \<Rightarrow> (case handleTypeName db types req dao2 of
              ((Some e, _, types1), dao3) \<Rightarrow> refuse (NewAppError 500 ''error setting type for object'') types1 dao3
            | ((None, req1, types1), dao3) \<Rightarrow> (case UpdateObject db req1 dao3 of
                Panic \<Rightarrow> Some Panic | Fail e \<Rightarrow> Some (Fail e)
              | Ok ((_, Some e), dao4) \<Rightarrow> refuse (NewAppError 500 ''DAO Error updating object'') types1 dao4
              | Ok ((req2, None), dao4) \<Rightarrow> (case GetObject db req2 True dao4 of
                  ((_, Some e), dao5) \<Rightarrow> refuse (NewAppError 500 ''Error retrieving object'') types1 dao5
                | ((changed, None), dao5) \<Rightarrow>
                    with_types types1 (with_crumbs env db changed dao5) (if recursive then Some changed else None)))))))"

subsection \<open>The recursive update\<close>

text \<open>The visit of a child: the permissions of the object above it go into its ACM and replace its own in the request. A
  child that the caller may not share, or for which a step fails, is left out, with all below it.\<close>

definition share_child :: "stream_env \<Rightarrow> db_env \<Rightarrow> (Db \<Rightarrow> nat \<Rightarrow> bytes) \<Rightarrow> visit" where
  "share_child env db rnd applyable child dao =
     (case isUserAllowedToShareWithPermission (se_sha env) (se_masterKey env) (se_caller env) (se_groups env) child of
        (ok, updatePermission) \<Rightarrow>
        (if \<not> ok then Ok (None, dao)
         else if g_Grantee (p_AcmGrantee updatePermission) = '''' then Ok (None, dao)
         else (case aacInjectPermissionsIntoACM (se_unm env) (de_marshal db) (o_Permissions applyable) (ns_String (o_RawAcm child)) of
             Panic \<Rightarrow> Panic | Fail e \<Rightarrow> Fail e
           | Ok (_, Some e) \<Rightarrow> Ok (None, dao)
           | Ok (newACM, None) \<Rightarrow>
             (case aacNormalizePermissionsFromACM (se_unm env) (de_marshal db) (ns_String (o_OwnedBy child)) (o_Permissions applyable) newACM False of
                Panic \<Rightarrow> Panic | Fail e \<Rightarrow> Fail e
              | Ok (_, _, Some e) \<Rightarrow> Ok (None, dao)
              | Ok (newPerms, newACM2, None) \<Rightarrow>
                (case aacRebuildACMFromPermissions (se_unm env) (de_marshal db) newPerms newACM2 of
                   Panic \<Rightarrow> Panic | Fail e \<Rightarrow> Fail e
                 | Ok (_, Some e) \<Rightarrow> Ok (None, dao)
                 | Ok (newerACM, None) \<Rightarrow>
                   (let child1 = child\<lparr>o_Permissions := newPerms, o_RawAcm := ToNullString newerACM\<rparr> in
                    case acm_err env child1 of
                      Some herr \<Rightarrow> Ok (None, dao)
                    | None \<Rightarrow> bind_res (rekeyed env (rnd (da_db dao)) updatePermission (consolidateChangingPermissions child1)) (\<lambda>child2.
                        bind_res (UpdateObject db (child2\<lparr>o_ModifiedBy := DistinguishedName (se_caller env)\<rparr>) dao) (\<lambda>((child3, e), dao1).
                          (if e \<noteq> None then Ok (None, dao1)
                           else if MapODObjectToObject (se_unm env) child3 = None then Panic
                           else Ok (Some child3, dao1))))))))))"

definition updateObjectRecursive :: "stream_env \<Rightarrow> db_env \<Rightarrow> (Db \<Rightarrow> nat \<Rightarrow> bytes) \<Rightarrow> nat \<Rightarrow> int \<Rightarrow> ODObject \<Rightarrow> DataAccessLayer
    \<Rightarrow> DataAccessLayer res option" where
  "updateObjectRecursive env db rnd n maxPageSize applyable dao = descend_pages (share_child env db rnd) n db maxPageSize 1 applyable dao"

subsection \<open>What an update does\<close>

text \<open>New types are the only trace that an update leaves when it does not succeed.\<close>

definition adds_types :: "DataAccessLayer \<Rightarrow> DataAccessLayer \<Rightarrow> bool" where
  "adds_types a b \<longleftrightarrow> caches a b \<and> (\<exists>ts. da_db b = (da_db a)\<lparr>db_type := db_type (da_db a) @ ts\<rparr>)"

lemma adds_types_refl [simp]: "adds_types a a"
  by (simp add: adds_types_def) (intro exI [of _ "[]"], simp)

lemma reads_adds: "reads a b \<Longrightarrow> adds_types a b"
  by (simp add: adds_types_def reads_def) (intro exI [of _ "[]"], simp)

lemma adds_types_trans: "adds_types a b \<Longrightarrow> adds_types b c \<Longrightarrow> adds_types a c"
  unfolding adds_types_def using caches_trans by (elim conjE exE) (intro conjI exI, blast, simp)

lemma adds_types_objects: "adds_types a b \<Longrightarrow> db_object (da_db b) = db_object (da_db a) \<and> db_permission (da_db b) = db_permission (da_db a)"
  by (auto simp: adds_types_def)

lemma type_row_added: "type_row db t \<noteq> None \<Longrightarrow> type_row (db\<lparr>db_type := db_type db @ ts\<rparr>) t \<noteq> None"
  by (auto simp: type_row_def map_add_def split: option.splits)

lemma adds_types_well_formed: "adds_types a b \<Longrightarrow> well_formed a \<Longrightarrow> well_formed b"
proof -
  assume "adds_types a b" and wf: "well_formed a"
  then obtain ts where b: "da_db b = (da_db a)\<lparr>db_type := db_type (da_db a) @ ts\<rparr>" and c: "caches a b"
    by (auto simp: adds_types_def)
  have "row_ok (da_db b) x" if "row_ok (da_db a) x" for x
    using that type_row_added by (simp add: row_ok_def b)
  moreover have "parent_rel (da_db b) = parent_rel (da_db a)"
    by (simp add: parent_rel_def b)
  ultimately have "forest (da_db b)"
    using wf by (simp add: well_formed_def forest_def unique_ids_def b)
  moreover have "good o_IsExpunged (da_db b)"
    using wf by (simp add: well_formed_def good_def unique_ids_def b)
  moreover have "grants_ok b"
    using wf c by (auto simp: well_formed_def grants_ok_def caches_def b)
  ultimately show ?thesis
    by (simp add: well_formed_def)
qed

lemma handleTypeName_spec:
  assumes "handleTypeName db types obj dao = ((e, obj', types'), dao')"
  shows "adds_types dao dao' \<and> obj' = obj\<lparr>o_TypeID := o_TypeID obj'\<rparr>"
proof -
  have create: "adds_types dao d" if "CreateObjectType db n dao = (r, d)" for n r d
  proof -
    have new: "adds_types dao (dao\<lparr>da_db := (da_db dao)\<lparr>db_type := db_type (da_db dao) @ [row]\<rparr>\<rparr>)" for row
      by (simp add: adds_types_def caches_def) blast
    show ?thesis
      using that new by (auto simp: CreateObjectType_def Let_def split: if_splits)
  qed
  have get: "adds_types dao d" if "GetObjectTypeByName db n True dao = (r, d)" for n r d
    using that create by (auto simp: GetObjectTypeByName_def split: option.splits prod.splits if_splits)
  show ?thesis
    using assms get by (auto simp: handleTypeName_def Let_def split: if_splits option.splits prod.splits sum.splits)
qed

lemma getPermissions_reads: "GetPermissionsForObject db obj dao = (r, dao') \<Longrightarrow> reads dao dao'"
  using caches_load_grantees
  by (fastforce simp: GetPermissionsForObject_def getPermissionsForObjectInTransaction_def reads_def load_grantees_dbD)

text \<open>What must hold for an object to be changed by a request, and for the object that is written.\<close>

definition updatable :: "stream_env \<Rightarrow> ODObject \<Rightarrow> ODObject \<Rightarrow> bool" where
  "updatable env req obj \<longleftrightarrow> isUserAllowedToUpdate (se_sha env) (se_masterKey env) (se_caller env) (se_groups env) obj \<and>
     acm_err env obj = None \<and> \<not> o_IsDeleted obj \<and> o_ChangeToken req = o_ChangeToken obj"

definition shares_with_leave :: "stream_env \<Rightarrow> ODObject \<Rightarrow> ODObject \<Rightarrow> ODObjectPermission list \<Rightarrow> bool" where
  "shares_with_leave env obj changed stored \<longleftrightarrow> ns_String (o_RawAcm obj) = ns_String (o_RawAcm changed) \<or>
     isAcmShareDifferent (se_unm env) (ns_String (o_RawAcm obj)) (ns_String (o_RawAcm changed)) = Inr False \<or>
     isUserAllowedToShare (se_sha env) (se_masterKey env) (se_caller env) (se_groups env) (obj\<lparr>o_Permissions := stored\<rparr>)"

definition in_place :: "ODObject \<Rightarrow> ODObject \<Rightarrow> bool" where
  "in_place obj changed \<longleftrightarrow> o_ParentID changed = o_ParentID obj \<and> o_ContentConnector changed = o_ContentConnector obj \<and>
     o_EncryptIV changed = o_EncryptIV obj \<and> o_ContentHash changed = o_ContentHash obj \<and>
     o_ContentSize changed = o_ContentSize obj \<and> ns_String (o_OwnedBy changed) = ns_String (o_OwnedBy obj)"

lemma check_updatable_None:
  "check_updatable env req obj = None \<Longrightarrow> updatable env req obj"
  by (auto simp: check_updatable_def updatable_def split: if_splits option.splits)

lemma consolidate_fields: "consolidateChangingPermissions obj = obj\<lparr>o_Permissions := o_Permissions (consolidateChangingPermissions obj)\<rparr>"
  by (simp add: consolidateChangingPermissions_def)

lemma normalize_changeD:
  assumes "normalize_change env mar owner creating acm obj = Ok (Inr obj')"
  shows "obj' = obj\<lparr>o_RawAcm := o_RawAcm obj', o_Permissions := o_Permissions obj'\<rparr> \<and> acm_err env obj' = None"
proof -
  obtain ps m where o: "acm_err env (obj\<lparr>o_RawAcm := ToNullString m, o_Permissions := ps\<rparr>) = None"
      "obj' = consolidateChangingPermissions (obj\<lparr>o_RawAcm := ToNullString m, o_Permissions := ps\<rparr>)"
    using assms by (auto simp: normalize_change_def Let_def split: res.splits option.splits)
  then show ?thesis
    by (simp add: consolidateChangingPermissions_def acm_err_def)
qed

lemma rekeyedD: "rekeyed env rnd grant obj = Ok obj' \<Longrightarrow> obj' = obj\<lparr>o_Permissions := o_Permissions obj'\<rparr>"
  by (auto simp: rekeyed_def split: option.splits)

lemma check_changed_acmD:
  assumes "check_changed_acm env db req obj dao = (r, dao1)"
  shows "reads dao dao1 \<and> (r = None \<longrightarrow> (\<exists>ps e d. GetPermissionsForObject db obj dao = ((ps, e), d) \<and> shares_with_leave env obj req ps))"
proof -
  obtain ps e d where get: "GetPermissionsForObject db obj dao = ((ps, e), d)"
    by (metis surj_pair)
  show ?thesis
    using assms getPermissions_reads [OF get]
    by (auto simp: check_changed_acm_def get shares_with_leave_def split: if_splits option.splits sum.splits)
qed

lemma prepare_updateD:
  assumes "prepare_update env db rnd req obj dao = Ok (r, dao1)"
  shows "reads dao dao1 \<and> (\<forall>changed. r = Inr changed \<longrightarrow> updatable env req obj \<and> in_place obj changed \<and> acm_err env changed = None \<and>
    o_ID changed = o_ID req \<and> o_ChangeToken changed = o_ChangeToken req \<and> o_ModifiedBy changed = DistinguishedName (se_caller env) \<and>
    (\<exists>ps e d. GetPermissionsForObject db obj dao = ((ps, e), d) \<and> shares_with_leave env obj changed ps))"
proof (cases "check_updatable env req obj")
  case (Some herr)
  then show ?thesis
    using assms by (auto simp: prepare_update_def)
next
  case None
  let ?grant = "snd (isUserAllowedToUpdateWithPermission (se_sha env) (se_masterKey env) (se_caller env) (se_groups env) obj)"
  let ?req = "retained obj req"
  obtain q where n: "normalize_change env (de_marshal db) (ns_String (o_OwnedBy ?req)) (obj_IsCreating ?req) (ns_String (o_RawAcm ?req)) ?req = Ok q"
    using assms by (auto simp: prepare_update_def None Let_def bind_res_Ok_iff)
  show ?thesis
  proof (cases q)
    case (Inl herr)
    then show ?thesis
      using assms by (auto simp: prepare_update_def None Let_def n)
  next
    case (Inr req1)
    obtain req2 where k: "rekeyed env rnd ?grant req1 = Ok req2"
      using assms by (auto simp: prepare_update_def None Let_def n Inr bind_res_Ok_iff)
    obtain c d where chk: "check_changed_acm env db req2 obj dao = (c, d)"
      by (metis surj_pair)
    have run: "r = (case c of Some herr \<Rightarrow> Inl herr | None \<Rightarrow> Inr (defaulted env obj req2))" "dao1 = d"
      using assms by (auto simp: prepare_update_def None Let_def n Inr k chk split: option.splits)
    note n2 = normalize_changeD [OF n [unfolded Inr]]
    obtain a ps where req1: "req1 = ?req\<lparr>o_RawAcm := a, o_Permissions := ps\<rparr>" and acm: "acm_err env req1 = None"
      using n2 by blast
    obtain ps2 where req2: "req2 = req1\<lparr>o_Permissions := ps2\<rparr>"
      using rekeyedD [OF k] by blast
    have d: "in_place obj (defaulted env obj req2)" "acm_err env (defaulted env obj req2) = None"
        "o_ID (defaulted env obj req2) = o_ID req" "o_ChangeToken (defaulted env obj req2) = o_ChangeToken req"
        "o_ModifiedBy (defaulted env obj req2) = DistinguishedName (se_caller env)"
        "\<And>stored. shares_with_leave env obj (defaulted env obj req2) stored = shares_with_leave env obj req2 stored"
      using acm by (simp_all add: req1 req2 defaulted_def retained_def in_place_def acm_err_def shares_with_leave_def ToNullString_def)
    show ?thesis
    proof (cases c)
      case (Some herr)
      then show ?thesis
        using run check_changed_acmD [OF chk] by simp
    next
      case c: None
      then show ?thesis
        using run check_changed_acmD [OF chk] d check_updatable_None [OF None] by simp
    qed
  qed
qed

lemma with_types_cases:
  assumes "with_types types x next_object = Some (Ok ((r, types'), dao'))"
  obtains a where "x = Some (Ok (a, dao'))" and "types' = types" and "\<And>resp o'. r = Inr (resp, o') \<Longrightarrow> a = Inr resp \<and> o' = next_object"
proof -
  obtain a where a: "x = Some (Ok (a, dao'))" "types' = types" "r = (case a of Inl herr \<Rightarrow> Inl herr | Inr resp \<Rightarrow> Inr (resp, next_object))"
    using assms by (auto simp: with_types_def bind_res_Ok_iff)
  show thesis
    by (rule that [OF a(1,2)]) (use a(3) in \<open>auto split: sum.splits\<close>)
qed

lemma updateObject_cases:
  assumes "updateObject env db rnd types is_json captured body dao = Some (Ok ((r, types'), dao'))"
  obtains (refused) herr where "adds_types dao dao'" and "r = Inl herr"
  | (written) req rec obj dao1 changed dao2 dao3 t changed' e dao4 where
      "parseUpdateObjectRequestAsJSON (de_marshal db) is_json captured body = Ok (req, rec)"
      and "GetObject db req True dao = ((obj, None), dao1)" and "prepare_update env db rnd req obj dao1 = Ok (Inr changed, dao2)"
      and "adds_types dao dao3" and "UpdateObject db (changed\<lparr>o_TypeID := t\<rparr>) dao3 = Ok ((changed', e), dao4)" and "reads dao4 dao'"
      and "e \<noteq> None \<Longrightarrow> \<exists>herr. r = Inl herr"
proof -
  define p where "p = parseUpdateObjectRequestAsJSON (de_marshal db) is_json captured body"
  show thesis
  proof (cases p)
    case (Fail e)
    then show thesis
      using assms by (intro refused [of "NewAppError 400 e"]) (auto simp: updateObject_def p_def Let_def)
  next
    case Panic
    then show thesis
      using assms by (auto simp: updateObject_def p_def Let_def)
  next
    case (Ok a)
    then obtain req rec where p: "parseUpdateObjectRequestAsJSON (de_marshal db) is_json captured body = Ok (req, rec)"
      by (cases a) (auto simp: p_def)
    obtain obj e dao1 where get: "GetObject db req True dao = ((obj, e), dao1)"
      by (metis surj_pair)
    note r1 = reads_adds [OF GetObject_reads [OF get]]
    show thesis
    proof (cases e)
      case (Some m)
      then show thesis
        using assms r1 by (intro refused) (auto simp: updateObject_def p Let_def get)
    next
      case None
      note get' = get [unfolded None]
      obtain q dao2 where prep: "prepare_update env db rnd req obj dao1 = Ok (q, dao2)"
        using assms by (auto simp: updateObject_def p Let_def get' split: res.splits)
      have r2: "adds_types dao dao2"
        using prepare_updateD [OF prep] r1 reads_adds adds_types_trans by blast
      show thesis
      proof (cases q)
        case (Inl herr)
        then show thesis
          using assms r2 by (intro refused) (auto simp: updateObject_def p Let_def get' prep)
      next
        case (Inr changed)
        obtain e2 req1 types1 dao3 where ty: "handleTypeName db types changed dao2 = ((e2, req1, types1), dao3)"
          by (metis surj_pair)
        obtain t where req1: "req1 = changed\<lparr>o_TypeID := t\<rparr>"
          using handleTypeName_spec [OF ty] by blast
        have r3: "adds_types dao dao3"
          using handleTypeName_spec [OF ty] r2 adds_types_trans by blast
        show thesis
        proof (cases e2)
          case (Some m)
          then show thesis
            using assms r3 by (intro refused) (auto simp: updateObject_def p Let_def get' prep Inr ty)
        next
          case e2: None
          obtain req2 e3 dao4 where up: "UpdateObject db req1 dao3 = Ok ((req2, e3), dao4)"
            using assms by (auto simp: updateObject_def p Let_def get' prep Inr ty e2 split: res.splits)
          note w = written [OF p get' prep [unfolded Inr] r3 up [unfolded req1]]
          show thesis
          proof (cases e3)
            case (Some m)
            then show thesis
              using assms by (intro w) (auto simp: updateObject_def p Let_def get' prep Inr ty e2 up)
          next
            case e3: None
            obtain x e4 dao5 where get2: "GetObject db req2 True dao4 = ((x, e4), dao5)"
              by (metis surj_pair)
            note r5 = GetObject_reads [OF get2]
            show thesis
            proof (cases e4)
              case (Some m)
              then show thesis
                using assms r5 e3 by (intro w) (auto simp: updateObject_def p Let_def get' prep Inr ty e2 up get2)
            next
              case None
              have "with_types types1 (with_crumbs env db x dao5) (if rec then Some x else None) = Some (Ok ((r, types'), dao'))"
                using assms by (simp add: updateObject_def p Let_def get' prep Inr ty e2 up e3 get2 None)
              then obtain b where "with_crumbs env db x dao5 = Some (Ok (b, dao'))"
                by (rule with_types_cases)
              then show thesis
                using with_crumbs_reads r5 reads_trans e3 by (intro w) auto
            qed
          qed
        qed
      qed
    qed
  qed
qed


text \<open>A caller who may read and update an object, but not delete or share it, gives itself the permission to delete: the
  permission to share is asked for only when the share of the ACM differs, and \<open>addObjectShare\<close> would have refused.\<close>

definition sample_update :: UpdateObjectRequest where
  "sample_update = (let none = \<lparr>AllowedResources = [], DeniedResources = []\<rparr> in
     \<lparr>ur_ID = ''03'', ur_ChangeToken = ''t'', ur_TypeID = '''', ur_TypeName = '''', ur_Name = ''m'', ur_Description = '''', ur_RawAcm = JNull,
      ur_Permission = \<lparr>pm_Create = none, pm_Read = none, pm_Update = none,
        pm_Delete = \<lparr>AllowedResources = [''user/b''], DeniedResources = []\<rparr>, pm_Share = none\<rparr>,
      ur_ContentType = '''', ur_ContainsUSPersonsData = '''', ur_ExemptFromFOIA = '''', ur_Properties = [], ur_RecursiveShare = False\<rparr>)"

definition editor :: stream_env where
  "editor = sample_stream\<lparr>se_unm := (\<lambda>s. Some (JObj [])), se_caller := sample_caller\<lparr>DistinguishedName := ''b''\<rparr>\<rparr>"

definition edited_dao :: DataAccessLayer where
  "edited_dao = \<lparr>da_db = sample_db\<lparr>db_object := [(sample_owned 3 None)\<lparr>o_OwnedBy := ToNullString ''user/a''\<rparr>],
       db_permission := [(sample_signed 3)\<lparr>p_Grantee := ''b'', p_AllowDelete := False, p_AllowCreate := False, p_ChangeToken := ''t''\<rparr>],
       db_grantee := [(''b'', empty_grantee\<lparr>g_Grantee := ''b'', g_DisplayName := ToNullString ''b'',
         g_UserDistinguishedName := ToNullString ''b''\<rparr>)]\<rparr>, da_AcmGranteeCache = []\<rparr>"

lemma update_grants_itself:
  "case updateObject editor sample_env (\<lambda>_. replicate 32 1) [] True (Some ''03'') (Some sample_update) edited_dao of
     Some (Ok ((Inr resp, ts), d)) \<Rightarrow> map o_Name (db_object (da_db d)) = [''m''] \<and>
       map (\<lambda>p. (p_Grantee p, p_IsDeleted p, p_AllowDelete p)) (db_permission (da_db d)) =
         [(''b'', True, False), (''b'', False, True), (''_everyone'', False, False), (''a'', False, True)]
   | _ \<Rightarrow> False"
  by code_simp

lemma editor_limits:
  "let obj = fst (fst (GetObject sample_env (empty_object\<lparr>o_ID := Some [3]\<rparr>) True edited_dao)) in
    \<not> isUserAllowedToDelete (se_sha editor) (se_masterKey editor) (se_caller editor) (se_groups editor) obj \<and>
    \<not> isUserAllowedToShare (se_sha editor) (se_masterKey editor) (se_caller editor) (se_groups editor) obj"
  by code_simp


subsection \<open>The tree stays as it is\<close>

lemma update_keeps_places:
  assumes "UpdateObject db obj dao = Ok ((x, e), dao')" and "well_formed dao" and "placed obj dao"
  shows "keeps_places dao dao'"
proof -
  obtain row where row: "row \<in> set (db_object (da_db dao))" "o_ID row = o_ID obj" "norm_id (o_ParentID row) = norm_id (o_ParentID obj)"
    using assms(3) by (auto simp: placed_def places_def)
  have forest: "forest (da_db dao)"
    using assms(2) by (simp add: well_formed_def)
  have wf: "well_formed dao'"
    using step_update [OF assms(1,2)] stays_outside [OF forest row(1), of db] row(2,3) by simp
  have "places dao' = places dao"
  proof (cases e)
    case (Some m)
    then show ?thesis
      using UpdateObject_spec [OF assms(1)] rowsD(1) [OF only_names_rows] by (simp add: places_def)
  next
    case None
    then obtain old new where o: "object_row (da_db dao) (o_ID obj) = Some old" "updated_row db (obj\<lparr>o_TypeID := norm_id (o_TypeID obj)\<rparr>) old new"
        "db_object (da_db dao') = map (\<lambda>x. if o_ID x = o_ID obj then new else x) (db_object (da_db dao))"
      using UpdateObject_spec [OF assms(1)] by (auto simp: only_updates_def)
    have "o_ID new = o_ID obj" "norm_id (o_ParentID new) = norm_id (o_ParentID row)"
      using o(2) object_row_mem [OF o(1)] row(3) by (simp_all add: updated_row_def stored_row_def norm_id_idem)
    moreover have "x = row" if "x \<in> set (db_object (da_db dao))" "o_ID x = o_ID obj" for x
      using that row forest by (auto simp: forest_def unique_ids_def distinct_map inj_on_def)
    ultimately show ?thesis
      using row(2) by (auto simp: places_def o(3))
  qed
  then show ?thesis
    using wf by (simp add: keeps_places_def)
qed

lemma placed_at: "o_ID y = o_ID x \<Longrightarrow> o_ParentID y = o_ParentID x \<Longrightarrow> placed x dao \<Longrightarrow> placed y dao"
  by (simp add: placed_def)

lemma keeps_places_refl: "well_formed dao \<Longrightarrow> keeps_places dao dao"
  by (simp add: keeps_places_def)

lemma share_child_ok: "visit_ok (share_child env db rnd)"
  unfolding visit_ok_def
proof (intro allI impI)
  fix parent child dao r dao'
  assume run: "share_child env db rnd parent child dao = Ok (r, dao')" and wf: "well_formed dao" and p: "placed child dao"
  show "keeps_places dao dao'"
  proof (cases "dao' = dao")
    case False
    then obtain grant ps acm child2 x e where c: "rekeyed env (rnd (da_db dao)) grant (consolidateChangingPermissions (child\<lparr>o_Permissions := ps, o_RawAcm := acm\<rparr>)) = Ok child2"
        "UpdateObject db (child2\<lparr>o_ModifiedBy := DistinguishedName (se_caller env)\<rparr>) dao = Ok ((x, e), dao')"
      using run by (auto simp: share_child_def Let_def bind_res_Ok_iff split: if_splits res.splits option.splits prod.splits)
    obtain qs where "child2 = child\<lparr>o_RawAcm := acm, o_Permissions := qs\<rparr>"
      using rekeyedD [OF c(1)] by (auto simp: consolidateChangingPermissions_def)
    then have "placed (child2\<lparr>o_ModifiedBy := DistinguishedName (se_caller env)\<rparr>) dao"
      using p by (simp add: placed_def)
    then show ?thesis
      by (rule update_keeps_places [OF c(2) wf])
  qed (simp add: keeps_places_refl wf)
qed

lemma updateObjectRecursive_keeps:
  "updateObjectRecursive env db rnd n sz obj dao = Some (Ok dao') \<Longrightarrow> well_formed dao \<Longrightarrow> keeps_places dao dao'"
  unfolding updateObjectRecursive_def by (rule descend_keeps(1) [OF _ share_child_ok])

lemma updateObject_well_formed:
  assumes "updateObject env db rnd types is_json captured body dao = Some (Ok ((r, types'), dao'))" and "well_formed dao"
  shows "well_formed dao'"
  using assms(1)
proof (cases rule: updateObject_cases)
  case (refused herr)
  then show ?thesis
    using adds_types_well_formed assms(2) by blast
next
  case (written req rec obj dao1 changed dao2 dao3 t changed' e dao4)
  have wf3: "well_formed dao3"
    using adds_types_well_formed [OF written(4) assms(2)] .
  obtain row n ps qs where row: "row \<in> set (db_object (da_db dao1))" "o_ID row = o_ID req" "obj = row\<lparr>o_TypeName := n, o_Permissions := ps, o_Properties := qs\<rparr>"
    using written(2) by (rule GetObject_row)
  have "db_object (da_db dao3) = db_object (da_db dao1)"
    using adds_types_objects [OF written(4)] GetObject_reads [OF written(2)] by (simp add: reads_def)
  moreover have "o_ID changed = o_ID row" "o_ParentID changed = o_ParentID row"
    using prepare_updateD [OF written(3)] row(2,3) by (simp_all add: in_place_def)
  ultimately have "placed (changed\<lparr>o_TypeID := t\<rparr>) dao3"
    using row(1) by (auto simp: placed_def places_def)
  then have "well_formed dao4"
    using update_keeps_places [OF written(5) wf3] by (simp add: keeps_places_def)
  then show ?thesis
    using reads_well_formed [OF written(6)] by blast
qed

end
