(* ===== verification/Sharing.thy ===== *)
theory Sharing
  imports Acm_Auth Server_Base
begin

text \<open>
  \<open>server/addObjectShare.go\<close> and \<open>server/removeObjectShare.go\<close>: granting and revoking shares of an
  object. The database is a state that the two calls of the data access layer read and change; the
  request is the captured object identifier and the decoded body (\<open>None\<close> when it does not decode).
  \<open>rnd\<close> is the sequence of random values drawn. A result is the response or an \<open>AppError\<close>; ending
  the program is \<open>Panic\<close>. Audit, events and the rendering of the response are left out.
\<close>

record 'db DAO =
  dao_GetObject :: "'db \<Rightarrow> slice \<Rightarrow> string + ODObject"
  dao_UpdateObject :: "'db \<Rightarrow> ODObject \<Rightarrow> string option \<times> 'db"

subsection \<open>Helpers of addObjectShare.go\<close>

definition isPermissionFor :: "ODObjectPermission \<Rightarrow> string \<Rightarrow> bool" where
  "isPermissionFor p grantee \<longleftrightarrow> AACFlatten (p_Grantee p) = AACFlatten grantee"

definition grantsAny :: "ODObjectPermission \<Rightarrow> bool" where
  "grantsAny p \<longleftrightarrow> p_AllowCreate p \<or> p_AllowRead p \<or> p_AllowUpdate p \<or> p_AllowDelete p \<or> p_AllowShare p"

definition reduce_by :: "ODObjectPermission \<Rightarrow> ODObjectPermission \<Rightarrow> ODObjectPermission" where
  "reduce_by existing p =
     (if \<not> p_IsDeleted existing \<and>
         (isPermissionFor existing (p_Grantee p) \<or> isPermissionFor existing EveryoneGroup)
      then set_flags (p_AllowCreate p \<and> \<not> p_AllowCreate existing) (p_AllowRead p \<and> \<not> p_AllowRead existing)
             (p_AllowUpdate p \<and> \<not> p_AllowUpdate existing) (p_AllowDelete p \<and> \<not> p_AllowDelete existing)
             (p_AllowShare p \<and> \<not> p_AllowShare existing) p
      else p)"

fun reduceGrantsFromExistingPermissionsLeavesNone ::
  "ODObjectPermission list \<Rightarrow> ODObjectPermission \<Rightarrow> bool \<times> ODObjectPermission" where
  "reduceGrantsFromExistingPermissionsLeavesNone [] p = (\<not> grantsAny p, p)"
| "reduceGrantsFromExistingPermissionsLeavesNone (e # es) p =
     (let p' = reduce_by e p in
      if \<not> grantsAny p' then (True, p') else reduceGrantsFromExistingPermissionsLeavesNone es p')"

definition userPermissionToShareError :: "string \<Rightarrow> bool \<Rightarrow> AppError" where
  "userPermissionToShareError missingCapability removing =
     NewAppError 403 (''Forbidden - Unauthorized to '' @ (if removing then ''remove'' else ''set'')
       @ '' permissions with '' @ missingCapability)"

definition verifyPermissionToShare :: "ODObjectPermission \<Rightarrow> ODObjectPermission \<Rightarrow> bool \<Rightarrow> AppError option" where
  "verifyPermissionToShare rollup p removing =
     (if \<not> p_AllowCreate rollup \<and> p_AllowCreate p then Some (userPermissionToShareError ''create'' removing)
      else if \<not> p_AllowRead rollup \<and> p_AllowRead p then Some (userPermissionToShareError ''read'' removing)
      else if \<not> p_AllowUpdate rollup \<and> p_AllowUpdate p then Some (userPermissionToShareError ''update'' removing)
      else if \<not> p_AllowDelete rollup \<and> p_AllowDelete p then Some (userPermissionToShareError ''delete'' removing)
      else if \<not> p_AllowShare rollup \<and> p_AllowShare p then Some (userPermissionToShareError ''delegation'' removing)
      else None)"

definition removePermissionsForGrantee :: "ODObject \<Rightarrow> string \<Rightarrow> ODObject" where
  "removePermissionsForGrantee obj grantee = obj\<lparr>o_Permissions := concat (map (\<lambda>p.
     if isPermissionFor p grantee
     then (if perm_IsCreating p then [] else [p\<lparr>p_IsDeleted := True\<rparr>]) else [p]) (o_Permissions obj))\<rparr>"

definition hasPermissionsForGrantee :: "ODObject \<Rightarrow> string \<Rightarrow> bool" where
  "hasPermissionsForGrantee obj grantee = list_ex (\<lambda>p. \<not> p_IsDeleted p \<and> isPermissionFor p grantee) (rev (o_Permissions obj))"

definition parseObjectShareRequest :: "ObjectShare option \<Rightarrow> ODObjectPermission list res" where
  "parseObjectShareRequest body = (case body of
     None \<Rightarrow> Fail ''unable to decode share from JSON body''
   | Some share \<Rightarrow> (case MapObjectShareToODPermissions share of
        Ok ps \<Rightarrow> Ok ps | Fail e \<Rightarrow> Fail ''error mapping share to permissions'' | Panic \<Rightarrow> Panic))"

text \<open>The captured identifier, \<open>None\<close> when the route captured nothing.\<close>

definition getObjectIDFromContext :: "string option \<Rightarrow> string + bytes" where
  "getObjectIDFromContext captured = (case captured of
     None \<Rightarrow> Inl ''could not get capture groups''
   | Some s \<Rightarrow> if s = '''' then Inl ''could not extract objectid from URI''
       else (case hex_decode s of None \<Rightarrow> Inl ''invalid objectid in URI'' | Some b \<Rightarrow> Inr b))"

text \<open>The permission to share with, the permissions asked for and the object, or an error.\<close>

definition commonObjectSharePrep ::
  "(bytes \<Rightarrow> bytes) \<Rightarrow> string \<Rightarrow> Caller \<Rightarrow> string list \<Rightarrow> 'db DAO \<Rightarrow> 'db \<Rightarrow> string option \<Rightarrow> ObjectShare option
     \<Rightarrow> (AppError + ODObjectPermission \<times> ODObjectPermission list \<times> ODObject) res" where
  "commonObjectSharePrep sha mk caller groups dao db captured body =
     (case getObjectIDFromContext captured of
        Inl e \<Rightarrow> Ok (Inl (NewAppError 400 e))
      | Inr oid \<Rightarrow> (case dao_GetObject dao db (Some oid) of
          Inl e \<Rightarrow> Ok (Inl (NewAppError 500 ''Error retrieving object''))
        | Inr dbObject \<Rightarrow>
           (case isUserAllowedToShareWithPermission sha mk caller groups dbObject of (allowedToShare, rollup) \<Rightarrow>
              if \<not> allowedToShare then Ok (Inl (NewAppError 403
                ''Forbidden - User does not have permission to modify shares for an object''))
              else if o_IsDeleted dbObject then
                (if o_IsExpunged dbObject then Ok (Inl (NewAppError 410 ''The object no longer exists.''))
                 else if o_IsAncestorDeleted dbObject \<and> \<not> o_IsDeleted dbObject
                   then Ok (Inl (NewAppError 409 ''Unallowed to set shares for deleted objects.''))
                 else Ok (Inl (NewAppError 409 ''Unallowed to set shares for deleted objects. Use removeObjectFromTrash to restore this object before setting shares.'')))
              else (case parseObjectShareRequest body of
                  Panic \<Rightarrow> Panic
                | Fail e \<Rightarrow> Ok (Inl (NewAppError 400 ''Error parsing request''))
                | Ok permissions \<Rightarrow> Ok (Inr (rollup, permissions, dbObject))))))"

subsection \<open>addObjectShare\<close>

text \<open>The loop over the permissions asked for; \<open>copy\<close> is \<open>models.CopyEncryptKey\<close> with the master key and
  the randomness of its n-th call.\<close>

fun add_loop ::
  "(nat \<Rightarrow> ODObjectPermission \<Rightarrow> ODObjectPermission \<Rightarrow> ODObjectPermission option) \<Rightarrow> Caller \<Rightarrow> ODObjectPermission \<Rightarrow> ODObjectPermission list
     \<Rightarrow> ODObject \<Rightarrow> bool \<Rightarrow> (AppError + ODObject \<times> bool) res" where
  "add_loop copy caller rollup [] dbObject changed = Ok (Inr (dbObject, changed))"
| "add_loop copy caller rollup (p # ps) dbObject changed =
     (case verifyPermissionToShare rollup p False of
        Some herr \<Rightarrow> Ok (Inl herr)
      | None \<Rightarrow>
         (let p1 = p\<lparr>p_ObjectID := o_ID dbObject, p_CreatedBy := DistinguishedName caller, p_ExplicitShare := True\<rparr> in
          case reduceGrantsFromExistingPermissionsLeavesNone (o_Permissions dbObject) p1 of (none, p2) \<Rightarrow>
            if none then add_loop copy caller rollup ps dbObject changed
            else (case copy (length ps) rollup p2 of
                None \<Rightarrow> Panic
              | Some p3 \<Rightarrow> add_loop copy caller rollup ps
                    (dbObject\<lparr>o_Permissions := o_Permissions dbObject @ [p3]\<rparr>) True)))"

definition add_plan ::
  "(bytes \<Rightarrow> bytes) \<Rightarrow> string \<Rightarrow> (nat \<Rightarrow> bytes) \<Rightarrow> Caller \<Rightarrow> ODObjectPermission \<Rightarrow> ODObjectPermission list
     \<Rightarrow> ODObject \<Rightarrow> (AppError + ODObject \<times> bool) res" where
  "add_plan sha mk rnd caller rollup permissions dbObject =
     (let removing = (hasPermissionsForGrantee dbObject EveryoneGroup \<and>
            list_ex (\<lambda>p. p_AllowRead p \<and> \<not> isPermissionFor p EveryoneGroup) permissions);
          obj1 = (if removing then removePermissionsForGrantee dbObject EveryoneGroup else dbObject);
          ps = (if removing then permissions @ [snd (PermissionForOwner (ns_String (o_OwnedBy dbObject)))] else permissions)
      in add_loop (\<lambda>n. CopyEncryptKey sha (rnd n) mk) caller rollup ps obj1 removing)"

text \<open>Rebuilding, flattening and checking the ACM, and storing the object, common to both handlers.\<close>

definition err_text :: "bool \<Rightarrow> string \<Rightarrow> string" where
  "err_text removing s = (if removing then ''error'' else ''Error'') @ s"

definition store_shared ::
  "bool \<Rightarrow> unmarshal \<Rightarrow> marshal \<Rightarrow> AacService option \<Rightarrow> Caller \<Rightarrow> 'db DAO \<Rightarrow> 'db \<Rightarrow> ODObject
     \<Rightarrow> (AppError + ODObject) res \<times> 'db" where
  "store_shared removing unm mar service caller dao db dbObject =
     (let obj1 = dbObject\<lparr>o_ModifiedBy := DistinguishedName caller\<rparr> in
      case aacRebuildACMFromPermissions unm mar (o_Permissions obj1) (ns_String (o_RawAcm obj1)) of
        Panic \<Rightarrow> (Panic, db) | Fail e \<Rightarrow> (Fail e, db)
      | Ok (_, Some e) \<Rightarrow> (Ok (Inl (NewAppError 500 (if removing then ''error rebuilding acm from revised permissions''
            else ''Error rebuilding ACM from revised permissions''))), db)
      | Ok (modifiedACM, None) \<Rightarrow>
        (case GetFlattenedACM service modifiedACM of
           (_, msgs, Some e) \<Rightarrow> (Ok (Inl (NewAppError (authHTTPErr e) (e @ join_str ''/'' msgs))), db)
         | (flat, _, None) \<Rightarrow>
            (let obj2 = obj1\<lparr>o_RawAcm := ToNullString flat\<rparr> in
             case IsUserAuthorizedForACM service (DistinguishedName caller) (ns_String (o_RawAcm obj2)) of
               (_, Some e) \<Rightarrow> (Ok (Inl (NewAppError (authHTTPErr e) e)), db)
             | (_, None) \<Rightarrow>
                (case dao_UpdateObject dao db obj2 of
                   (Some e, db') \<Rightarrow> (Ok (Inl (NewAppError 500 (err_text removing '' updating object''))), db')
                 | (None, db') \<Rightarrow> (Ok (Inr obj2), db')))))"

definition fetch_updated :: "bool \<Rightarrow> 'db DAO \<Rightarrow> 'db \<Rightarrow> ODObject \<Rightarrow> (AppError + ODObject) res" where
  "fetch_updated removing dao db dbObject = (case dao_GetObject dao db (o_ID dbObject) of
     Inl e \<Rightarrow> Ok (Inl (NewAppError 500 (err_text removing '' retrieving object''))) | Inr obj \<Rightarrow> Ok (Inr obj))"

definition store_and_fetch where
  "store_and_fetch removing unm mar service caller dao db dbObject changed =
     (if changed then
        (case store_shared removing unm mar service caller dao db dbObject of
           (Ok (Inr obj), db') \<Rightarrow> (fetch_updated removing dao db' obj, db')
         | other \<Rightarrow> other)
      else (fetch_updated removing dao db dbObject, db))"

definition addObjectShare where
  "addObjectShare sha mk rnd unm mar service caller groups dao db captured body =
     (case commonObjectSharePrep sha mk caller groups dao db captured body of
        Panic \<Rightarrow> (Panic, db) | Fail e \<Rightarrow> (Fail e, db)
      | Ok (Inl herr) \<Rightarrow> (Ok (Inl herr), db)
      | Ok (Inr (rollup, permissions, dbObject)) \<Rightarrow>
         (if length permissions = 0 then (fetch_updated False dao db dbObject, db)
          else (case add_plan sha mk rnd caller rollup permissions dbObject of
              Panic \<Rightarrow> (Panic, db) | Fail e \<Rightarrow> (Fail e, db)
            | Ok (Inl herr) \<Rightarrow> (Ok (Inl herr), db)
            | Ok (Inr (obj', changed)) \<Rightarrow> store_and_fetch False unm mar service caller dao db obj' changed)))"

subsection \<open>removeObjectShare\<close>

text \<open>The rows of the object after one permission is revoked, whether one of them was, and whether
  everyone is being removed; or the error.\<close>

fun remove_rows ::
  "ODObjectPermission \<Rightarrow> ODObjectPermission \<Rightarrow> ODObjectPermission list
     \<Rightarrow> AppError + ODObjectPermission list \<times> bool \<times> bool" where
  "remove_rows rollup p [] = Inr ([], False, False)"
| "remove_rows rollup p (d # ds) =
     (if p_IsDeleted d then
        (case remove_rows rollup p ds of Inl e \<Rightarrow> Inl e
         | Inr (rs, changed, every) \<Rightarrow> Inr (d # rs, changed, every))
      else (case verifyPermissionToShare rollup p True of
          Some herr \<Rightarrow> Inl herr
        | None \<Rightarrow>
           (let every0 = (AACFlatten EveryoneGroup = AACFlatten (ns_String (g_GroupName (p_AcmGrantee p))));
                hit = (AACFlatten (p_Grantee d) = AACFlatten (p_Grantee p));
                d' = (if hit then d\<lparr>p_IsDeleted := True\<rparr> else d) in
            case remove_rows rollup p ds of Inl e \<Rightarrow> Inl e
            | Inr (rs, changed, every) \<Rightarrow> Inr (d' # rs, hit \<or> changed, every0 \<or> every))))"

fun remove_loop ::
  "ODObjectPermission \<Rightarrow> string \<Rightarrow> ODObjectPermission list \<Rightarrow> ODObjectPermission list \<Rightarrow> bool \<Rightarrow> bool
     \<Rightarrow> AppError + ODObjectPermission list \<times> bool \<times> bool" where
  "remove_loop rollup owner [] rows changed every = Inr (rows, changed, every)"
| "remove_loop rollup owner (p # ps) rows changed every =
     (if AACFlatten (p_Grantee p) = AACFlatten owner then remove_loop rollup owner ps rows changed every
      else (case remove_rows rollup p rows of
          Inl e \<Rightarrow> Inl e
        | Inr (rows', c, e) \<Rightarrow> remove_loop rollup owner ps rows' (changed \<or> c) (every \<or> e)))"

definition remove_plan ::
  "(bytes \<Rightarrow> bytes) \<Rightarrow> string \<Rightarrow> bytes \<Rightarrow> ODObjectPermission \<Rightarrow> ODObjectPermission list
     \<Rightarrow> ODObject \<Rightarrow> (AppError + ODObject \<times> bool) res" where
  "remove_plan sha mk rnd rollup permissions dbObject =
     (let owner = g_Grantee (NewODAcmGranteeFromResourceName (ns_String (o_OwnedBy dbObject))) in
      case remove_loop rollup owner permissions (o_Permissions dbObject) False False of
        Inl e \<Rightarrow> Ok (Inl e)
      | Inr (rows, changed, removingEveryone) \<Rightarrow>
         (let obj1 = dbObject\<lparr>o_Permissions := rows\<rparr> in
          if changed \<and> hasPermissionsForGrantee dbObject EveryoneGroup \<and> removingEveryone then
            (case reduceGrantsFromExistingPermissionsLeavesNone rows
                    (fst (PermissionForOwner (ns_String (o_OwnedBy dbObject)))) of (none, ownerCRUDS) \<Rightarrow>
               if none then Ok (Inr (obj1, changed))
               else (case CopyEncryptKey sha rnd mk rollup ownerCRUDS of
                   None \<Rightarrow> Panic
                 | Some cr \<Rightarrow> Ok (Inr (obj1\<lparr>o_Permissions := rows @ [cr]\<rparr>, changed))))
          else Ok (Inr (obj1, changed))))"

definition removeObjectShare where
  "removeObjectShare sha mk rnd unm mar service caller groups dao db captured body =
     (case commonObjectSharePrep sha mk caller groups dao db captured body of
        Panic \<Rightarrow> (Panic, db) | Fail e \<Rightarrow> (Fail e, db)
      | Ok (Inl herr) \<Rightarrow> (Ok (Inl herr), db)
      | Ok (Inr (rollup, permissions, dbObject)) \<Rightarrow>
         (if length permissions = 0 then (fetch_updated True dao db dbObject, db)
          else (case remove_plan sha mk rnd rollup permissions dbObject of
              Panic \<Rightarrow> (Panic, db) | Fail e \<Rightarrow> (Fail e, db)
            | Ok (Inl herr) \<Rightarrow> (Ok (Inl herr), db)
            | Ok (Inr (obj', changed)) \<Rightarrow> store_and_fetch True unm mar service caller dao db obj' changed)))"

subsection \<open>What the loops keep\<close>

definition overlaps :: "ODObjectPermission \<Rightarrow> ODObjectPermission \<Rightarrow> bool" where
  "overlaps e p \<longleftrightarrow> \<not> p_IsDeleted e \<and> (isPermissionFor e (p_Grantee p) \<or> isPermissionFor e EveryoneGroup)"

lemma has_cap_reduce_by [simp]: "has_cap c (reduce_by e p) \<longleftrightarrow> has_cap c p \<and> \<not> (overlaps e p \<and> has_cap c e)"
  by (cases c) (auto simp: reduce_by_def overlaps_def)

lemma reduce_by_fields [simp]:
  "p_Grantee (reduce_by e p) = p_Grantee p" "p_IsDeleted (reduce_by e p) = p_IsDeleted p"
  by (simp_all add: reduce_by_def)

lemma overlaps_reduce [simp]: "overlaps e (reduce_by e' p) = overlaps e p"
  by (simp add: overlaps_def)

lemma grantsAny_iff: "grantsAny p \<longleftrightarrow> (\<exists>c. has_cap c p)"
  by (auto simp: grantsAny_def ex_cap_iff)

lemma reduceGrants_spec:
  assumes "reduceGrantsFromExistingPermissionsLeavesNone es p = (none, p')"
  shows "p_Grantee p' = p_Grantee p \<and> p_IsDeleted p' = p_IsDeleted p \<and> (\<forall>c. has_cap c p' \<longrightarrow> has_cap c p) \<and>
    none = (\<not> grantsAny p') \<and>
    (\<not> none \<longrightarrow> (\<forall>c. has_cap c p' \<longleftrightarrow> has_cap c p \<and> \<not> (\<exists>e \<in> set es. overlaps e p \<and> has_cap c e)))"
  using assms
proof (induction es arbitrary: p)
  case (Cons e es)
  show ?case
  proof (cases "grantsAny (reduce_by e p)")
    case True
    then have "reduceGrantsFromExistingPermissionsLeavesNone es (reduce_by e p) = (none, p')"
      using Cons.prems by (simp add: Let_def)
    note ih = Cons.IH [OF this, unfolded has_cap_reduce_by overlaps_reduce reduce_by_fields]
    show ?thesis
      unfolding list.set bex_simps using ih by blast
  next
    case False
    then show ?thesis
      using Cons.prems by (auto simp: Let_def)
  qed
qed auto

lemma verify_None: "verifyPermissionToShare rollup p removing = None \<Longrightarrow> has_cap c p \<Longrightarrow> has_cap c rollup"
  by (cases c) (auto simp: verifyPermissionToShare_def split: if_splits)

definition new_row_ok :: "(ODObjectPermission \<Rightarrow> bytes option) \<Rightarrow> (ODObjectPermission \<Rightarrow> bool)
    \<Rightarrow> ODObjectPermission \<Rightarrow> ODObjectPermission list \<Rightarrow> ODObjectPermission \<Rightarrow> bool" where
  "new_row_ok key vmac rollup old n \<longleftrightarrow> key n = key rollup \<and> vmac n \<and> grantsAny n \<and>
     (\<forall>c. has_cap c n \<longrightarrow> has_cap c rollup) \<and>
     (\<forall>e \<in> set old. overlaps e n \<longrightarrow> (\<forall>c. \<not> (has_cap c e \<and> has_cap c n)))"

lemma new_row_ok_mono: "new_row_ok key vmac rollup old n \<Longrightarrow> set old' \<subseteq> set old \<Longrightarrow> new_row_ok key vmac rollup old' n"
  by (auto simp: new_row_ok_def)

context key_copy
begin

lemma copy_caps:
  assumes "whole src" and "copy r src dst = Some dst'"
  shows "has_cap c dst' = has_cap c dst" "overlaps e dst' = overlaps e dst"
  using copy_fields [OF assms] by (cases c; simp add: overlaps_def)+

text \<open>Every row that sharing adds wraps the key of the sharer's permission, is signed, grants something,
  nothing the sharer lacks and nothing the grantee had.\<close>

lemma add_loop_rows:
  assumes "add_loop copy caller rollup ps obj ch = Ok (Inr (obj', ch'))" and "whole rollup"
  shows "\<exists>news. obj' = obj\<lparr>o_Permissions := o_Permissions obj @ news\<rparr> \<and> (ch' \<longleftrightarrow> ch \<or> news \<noteq> []) \<and>
    (\<forall>n \<in> set news. new_row_ok key vmac rollup (o_Permissions obj) n)"
  using assms(1)
proof (induction ps arbitrary: obj ch)
  case Nil
  then show ?case
    by (intro exI [of _ "[]"]) simp
next
  case (Cons p ps)
  let ?p1 = "p\<lparr>p_ObjectID := o_ID obj, p_CreatedBy := DistinguishedName caller, p_ExplicitShare := True\<rparr>"
  obtain none p2 where red: "reduceGrantsFromExistingPermissionsLeavesNone (o_Permissions obj) ?p1 = (none, p2)"
    by (cases "reduceGrantsFromExistingPermissionsLeavesNone (o_Permissions obj) ?p1")
  have v: "verifyPermissionToShare rollup p False = None"
    using Cons.prems by (auto split: option.splits)
  note spec = reduceGrants_spec [OF red]
  show ?case
  proof (cases none)
    case True
    then show ?thesis
      using Cons.IH [of obj ch] Cons.prems by (simp add: v red Let_def)
  next
    case False
    obtain p3 where c: "copy (length ps) rollup p2 = Some p3"
      using copy_total [OF assms(2)] by blast
    let ?obj = "obj\<lparr>o_Permissions := o_Permissions obj @ [p3]\<rparr>"
    have "add_loop copy caller rollup ps ?obj True = Ok (Inr (obj', ch'))"
      using Cons.prems False by (simp add: v red c Let_def)
    from Cons.IH [OF this] obtain news where n: "obj' = ?obj\<lparr>o_Permissions := o_Permissions ?obj @ news\<rparr>"
      "ch'" "\<forall>n \<in> set news. new_row_ok key vmac rollup (o_Permissions ?obj) n"
      by auto
    have caps: "has_cap x p3 \<Longrightarrow> has_cap x p" for x
      using spec copy_caps(1) [OF assms(2) c, of x] by simp
    have ov: "overlaps e ?p1 = overlaps e p3" for e
      using spec copy_caps(2) [OF assms(2) c] by (simp add: overlaps_def)
    have "new_row_ok key vmac rollup (o_Permissions obj) p3"
      unfolding new_row_ok_def
      using spec False caps verify_None [OF v] copy_key [OF assms(2) c] copy_signed [OF assms(2) c]
        copy_caps [OF assms(2) c] ov by (auto simp: grantsAny_iff)
    then show ?thesis
      using n new_row_ok_mono [of key vmac rollup "o_Permissions obj @ [p3]"]
      by (intro exI [of _ "p3 # news"]) auto
  qed
qed

lemma add_loop_no_panic: "whole rollup \<Longrightarrow> \<exists>r. add_loop copy caller rollup ps obj ch = Ok r"
proof (induction ps arbitrary: obj ch)
  case (Cons p ps)
  then show ?case
    using copy_total [OF Cons.prems]
    by (auto simp: Let_def split: option.splits prod.splits) (metis option.inject not_None_eq)
qed simp

end

definition revoke :: "ODObjectPermission \<Rightarrow> ODObjectPermission \<Rightarrow> ODObjectPermission" where
  "revoke p d = (if \<not> p_IsDeleted d \<and> AACFlatten (p_Grantee d) = AACFlatten (p_Grantee p)
     then d\<lparr>p_IsDeleted := True\<rparr> else d)"

lemma remove_rows_spec:
  "remove_rows rollup p rows = Inr (rs, ch, ev) \<Longrightarrow> rs = map (revoke p) rows \<and>
    ((\<exists>d \<in> set rows. \<not> p_IsDeleted d) \<longrightarrow> verifyPermissionToShare rollup p True = None)"
proof (induction rows arbitrary: rs ch ev)
  case (Cons d ds)
  then show ?case
    by (auto simp: revoke_def Let_def split: if_splits sum.splits option.splits)
qed simp

lemma revoke_fields [simp]: "p_Grantee (revoke p d) = p_Grantee d"
  by (simp add: revoke_def)

definition revoked_by :: "string \<Rightarrow> ODObjectPermission list \<Rightarrow> ODObjectPermission \<Rightarrow> bool" where
  "revoked_by owner ps d \<longleftrightarrow> \<not> p_IsDeleted d \<and> AACFlatten (p_Grantee d) \<noteq> AACFlatten owner \<and>
     (\<exists>p \<in> set ps. AACFlatten (p_Grantee p) = AACFlatten (p_Grantee d))"

lemma remove_loop_spec:
  assumes "remove_loop rollup owner ps rows ch ev = Inr (rs, ch', ev')"
  shows "rs = map (\<lambda>d. if revoked_by owner ps d then d\<lparr>p_IsDeleted := True\<rparr> else d) rows"
  using assms
proof (induction ps arbitrary: rows ch ev)
  case Nil
  then show ?case
    by (simp add: revoked_by_def)
next
  case (Cons p ps)
  show ?case
  proof (cases "AACFlatten (p_Grantee p) = AACFlatten owner")
    case True
    then have "revoked_by owner (p # ps) d = revoked_by owner ps d" for d
      by (auto simp: revoked_by_def)
    then show ?thesis
      using Cons.IH [of rows ch ev] Cons.prems True by simp
  next
    case False
    then obtain rows' c e where r: "remove_rows rollup p rows = Inr (rows', c, e)"
      and rest: "remove_loop rollup owner ps rows' (ch \<or> c) (ev \<or> e) = Inr (rs, ch', ev')"
      using Cons.prems by (auto split: sum.splits)
    have "rows' = map (revoke p) rows"
      using remove_rows_spec [OF r] by simp
    then show ?thesis
      using Cons.IH [OF rest] False by (auto simp: revoke_def revoked_by_def)
  qed
qed

subsection \<open>Properties\<close>

lemma share_rollup:
  assumes "isUserAllowedToShareWithPermission sha mk caller groups obj = (True, rollup)"
  shows "(\<exists>p \<in> set (o_Permissions obj). counts sha mk caller groups p \<and> p_EncryptKey rollup = p_EncryptKey p) \<and>
    (\<forall>c. has_cap c rollup \<longrightarrow> (\<exists>p \<in> set (o_Permissions obj). counts sha mk caller groups p \<and> has_cap c p))"
proof -
  obtain u where l: "allowed_loop sha mk caller groups (require False True False False True) True
      (o_Permissions obj) False empty_permission = (True, u)"
    and up: "rollup = u\<lparr>p_PermissionMAC := CalculatePermissionMAC sha mk u\<rparr>"
    using assms isUserAllowedTo_True unfolding isUserAllowedToShareWithPermission_def by blast
  show ?thesis
    using allowed_loop_sound [OF l] allowed_loop_key [OF l] by (auto simp: up)
qed

text \<open>C12: sharing gives nobody a capability the sharer does not have. Each row of the object after a
  share is a row it had, perhaps now marked deleted, or a new one, which is signed, wraps the file key
  of the sharer's permission and grants only what valid rows of the object grant the sharer.\<close>

theorem share_adds_no_power:
  assumes "isUserAllowedToShareWithPermission sha mk caller groups obj = (True, rollup)"
    and "\<forall>p \<in> set (o_Permissions obj). has_key p"
    and "add_plan sha mk rnd caller rollup ps obj = Ok (Inr (obj', ch))"
  shows "\<forall>n \<in> set (o_Permissions obj').
    n \<in> set (o_Permissions obj) \<or> (\<exists>p \<in> set (o_Permissions obj). n = p\<lparr>p_IsDeleted := True\<rparr>) \<or>
    (key_of_row sha mk n = key_of_row sha mk rollup \<and> EqualsPermissionMAC sha mk n \<and>
     (\<forall>c. has_cap c n \<longrightarrow> (\<exists>p \<in> set (o_Permissions obj). counts sha mk caller groups p \<and> has_cap c p)))"
proof -
  have w: "has_key rollup"
    using share_rollup [OF assms(1)] assms(2) by (auto simp: has_key_def)
  let ?rem = "hasPermissionsForGrantee obj EveryoneGroup \<and>
    list_ex (\<lambda>p. p_AllowRead p \<and> \<not> isPermissionFor p EveryoneGroup) ps"
  define obj1 where "obj1 = (if ?rem then removePermissionsForGrantee obj EveryoneGroup else obj)"
  obtain ps' where loop: "add_loop (\<lambda>n. CopyEncryptKey sha (rnd n) mk) caller rollup ps' obj1 ?rem = Ok (Inr (obj', ch))"
    using assms(3) unfolding add_plan_def Let_def obj1_def [symmetric] by blast
  have o1: "\<forall>n \<in> set (o_Permissions obj1). n \<in> set (o_Permissions obj) \<or>
      (\<exists>p \<in> set (o_Permissions obj). n = p\<lparr>p_IsDeleted := True\<rparr>)"
    by (auto simp: obj1_def removePermissionsForGrantee_def split: if_splits)
  show ?thesis
    using key_wrap.add_loop_rows [OF loop w] o1 share_rollup [OF assms(1)]
    by (auto simp: new_row_ok_def)
qed

lemma sample_rollup:
  "\<exists>rollup. isUserAllowedToShareWithPermission sample_sha k sample_caller [] (empty_object\<lparr>o_Permissions := [sample_perm]\<rparr>)
      = (True, rollup) \<and> p_AllowRead rollup \<and> has_key rollup"
proof -
  let ?obj = "empty_object\<lparr>o_Permissions := [sample_perm]\<rparr>"
  have "isUserAllowedToShare sample_sha k sample_caller [] ?obj"
    unfolding allowed_defs by (subst allowed_require_iff) (auto simp: has_cap_require)
  then obtain rollup where r: "isUserAllowedToShareWithPermission sample_sha k sample_caller [] ?obj = (True, rollup)"
    by (cases "isUserAllowedToShareWithPermission sample_sha k sample_caller [] ?obj") (simp add: isUserAllowedToShare_def)
  have m: "matches_required (require False True False False True) sample_perm"
    by (auto simp: matches_required_iff has_cap_require)
  have "p_AllowRead sample_perm"
    by (simp add: sample_perm_def)
  then have "p_AllowRead rollup"
    using r m sample_counts [of k "[]"]
    by (auto simp: isUserAllowedToShareWithPermission_def isUserAllowedTo_def allowed_loop.simps counts_def
        empty_permission_def Let_def split: if_splits prod.splits)
  moreover have "has_key rollup"
    using share_rollup [OF r] by (auto simp: has_key_def sample_perm_def)
  ultimately show ?thesis
    using r by blast
qed

theorem share_adds_no_power_witness:
  "\<exists>rollup obj' ch. isUserAllowedToShareWithPermission sample_sha ''k'' sample_caller []
      (empty_object\<lparr>o_Permissions := [sample_perm]\<rparr>) = (True, rollup) \<and>
    add_plan sample_sha ''k'' (\<lambda>n. []) sample_caller rollup [PermissionForUser ''cn=b'' False True False False False]
      (empty_object\<lparr>o_Permissions := [sample_perm]\<rparr>) = Ok (Inr (obj', ch)) \<and>
    list_all (\<lambda>n. n = sample_perm \<or> n = sample_perm\<lparr>p_IsDeleted := True\<rparr> \<or>
      EqualsPermissionMAC sample_sha ''k'' n) (o_Permissions obj')"
proof -
  let ?obj = "empty_object\<lparr>o_Permissions := [sample_perm]\<rparr>"
  let ?b = "PermissionForUser ''cn=b'' False True False False False"
  obtain rollup where r: "isUserAllowedToShareWithPermission sample_sha ''k'' sample_caller [] ?obj = (True, rollup)"
    and read: "p_AllowRead rollup" and w: "has_key rollup"
    using sample_rollup by blast
  have "\<not> hasPermissionsForGrantee ?obj EveryoneGroup"
    by (simp add: hasPermissionsForGrantee_def isPermissionFor_def EveryoneGroup_def AACFlatten_map
        char_eval flatten_removed_def)
  then have plan: "add_plan sample_sha ''k'' (\<lambda>n. []) sample_caller rollup [?b] ?obj =
      add_loop (\<lambda>n. CopyEncryptKey sample_sha [] ''k'') sample_caller rollup [?b] ?obj False"
    by (simp add: add_plan_def Let_def)
  obtain res where res: "add_loop (\<lambda>n. CopyEncryptKey sample_sha [] ''k'') sample_caller rollup [?b] ?obj False = Ok res"
    using key_wrap.add_loop_no_panic [OF w, where rnd = "\<lambda>n. []"] by blast
  have "verifyPermissionToShare rollup ?b False = None"
    using read by (simp add: verifyPermissionToShare_def)
  then obtain obj' ch where "res = Inr (obj', ch)"
    using res by (auto simp: Let_def split: prod.splits if_splits option.splits)
  then have p: "add_plan sample_sha ''k'' (\<lambda>n. []) sample_caller rollup [?b] ?obj = Ok (Inr (obj', ch))"
    using plan res by simp
  have "\<forall>p \<in> set (o_Permissions ?obj). has_key p"
    by (simp add: has_key_def sample_perm_def)
  from share_adds_no_power [OF r this p] show ?thesis
    using r p by (intro exI [of _ rollup] exI [of _ obj'] exI [of _ ch]) (auto simp: list_all_iff)
qed

text \<open>C19: revoking shares never takes a permission from the owner of the object: the rows stay in place,
  and exactly the live rows of a grantee named in the request, other than the owner, are marked
  deleted; at most a row for the owner is added behind them.\<close>

theorem revoke_spares_owner:
  assumes "remove_plan sha mk rnd rollup ps obj = Ok (Inr (obj', ch))"
  shows "let owner = g_Grantee (NewODAcmGranteeFromResourceName (ns_String (o_OwnedBy obj))) in
    take (length (o_Permissions obj)) (o_Permissions obj') =
      map (\<lambda>d. if revoked_by owner ps d then d\<lparr>p_IsDeleted := True\<rparr> else d) (o_Permissions obj) \<and>
    (\<forall>d \<in> set (o_Permissions obj). AACFlatten (p_Grantee d) = AACFlatten owner \<longrightarrow> d \<in> set (o_Permissions obj'))"
proof -
  let ?owner = "g_Grantee (NewODAcmGranteeFromResourceName (ns_String (o_OwnedBy obj)))"
  obtain rows c e where l: "remove_loop rollup ?owner ps (o_Permissions obj) False False = Inr (rows, c, e)"
    and more: "\<exists>xs. o_Permissions obj' = rows @ xs"
    using assms by (auto simp: remove_plan_def Let_def split: sum.splits if_splits prod.splits option.splits)
  have rows: "rows = map (\<lambda>d. if revoked_by ?owner ps d then d\<lparr>p_IsDeleted := True\<rparr> else d) (o_Permissions obj)"
    using remove_loop_spec [OF l] .
  have "d \<in> set rows" if "d \<in> set (o_Permissions obj)" "AACFlatten (p_Grantee d) = AACFlatten ?owner" for d
    using that by (force simp: rows revoked_by_def)
  then show ?thesis
    using more rows by (auto simp: Let_def)
qed

theorem revoke_spares_owner_witness:
  "\<exists>obj' ch. remove_plan sample_sha ''k'' [] sample_perm [PermissionForUser ''cn=a'' False True False False False]
      (empty_object\<lparr>o_Permissions := [sample_perm]\<rparr>) = Ok (Inr (obj', ch)) \<and>
    take 1 (o_Permissions obj') = [sample_perm\<lparr>p_IsDeleted := True\<rparr>]"
proof -
  let ?obj = "empty_object\<lparr>o_Permissions := [sample_perm]\<rparr>"
  let ?ps = "[PermissionForUser ''cn=a'' False True False False False]"
  have o: "g_Grantee (NewODAcmGranteeFromResourceName (ns_String (o_OwnedBy empty_object))) = ''''"
    by (simp add: empty_object_def null_string_def NewODAcmGranteeFromResourceName_def empty_grantee_def)
  have a: "AACFlatten ''cna'' = ''cna''" "AACFlatten ''cn=a'' = ''cna''" "AACFlatten '''' = ''''"
    by (simp_all add: AACFlatten_map char_eval flatten_removed_def)
  have d: "\<not> p_IsDeleted sample_perm"
    by (simp add: sample_perm_def)
  have v: "verifyPermissionToShare sample_perm (PermissionForUser ''cn=a'' False True False False False) True = None"
    by (simp add: verifyPermissionToShare_def sample_perm_def)
  have every: "\<not> hasPermissionsForGrantee ?obj EveryoneGroup"
    by (simp add: hasPermissionsForGrantee_def isPermissionFor_def EveryoneGroup_def AACFlatten_map
        char_eval flatten_removed_def)
  have "\<exists>obj' ch. remove_plan sample_sha ''k'' [] sample_perm ?ps ?obj = Ok (Inr (obj', ch))"
    using every by (auto simp: remove_plan_def Let_def o a d v)
  then obtain obj' ch where r: "remove_plan sample_sha ''k'' [] sample_perm ?ps ?obj = Ok (Inr (obj', ch))"
    by blast
  show ?thesis
    using revoke_spares_owner [OF r] r by (simp add: Let_def o revoked_by_def a d)
qed

end
