(* ===== verification/Object_Owner.thy ===== *)
theory Object_Owner
  imports Object_Update Object_Remove Sharing
begin

text \<open>
  \<open>server/changeOwner.go\<close> and \<open>server/doBulkOwnership.go\<close>: giving an object, or each of a list, to another user or to a
  group. \<open>changeOwnerRaw\<close> gives its error with the cause, which may be missing: the bulk handler asks every error for
  its cause.
\<close>

subsection \<open>One object\<close>

text \<open>The new owner: another user, or a group of the caller, by the normalized name.\<close>

definition new_owner :: "stream_env \<Rightarrow> string list \<Rightarrow> string \<Rightarrow> AppError + NullString" where
  "new_owner env userGroupResourceStrings asked_owner =
     (let newOwnerAcmGrantee = NewODAcmGranteeFromResourceName asked_owner;
          targetResourceString = ResourceName newOwnerAcmGrantee in
      if length (ns_String (g_UserDistinguishedName newOwnerAcmGrantee)) > 0
      then (if ns_String (g_UserDistinguishedName newOwnerAcmGrantee) = DistinguishedName (se_caller env)
            then Inl (NewAppError 400 ''Unable to change owner of object to self.'')
            else Inr (ToNullString targetResourceString))
      else if length (ns_String (g_GroupName newOwnerAcmGrantee)) > 0
      then (if targetResourceString = ''group/-everyone''
            then Inl (NewAppError 428 ''Cannot assign ownership of object to everyone group'')
            else if list_ex (\<lambda>groupString. groupString = targetResourceString) userGroupResourceStrings
            then Inr (ToNullString targetResourceString)
            else Inl (NewAppError 428 ''User must be in group being set as the owner''))
      else Inl (NewAppError 400 (''Unrecognized value for new owner '' @ asked_owner)))"

type_synonym raw_error = "nat \<times> string \<times> string option"

definition full_cruds :: "ODObjectPermission \<Rightarrow> ODObjectPermission" where
  "full_cruds p = set_flags True True True True True p"

text \<open>The object with the permission of its new owner, its ACM and permissions in line with it. The permissions are
  brought in line for the old owner, who keeps them all.\<close>

definition owned_by :: "stream_env \<Rightarrow> db_env \<Rightarrow> bytes \<Rightarrow> (nat \<Rightarrow> bytes) \<Rightarrow> ODObjectPermission \<Rightarrow> ODObjectPermission \<Rightarrow> bool \<Rightarrow> ODObject
    \<Rightarrow> (raw_error + ODObject) res" where
  "owned_by env db iv rnd updatePermission newOwnerPermission creating obj =
     (case CopyEncryptKey (se_sha env) iv (se_masterKey env) updatePermission (full_cruds newOwnerPermission) of
        None \<Rightarrow> Panic
      | Some perm \<Rightarrow>
         (let obj1 = obj\<lparr>o_Permissions := o_Permissions obj @ [perm]\<rparr> in
          case aacInjectPermissionsIntoACM (se_unm env) (de_marshal db) (o_Permissions obj1) (ns_String (o_RawAcm obj1)) of
            Panic \<Rightarrow> Panic | Fail e \<Rightarrow> Fail e
          | Ok (_, Some e) \<Rightarrow> Ok (Inl (authHTTPErr e, ''Error injecting permission for new owner'', Some e))
          | Ok (modifiedACM, None) \<Rightarrow>
             bind_res (normalize_change env (de_marshal db) (ns_String (o_OwnedBy obj1)) creating modifiedACM obj1) (\<lambda>r. case r of
                 Inl herr \<Rightarrow> Ok (Inl (ae_Code herr, ae_Msg herr, Some (ae_Msg herr)))
               | Inr obj2 \<Rightarrow> bind_res (rekeyed env rnd updatePermission obj2) (\<lambda>obj3. Ok (Inr obj3)))))"

text \<open>The case of an ancestor that is deleted is never reached. The object the handler holds is changed on the way.\<close>

definition changeOwnerRaw :: "stream_env \<Rightarrow> db_env \<Rightarrow> bytes \<Rightarrow> (nat \<Rightarrow> bytes) \<Rightarrow> ODObject \<Rightarrow> ODObject \<Rightarrow> ODObjectPermission \<Rightarrow> DataAccessLayer
    \<Rightarrow> (((raw_error + json Object) \<times> ODObject) \<times> DataAccessLayer) res" where
  "changeOwnerRaw env db iv rnd requestObject dbObject updatePermission dao =
     (let refuse = (\<lambda>herr. Ok ((Inl herr, dbObject), dao));
          answer = (\<lambda>obj d. case MapODObjectToObject (se_unm env) obj of
             None \<Rightarrow> Panic | Some x \<Rightarrow> Ok ((Inr (WithCallerPermission (se_caller env) x), obj), d)) in
      if o_IsDeleted dbObject
      then (if o_IsExpunged dbObject then refuse (410, ''object no longer exists'', None)
            else if o_IsAncestorDeleted dbObject \<and> \<not> o_IsDeleted dbObject
            then refuse (405, ''object cannot be modified because an ancestor is deleted'', None)
            else refuse (405, ''object is already in the trash'', None))
      else if o_ChangeToken requestObject \<noteq> o_ChangeToken dbObject
      then refuse (428, ''ChangeToken does not match expected value'', Some ''ChangeToken does not match expected value'')
      else if ns_String (o_OwnedBy requestObject) = ns_String (o_OwnedBy dbObject) then answer dbObject dao
      else (case CreateODPermissionFromResource (ns_String (o_OwnedBy requestObject)) of
          Inl e \<Rightarrow> refuse (400, e, Some e)
        | Inr newOwnerPermission \<Rightarrow>
           (if g_Grantee (p_AcmGrantee newOwnerPermission) = ''''
            then refuse (400, ''Value provided for new owner could not be parsed'', Some ''Value provided for new owner could not be parsed'')
            else if isPermissionFor newOwnerPermission EveryoneGroup
            then refuse (400, ''Transferring ownership to everyone is not allowed'', Some ''Transferring ownership to everyone is not allowed'')
            else bind_res (owned_by env db iv rnd updatePermission newOwnerPermission (obj_IsCreating dbObject) (dbObject\<lparr>o_ParentID := None\<rparr>)) (\<lambda>r. case r of
                Inl herr \<Rightarrow> refuse herr
              | Inr obj1 \<Rightarrow> bind_res (UpdateObject db (obj1\<lparr>o_ModifiedBy := DistinguishedName (se_caller env), o_OwnedBy := o_OwnedBy requestObject\<rparr>) dao)
                  (\<lambda>((obj2, e), dao1).
                    if e \<noteq> None then Ok ((Inl (500, ''Error saving object with new owner'', None), obj2), dao1)
                    else if o_ChangeCount obj2 \<le> o_ChangeCount requestObject
                    then Ok ((Inl (500, ''ChangeCount didn'' @ [CHR 0x27] @ ''t update when processing owner transfer request'', None), obj2), dao1)
                    else if o_ChangeToken requestObject = o_ChangeToken obj2
                    then Ok ((Inl (500, ''ChangeToken didn'' @ [CHR 0x27] @ ''t update when processing owner transfer request'', None), obj2), dao1)
                    else answer obj2 dao1)))))"

definition parseChangeOwnerRequestAsJSON :: "bool \<Rightarrow> ChangeOwnerRequest option \<Rightarrow> string \<Rightarrow> string \<Rightarrow> string + ODObject \<times> bool" where
  "parseChangeOwnerRequestAsJSON is_json body objectID newOwner =
     (if \<not> is_json then Inl ''expected header Content-Type: application/json''
      else (case body of
          None \<Rightarrow> Inl ''decode''
        | Some jsonObject \<Rightarrow>
           (if objectID = '''' then Inl ''could not extract ObjectID from URI''
            else if hex_decode objectID = None then Inl ''invalid ObjectID in URI''
            else if length newOwner = 0 then Inl ''A new owner is required when changing owner''
            else (case MapChangeOwnerRequestToODObject (jsonObject\<lparr>cq_ID := objectID, cq_NewOwner := newOwner\<rparr>) of
                Inl e \<Rightarrow> Inl e | Inr obj \<Rightarrow> Inr (obj, cq_ApplyRecursively jsonObject)))))"

text \<open>The checks before the change: the caller may update the object and owns it, by a name that the server knows.\<close>

definition check_owner :: "stream_env \<Rightarrow> string list \<Rightarrow> ODObject \<Rightarrow> AppError option" where
  "check_owner env userGroupResourceStrings dbObject =
     (if \<not> isUserAllowedToUpdate (se_sha env) (se_masterKey env) (se_caller env) (se_groups env) dbObject
      then Some (NewAppError 403 ''Forbidden - User does not have permission to update this object'')
      else if length userGroupResourceStrings = 0
      then Some (NewAppError 500 ''Forbidden - Server cannot load resource strings from user groups'')
      else if \<not> aacIsUserOwner (DistinguishedName (se_caller env)) userGroupResourceStrings (ns_String (o_OwnedBy dbObject))
      then Some (NewAppError 403 ''Forbidden - User must be an object owner to transfer ownership of the object'')
      else None)"

text \<open>The breadcrumbs are computed and then dropped: the answer is the object without them. With the answer comes the
  identifier from which the change is carried down, if that was asked for.\<close>

definition changeOwner :: "stream_env \<Rightarrow> db_env \<Rightarrow> bytes \<Rightarrow> (nat \<Rightarrow> bytes) \<Rightarrow> string list option \<Rightarrow> bool \<Rightarrow> ChangeOwnerRequest option
    \<Rightarrow> string \<Rightarrow> string \<Rightarrow> DataAccessLayer \<Rightarrow> ((AppError + json Object \<times> slice option) \<times> DataAccessLayer) res option" where
  "changeOwner env db iv rnd groups is_json body objectID newOwner dao =
     (let refuse = (\<lambda>herr d. Some (Ok (Inl herr, d))) in
      case parseChangeOwnerRequestAsJSON is_json body objectID newOwner of
        Inl e \<Rightarrow> refuse (NewAppError 400 ''bad request'') dao
      | Inr (requestObject, recursive) \<Rightarrow> (case GetObject db requestObject True dao of
          ((_, Some e), dao1) \<Rightarrow> refuse (NewAppError 500 ''Error retrieving object'') dao1
        | ((dbObject, None), dao1) \<Rightarrow> (case getKnownResourceStringsFromUserGroups groups dao1 of (rs, dao2) \<Rightarrow>
           (case check_owner env rs dbObject of
              Some herr \<Rightarrow> refuse herr dao2
            | None \<Rightarrow> (case new_owner env rs (ns_String (o_OwnedBy requestObject)) of
                Inl herr \<Rightarrow> refuse herr dao2
              | Inr owner \<Rightarrow>
                 (let grant = snd (isUserAllowedToUpdateWithPermission (se_sha env) (se_masterKey env) (se_caller env) (se_groups env) dbObject) in
                  case changeOwnerRaw env db iv rnd (requestObject\<lparr>o_OwnedBy := owner, o_ChangeCount := o_ChangeCount dbObject\<rparr>) dbObject grant dao2 of
                    Panic \<Rightarrow> Some Panic | Fail e \<Rightarrow> Some (Fail e)
                  | Ok ((Inl (code, msg, _), _), dao3) \<Rightarrow> refuse (NewAppError code msg) dao3
                  | Ok ((Inr apiResponse, dbObject'), dao3) \<Rightarrow> (case GetParents db dbObject' dao3 of
                      None \<Rightarrow> None
                    | Some (parents, dao4) \<Rightarrow> (case errOnDeletedParents parents of
                        Some herr \<Rightarrow> refuse herr dao4
                      | None \<Rightarrow> Some (Ok (Inr (apiResponse, if recursive then Some (o_ID requestObject) else None), dao4))))))))))"

subsection \<open>Many objects\<close>

text \<open>The membership in the new owning group is not looked at here, and an error without a cause is a panic.\<close>

definition bulk_own_one :: "stream_env \<Rightarrow> db_env \<Rightarrow> bytes \<Rightarrow> (nat \<Rightarrow> bytes) \<Rightarrow> string list option \<Rightarrow> string \<Rightarrow> ObjectVersioned \<Rightarrow> DataAccessLayer
    \<Rightarrow> (ObjectError \<times> DataAccessLayer) res" where
  "bulk_own_one env db iv rnd groups newOwner q dao =
     (let answer = (\<lambda>e msg code d. Ok (\<lparr>oe_ObjectID = ov_ObjectID q, oe_Error = e, oe_Msg = msg, oe_Code = code\<rparr>, d)) in
      case MapChangeOwnerRequestToODObject \<lparr>cq_ID = ov_ObjectID q, cq_ChangeToken = ov_ChangeToken q, cq_NewOwner = newOwner, cq_ApplyRecursively = False\<rparr> of
        Inl e \<Rightarrow> answer e ''Error parsing JSON'' 400 dao
      | Inr requestObject \<Rightarrow> (case GetObject db (requestObject\<lparr>o_ChangeToken := ov_ChangeToken q\<rparr>) True dao of
          ((_, Some e), dao1) \<Rightarrow> answer e ''Error retrieving object'' 400 dao1
        | ((dbObject, None), dao1) \<Rightarrow>
          (case isUserAllowedToUpdateWithPermission (se_sha env) (se_masterKey env) (se_caller env) (se_groups env) dbObject of (ok, grant) \<Rightarrow>
            (if \<not> ok then answer ''Forbidden'' ''Forbidden - User does not have permission to update this object'' 403 dao1
             else (case getKnownResourceStringsFromUserGroups groups dao1 of (rs, dao2) \<Rightarrow>
               (if \<not> aacIsUserOwner (DistinguishedName (se_caller env)) rs (ns_String (o_OwnedBy dbObject))
                then answer ''Forbidden'' ''Forbidden - User must be an object owner to transfer ownership of the object'' 403 dao2
                else bind_res (changeOwnerRaw env db iv rnd (requestObject\<lparr>o_ChangeToken := ov_ChangeToken q\<rparr>) dbObject grant dao2)
                  (\<lambda>((r, dbObject'), dao3). case r of
                     Inr apiResponse \<Rightarrow> answer '''' '''' 200 dao3
                   | Inl (code, msg, Some errCause) \<Rightarrow> answer errCause msg code dao3
                   | Inl (code, msg, None) \<Rightarrow> Panic)))))))"

fun bulk_owns :: "stream_env \<Rightarrow> db_env \<Rightarrow> bytes \<Rightarrow> (nat \<Rightarrow> bytes) \<Rightarrow> string list option \<Rightarrow> string \<Rightarrow> ObjectVersioned list \<Rightarrow> DataAccessLayer
    \<Rightarrow> (ObjectError list \<times> DataAccessLayer) res" where
  "bulk_owns env db iv rnd groups newOwner [] dao = Ok ([], dao)"
| "bulk_owns env db iv rnd groups newOwner (q # qs) dao =
     bind_res (bulk_own_one env db iv rnd groups newOwner q dao) (\<lambda>(r, dao1).
     bind_res (bulk_owns env db iv rnd groups newOwner qs dao1) (\<lambda>(rs, dao2). Ok (r # rs, dao2)))"

definition doBulkOwnership :: "stream_env \<Rightarrow> db_env \<Rightarrow> bytes \<Rightarrow> (nat \<Rightarrow> bytes) \<Rightarrow> string list option \<Rightarrow> string \<Rightarrow> string \<Rightarrow> 'b option
    \<Rightarrow> ('b \<Rightarrow> ObjectVersioned list option) \<Rightarrow> DataAccessLayer \<Rightarrow> ((AppError + ObjectError list) \<times> DataAccessLayer) res" where
  "doBulkOwnership env db iv rnd groups contentType newOwner body parse dao =
     (if contentType \<noteq> ''application/json'' then Ok (Inl (NewAppError 400 ''Requires Content-Type: application/json''), dao)
      else (case body of
          None \<Rightarrow> Ok (Inl (NewAppError 400 ''Cannot unmarshal list of IDs''), dao)
        | Some b \<Rightarrow> (case parse b of
            None \<Rightarrow> Ok (Inl (NewAppError 400 ''Cannot parse list of IDs''), dao)
          | Some objects \<Rightarrow> bind_res (bulk_owns env db iv rnd groups newOwner objects dao) (\<lambda>(rs, dao1). Ok (Inr rs, dao1)))))"

subsection \<open>Everything below\<close>

text \<open>The visit of a child. The names of the groups of the caller are those read at the start, and the new owner is named
  as in the request, not normalized.\<close>

definition own_child :: "stream_env \<Rightarrow> db_env \<Rightarrow> (Db \<Rightarrow> bytes \<times> (nat \<Rightarrow> bytes)) \<Rightarrow> string list \<Rightarrow> string \<Rightarrow> visit" where
  "own_child env db rnd rs newOwner parent child dao =
     (if \<not> aacIsUserOwner (DistinguishedName (se_caller env)) rs (ns_String (o_OwnedBy child)) then Ok (None, dao)
      else (case CreateODPermissionFromResource newOwner of
          Inl e \<Rightarrow> Ok (None, dao)
        | Inr perm \<Rightarrow>
           (if g_Grantee (p_AcmGrantee perm) = '''' then Ok (None, dao)
            else if isPermissionFor perm EveryoneGroup then Ok (None, dao)
            else (case isUserAllowedToUpdateWithPermission (se_sha env) (se_masterKey env) (se_caller env) (se_groups env) child of (ok, existingPerm) \<Rightarrow>
              (if \<not> ok then Ok (None, dao)
               else bind_res (owned_by env db (fst (rnd (da_db dao))) (snd (rnd (da_db dao))) existingPerm perm False child) (\<lambda>r. case r of
                   Inl herr \<Rightarrow> Ok (None, dao)
                 | Inr child1 \<Rightarrow> bind_res (UpdateObject db (child1\<lparr>o_ModifiedBy := DistinguishedName (se_caller env), o_OwnedBy := ToNullString newOwner\<rparr>) dao)
                     (\<lambda>((child2, e), dao1).
                       if e \<noteq> None then Ok (None, dao1)
                       else if MapODObjectToObject (se_unm env) child2 = None then Panic
                       else Ok (Some child2, dao1))))))))"

definition changeOwnerRecursive :: "stream_env \<Rightarrow> db_env \<Rightarrow> (Db \<Rightarrow> bytes \<times> (nat \<Rightarrow> bytes)) \<Rightarrow> string list option \<Rightarrow> nat \<Rightarrow> int \<Rightarrow> string \<Rightarrow> slice
    \<Rightarrow> DataAccessLayer \<Rightarrow> DataAccessLayer res option" where
  "changeOwnerRecursive env db rnd groups n maxPageSize newOwner i dao =
     (case getKnownResourceStringsFromUserGroups groups dao of (rs, dao1) \<Rightarrow>
        descend_pages (own_child env db rnd rs newOwner) n db maxPageSize 1 (empty_object\<lparr>o_ID := i\<rparr>) dao1)"

subsection \<open>Who gets what\<close>

lemma owned_byD:
  assumes "owned_by env db iv rnd grant p creating obj = Ok (Inr obj')"
  obtains acm ps where "obj' = obj\<lparr>o_RawAcm := acm, o_Permissions := ps\<rparr>" and "acm_err env obj' = None"
proof -
  obtain perm where c: "CopyEncryptKey (se_sha env) iv (se_masterKey env) grant (full_cruds p) = Some perm"
    using assms by (auto simp: owned_by_def split: option.splits)
  let ?obj1 = "obj\<lparr>o_Permissions := o_Permissions obj @ [perm]\<rparr>"
  obtain m x where x: "normalize_change env (de_marshal db) (ns_String (o_OwnedBy obj)) creating m ?obj1 = Ok x"
      and y: "(case x of Inl herr \<Rightarrow> Ok (Inl (ae_Code herr, ae_Msg herr, Some (ae_Msg herr))) | Inr obj2 \<Rightarrow>
        bind_res (rekeyed env rnd grant obj2) (\<lambda>obj3. Ok (Inr obj3))) = Ok (Inr obj' :: raw_error + ODObject)"
    using assms by (auto simp: owned_by_def c Let_def bind_res_Ok_iff split: option.splits res.splits)
  obtain obj2 where n: "normalize_change env (de_marshal db) (ns_String (o_OwnedBy obj)) creating m ?obj1 = Ok (Inr obj2)"
      and k: "rekeyed env rnd grant obj2 = Ok obj'"
    using x y by (cases x) (auto simp: bind_res_Ok_iff)
  obtain acm ps where o2: "obj2 = ?obj1\<lparr>o_RawAcm := acm, o_Permissions := ps\<rparr>" and a: "acm_err env obj2 = None"
    using normalize_changeD [OF n] by blast
  obtain qs where o3: "obj' = obj2\<lparr>o_Permissions := qs\<rparr>"
    using rekeyedD [OF k] by blast
  show thesis
    by (rule that [of qs acm]) (use a in \<open>simp_all add: o2 o3 acm_err_def\<close>)
qed

lemma changeOwnerRaw_cases:
  assumes "changeOwnerRaw env db iv rnd req obj grant dao = Ok ((r, obj'), dao')"
  obtains (kept) "dao' = dao" and "obj' = obj" and "(\<exists>herr. r = Inl herr) \<or> \<not> o_IsDeleted obj \<and> o_ChangeToken req = o_ChangeToken obj \<and>
      ns_String (o_OwnedBy req) = ns_String (o_OwnedBy obj)"
  | (written) changed e p where "\<not> o_IsDeleted obj" and "o_ChangeToken req = o_ChangeToken obj" and "acm_err env changed = None"
      and "CreateODPermissionFromResource (ns_String (o_OwnedBy req)) = Inr p" and "\<not> isPermissionFor p EveryoneGroup"
      and "o_ParentID changed = None" and "o_OwnedBy changed = o_OwnedBy req" and "o_ID changed = o_ID obj" and "o_ChangeToken changed = o_ChangeToken obj"
      and "o_ModifiedBy changed = DistinguishedName (se_caller env)" and "UpdateObject db changed dao = Ok ((obj', e), dao')"
      and "e \<noteq> None \<Longrightarrow> \<exists>herr. r = Inl herr"
proof (cases "o_IsDeleted obj \<or> o_ChangeToken req \<noteq> o_ChangeToken obj \<or> ns_String (o_OwnedBy req) = ns_String (o_OwnedBy obj)")
  case True
  then show thesis
    using assms by (intro kept) (auto simp: changeOwnerRaw_def Let_def split: if_splits option.splits)
next
  case False
  then have f: "\<not> o_IsDeleted obj" "o_ChangeToken req = o_ChangeToken obj" "ns_String (o_OwnedBy req) \<noteq> ns_String (o_OwnedBy obj)"
    by simp_all
  show thesis
  proof (cases "CreateODPermissionFromResource (ns_String (o_OwnedBy req))")
    case (Inl e)
    then show thesis
      using assms f by (intro kept) (auto simp: changeOwnerRaw_def Let_def)
  next
    case p: (Inr p)
    show thesis
    proof (cases "g_Grantee (p_AcmGrantee p) = '''' \<or> isPermissionFor p EveryoneGroup")
      case True
      then show thesis
        using assms f p by (intro kept) (auto simp: changeOwnerRaw_def Let_def split: if_splits)
    next
      case False
      obtain q where o: "owned_by env db iv rnd grant p (obj_IsCreating obj) (obj\<lparr>o_ParentID := None\<rparr>) = Ok q"
        using assms f p False by (auto simp: changeOwnerRaw_def Let_def bind_res_Ok_iff)
      show thesis
      proof (cases q)
        case (Inl herr)
        then show thesis
          using assms f p False o by (cases herr, intro kept) (auto simp: changeOwnerRaw_def Let_def)
      next
        case (Inr obj1)
        obtain acm ps where o1: "obj1 = obj\<lparr>o_ParentID := None, o_RawAcm := acm, o_Permissions := ps\<rparr>" and a: "acm_err env obj1 = None"
          using o [unfolded Inr] by (rule owned_byD) simp
        let ?changed = "obj1\<lparr>o_ModifiedBy := DistinguishedName (se_caller env), o_OwnedBy := o_OwnedBy req\<rparr>"
        obtain x e d where up: "UpdateObject db ?changed dao = Ok ((x, e), d)"
          using assms f p False o Inr by (auto simp: changeOwnerRaw_def Let_def bind_res_Ok_iff)
        have run: "obj' = x" "dao' = d" "e \<noteq> None \<Longrightarrow> \<exists>herr. r = Inl herr"
          using assms f p False o Inr up by (auto simp: changeOwnerRaw_def Let_def split: if_splits option.splits)
        have c: "acm_err env ?changed = None" "o_ParentID ?changed = None" "o_OwnedBy ?changed = o_OwnedBy req" "o_ID ?changed = o_ID obj"
            "o_ChangeToken ?changed = o_ChangeToken obj" "o_ModifiedBy ?changed = DistinguishedName (se_caller env)"
          using a by (simp_all add: o1 acm_err_def)
        show thesis
          by (rule written [OF f(1,2) c(1) p _ c(2-6)]) (use False up run in simp_all)
      qed
    qed
  qed
qed

text \<open>The names a caller may give an object to.\<close>

definition other_owner :: "stream_env \<Rightarrow> string list \<Rightarrow> NullString \<Rightarrow> bool" where
  "other_owner env rs owner \<longleftrightarrow> (\<exists>g. owner = ToNullString (ResourceName g) \<and>
     (ns_String (g_UserDistinguishedName g) \<noteq> '''' \<and> ns_String (g_UserDistinguishedName g) \<noteq> DistinguishedName (se_caller env) \<or>
      ResourceName g \<in> set rs \<and> ResourceName g \<noteq> ''group/-everyone''))"

lemma new_ownerD: "new_owner env rs s = Inr owner \<Longrightarrow> other_owner env rs owner"
  unfolding other_owner_def
  by (intro exI [of _ "NewODAcmGranteeFromResourceName s"]) (auto simp: new_owner_def Let_def list_ex_iff split: if_splits)

definition transferable :: "stream_env \<Rightarrow> string list \<Rightarrow> ODObject \<Rightarrow> ODObject \<Rightarrow> bool" where
  "transferable env rs req obj \<longleftrightarrow> isUserAllowedToUpdate (se_sha env) (se_masterKey env) (se_caller env) (se_groups env) obj \<and>
     aacIsUserOwner (DistinguishedName (se_caller env)) rs (ns_String (o_OwnedBy obj)) \<and> \<not> o_IsDeleted obj \<and>
     o_ChangeToken req = o_ChangeToken obj"

lemma check_owner_None: "check_owner env rs obj = None \<Longrightarrow> isUserAllowedToUpdate (se_sha env) (se_masterKey env) (se_caller env) (se_groups env) obj \<and>
    aacIsUserOwner (DistinguishedName (se_caller env)) rs (ns_String (o_OwnedBy obj))"
  by (auto simp: check_owner_def split: if_splits)

lemma changeOwner_cases:
  assumes "changeOwner env db iv rnd groups is_json body objectID newOwner dao = Some (Ok (r, dao'))"
  obtains (refused) herr where "reads dao dao'" and "r = Inl herr"
  | (asked) req rec obj dao1 rs dao2 owner grant q obj' dao3 where
      "parseChangeOwnerRequestAsJSON is_json body objectID newOwner = Inr (req, rec)" and "GetObject db req True dao = ((obj, None), dao1)"
      and "getKnownResourceStringsFromUserGroups groups dao1 = (rs, dao2)" and "check_owner env rs obj = None"
      and "new_owner env rs (ns_String (o_OwnedBy req)) = Inr owner"
      and "changeOwnerRaw env db iv rnd (req\<lparr>o_OwnedBy := owner, o_ChangeCount := o_ChangeCount obj\<rparr>) obj grant dao2 = Ok ((q, obj'), dao3)"
      and "reads dao3 dao'" and "(\<exists>herr. q = Inl herr) \<Longrightarrow> \<exists>herr. r = Inl herr"
proof (cases "parseChangeOwnerRequestAsJSON is_json body objectID newOwner")
  case (Inl e)
  then show thesis
    using assms by (intro refused) (auto simp: changeOwner_def Let_def)
next
  case (Inr a)
  then obtain req rec where p: "parseChangeOwnerRequestAsJSON is_json body objectID newOwner = Inr (req, rec)"
    by (cases a) auto
  obtain obj e dao1 where get: "GetObject db req True dao = ((obj, e), dao1)"
    by (metis surj_pair)
  obtain rs dao2 where known: "getKnownResourceStringsFromUserGroups groups dao1 = (rs, dao2)"
    by (metis surj_pair)
  have r1: "reads dao dao1" and r2: "reads dao dao2"
    using GetObject_reads [OF get] known_reads [OF known] reads_trans by blast+
  show thesis
  proof (cases e)
    case (Some m)
    then show thesis
      using assms r1 by (intro refused) (auto simp: changeOwner_def p Let_def get)
  next
    case None
    show thesis
    proof (cases "check_owner env rs obj")
      case (Some herr)
      then show thesis
        using assms r2 by (intro refused) (auto simp: changeOwner_def p Let_def get None known)
    next
      case c: None
      show thesis
      proof (cases "new_owner env rs (ns_String (o_OwnedBy req))")
        case (Inl herr)
        then show thesis
          using assms r2 by (intro refused) (auto simp: changeOwner_def p Let_def get None known c)
      next
        case (Inr owner)
        define grant where "grant = snd (isUserAllowedToUpdateWithPermission (se_sha env) (se_masterKey env) (se_caller env) (se_groups env) obj)"
        obtain q obj' dao3 where raw: "changeOwnerRaw env db iv rnd (req\<lparr>o_OwnedBy := owner, o_ChangeCount := o_ChangeCount obj\<rparr>) obj grant dao2 = Ok ((q, obj'), dao3)"
          using assms by (auto simp: changeOwner_def p Let_def get None known c Inr grant_def split: res.splits)
        note a = asked [OF p get [unfolded None] known c Inr raw]
        show thesis
        proof (cases q)
          case (Inl h)
          then show thesis
            using assms raw by (cases h, intro a) (auto simp: changeOwner_def p Let_def get None known c Inr grant_def)
        next
          case (Inr x)
          obtain ps d where g: "GetParents db obj' dao3 = Some (ps, d)"
            using assms raw Inr \<open>new_owner env rs _ = Inr owner\<close>
            by (auto simp: changeOwner_def p Let_def get None known c grant_def split: option.splits)
          have "dao' = d"
            using assms raw Inr g \<open>new_owner env rs _ = Inr owner\<close>
            by (auto simp: changeOwner_def p Let_def get None known c grant_def split: option.splits)
          then show thesis
            using GetParents_reads [OF g] Inr by (intro a) auto
        qed
      qed
    qed
  qed
qed


text \<open>The tree of the store after a change of owner, one, many or recursive.\<close>

lemma changeOwnerRaw_well_formed:
  assumes "changeOwnerRaw env db iv rnd req obj grant dao = Ok ((r, obj'), dao')" and "well_formed dao"
  shows "well_formed dao'"
  using assms(1)
proof (cases rule: changeOwnerRaw_cases)
  case (written changed e p)
  then show ?thesis
    using step_update [OF written(11) assms(2)] by (simp add: norm_id_def)
qed (use assms(2) in simp)

lemma changeOwner_well_formed:
  assumes "changeOwner env db iv rnd groups is_json body objectID newOwner dao = Some (Ok (r, dao'))" and "well_formed dao"
  shows "well_formed dao'"
  using assms(1)
proof (cases rule: changeOwner_cases)
  case (refused herr)
  then show ?thesis
    using assms(2) reads_well_formed by blast
next
  case (asked req rec obj dao1 rs dao2 owner grant q obj' dao3)
  have "well_formed dao2"
    using GetObject_reads [OF asked(2)] known_reads [OF asked(3)] reads_trans reads_well_formed assms(2) by blast
  then show ?thesis
    using changeOwnerRaw_well_formed [OF asked(6)] reads_well_formed [OF asked(7)] by blast
qed

lemma bulk_own_one_well_formed:
  assumes "bulk_own_one env db iv rnd groups newOwner q dao = Ok (r, dao')" and "well_formed dao"
  shows "well_formed dao'"
proof (cases "MapChangeOwnerRequestToODObject \<lparr>cq_ID = ov_ObjectID q, cq_ChangeToken = ov_ChangeToken q, cq_NewOwner = newOwner, cq_ApplyRecursively = False\<rparr>")
  case (Inl e)
  then show ?thesis
    using assms by (simp add: bulk_own_one_def)
next
  case (Inr req)
  let ?req = "req\<lparr>o_ChangeToken := ov_ChangeToken q\<rparr>"
  obtain obj e dao1 where get: "GetObject db ?req True dao = ((obj, e), dao1)"
    by (metis surj_pair)
  obtain ok grant where perm: "isUserAllowedToUpdateWithPermission (se_sha env) (se_masterKey env) (se_caller env) (se_groups env) obj = (ok, grant)"
    by (metis surj_pair)
  obtain rs dao2 where known: "getKnownResourceStringsFromUserGroups groups dao1 = (rs, dao2)"
    by (metis surj_pair)
  have wf: "well_formed dao1" "well_formed dao2"
    using GetObject_reads [OF get] known_reads [OF known] reads_well_formed assms(2) by blast+
  show ?thesis
  proof (cases "e = None \<and> ok \<and> aacIsUserOwner (DistinguishedName (se_caller env)) rs (ns_String (o_OwnedBy obj))")
    case False
    then show ?thesis
      using assms(1) wf by (cases e) (auto simp: bulk_own_one_def Inr Let_def get perm known split: if_splits)
  next
    case True
    then obtain x y d where raw: "changeOwnerRaw env db iv rnd ?req obj grant dao2 = Ok ((x, y), d)"
      using assms(1) by (auto simp: bulk_own_one_def Inr Let_def get perm known bind_res_Ok_iff)
    have "dao' = d"
      using assms(1) True raw by (cases x) (auto simp: bulk_own_one_def Inr Let_def get perm known split: option.splits)
    then show ?thesis
      using changeOwnerRaw_well_formed [OF raw wf(2)] by simp
  qed
qed

lemma bulk_owns_well_formed:
  "bulk_owns env db iv rnd groups newOwner qs dao = Ok (rs, dao') \<Longrightarrow> well_formed dao \<Longrightarrow> well_formed dao'"
  by (induction qs arbitrary: dao rs) (auto simp: bind_res_Ok_iff dest: bulk_own_one_well_formed)

lemma doBulkOwnership_well_formed:
  "doBulkOwnership env db iv rnd groups contentType newOwner body parse dao = Ok (rs, dao') \<Longrightarrow> well_formed dao \<Longrightarrow> well_formed dao'"
  by (auto simp: doBulkOwnership_def bind_res_Ok_iff split: if_splits option.splits dest: bulk_owns_well_formed)

lemma own_child_ok: "visit_ok (own_child env db rnd rs newOwner)"
  unfolding visit_ok_def
proof (intro allI impI)
  fix parent child dao r dao'
  assume run: "own_child env db rnd rs newOwner parent child dao = Ok (r, dao')" and wf: "well_formed dao" and p: "placed child dao"
  show "keeps_places dao dao'"
  proof (cases "dao' = dao")
    case False
    let ?step = "\<lambda>q. (case q of Inl herr \<Rightarrow> Ok (None, dao)
          | Inr child1 \<Rightarrow> bind_res (UpdateObject db (child1\<lparr>o_ModifiedBy := DistinguishedName (se_caller env), o_OwnedBy := ToNullString newOwner\<rparr>) dao)
             (\<lambda>((child2, e), dao1). if e \<noteq> None then Ok (None, dao1)
                else if MapODObjectToObject (se_unm env) child2 = None then Panic else Ok (Some child2, dao1)))"
    obtain perm where perm: "CreateODPermissionFromResource newOwner = Inr perm"
      using run False by (auto simp: own_child_def split: if_splits sum.splits)
    obtain ok grant where grant: "isUserAllowedToUpdateWithPermission (se_sha env) (se_masterKey env) (se_caller env) (se_groups env) child = (ok, grant)"
      by (metis surj_pair)
    define iv f where "iv = fst (rnd (da_db dao))" and "f = snd (rnd (da_db dao))"
    have "bind_res (owned_by env db iv f grant perm False child) ?step = Ok (r, dao')"
    proof -
      have "aacIsUserOwner (DistinguishedName (se_caller env)) rs (ns_String (o_OwnedBy child)) = True"
          "(g_Grantee (p_AcmGrantee perm) = '''') = False" "isPermissionFor perm EveryoneGroup = False" "ok = True"
        using run False by (simp_all add: own_child_def perm grant split: if_splits)
      then show ?thesis
        using run by (simp only: own_child_def perm grant iv_def f_def sum.case prod.case if_False if_True not_True_eq_False simp_thms)
    qed
    then obtain q where o: "owned_by env db iv f grant perm False child = Ok q" and u: "?step q = Ok (r, dao')"
      by (auto simp only: bind_res_Ok_iff)
    obtain child1 x e where q: "q = Inr child1" and
        up: "UpdateObject db (child1\<lparr>o_ModifiedBy := DistinguishedName (se_caller env), o_OwnedBy := ToNullString newOwner\<rparr>) dao = Ok ((x, e), dao')"
      using u False by (cases q) (auto simp: bind_res_Ok_iff split: if_splits)
    note c = o [unfolded q] up
    obtain acm ps where "child1 = child\<lparr>o_RawAcm := acm, o_Permissions := ps\<rparr>"
      using c(1) by (rule owned_byD)
    then have "placed (child1\<lparr>o_ModifiedBy := DistinguishedName (se_caller env), o_OwnedBy := ToNullString newOwner\<rparr>) dao"
      using p by (simp add: placed_def)
    then show ?thesis
      by (rule update_keeps_places [OF c(2) wf])
  qed (simp add: keeps_places_refl wf)
qed

lemma changeOwnerRecursive_well_formed:
  assumes "changeOwnerRecursive env db rnd groups n sz newOwner i dao = Some (Ok dao')" and "well_formed dao"
  shows "well_formed dao'"
proof -
  obtain rs dao1 where known: "getKnownResourceStringsFromUserGroups groups dao = (rs, dao1)"
    by (metis surj_pair)
  then have "descend_pages (own_child env db rnd rs newOwner) n db sz 1 (empty_object\<lparr>o_ID := i\<rparr>) dao1 = Some (Ok dao')"
    using assms(1) by (simp add: changeOwnerRecursive_def)
  then show ?thesis
    using descend_keeps(1) [OF _ own_child_ok] reads_well_formed [OF known_reads [OF known] assms(2)] by (auto simp: keeps_places_def)
qed

text \<open>The owner of a file in a folder gives it to another user: it moves to the root, and the old owner keeps every
  permission.\<close>

definition owner_stream :: stream_env where
  "owner_stream = editor\<lparr>se_caller := sample_caller\<lparr>DistinguishedName := ''a''\<rparr>\<rparr>"

definition owned_dao :: DataAccessLayer where
  "owned_dao = \<lparr>da_db = sample_db\<lparr>db_object := [(sample_owned 3 (Some [1]))\<lparr>o_OwnedBy := ToNullString ''user/a''\<rparr>],
       db_permission := [(sample_signed 3)\<lparr>p_Grantee := ''a'', p_ChangeToken := ''t''\<rparr>],
       db_grantee := [(''a'', empty_grantee\<lparr>g_Grantee := ''a'', g_DisplayName := ToNullString ''a'',
           g_ResourceString := ToNullString ''user/a/a'', g_UserDistinguishedName := ToNullString ''a''\<rparr>),
         (''g'', empty_grantee\<lparr>g_Grantee := ''g'', g_DisplayName := ToNullString ''g'', g_GroupName := ToNullString ''g'',
           g_ResourceString := ToNullString ''group/g''\<rparr>)]\<rparr>, da_AcmGranteeCache = []\<rparr>"

definition owner_body :: ChangeOwnerRequest where
  "owner_body = \<lparr>cq_ID = '''', cq_ChangeToken = ''t'', cq_NewOwner = '''', cq_ApplyRecursively = False\<rparr>"

lemma old_owner_keeps:
  "case changeOwner owner_stream sample_env (replicate 32 1) (\<lambda>_. replicate 32 1) (Some [''g'']) True (Some owner_body) ''03'' ''user/b'' owned_dao of
     Some (Ok (Inr resp, d)) \<Rightarrow> map (\<lambda>x. (ns_String (o_OwnedBy x), o_ParentID x)) (db_object (da_db d)) = [(''user/b'', None)] \<and>
       map (\<lambda>p. (p_Grantee p, p_IsDeleted p, p_AllowDelete p)) (db_permission (da_db d)) =
         [(''a'', True, True), (''_everyone'', False, False), (''a'', False, True), (''b'', False, True)]
   | _ \<Rightarrow> False"
  by code_simp

lemma answered:
  "(case x of Some (Ok (Inr resp, d)) \<Rightarrow> P resp d | _ \<Rightarrow> False) \<Longrightarrow> \<exists>resp d. x = Some (Ok (Inr resp, d)) \<and> P resp d"
  by (cases x; simp) (auto split: res.splits sum.splits, metis old.sum.exhaust)


text \<open>The bulk handler ends in a panic on an object in the trash: its error has no cause.\<close>

lemma bulk_own_panics:
  "doBulkOwnership owner_stream sample_env (replicate 32 1) (\<lambda>_. replicate 32 1) (Some [''g'']) ''application/json'' ''user/b'' (Some ())
      (\<lambda>_. Some [\<lparr>ov_ObjectID = ''03'', ov_ChangeToken = ''t''\<rparr>])
      (owned_dao\<lparr>da_db := (da_db owned_dao)\<lparr>db_object := map (\<lambda>x. x\<lparr>o_IsDeleted := True\<rparr>) (db_object (da_db owned_dao))\<rparr>\<rparr>) = Panic"
  by code_simp

end
