(* ===== verification/Object_Handlers.thy ===== *)
theory Object_Handlers
  imports Object_Remove Object_Owner
begin

text \<open>
  The handlers of objects together: any sequence of requests, each the step of one handler, starting from a store that is
  well formed (\<open>Dao_Forest\<close>). The side conditions that a step of the store needs, that a move makes no circle and that
  only what is not expunged is restored, are here the checks of the handlers themselves.
\<close>

inductive handler_step :: "db_env \<Rightarrow> DataAccessLayer \<Rightarrow> DataAccessLayer \<Rightarrow> bool" for db where
  get: "getObject env db captured dao = Some (Ok (r, dao')) \<Longrightarrow> handler_step db dao dao'"
| move: "moveObject env db groups is_json body route dao = Some (Ok (r, dao')) \<Longrightarrow> handler_step db dao dao'"
| bulk_move: "doBulkMove env db groups (raw :: string option) parse dao = Some (Ok (rs, dao')) \<Longrightarrow> handler_step db dao dao'"
| delete: "deleteObject n env db c request captured dao = Some (Ok (d, dao')) \<Longrightarrow> handler_step db dao dao'"
| bulk_delete: "doBulkDelete n env db c (raw :: string option) parse_ids dao = Some (Ok (rs, dao')) \<Longrightarrow> handler_step db dao dao'"
| restore: "removeObjectFromTrash n env db token captured dao = Some (Ok (x, dao')) \<Longrightarrow> handler_step db dao dao'"
| forever: "deleteObjectForever n env db c request captured dao = Some (Ok (f, dao')) \<Longrightarrow> handler_step db dao dao'"
| update: "updateObject env db rnd types is_json captured body dao = Some (Ok (u, dao')) \<Longrightarrow> handler_step db dao dao'"
| share_below: "updateObjectRecursive env db rnds n sz obj dao = Some (Ok dao') \<Longrightarrow> handler_step db dao dao'"
| own: "changeOwner env db iv rnd groups is_json body objectID newOwner dao = Some (Ok (w, dao')) \<Longrightarrow> handler_step db dao dao'"
| bulk_own: "doBulkOwnership env db iv rnd groups contentType newOwner (raw :: string option) parse dao = Ok (ws, dao') \<Longrightarrow> handler_step db dao dao'"
| own_below: "changeOwnerRecursive env db rnds groups n sz newOwner i dao = Some (Ok dao') \<Longrightarrow> handler_step db dao dao'"
| empty_trash: "expungeDeleted m n env db mine c limit size_text dao = Some (Ok (k, dao')) \<Longrightarrow> handler_step db dao dao'"

inductive_cases handler_stepE: "handler_step db dao dao'"

lemma handler_well_formed:
  assumes "handler_step db dao dao'" and "well_formed dao" and "env_ok db"
  shows "well_formed dao'"
  using assms(1)
proof cases
  case (get env captured r)
  then show ?thesis
    using getObject_handler_reads assms(2) reads_well_formed by blast
next
  case (move env groups is_json body route r)
  then show ?thesis
    using moveObject_well_formed assms(2) by blast
next
  case (bulk_move env groups raw parse rs)
  then show ?thesis
    using doBulkMove_well_formed assms(2) by blast
next
  case (delete n env c request captured d)
  then show ?thesis
    using delete_well_formed assms(2,3) by blast
next
  case (bulk_delete n env c raw parse_ids rs)
  then show ?thesis
    using doBulkDelete_well_formed assms(2,3) by blast
next
  case (restore n env token captured x)
  then show ?thesis
    using restore_well_formed assms(2) by blast
next
  case (forever n env c request captured f)
  then show ?thesis
    using forever_well_formed assms(2,3) by blast
next
  case (update env rnd types is_json captured body u)
  then show ?thesis
    using updateObject_well_formed assms(2) by (cases u) blast
next
  case (share_below env rnds n sz obj)
  then show ?thesis
    using updateObjectRecursive_keeps assms(2) by (auto simp: keeps_places_def)
next
  case (own env iv rnd groups is_json body objectID newOwner w)
  then show ?thesis
    using changeOwner_well_formed assms(2) by blast
next
  case (bulk_own env iv rnd groups contentType newOwner raw parse ws)
  then show ?thesis
    using doBulkOwnership_well_formed assms(2) by blast
next
  case (own_below env rnds groups n sz newOwner i)
  then show ?thesis
    using changeOwnerRecursive_well_formed assms(2) by blast
next
  case (empty_trash m n env mine c limit size_text k)
  then show ?thesis
    using expungeDeleted_well_formed assms(2,3) by blast
qed



end
