(* ===== verification/Cache_Purge.thy ===== *)
theory Cache_Purge
  imports Ciphertext_Cache
begin

text \<open>
  \<open>ciphertext/cachepurge.go\<close>: deleting files of the cache to make room. Disk usage, thresholds and the
  random number are rationals; the clock is that of the file system. \<open>Panic\<close> is the division by the
  square of the age when that square is zero. Directories are left out: every name is a regular file.
\<close>

record cachePurgeStats =
  cps_deletedCount :: int
  cps_deletedSize :: int
  cps_errorCount :: int
  cps_errorSize :: int
  cps_reviewedCount :: int
  cps_reviewedSize :: int

definition new_stats :: cachePurgeStats where
  "new_stats = \<lparr>cps_deletedCount = 0, cps_deletedSize = 0, cps_errorCount = 0, cps_errorSize = 0,
     cps_reviewedCount = 0, cps_reviewedSize = 0\<rparr>"

definition oneWeek :: int where
  "oneWeek = 60 * 60 * 24 * 7"

definition attemptToEmptyFile :: "'st CiphertextCacheData \<Rightarrow> string \<Rightarrow> 'st CiphertextCacheData" where
  "attemptToEmptyFile d fqName =
     (if path_ext fqName = FileStateUploaded then d
      else if snd (fs_Stat (cc_files d) fqName) = None
      then set_files (snd (fs_Truncate (cc_files d) fqName)) d else d)"

definition count_error :: "int \<Rightarrow> cachePurgeStats \<Rightarrow> cachePurgeStats" where
  "count_error sz cps = cps\<lparr>cps_errorCount := cps_errorCount cps + 1, cps_errorSize := cps_errorSize cps + sz\<rparr>"

definition purge_remove :: "'st CiphertextCacheData \<Rightarrow> string \<Rightarrow> int \<Rightarrow> cachePurgeStats
    \<Rightarrow> cachePurgeStats \<times> 'st CiphertextCacheData" where
  "purge_remove d fqName sz cps = (case fs_Remove (cc_files d) fqName of
     (Some e, fs) \<Rightarrow> (count_error sz cps, attemptToEmptyFile d fqName)
   | (None, fs) \<Rightarrow> (cps\<lparr>cps_deletedCount := cps_deletedCount cps + 1,
        cps_deletedSize := cps_deletedSize cps + sz\<rparr>, set_files fs d))"

definition sizeAgeEviction :: "int \<Rightarrow> int \<Rightarrow> bool" where
  "sizeAgeEviction sz ageInSeconds \<longleftrightarrow> go_div sz (wrap64 (ageInSeconds * ageInSeconds)) < 1"

definition filePurgeVisit :: "'st CiphertextCacheData \<Rightarrow> string \<Rightarrow> rat \<Rightarrow> rat \<Rightarrow> cachePurgeStats
    \<Rightarrow> (cachePurgeStats \<times> 'st CiphertextCacheData) res" where
  "filePurgeVisit d fqName usage rnd cps0 =
     (let cps1 = cps0\<lparr>cps_reviewedCount := cps_reviewedCount cps0 + 1\<rparr> in
      case fs_Stat (cc_files d) fqName of
        (Some f, None) \<Rightarrow>
          (let ageInSeconds = (fs_Now (cc_files d) - f_Mtime f) + 1; sz = int (length (f_Data f));
               cps = cps1\<lparr>cps_reviewedSize := cps_reviewedSize cps1 + sz\<rparr>; ext = path_ext fqName in
           if ext = FileStateCached then
             (let oldEnoughToEvict = ageInSeconds > cc_ageEligibleForEviction d;
                  hitFileLimit = (cc_fileLimit d > 0 \<and> cps_reviewedCount cps > cc_fileLimit d);
                  fullEnoughToEvict = (usage > cc_lowThresholdPercent d \<or> hitFileLimit) in
              if oldEnoughToEvict \<and> fullEnoughToEvict then
                (if wrap64 (ageInSeconds * ageInSeconds) = 0 then Panic
                 else (let randomlySelected = (usage - cc_highThresholdPercent d > 0
                             \<and> rnd < usage - cc_lowThresholdPercent d) in
                   if sizeAgeEviction sz ageInSeconds \<or> randomlySelected \<or> hitFileLimit
                   then Ok (purge_remove d fqName sz cps) else Ok (cps, d)))
              else Ok (cps, d))
           else if ext = FileStateOrphaned then Ok (purge_remove d fqName sz cps)
           else if ext = FileStateUploaded then
             Ok (if ageInSeconds > oneWeek then count_error sz cps else cps, d)
           else if ageInSeconds > oneWeek then Ok (purge_remove d fqName sz cps)
           else Ok (cps, d))
      | (_, err) \<Rightarrow> Ok (if IsNotExist err then cps1 else cps1\<lparr>cps_errorCount := cps_errorCount cps1 + 1\<rparr>, d))"

text \<open>One walk over the names of the directory, with the random number drawn at each.\<close>

definition cachePurgeIteration :: "'st CiphertextCacheData \<Rightarrow> (string \<times> rat) list \<Rightarrow> rat
    \<Rightarrow> (cachePurgeStats \<times> 'st CiphertextCacheData) res" where
  "cachePurgeIteration d names usage =
     fold_res (\<lambda>(n, rnd) (cps, d). filePurgeVisit d (Resolve d n) usage rnd cps) names (new_stats, d)"

text \<open>\<open>blocks\<close> and \<open>bavail\<close> are the blocks of the disk and those that are free, \<open>None\<close> when \<open>Statfs\<close> fails.\<close>

definition CachePurge_step :: "'st CiphertextCacheData \<Rightarrow> (nat \<times> nat) option \<Rightarrow> (string \<times> rat) list
    \<Rightarrow> 'st CiphertextCacheData res" where
  "CachePurge_step d statfs names =
     (if cc_PermanentStorage d = None then Ok d
      else (case statfs of None \<Rightarrow> Ok d
        | Some (blocks, bavail) \<Rightarrow>
            (let usage = 1 - of_nat bavail / of_nat blocks in
             if usage > cc_lowThresholdPercent d \<or> cc_fileLimit d > 0
             then bind_res (cachePurgeIteration d names usage) (\<lambda>(cps, d'). Ok d') else Ok d)))"

subsection \<open>What purging touches\<close>

lemma purge_remove_same: "purge_remove d n sz cps = (cps', d') \<Longrightarrow>
    same_but {n} d d' \<and> cc_PermanentStorage d' = cc_PermanentStorage d"
  by (auto simp: purge_remove_def attemptToEmptyFile_def fs_Remove_def fs_Truncate_def fs_Stat_def same_but_def
      split: option.splits if_splits prod.splits)

text \<open>Why a file may be deleted or emptied.\<close>

definition evictable :: "'st CiphertextCacheData \<Rightarrow> string \<Rightarrow> rat \<Rightarrow> int \<Rightarrow> bool" where
  "evictable d n usage reviewed \<longleftrightarrow> (\<exists>f. fs_Files (cc_files d) n = Some f \<and>
     (let age = fs_Now (cc_files d) - f_Mtime f + 1;
          over = (cc_fileLimit d > 0 \<and> reviewed \<ge> cc_fileLimit d) in
      path_ext n = FileStateOrphaned \<or>
      path_ext n = FileStateCached \<and> age > cc_ageEligibleForEviction d \<and>
        (usage > cc_lowThresholdPercent d \<or> over) \<or>
      path_ext n \<noteq> FileStateUploaded \<and> path_ext n \<noteq> FileStateCached \<and> age > oneWeek))"

lemma filePurgeVisit_cases:
  assumes "filePurgeVisit d n usage rnd cps = Ok (cps', d')"
  shows "d' = d \<or> (\<exists>sz c. evictable d n usage (cps_reviewedCount cps) \<and> purge_remove d n sz c = (cps', d'))"
proof (cases "snd (fs_Stat (cc_files d) n)")
  case None
  then obtain f where f: "fs_Stat (cc_files d) n = (Some f, None)" "fs_Files (cc_files d) n = Some f"
    by (auto simp: fs_Stat_def fs_err_of_def split: if_splits)
  show ?thesis
  proof (cases "evictable d n usage (cps_reviewedCount cps)")
    case True
    then show ?thesis
      using assms f by (auto simp: filePurgeVisit_def Let_def split: if_splits)
  next
    case False
    then show ?thesis
      using assms f by (auto simp: filePurgeVisit_def evictable_def Let_def file_states split: if_splits)
  qed
next
  case (Some e)
  then have "fs_Stat (cc_files d) n = (None, Some e)"
    by (auto simp: fs_Stat_def split: if_splits)
  then show ?thesis
    using assms by (auto simp: filePurgeVisit_def Let_def split: if_splits)
qed

lemma filePurgeVisit_same:
  "filePurgeVisit d n usage rnd cps = Ok (cps', d') \<Longrightarrow>
     same_but {n} d d' \<and> cc_PermanentStorage d' = cc_PermanentStorage d"
  using filePurgeVisit_cases purge_remove_same by fastforce

text \<open>Between the square root of the largest integer and zero the square of an age does not wrap.\<close>

lemma age_square: "0 < a \<Longrightarrow> a \<le> 3037000499 \<Longrightarrow> wrap64 (a * a) = a * a" for a :: int
proof (rule wrap64_id)
  assume a: "0 < a" "a \<le> 3037000499"
  then have "a * a \<le> 3037000499 * 3037000499"
    by (intro mult_mono) auto
  moreover have "0 < a * a"
    using a by simp
  ultimately show "- 9223372036854775808 \<le> a * a" "a * a < 9223372036854775808"
    by auto
qed

lemma filePurgeVisit_changes:
  assumes "filePurgeVisit d fqName usage rnd cps = Ok (cps', d')"
    and "fs_Files (cc_files d') n \<noteq> fs_Files (cc_files d) n"
  shows "n = fqName \<and> evictable d n usage (cps_reviewedCount cps) \<and> path_ext n \<noteq> FileStateUploaded"
proof -
  have "n = fqName"
    using filePurgeVisit_same [OF assms(1)] assms(2) same_but_file [of "{fqName}" d d' n] by blast
  moreover have "evictable d fqName usage (cps_reviewedCount cps)"
    using filePurgeVisit_cases [OF assms(1)] assms(2) by auto
  ultimately show ?thesis
    by (auto simp: evictable_def file_states)
qed

subsection \<open>Properties\<close>

text \<open>C18: a visit changes no file but the one visited, and deletes or empties that one only when it is
  orphaned, or cached, old enough and the disk full enough, or in no known state for a week; in
  particular never a file that still awaits its upload.\<close>

theorem purge_spares:
  assumes "filePurgeVisit d fqName usage rnd cps = Ok (cps', d')"
    and "fs_Files (cc_files d') n \<noteq> fs_Files (cc_files d) n"
  shows "n = fqName \<and> evictable d n usage (cps_reviewedCount cps) \<and> path_ext n \<noteq> FileStateUploaded"
  using filePurgeVisit_changes [OF assms] .

text \<open>When no file was touched in the future nor a century ago, and the eviction age is not negative,
  a walk over the cache does not panic.\<close>

theorem purge_returns:
  assumes "0 \<le> cc_ageEligibleForEviction d"
    and "\<And>n f. fs_Files (cc_files d) n = Some f \<Longrightarrow> fs_Now (cc_files d) - f_Mtime f < 3037000499"
  shows "\<exists>cps' d'. cachePurgeIteration d names usage = Ok (cps', d')"
proof -
  define good where "good = (\<lambda>d :: 'a CiphertextCacheData. 0 \<le> cc_ageEligibleForEviction d \<and>
    (\<forall>n f. fs_Files (cc_files d) n = Some f \<longrightarrow> fs_Now (cc_files d) - f_Mtime f < 3037000499))"
  have visit: "\<exists>cps' d'. filePurgeVisit d n usage rnd cps = Ok (cps', d') \<and> good d'"
    if "good d" for d :: "'a CiphertextCacheData" and n rnd cps
  proof (cases "filePurgeVisit d n usage rnd cps")
    case (Ok x)
    then obtain c d' where x: "x = (c, d')" by (cases x)
    have "good d'"
      using filePurgeVisit_cases [OF Ok [unfolded x]] \<open>good d\<close>
      by (auto simp: good_def purge_remove_def attemptToEmptyFile_def fs_Remove_def fs_Truncate_def set_files_def
          fs_Stat_def split: option.splits if_splits prod.splits)
    then show ?thesis
      using Ok x by blast
  next
    case (Fail e)
    then show ?thesis
      by (auto simp: filePurgeVisit_def Let_def split: option.splits prod.splits if_splits)
  next
    case Panic
    then obtain f where "fs_Files (cc_files d) n = Some f"
      and "fs_Now (cc_files d) - f_Mtime f + 1 > cc_ageEligibleForEviction d"
      and "wrap64 ((fs_Now (cc_files d) - f_Mtime f + 1) * (fs_Now (cc_files d) - f_Mtime f + 1)) = 0"
      by (auto simp: filePurgeVisit_def Let_def fs_Stat_def split: option.splits prod.splits if_splits)
    moreover from this have "fs_Now (cc_files d) - f_Mtime f < 3037000499"
      using \<open>good d\<close> by (auto simp: good_def)
    ultimately show ?thesis
      using \<open>good d\<close> age_square [of "fs_Now (cc_files d) - f_Mtime f + 1"] by (auto simp: good_def)
  qed
  have "\<exists>cps' d'. fold_res (\<lambda>(n, rnd) (cps, d). filePurgeVisit d (Resolve d n) usage rnd cps) names (cps, d) = Ok (cps', d')"
    if "good d" for d :: "'a CiphertextCacheData" and cps
    using that
  proof (induction names arbitrary: cps d)
    case (Cons x names)
    obtain n rnd where x: "x = (n, rnd)" by (cases x)
    obtain c1 d1 where "filePurgeVisit d (Resolve d n) usage rnd cps = Ok (c1, d1)" "good d1"
      using visit [OF Cons.prems] by blast
    then show ?case
      using Cons.IH [of d1 c1] by (simp add: x)
  qed simp
  then show ?thesis
    using assms by (auto simp: cachePurgeIteration_def good_def)
qed

text \<open>Two files at risk, one of each kind; the usage is above the low threshold.\<close>

lemma purge_spares_witness:
  "let d = (sample_cache [(''p/a.cached'', [1]), (''p/b.uploaded'', [2])] [])
         \<lparr>cc_files := (sample_fs [(''p/a.cached'', [1]), (''p/b.uploaded'', [2])])\<lparr>fs_Now := 1000\<rparr>\<rparr>
   in \<exists>cps' d'. filePurgeVisit d ''p/a.cached'' (3 / 5) 0 new_stats = Ok (cps', d') \<and>
      fs_Files (cc_files d') ''p/a.cached'' = None \<and> evictable d ''p/a.cached'' (3 / 5) 0"
proof -
  define d where "d = (sample_cache [(''p/a.cached'', [1]), (''p/b.uploaded'', [2])] [])
         \<lparr>cc_files := (sample_fs [(''p/a.cached'', [1]), (''p/b.uploaded'', [2])])\<lparr>fs_Now := 1000\<rparr>\<rparr>"
  have ext: "path_ext ''p/a.cached'' = FileStateCached"
    using path_ext_NewFileName(1) [of "''p/a''"] by (simp add: NewFileName_def FileStateCached_def)
  have st: "fs_Stat (cc_files d) ''p/a.cached'' = (Some \<lparr>f_Data = [1], f_Mtime = 0\<rparr>, None)"
    by (simp add: d_def fs_Stat_def fs_err_of_def sample_fs_def)
  have age: "cc_ageEligibleForEviction d = 300" "cc_fileLimit d = 0" "cc_lowThresholdPercent d = 1 / 2"
    "fs_Now (cc_files d) = 1000" "fs_Files (cc_files d) ''p/a.cached'' = Some \<lparr>f_Data = [1], f_Mtime = 0\<rparr>"
    by (simp_all add: d_def sample_cache_def sample_fs_def)
  have "\<exists>cps' d'. filePurgeVisit d ''p/a.cached'' (3 / 5) 0 new_stats = Ok (cps', d') \<and>
      fs_Files (cc_files d') ''p/a.cached'' = None"
    by (simp add: filePurgeVisit_def st age ext Let_def sizeAgeEviction_def wrap64_def go_div_def
        purge_remove_def fs_Remove_def fs_err_of_def new_stats_def) (simp add: d_def sample_fs_def)
  then show ?thesis
    using purge_spares [of d "''p/a.cached''" "3 / 5" 0 new_stats _ _ "''p/a.cached''"] age(5)
    unfolding d_def [symmetric] Let_def by (force simp: new_stats_def)
qed

lemma purge_returns_witness:
  "\<exists>cps' d'. cachePurgeIteration (sample_cache [(''p/a.cached'', [1])] []) [(''a.cached'', 0)] 1 = Ok (cps', d')"
  by (rule purge_returns) (auto simp: sample_cache_def sample_fs_def)

end
