(* ===== verification/Cache_System.thy ===== *)
theory Cache_System
  imports Cache_Purge Object_Upload
begin

text \<open>
  The operations of the cache interleaved: uploads, aborted uploads, the write-back of a request, the
  background drain, purging, fetching in the background, reading a local file, and whatever the world
  does to the clock and to the reliability of the disk. Every rule is one call of the code; the calls
  run in any order. \<open>sy_done\<close> is the specification's own record: the ciphertexts of the uploads that
  were reported complete and not aborted since. What is proved is that none of them is ever lost.
\<close>

record 'st cache_system =
  sy_cache :: "'st CiphertextCacheData"
  sy_done :: "string \<Rightarrow> bytes option"

definition file_of :: "'st CiphertextCacheData \<Rightarrow> string \<Rightarrow> string \<Rightarrow> bytes option" where
  "file_of d rName ext = map_option f_Data (fs_Files (cc_files d) (name_in d rName ext))"

text \<open>Anything may happen to the clock, the times of the files and the faults, but not to their content.\<close>

definition environment_changes :: "'st CiphertextCacheData \<Rightarrow> 'st CiphertextCacheData \<Rightarrow> bool" where
  "environment_changes d d' \<longleftrightarrow> cc_PermanentStorage d' = cc_PermanentStorage d \<and>
     cc_CacheLocationString d' = cc_CacheLocationString d \<and>
     (\<forall>n. map_option f_Data (fs_Files (cc_files d') n) = map_option f_Data (fs_Files (cc_files d) n))"

inductive cache_step :: "'st storage_ops \<Rightarrow> 'st cache_system \<Rightarrow> 'st cache_system \<Rightarrow> bool"
  for ps :: "'st storage_ops" where
  upload: "\<lbrakk> beginUploadTimed sha doc (sy_cache s) mem_read bs part room obj grant = Some (Inr (obj', fid, len), d');
      sy_done s fid = None; file_of d' fid FileStateUploaded = Some ct \<rbrakk>
    \<Longrightarrow> cache_step ps s (s\<lparr>sy_cache := d', sy_done := (sy_done s)(fid \<mapsto> ct)\<rparr>)"
| upload_fails: "\<lbrakk> beginUploadTimed sha doc (sy_cache s) mem_read bs part room obj grant = Some (Inl herr, d') \<rbrakk>
    \<Longrightarrow> cache_step ps s (s\<lparr>sy_cache := d'\<rparr>)"
| abort: "cache_step ps s (s\<lparr>sy_cache := removeOrphanedFile (sy_cache s) fid, sy_done := (sy_done s)(fid := None)\<rparr>)"
| writeback: "\<lbrakk> sy_done s fid = Some ct; Writeback ps (sy_cache s) fid (int (length ct)) = (err, d') \<rbrakk>
    \<Longrightarrow> cache_step ps s (s\<lparr>sy_cache := d'\<rparr>)"
| drain: "drain_visit ps name (sy_cache s) = (err, d') \<Longrightarrow> cache_step ps s (s\<lparr>sy_cache := d'\<rparr>)"
| purge: "filePurgeVisit (sy_cache s) (Resolve (sy_cache s) name) usage rnd cps = Ok (cps', d')
    \<Longrightarrow> cache_step ps s (s\<lparr>sy_cache := d'\<rparr>)"
| recache: "Recache ps net zone fid (sy_cache s) pe = (err, d', pe') \<Longrightarrow> cache_step ps s (s\<lparr>sy_cache := d'\<rparr>)"
| read_local: "UseLocalFile (sy_cache s) fid start = (r, d') \<Longrightarrow> cache_step ps s (s\<lparr>sy_cache := d'\<rparr>)"
| environment: "environment_changes (sy_cache s) d' \<Longrightarrow> cache_step ps s (s\<lparr>sy_cache := d'\<rparr>)"

inductive_cases cache_stepE: "cache_step ps s t"

text \<open>The states of a server that started with permanent storage and nothing uploaded.\<close>

inductive cache_reachable :: "'st storage_ops \<Rightarrow> 'st cache_system \<Rightarrow> bool" for ps :: "'st storage_ops" where
  start: "\<lbrakk> cc_PermanentStorage (sy_cache s) \<noteq> None; sy_done s = (\<lambda>fid. None) \<rbrakk> \<Longrightarrow> cache_reachable ps s"
| step: "\<lbrakk> cache_reachable ps s; cache_step ps s t \<rbrakk> \<Longrightarrow> cache_reachable ps t"

subsection \<open>The invariant\<close>

definition kept :: "('st \<Rightarrow> string \<Rightarrow> bytes option) \<Rightarrow> 'st CiphertextCacheData \<Rightarrow> string \<Rightarrow> bytes \<Rightarrow> bool" where
  "kept view d fid ct \<longleftrightarrow>
     (case file_of d fid FileStateUploaded of
        Some b \<Rightarrow> b = ct
      | None \<Rightarrow> ct = [] \<or> (\<exists>st. cc_PermanentStorage d = Some st \<and> view st (name_in d fid '''') = Some ct))"

definition durable :: "('st \<Rightarrow> string \<Rightarrow> bytes option) \<Rightarrow> 'st cache_system \<Rightarrow> bool" where
  "durable view s \<longleftrightarrow> cc_PermanentStorage (sy_cache s) \<noteq> None \<and>
     (\<forall>fid ct. sy_done s fid = Some ct \<longrightarrow> kept view (sy_cache s) fid ct)"

lemma path_ext_Resolve_uploaded [simp]:
  "path_ext (Resolve d (NewFileName r FileStateUploaded)) = FileStateUploaded"
proof -
  have e: "FileStateUploaded = CHR ''.'' # ''uploaded''" by (simp add: FileStateUploaded_def)
  have "FileStateUploaded \<noteq> []" by (simp add: FileStateUploaded_def)
  then show ?thesis
    using path_ext_state [OF e, of "r"] path_ext_state [OF e, of "cc_CacheLocationString d @ ''/'' @ r"]
    by (simp add: Resolve_def NewFileName_def)
qed

lemma path_ext_suffix: "suffix (path_ext p) p"
proof -
  define e where "e = takeWhile (\<lambda>c. c \<noteq> CHR ''.'' \<and> c \<noteq> CHR ''/'') (rev p)"
  have "suffix (CHR ''.'' # rev e) p" if l: "length e < length p" and c: "rev p ! length e = CHR ''.''"
  proof -
    have "take (length e) (rev p) = e"
      by (simp add: e_def takeWhile_eq_take [symmetric])
    then have "take (Suc (length e)) (rev p) = e @ [CHR ''.'']"
      using l c by (simp add: take_Suc_conv_app_nth)
    then have "rev p = (e @ [CHR ''.'']) @ drop (Suc (length e)) (rev p)"
      by (metis append_take_drop_id)
    then have "p = rev (drop (Suc (length e)) (rev p)) @ CHR ''.'' # rev e"
      by (metis rev_append rev_rev_ident append.simps rev.simps(2) rev_singleton_conv)
    then show ?thesis
      by (metis suffixI)
  qed
  then show ?thesis
    by (auto simp: path_ext_def Let_def e_def [symmetric])
qed

lemma Resolve_key_inject [simp]: "name_in d r '''' = name_in d r' '''' \<longleftrightarrow> r = r'"
  by simp

text \<open>What leaves the \<open>.uploaded\<close> file and the stored ciphertext of a name alone keeps it.\<close>

lemma kept_frame:
  assumes "kept view d fid ct" and "file_of d' fid FileStateUploaded = file_of d fid FileStateUploaded"
    and "Resolve d' = Resolve d"
    and "\<And>st. cc_PermanentStorage d = Some st \<Longrightarrow>
      \<exists>st'. cc_PermanentStorage d' = Some st' \<and> view st' (name_in d fid '''') = view st (name_in d fid '''')"
  shows "kept view d' fid ct"
  using assms by (fastforce simp: kept_def split: option.splits)

lemma file_of_same_but:
  "same_but S d d' \<Longrightarrow> name_in d fid ext \<notin> S \<Longrightarrow> file_of d' fid ext = file_of d fid ext"
  by (simp add: file_of_def same_but_Resolve same_but_file)

lemma kept_same_but:
  assumes "kept view d fid ct" and "same_but S d d'" and "name_in d fid FileStateUploaded \<notin> S"
    and "cc_PermanentStorage d' = cc_PermanentStorage d"
  shows "kept view d' fid ct"
  using kept_frame [OF assms(1) file_of_same_but [OF assms(2,3)] same_but_Resolve [OF assms(2)]] assms(4)
  by simp

context permanent_storage
begin

lemma stored_Some: "cc_PermanentStorage d = Some st \<Longrightarrow> stored d k = view st k"
  by (simp add: stored_def)

text \<open>Writing back keeps every upload, whether it succeeds or fails.\<close>

lemma Writeback_storage:
  "Writeback ps d rName sz = (err, d') \<Longrightarrow> cc_PermanentStorage d' = None \<longleftrightarrow> cc_PermanentStorage d = None"
  by (auto simp: Writeback_def Let_def set_files_def split: option.splits prod.splits if_splits)

lemma Writeback_absent:
  assumes "Writeback ps d rName sz = (err, d')"
    and "fs_Files (cc_files d) (name_in d rName FileStateUploaded) = None"
  shows "d' = d"
  using assms by (auto simp: Writeback_def Let_def fs_Open_def fs_err_of_def split: if_splits)

lemma kept_Writeback:
  assumes wb: "Writeback ps d r sz = (err, d')" and PS: "cc_PermanentStorage d \<noteq> None"
    and sz: "\<And>b. file_of d r FileStateUploaded = Some b \<Longrightarrow> sz = int (length b)"
    and k: "kept view d fid ct"
  shows "kept view d' fid ct"
proof (cases "fs_Files (cc_files d) (name_in d r FileStateUploaded)")
  case None
  then show ?thesis
    using Writeback_absent [OF wb] k by simp
next
  case (Some f)
  note spec = Writeback_spec [OF wb Some]
  have same: "same_but {name_in d r FileStateUploaded, name_in d r FileStateCached} d d'"
    using spec by blast
  obtain st st' where st: "cc_PermanentStorage d = Some st" "cc_PermanentStorage d' = Some st'"
    using PS Writeback_storage [OF wb] by auto
  have view': "view st' k = view st k" if "k \<noteq> name_in d r ''''" for k
    using spec that by (simp add: stored_Some [OF st(1)] stored_Some [OF st(2)])
  show ?thesis
  proof (cases "fid = r")
    case False
    then show ?thesis
      using kept_frame [OF k file_of_same_but [OF same] same_but_Resolve [OF same]] st view'
      by auto
  next
    case True
    have ct: "f_Data f = ct"
      using k Some by (simp add: kept_def True file_of_def)
    have szf: "sz = int (length ct)"
      using sz Some ct by (simp add: file_of_def)
    show ?thesis
    proof (cases err)
      case None
      then show ?thesis
        using spec st ct szf same_but_Resolve [OF same] PS
        by (auto simp: kept_def True file_of_def stored_Some split: option.splits)
    next
      case (Some e)
      then have "fs_Files (cc_files d') = fs_Files (cc_files d)"
        using spec by simp
      then show ?thesis
        using \<open>fs_Files (cc_files d) (name_in d r FileStateUploaded) = Some f\<close> ct same_but_Resolve [OF same]
        by (simp add: kept_def True file_of_def)
    qed
  qed
qed

end

subsection \<open>Every step keeps it\<close>

lemma UseLocalFile_frame:
  assumes "UseLocalFile d fid start = (r, d')"
  shows "environment_changes d d'"
proof -
  have ch: "map_option f_Data (fs_Files (fs_Chtimes fs n) m) = map_option f_Data (fs_Files fs m)" for fs n m
    by (auto simp: fs_Chtimes_def option.map_comp comp_def)
  show ?thesis
    using assms unfolding UseLocalFile_def Let_def environment_changes_def
    by (auto simp: ch set_files_def split: prod.splits option.splits if_splits)
qed

lemma kept_environment:
  "environment_changes d d' \<Longrightarrow> kept view d fid ct \<Longrightarrow> kept view d' fid ct"
  by (rule kept_frame [where d = d]) (auto simp: environment_changes_def file_of_def Resolve_def)

lemma drain_visit_cases:
  assumes "drain_visit ps name d = (err, d')"
  shows "d' = d \<or> (\<exists>r f. Writeback ps d r (int (length (f_Data f))) = (err, d') \<and>
    fs_Files (cc_files d) (name_in d r FileStateUploaded) = Some f)"
proof (cases "path_ext name = FileStateUploaded")
  case True
  then have "take (length name - length FileStateUploaded) name @ FileStateUploaded = name"
    by (metis path_ext_suffix append_eq_conv_conj append_take_drop_id suffix_def diff_add_inverse2 length_append)
  then have n: "NewFileName (take (length name - length FileStateUploaded) name) FileStateUploaded = name"
    by (simp add: NewFileName_def)
  then have "fs_Files (cc_files d) (name_in d (take (length name - length FileStateUploaded) name) FileStateUploaded)
      = fs_Files (cc_files d) (Resolve d name)"
    by simp
  then show ?thesis
    using assms True
    by (auto simp: drain_visit_def Let_def fs_Stat_def fs_err_of_None split: option.splits if_splits prod.splits)
qed (use assms in \<open>auto simp: drain_visit_def Let_def\<close>)

context permanent_storage
begin

lemma durable_step:
  assumes "durable view s" and "cache_step ps s t"
  shows "durable view t"
proof -
  have PS: "cc_PermanentStorage (sy_cache s) \<noteq> None"
    and kept: "\<And>fid ct. sy_done s fid = Some ct \<Longrightarrow> kept view (sy_cache s) fid ct"
    using assms(1) by (auto simp: durable_def)
  have frame: "durable view (s\<lparr>sy_cache := d'\<rparr>)"
    if "cc_PermanentStorage d' \<noteq> None"
      and "\<And>fid ct. sy_done s fid = Some ct \<Longrightarrow> kept view (sy_cache s) fid ct \<Longrightarrow> kept view d' fid ct" for d'
    using that kept by (auto simp: durable_def)
  have frame': "durable view (s\<lparr>sy_cache := d'\<rparr>)"
    if "\<And>fid. file_of d' fid FileStateUploaded = file_of (sy_cache s) fid FileStateUploaded"
      and "Resolve d' = Resolve (sy_cache s)" and "cc_PermanentStorage d' \<noteq> None" and "stored d' = stored (sy_cache s)" for d'
  proof (rule frame)
    fix fid ct
    assume "kept view (sy_cache s) fid ct"
    then show "kept view d' fid ct"
      by (rule kept_frame) (use that stored_Some in \<open>force simp: fun_eq_iff\<close>)+
  qed (use that in simp)
  from assms(2) show ?thesis
  proof (cases rule: cache_step.cases)
    case (upload sha doc bs part room obj grant obj' fid len d' ct)
    note same = beginUpload_same [OF upload(2)]
    have fid: "fid = ns_String (o_ContentConnector obj)"
      using same by auto
    have other: "kept view d' fid' ct'" if "sy_done s fid' = Some ct'" "fid' \<noteq> fid" for fid' ct'
      by (rule kept_same_but [OF kept [OF that(1)], of
            "{name_in (sy_cache s) fid FileStateUploading, name_in (sy_cache s) fid FileStateUploaded}"])
        (use same that(2) in \<open>auto simp: fid\<close>)
    show ?thesis
      using same PS other upload(3,4) by (auto simp: upload(1) durable_def kept_def)
  next
    case (upload_fails sha doc bs part room obj grant herr d')
    note same = beginUpload_same [OF upload_fails(2)]
    let ?fid = "ns_String (o_ContentConnector obj)"
    have sb: "same_but {name_in (sy_cache s) ?fid FileStateUploading, name_in (sy_cache s) ?fid FileStateUploaded}
        (sy_cache s) d'"
      using same by blast
    have "file_of d' fid FileStateUploaded = file_of (sy_cache s) fid FileStateUploaded" for fid
      using same file_of_same_but [OF sb] same_but_Resolve [OF sb] by (cases "fid = ?fid") (auto simp: file_of_def)
    then show ?thesis
      unfolding upload_fails(1) using same PS same_but_Resolve [OF sb] by (intro frame') (auto simp: stored_def)
  next
    case (abort fid)
    have sb: "same_but {name_in (sy_cache s) fid FileStateUploaded, name_in (sy_cache s) fid FileStateOrphaned}
        (sy_cache s) (removeOrphanedFile (sy_cache s) fid)"
      and ps: "cc_PermanentStorage (removeOrphanedFile (sy_cache s) fid) = cc_PermanentStorage (sy_cache s)"
      using removeOrphanedFile_same by auto
    have "kept view (removeOrphanedFile (sy_cache s) fid) fid' ct'" if "sy_done s fid' = Some ct'" "fid' \<noteq> fid" for fid' ct'
      by (rule kept_same_but [OF kept [OF that(1)] sb _ ps]) (use that(2) in auto)
    then show ?thesis
      using PS ps by (auto simp: abort durable_def)
  next
    case (writeback fid ct err d')
    have "sz = int (length b)" if "file_of (sy_cache s) fid FileStateUploaded = Some b" "sz = int (length ct)" for b sz
      using kept [OF writeback(2)] that by (simp add: kept_def)
    then show ?thesis
      unfolding writeback(1) using kept_Writeback [OF writeback(3) PS] Writeback_storage [OF writeback(3)] PS
      by (intro frame) auto
  next
    case (drain name err d')
    show ?thesis
    proof (cases "d' = sy_cache s")
      case True
      then show ?thesis using assms(1) by (simp add: drain(1))
    next
      case False
      then obtain r f where wb: "Writeback ps (sy_cache s) r (int (length (f_Data f))) = (err, d')"
        and f: "fs_Files (cc_files (sy_cache s)) (name_in (sy_cache s) r FileStateUploaded) = Some f"
        using drain_visit_cases [OF drain(2)] by blast
      show ?thesis
        unfolding drain(1) using kept_Writeback [OF wb PS] Writeback_storage [OF wb] PS f
        by (intro frame) (auto simp: file_of_def)
    qed
  next
    case (purge name usage rnd cps cps' d')
    note same = filePurgeVisit_same [OF purge(2)]
    have "file_of d' fid FileStateUploaded = file_of (sy_cache s) fid FileStateUploaded" for fid
      using filePurgeVisit_changes [OF purge(2), of "name_in (sy_cache s) fid FileStateUploaded"] same_but_Resolve same
      by (force simp: file_of_def)
    then show ?thesis
      unfolding purge(1) using same PS same_but_Resolve by (intro frame') (auto simp: stored_def)
  next
    case (recache net zone fid pe err d' pe')
    note fr = Recache_frame [OF recache(2)]
    have "file_of d' fid' FileStateUploaded = file_of (sy_cache s) fid' FileStateUploaded" for fid'
      using file_of_same_but [OF conjunct1 [OF fr], of fid' FileStateUploaded] by auto
    then show ?thesis
      unfolding recache(1) using fr PS same_but_Resolve Recache_storage [OF recache(2)] by (intro frame') auto
  next
    case (read_local fid start r d')
    show ?thesis
      unfolding read_local(1)
      using UseLocalFile_frame [OF read_local(2)] PS
      by (intro frame kept_environment [of "sy_cache s" d']) (auto simp: environment_changes_def)
  next
    case (environment d')
    then show ?thesis
      unfolding environment(1)
      using environment(2) PS
      by (intro frame kept_environment [of "sy_cache s" d']) (auto simp: environment_changes_def)
  qed
qed

end

lemma cache_reachable_durable:
  assumes "permanent_storage ps view" and "cache_reachable ps s"
  shows "durable view s"
  using assms(2)
proof (induction rule: cache_reachable.induct)
  case (start s)
  then show ?case by (simp add: durable_def)
next
  case (step s t)
  then show ?case
    using permanent_storage.durable_step [OF assms(1)] by blast
qed

lemma durable_cases:
  assumes "durable view s" and "sy_done s fid = Some ct"
  shows "file_of (sy_cache s) fid FileStateUploaded = Some ct \<or>
    file_of (sy_cache s) fid FileStateUploaded = None \<and> (ct = [] \<or>
      (\<exists>st. cc_PermanentStorage (sy_cache s) = Some st \<and> view st (name_in (sy_cache s) fid '''') = Some ct))"
proof -
  have "kept view (sy_cache s) fid ct"
    using assms by (simp add: durable_def)
  then show ?thesis
    by (simp add: kept_def split: option.splits)
qed

subsection \<open>Properties\<close>

text \<open>C6: whatever order uploads, write-backs, drains, purges, fetches, aborts, clock and disk faults come in,
  a completed upload is never lost: its \<open>.uploaded\<close> file still holds exactly its ciphertext, or
  permanent storage does (an empty one has nothing to store).\<close>

theorem uploads_survive:
  assumes "permanent_storage ps view" and "cache_reachable ps s" and "sy_done s fid = Some ct"
  shows "file_of (sy_cache s) fid FileStateUploaded = Some ct \<or>
    file_of (sy_cache s) fid FileStateUploaded = None \<and> (ct = [] \<or>
      (\<exists>st. cc_PermanentStorage (sy_cache s) = Some st \<and> view st (name_in (sy_cache s) fid '''') = Some ct))"
  using durable_cases [OF cache_reachable_durable [OF assms(1,2)] assms(3)] .


text \<open>A run: an upload completes and is written back.\<close>

definition sample_object :: ODObject where
  "sample_object = empty_object\<lparr>o_ContentConnector := ToNullString ''a'', o_EncryptIV := Some (replicate 16 0)\<rparr>"

definition sample_grant :: ODObjectPermission where
  "sample_grant = empty_permission\<lparr>p_EncryptKey := replicate 32 5\<rparr>"

definition sample_upload where
  "sample_upload = beginUploadTimed (\<lambda>m. m) (DoCipherByReaderWriter (\<lambda>m. m) (\<lambda>k b. replicate 16 7))
     (sample_cache [] []) mem_read 4 [([1, 2], None), ([3], None)] None sample_object sample_grant"

lemma sample_upload_reachable:
  "\<exists>d ct. cache_reachable local_storage \<lparr>sy_cache = d, sy_done = [''a'' \<mapsto> ct]\<rparr> \<and> ct \<noteq> [] \<and>
     file_of d ''a'' FileStateUploaded = Some ct \<and> cc_PermanentStorage d = Some (sample_store []) \<and>
     same_but {''p/a.uploading'', ''p/a.uploaded''} (sample_cache [] []) d \<and> fs_Files (cc_files d) ''p/a.uploading'' = None"
proof -
  let ?key = "xor_bytes (Sum256 (\<lambda>m. m) (str_bytes (''k'' @ '':'' @ hex_encode (p_PermissionIV empty_permission)))) (replicate 32 5)"
  let ?part = "[([1, 2], None), ([3], None)] :: mem_reader"
  define ct where "ct = XORKeyStream (ctr_stream (\<lambda>k b. replicate 16 7) ?key (slice_bytes (o_EncryptIV sample_object))) 0 (mem_content ?part)"
  have fid: "ns_String (o_ContentConnector sample_object) = ''a''"
    by (simp add: sample_object_def)
  have "\<exists>d. sample_upload = Some (Inr (sample_object\<lparr>o_ContentHash := Some (Sum256 (\<lambda>m. m) (mem_content ?part)),
          o_ContentSize := (o_ContentSize sample_object)\<lparr>ni_Int64 := int (length (mem_content ?part))\<rparr>\<rparr>,
        ns_String (o_ContentConnector sample_object), int (length (mem_content ?part))), d) \<and>
    map_option f_Data (fs_Files (cc_files d) (name_in (sample_cache [] []) (ns_String (o_ContentConnector sample_object)) FileStateUploaded))
      = Some ct"
    unfolding sample_upload_def ct_def
    by (rule beginUpload_ok) (simp_all add: sample_grant_def ApplyPassphrase_32 sample_object_def slice_bytes_def)
  then obtain obj d n where up: "sample_upload = Some (Inr (obj, ''a'', n), d)"
    and d: "map_option f_Data (fs_Files (cc_files d) (name_in (sample_cache [] []) ''a'' FileStateUploaded)) = Some ct"
    unfolding fid by blast
  have "length ct = 3"
    by (simp add: ct_def)
  then have ne: "ct \<noteq> []" by auto
  let ?s0 = "\<lparr>sy_cache = sample_cache [] [], sy_done = (\<lambda>fid. None)\<rparr>"
  have R: "Resolve d = Resolve (sample_cache [] [])"
    using beginUpload_same [OF up [unfolded sample_upload_def]] same_but_Resolve by blast
  have F: "file_of d ''a'' FileStateUploaded = Some ct"
    unfolding file_of_def R by (rule d)
  then have "cache_step local_storage ?s0 (?s0\<lparr>sy_cache := d, sy_done := (sy_done ?s0)(''a'' \<mapsto> ct)\<rparr>)"
    using up by (intro cache_step.upload) (simp_all add: sample_upload_def)
  moreover have "cache_reachable local_storage ?s0"
    by (rule cache_reachable.start) auto
  ultimately have "cache_reachable local_storage \<lparr>sy_cache = d, sy_done = [''a'' \<mapsto> ct]\<rparr>"
    using cache_reachable.step by fastforce
  then show ?thesis
    using ne F beginUpload_same [OF up [unfolded sample_upload_def]]
    by (intro exI [of _ d] exI [of _ ct]) (simp add: fid NewFileName_def file_states)
qed

lemma uploads_survive_witness:
  "\<exists>s ct. cache_reachable local_storage s \<and> ct \<noteq> [] \<and> (file_of (sy_cache s) ''a'' FileStateUploaded = Some ct \<or>
    file_of (sy_cache s) ''a'' FileStateUploaded = None \<and> (ct = [] \<or>
      (\<exists>st. cc_PermanentStorage (sy_cache s) = Some st \<and> ls_Files st (name_in (sy_cache s) ''a'' '''') = Some ct)))"
proof -
  obtain d ct where s: "cache_reachable local_storage \<lparr>sy_cache = d, sy_done = [''a'' \<mapsto> ct]\<rparr>" "ct \<noteq> []"
    using sample_upload_reachable by blast
  have "sy_done \<lparr>sy_cache = d, sy_done = [''a'' \<mapsto> ct]\<rparr> ''a'' = Some ct" by simp
  from uploads_survive [OF local_ps.permanent_storage_axioms s(1) this] show ?thesis
    using s by blast
qed


end
